(* ===== verification/Dqr_Prelude.thy ===== *)
theory Dqr_Prelude
  imports Main "HOL-Library.Word"
begin

text \<open>
  Shared vocabulary of the development: the machine integer types of the C++ sources, the
  error codes of \<^verbatim>\<open>TraceDqr::DQErr\<close> (include/dqr.hpp), the outcome type every fallible
  operation of the model returns, and the generic facts on words, bits and lists that the
  component theories rest on.

  Undefined behaviour of the C++ code (a shift by at least the width of the type, an index
  past the end of a fixed array) is never given a value: it is the outcome \<open>UB\<close>, so a theorem
  that an operation returns \<open>Inr\<close> also says that no undefined behaviour was reached.
\<close>

unbundle bit_operations_syntax

section \<open>Machine types\<close>

type_synonym u8 = "8 word"
type_synonym u32 = "32 word"
type_synonym u64 = "64 word"
type_synonym ADDRESS = "64 word"
type_synonym TIMESTAMP = "64 word"

text \<open>
  A C \<^verbatim>\<open>int\<close> (32 bits, two's complement) is an \<open>int\<close>; \<open>s32\<close> is the conversion to it and the
  wrap-around of its arithmetic. \<open>int_of_u64\<close> is the cast \<^verbatim>\<open>(int)tmp\<close> of a \<^verbatim>\<open>uint64_t\<close>.
\<close>

definition s32 :: "int \<Rightarrow> int" where
  "s32 x = signed_take_bit 31 x"

definition int_of_u64 :: "u64 \<Rightarrow> int" where
  "int_of_u64 x = sint (ucast x :: u32)"

text \<open>The number of cores of a trace, \<^verbatim>\<open>DQR_MAXCORES\<close> of include/dqr.hpp.\<close>

definition DQR_MAXCORES :: nat where
  "DQR_MAXCORES = 16"

section \<open>Error codes and outcomes\<close>

datatype DQErr =
    DQERR_OK
  | DQERR_OPEN
  | DQERR_EOF
  | DQERR_EOM
  | DQERR_BM
  | DQERR_ERR
  | DQERR_DONE

datatype stop = Rc DQErr | UB

type_synonym 'a outcome = "stop + 'a"

section \<open>Collections of simplification rules\<close>

named_theorems field_simps_dqr "rules that compute the fields of a slice message"
named_theorems count_simps "rules for the per-core counters and the return stack"
named_theorems decode_simps "rules that evaluate the instruction decoder"

section \<open>Words and bits\<close>

lemma s32_id: "- (2 ^ 31) \<le> x \<Longrightarrow> x < 2 ^ 31 \<Longrightarrow> s32 x = x"
  by (simp add: s32_def signed_take_bit_int_eq_self_iff)

lemma s32_range: "- (2 ^ 31) \<le> s32 x \<and> s32 x < 2 ^ 31"
  using signed_take_bit_int_greater_eq_minus_exp [of 31 x] signed_take_bit_int_less_exp [of 31 x]
  by (simp add: s32_def)

lemma int_of_u64_small: "x < 2 ^ 31 \<Longrightarrow> int_of_u64 x = uint x"
proof -
  assume a: "x < 2 ^ 31"
  then have b: "uint x < 2 ^ 31"
    by (simp add: word_less_def)
  have "sint (ucast x :: u32) = signed_take_bit 31 (uint x)"
    by (simp add: sint_uint unsigned_ucast_eq signed_take_bit_take_bit take_bit_word_eq_self)
  also have "\<dots> = uint x"
    using b uint_ge_0 [of x] by (intro signed_take_bit_int_eq_self) linarith+
  finally show ?thesis by (simp add: int_of_u64_def)
qed

lemma word_nonzero_bit: "(x :: 'a::len word) \<noteq> 0 \<longleftrightarrow> (\<exists>i. bit x i)"
  using bit_eq_iff [of x 0] by auto

lemma unat_and_not_mask: "unat (x AND NOT (mask w) :: 'a::len word) = unat x div 2 ^ w * 2 ^ w"
proof -
  have e: "x AND NOT (mask w) = push_bit w (drop_bit w x)"
    by (rule bit_word_eqI) (auto simp: bit_and_iff bit_not_iff bit_mask_iff bit_push_bit_iff bit_drop_bit_eq)
  have l: "unat x div 2 ^ w * 2 ^ w < 2 ^ LENGTH('a)"
    using div_times_less_eq_dividend [of "unat x" "2 ^ w"] unsigned_less [of x] by (rule le_less_trans)
  have "unat (drop_bit w x) = unat x div 2 ^ w"
    unfolding unsigned_drop_bit_eq by (simp add: drop_bit_eq_div take_bit_nat_eq_self)
  then have "unat (push_bit w (drop_bit w x)) = take_bit LENGTH('a) (unat x div 2 ^ w * 2 ^ w)"
    unfolding unsigned_push_bit_eq unfolding push_bit_eq_mult by simp
  then show ?thesis unfolding e using l by (simp only: take_bit_nat_eq_self)
qed

lemma unat_and_mask: "unat (x AND mask w :: 'a::len word) = unat x mod 2 ^ w"
  unfolding take_bit_eq_mask [symmetric] by (simp only: unsigned_take_bit_eq take_bit_nat_def)

section \<open>Lists\<close>

lemma nth_list_update_other: "i \<noteq> j \<Longrightarrow> xs[i := v] ! j = xs ! j"
  by simp

lemma take_Suc_nth: "n < length xs \<Longrightarrow> take (Suc n) xs = take n xs @ [xs ! n]"
  by (rule take_Suc_conv_app_nth)

end
