(* ===== verification/Dqr_Types.thy ===== *)
theory Dqr_Types
  imports Dqr_Prelude
begin

text \<open>
  The enumerations of \<^verbatim>\<open>class TraceDqr\<close> (include/dqr.hpp) that the trace decoder works with.
  An enumeration whose values come off the wire by a cast (\<^verbatim>\<open>(TraceDqr::SyncReason)tmp\<close>) has an
  extra constructor for the values that have no enumerator, and a function that performs the
  cast.
\<close>

datatype TCode =
    TCODE_DEBUG_STATUS
  | TCODE_DEVICE_ID
  | TCODE_OWNERSHIP_TRACE
  | TCODE_DIRECT_BRANCH
  | TCODE_INDIRECT_BRANCH
  | TCODE_DATA_WRITE
  | TCODE_DATA_READ
  | TCODE_DATA_ACQUISITION
  | TCODE_ERROR
  | TCODE_SYNC
  | TCODE_CORRECTION
  | TCODE_DIRECT_BRANCH_WS
  | TCODE_INDIRECT_BRANCH_WS
  | TCODE_DATA_WRITE_WS
  | TCODE_DATA_READ_WS
  | TCODE_WATCHPOINT
  | TCODE_OUTPUT_PORTREPLACEMENT
  | TCODE_INPUT_PORTREPLACEMENT
  | TCODE_AUXACCESS_READ
  | TCODE_AUXACCESS_WRITE
  | TCODE_AUXACCESS_READNEXT
  | TCODE_AUXACCESS_WRITENEXT
  | TCODE_AUXACCESS_RESPONSE
  | TCODE_RESOURCEFULL
  | TCODE_INDIRECTBRANCHHISTORY
  | TCODE_INDIRECTBRANCHHISTORY_WS
  | TCODE_REPEATBRANCH
  | TCODE_REPEATINSTRUCTION
  | TCODE_REPEATINSTRUCTION_WS
  | TCODE_CORRELATION
  | TCODE_INCIRCUITTRACE
  | TCODE_INCIRCUITTRACE_WS
  | TCODE_UNDEFINED

datatype SyncReason =
    SYNC_EVTI
  | SYNC_EXIT_RESET
  | SYNC_T_CNT
  | SYNC_EXIT_DEBUG
  | SYNC_I_CNT_OVERFLOW
  | SYNC_TRACE_ENABLE
  | SYNC_WATCHPINT
  | SYNC_FIFO_OVERRUN
  | SYNC_EXIT_POWERDOWN
  | SYNC_MESSAGE_CONTENTION
  | SYNC_PC_SAMPLE
  | SYNC_NONE
  | SYNC_cast u64

definition SyncReason_of :: "u64 \<Rightarrow> SyncReason" where
  "SyncReason_of v =
     (if v = 0 then SYNC_EVTI else if v = 1 then SYNC_EXIT_RESET
      else if v = 2 then SYNC_T_CNT else if v = 3 then SYNC_EXIT_DEBUG
      else if v = 4 then SYNC_I_CNT_OVERFLOW else if v = 5 then SYNC_TRACE_ENABLE
      else if v = 6 then SYNC_WATCHPINT else if v = 7 then SYNC_FIFO_OVERRUN
      else if v = 9 then SYNC_EXIT_POWERDOWN else if v = 11 then SYNC_MESSAGE_CONTENTION
      else if v = 15 then SYNC_PC_SAMPLE else if v = 16 then SYNC_NONE else SYNC_cast v)"

datatype ICTReason =
    ICT_CONTROL
  | ICT_EXT_TRIG
  | ICT_INFERABLECALL
  | ICT_EXCEPTION
  | ICT_INTERRUPT
  | ICT_CONTEXT
  | ICT_WATCHPOINT
  | ICT_PC_SAMPLE
  | ICT_NONE
  | ICT_cast u64

definition ICTReason_of :: "u64 \<Rightarrow> ICTReason" where
  "ICTReason_of v =
     (if v = 0 then ICT_CONTROL else if v = 8 then ICT_EXT_TRIG
      else if v = 9 then ICT_INFERABLECALL else if v = 10 then ICT_EXCEPTION
      else if v = 11 then ICT_INTERRUPT else if v = 13 then ICT_CONTEXT
      else if v = 14 then ICT_WATCHPOINT else if v = 15 then ICT_PC_SAMPLE
      else if v = 16 then ICT_NONE else ICT_cast v)"

datatype BType = BTYPE_INDIRECT | BTYPE_EXCEPTION | BTYPE_HARDWARE | BTYPE_UNDEFINED | BTYPE_cast u64

definition BType_of :: "u64 \<Rightarrow> BType" where
  "BType_of v =
     (if v = 0 then BTYPE_INDIRECT else if v = 1 then BTYPE_EXCEPTION
      else if v = 2 then BTYPE_HARDWARE else if v = 3 then BTYPE_UNDEFINED else BTYPE_cast v)"

datatype InstType =
    INST_UNKNOWN
  | INST_JAL
  | INST_JALR
  | INST_BEQ
  | INST_BNE
  | INST_BLT
  | INST_BGE
  | INST_BLTU
  | INST_BGEU
  | INST_C_J
  | INST_C_JAL
  | INST_C_JR
  | INST_C_JALR
  | INST_C_BEQZ
  | INST_C_BNEZ
  | INST_EBREAK
  | INST_C_EBREAK
  | INST_ECALL
  | INST_MRET
  | INST_SRET
  | INST_URET
  | INST_SCALER
  | INST_VECT_ARITH
  | INST_VECT_LOAD
  | INST_VECT_STORE
  | INST_VECT_AMO
  | INST_VECT_AMO_WW
  | INST_VECT_CONFIG

datatype CountType =
    COUNTTYPE_none
  | COUNTTYPE_i_cnt
  | COUNTTYPE_history
  | COUNTTYPE_taken
  | COUNTTYPE_notTaken

text \<open>\<^verbatim>\<open>enum Reg\<close>: the 32 registers and \<^verbatim>\<open>REG_unknown\<close>; \<open>REG r\<close> is the cast of a 5-bit number.\<close>

datatype Reg = REG "5 word" | REG_unknown

datatype TraceType =
    TRACETYPE_unknown
  | TRACETYPE_BTM
  | TRACETYPE_HTM
  | TRACETYPE_HTMNOOPT
  | TRACETYPE_EVENT
  | TRACETYPE_PATH
  | TRACETYPE_VCD

text \<open>\<^verbatim>\<open>enum CallReturnFlag\<close>: bits of an \<^verbatim>\<open>int\<close> that the decoder ors together.\<close>

type_synonym crflags = u32

definition isNone :: crflags where "isNone = 0"
definition isCall :: crflags where "isCall = 1"
definition isReturn :: crflags where "isReturn = 2"
definition isSwap :: crflags where "isSwap = 4"
definition isInterrupt :: crflags where "isInterrupt = 8"
definition isException :: crflags where "isException = 16"
definition isExceptionReturn :: crflags where "isExceptionReturn = 32"

lemmas crflag_defs = isNone_def isCall_def isReturn_def isSwap_def isInterrupt_def
  isException_def isExceptionReturn_def

datatype BranchFlags = BRFLAG_none | BRFLAG_unknown | BRFLAG_taken | BRFLAG_notTaken

datatype tsType = TS_full | TS_rel

end
