(* ===== verification/Nexus.thy ===== *)
theory Nexus
  imports Dqr_Types
begin

text \<open>
  \<^verbatim>\<open>class NexusMessage\<close> (include/dqr.hpp, src/dqr.cpp): the message record and its accessors.

  The C++ class holds a union with one struct per message kind. The record has the fields of
  every struct, named \<open>struct_field\<close>; the code reads only the struct that belongs to the
  message's \<^verbatim>\<open>tcode\<close>. The structs \<^verbatim>\<open>ict\<close> and \<^verbatim>\<open>ictWS\<close> have the same type and the same storage,
  and the code uses the two names for one another, so they are one group of fields here.

  The other structs share their storage in C++ too: parsing a message of one kind overwrites the
  bodies of all the others. The record keeps them apart, so after a parse only the fields of the
  message's own kind mean what they mean in C++, and the properties speak of no others.
\<close>

record NexusMessage =
  msgNum :: int
  tcode :: TCode
  haveTimestamp :: bool
  timestamp :: TIMESTAMP
  currentAddress :: ADDRESS
  time :: TIMESTAMP
  coreId :: u8
  prv :: u8
  pid :: u32
  directBranch_i_cnt :: int
  indirectBranch_i_cnt :: int
  indirectBranch_u_addr :: ADDRESS
  indirectBranch_b_type :: BType
  directBranchWS_i_cnt :: int
  directBranchWS_f_addr :: ADDRESS
  directBranchWS_sync :: SyncReason
  indirectBranchWS_i_cnt :: int
  indirectBranchWS_f_addr :: ADDRESS
  indirectBranchWS_b_type :: BType
  indirectBranchWS_sync :: SyncReason
  indirectHistory_i_cnt :: int
  indirectHistory_u_addr :: ADDRESS
  indirectHistory_b_type :: BType
  indirectHistory_history :: u64
  indirectHistoryWS_i_cnt :: int
  indirectHistoryWS_f_addr :: ADDRESS
  indirectHistoryWS_b_type :: BType
  indirectHistoryWS_history :: u64
  indirectHistoryWS_sync :: SyncReason
  resourceFull_rCode :: int
  resourceFull_i_cnt :: int
  resourceFull_history :: u64
  resourceFull_takenCount :: u32
  resourceFull_notTakenCount :: u32
  sync_i_cnt :: int
  sync_f_addr :: ADDRESS
  sync_sync :: SyncReason
  error_etype :: u8
  correlation_history :: u64
  correlation_i_cnt :: int
  correlation_cdf :: u8
  correlation_evcode :: u8
  auxAccessWrite_data :: u32
  auxAccessWrite_addr :: u32
  dataAcquisition_idTag :: u32
  dataAcquisition_data :: u32
  ownership_pid :: int
  ownership_v :: u8
  ownership_prv :: u8
  ownership_tag :: u8
  ict_cksrc :: ICTReason
  ict_ckdf :: u8
  ict_ckdata0 :: ADDRESS
  ict_ckdata1 :: ADDRESS
  offset :: u32
  rawData :: "u8 list"

section \<open>The constructor\<close>

text \<open>
  The constructor sets the fields outside the union; what the union held before is the
  argument \<open>m\<close>, since C++ leaves it uninitialised.
\<close>

definition NexusMessage_init :: "NexusMessage \<Rightarrow> NexusMessage" where
  "NexusMessage_init m =
     m\<lparr>msgNum := 0, tcode := TCODE_UNDEFINED, coreId := 0, haveTimestamp := False,
       timestamp := 0, currentAddress := 0, time := 0, offset := 0, pid := 0, prv := 0,
       rawData := replicate 32 0xff\<rparr>"

section \<open>Accessors\<close>

definition getI_Cnt :: "NexusMessage \<Rightarrow> int" where
  "getI_Cnt m = (case tcode m of
      TCODE_DIRECT_BRANCH \<Rightarrow> directBranch_i_cnt m
    | TCODE_INDIRECT_BRANCH \<Rightarrow> indirectBranch_i_cnt m
    | TCODE_SYNC \<Rightarrow> sync_i_cnt m
    | TCODE_DIRECT_BRANCH_WS \<Rightarrow> directBranchWS_i_cnt m
    | TCODE_INDIRECT_BRANCH_WS \<Rightarrow> indirectBranchWS_i_cnt m
    | TCODE_CORRELATION \<Rightarrow> correlation_i_cnt m
    | TCODE_INDIRECTBRANCHHISTORY \<Rightarrow> indirectHistory_i_cnt m
    | TCODE_INDIRECTBRANCHHISTORY_WS \<Rightarrow> indirectHistoryWS_i_cnt m
    | TCODE_RESOURCEFULL \<Rightarrow> (if resourceFull_rCode m = 0 then resourceFull_i_cnt m else 0)
    | _ \<Rightarrow> 0)"

definition getU_Addr :: "NexusMessage \<Rightarrow> ADDRESS" where
  "getU_Addr m = (case tcode m of
      TCODE_INDIRECT_BRANCH \<Rightarrow> indirectBranch_u_addr m
    | TCODE_INDIRECTBRANCHHISTORY \<Rightarrow> indirectHistory_u_addr m
    | TCODE_INCIRCUITTRACE \<Rightarrow> (case ict_cksrc m of
          ICT_EXT_TRIG \<Rightarrow> ict_ckdata0 m
        | ICT_CONTROL \<Rightarrow> (if ict_ckdf m = 1 then ict_ckdata0 m else -1)
        | ICT_INFERABLECALL \<Rightarrow>
            (if ict_ckdf m = 0 then ict_ckdata0 m
             else if ict_ckdf m = 1 then ict_ckdata0 m else -1)
        | ICT_EXCEPTION \<Rightarrow> ict_ckdata0 m
        | ICT_INTERRUPT \<Rightarrow> ict_ckdata0 m
        | ICT_CONTEXT \<Rightarrow> ict_ckdata0 m
        | ICT_WATCHPOINT \<Rightarrow> ict_ckdata0 m
        | ICT_PC_SAMPLE \<Rightarrow> ict_ckdata0 m
        | _ \<Rightarrow> -1)
    | _ \<Rightarrow> -1)"

definition getF_Addr :: "NexusMessage \<Rightarrow> ADDRESS" where
  "getF_Addr m = (case tcode m of
      TCODE_DIRECT_BRANCH_WS \<Rightarrow> directBranchWS_f_addr m
    | TCODE_INDIRECT_BRANCH_WS \<Rightarrow> indirectBranchWS_f_addr m
    | TCODE_SYNC \<Rightarrow> sync_f_addr m
    | TCODE_INDIRECTBRANCHHISTORY_WS \<Rightarrow> indirectHistoryWS_f_addr m
    | TCODE_INCIRCUITTRACE_WS \<Rightarrow> (case ict_cksrc m of
          ICT_EXT_TRIG \<Rightarrow> ict_ckdata0 m
        | ICT_CONTROL \<Rightarrow> (if ict_ckdf m = 1 then ict_ckdata0 m else -1)
        | ICT_INFERABLECALL \<Rightarrow>
            (if ict_ckdf m = 0 then ict_ckdata0 m
             else if ict_ckdf m = 1 then ict_ckdata0 m else -1)
        | ICT_EXCEPTION \<Rightarrow> ict_ckdata0 m
        | ICT_INTERRUPT \<Rightarrow> ict_ckdata0 m
        | ICT_CONTEXT \<Rightarrow> ict_ckdata0 m
        | ICT_WATCHPOINT \<Rightarrow> ict_ckdata0 m
        | ICT_PC_SAMPLE \<Rightarrow> ict_ckdata0 m
        | _ \<Rightarrow> -1)
    | _ \<Rightarrow> -1)"

definition getICTCallReturnTarget :: "NexusMessage \<Rightarrow> ADDRESS" where
  "getICTCallReturnTarget m =
     (if tcode m = TCODE_INCIRCUITTRACE \<or> tcode m = TCODE_INCIRCUITTRACE_WS then
        (if ict_cksrc m = ICT_INFERABLECALL then
           (if ict_ckdf m = 0 then ict_ckdata1 m
            else currentAddress m XOR push_bit 1 (ict_ckdata1 m))
         else -1)
      else -1)"

definition getB_Type :: "NexusMessage \<Rightarrow> BType" where
  "getB_Type m = (case tcode m of
      TCODE_INDIRECT_BRANCH \<Rightarrow> indirectBranch_b_type m
    | TCODE_INDIRECT_BRANCH_WS \<Rightarrow> indirectBranchWS_b_type m
    | TCODE_INDIRECTBRANCHHISTORY \<Rightarrow> indirectHistory_b_type m
    | TCODE_INDIRECTBRANCHHISTORY_WS \<Rightarrow> indirectHistoryWS_b_type m
    | _ \<Rightarrow> BTYPE_UNDEFINED)"

definition getSyncReason :: "NexusMessage \<Rightarrow> SyncReason" where
  "getSyncReason m = (case tcode m of
      TCODE_SYNC \<Rightarrow> sync_sync m
    | TCODE_DIRECT_BRANCH_WS \<Rightarrow> directBranchWS_sync m
    | TCODE_INDIRECT_BRANCH_WS \<Rightarrow> indirectBranchWS_sync m
    | TCODE_INDIRECTBRANCHHISTORY_WS \<Rightarrow> indirectHistoryWS_sync m
    | _ \<Rightarrow> SYNC_NONE)"

definition getEType :: "NexusMessage \<Rightarrow> u8" where
  "getEType m = (case tcode m of TCODE_ERROR \<Rightarrow> error_etype m | _ \<Rightarrow> 0)"

definition getCKDF :: "NexusMessage \<Rightarrow> u8" where
  "getCKDF m = (case tcode m of
      TCODE_INCIRCUITTRACE \<Rightarrow> ict_ckdf m | TCODE_INCIRCUITTRACE_WS \<Rightarrow> ict_ckdf m | _ \<Rightarrow> 0)"

definition getCKSRC :: "NexusMessage \<Rightarrow> ICTReason" where
  "getCKSRC m = (case tcode m of
      TCODE_INCIRCUITTRACE \<Rightarrow> ict_cksrc m
    | TCODE_INCIRCUITTRACE_WS \<Rightarrow> ict_cksrc m
    | _ \<Rightarrow> ICT_NONE)"

definition ckdata :: "NexusMessage \<Rightarrow> nat \<Rightarrow> ADDRESS outcome" where
  "ckdata m i = (if i = 0 then Inr (ict_ckdata0 m) else if i = 1 then Inr (ict_ckdata1 m) else Inl UB)"

definition getCKData :: "NexusMessage \<Rightarrow> nat \<Rightarrow> ADDRESS outcome" where
  "getCKData m i = (case tcode m of
      TCODE_INCIRCUITTRACE \<Rightarrow> ckdata m i
    | TCODE_INCIRCUITTRACE_WS \<Rightarrow> ckdata m i
    | _ \<Rightarrow> Inr 0)"

definition getCDF :: "NexusMessage \<Rightarrow> u8" where
  "getCDF m = (case tcode m of TCODE_CORRELATION \<Rightarrow> correlation_cdf m | _ \<Rightarrow> 0)"

definition getEVCode :: "NexusMessage \<Rightarrow> u8" where
  "getEVCode m = (case tcode m of TCODE_CORRELATION \<Rightarrow> correlation_evcode m | _ \<Rightarrow> 0)"

definition getData :: "NexusMessage \<Rightarrow> u32" where
  "getData m = (case tcode m of
      TCODE_DATA_ACQUISITION \<Rightarrow> dataAcquisition_data m
    | TCODE_AUXACCESS_WRITE \<Rightarrow> auxAccessWrite_data m
    | _ \<Rightarrow> 0)"

text \<open>The code returns \<^verbatim>\<open>auxAccessWrite.data\<close> here, not \<^verbatim>\<open>auxAccessWrite.addr\<close>.\<close>

definition getAddr :: "NexusMessage \<Rightarrow> u32" where
  "getAddr m = (case tcode m of TCODE_AUXACCESS_WRITE \<Rightarrow> auxAccessWrite_data m | _ \<Rightarrow> 0)"

definition getIdTag :: "NexusMessage \<Rightarrow> u32" where
  "getIdTag m = (case tcode m of TCODE_DATA_ACQUISITION \<Rightarrow> dataAcquisition_idTag m | _ \<Rightarrow> 0)"

definition getProcessId :: "NexusMessage \<Rightarrow> u32" where
  "getProcessId m =
     (case tcode m of TCODE_OWNERSHIP_TRACE \<Rightarrow> word_of_int (ownership_pid m) | _ \<Rightarrow> 0)"

definition getRCode :: "NexusMessage \<Rightarrow> u32" where
  "getRCode m =
     (case tcode m of TCODE_RESOURCEFULL \<Rightarrow> word_of_int (resourceFull_rCode m) | _ \<Rightarrow> 0)"

definition getRData :: "NexusMessage \<Rightarrow> u64" where
  "getRData m = (case tcode m of
      TCODE_RESOURCEFULL \<Rightarrow>
        (if resourceFull_rCode m = 0 then word_of_int (resourceFull_i_cnt m)
         else if resourceFull_rCode m = 1 then resourceFull_history m
         else if resourceFull_rCode m = 8 then ucast (resourceFull_notTakenCount m)
         else if resourceFull_rCode m = 9 then ucast (resourceFull_takenCount m)
         else 0)
    | _ \<Rightarrow> 0)"

definition getHistory :: "NexusMessage \<Rightarrow> u64" where
  "getHistory m = (case tcode m of
      TCODE_RESOURCEFULL \<Rightarrow> (if resourceFull_rCode m = 1 then resourceFull_history m else 0)
    | TCODE_CORRELATION \<Rightarrow> correlation_history m
    | TCODE_INDIRECTBRANCHHISTORY \<Rightarrow> indirectHistory_history m
    | TCODE_INDIRECTBRANCHHISTORY_WS \<Rightarrow> indirectHistoryWS_history m
    | _ \<Rightarrow> 0)"

end
