(* ===== verification/Slice_Fields.thy ===== *)
theory Slice_Fields
  imports Nexus
begin

text \<open>
  The state of \<^verbatim>\<open>class SliceFileParser\<close> (include/trace.hpp) and its two field readers
  \<^verbatim>\<open>parseFixedField\<close> and \<^verbatim>\<open>parseVarField\<close> (src/dqr.cpp). A Nexus message is a sequence of byte
  slices, each with six data bits above two MSEO bits; a fixed field is a number of data bits, a
  variable field runs to the end of the first slice whose MSEO bits are not 0.

  The readers are related to the bit stream of the message: \<open>field_val m k w\<close> is the number in
  the \<open>w\<close> data bits from position \<open>k\<close>.
\<close>

section \<open>State\<close>

text \<open>
  The input file is its bytes \<open>tf_data\<close>, the read position \<open>tf_pos\<close> and the position at which
  the device fails, if it does (\<open>tf_err\<close>). The socket is \<open>SWTsock\<close> (non-negative when a server is
  used) with its ring buffer.
\<close>

record SliceFileParser =
  status :: DQErr
  srcbits :: nat
  tf_data :: "u8 list"
  tf_pos :: nat
  tf_open :: bool
  tf_err :: "nat option"
  SWTsock :: int
  bitIndex :: nat
  msgSlices :: nat
  msgOffset :: u32
  pendingMsgIndex :: nat
  msg :: "u8 list"
  eom :: bool
  flushMessage :: bool
  bufferInIndex :: nat
  bufferOutIndex :: nat
  sockBuffer :: "u8 list"

type_synonym 'a parser = "SliceFileParser \<Rightarrow> 'a outcome \<times> SliceFileParser"

definition MSEO_NORMAL :: u8 where "MSEO_NORMAL = 0"
definition MSEO_VAR_END :: u8 where "MSEO_VAR_END = 1"
definition MSEO_END :: u8 where "MSEO_END = 3"

lemmas mseo_defs = MSEO_NORMAL_def MSEO_VAR_END_def MSEO_END_def

section \<open>Fixed fields\<close>

text \<open>The loop that collects the whole slices in the middle of a fixed field.\<close>

fun fixed_mid :: "u8 list \<Rightarrow> nat \<Rightarrow> nat \<Rightarrow> nat \<Rightarrow> u64 \<Rightarrow> (nat \<times> nat \<times> nat \<times> u64) outcome" where
  "fixed_mid m i remainingWidth consumed tmp_val =
     (if remainingWidth \<ge> 6 then
        (if consumed \<ge> 64 then Inl UB
         else fixed_mid m (i + 1) (remainingWidth - 6) (consumed + 6)
                (tmp_val OR push_bit consumed (ucast (drop_bit 2 (m ! i)))))
      else Inr (i, remainingWidth, consumed, tmp_val))"

declare fixed_mid.simps [simp del]

text \<open>The bits of a fixed field that crosses a slice: the slice index it stops at, and the value.\<close>

definition fixed_cross :: "u8 list \<Rightarrow> nat \<Rightarrow> nat \<Rightarrow> nat \<Rightarrow> (nat \<times> u64) outcome" where
  "fixed_cross m i b width =
     (case fixed_mid m (i + 1) (width - (6 - b)) (6 - b) (ucast (drop_bit (b + 2) (m ! i))) of
        Inl e \<Rightarrow> Inl e
      | Inr (i', remainingWidth, consumed, tmp_val) \<Rightarrow>
          (if remainingWidth > 0 then
             (if consumed \<ge> 64 then Inl UB
              else Inr (i', tmp_val OR push_bit consumed
                (ucast (drop_bit (6 - remainingWidth + 2)
                   (push_bit (6 - remainingWidth) (m ! i'))) :: u64)))
           else Inr (i', tmp_val)))"

definition fixed_within :: "u8 list \<Rightarrow> nat \<Rightarrow> nat \<Rightarrow> nat \<Rightarrow> u64" where
  "fixed_within m i b width =
     ucast (drop_bit ((6 - (b + width)) + b + 2) (push_bit (6 - (b + width)) (m ! i)))"

definition parseFixedField :: "nat \<Rightarrow> u64 parser" where
  "parseFixedField width s =
     (if width \<le> 0 then (Inl (Rc DQERR_ERR), s\<lparr>status := DQERR_ERR\<rparr>)
      else
        let i = bitIndex s div 6;
            b = bitIndex s mod 6;
            s1 = s\<lparr>bitIndex := bitIndex s + width\<rparr>
        in if bitIndex s1 \<ge> msgSlices s1 * 6
           then (Inl (Rc DQERR_EOM), s1\<lparr>status := DQERR_EOM\<rparr>)
           else case (if b + width > 6 then fixed_cross (msg s1) i b width
                      else Inr (i, fixed_within (msg s1) i b width)) of
             Inl e \<Rightarrow> (Inl e, s1)
           | Inr (i', val) \<Rightarrow>
               (Inr val, if msg s1 ! i' AND 3 = MSEO_END then s1\<lparr>eom := True\<rparr> else s1))"

section \<open>Variable fields\<close>

text \<open>The loop of \<^verbatim>\<open>parseVarField\<close>: the last slice, the width and the value, or the error.\<close>

function var_loop :: "u8 list \<Rightarrow> nat \<Rightarrow> nat \<Rightarrow> nat \<Rightarrow> u64 \<Rightarrow> (nat \<times> nat \<times> u64) outcome" where
  "var_loop m n i w v =
     (if m ! i AND 3 = MSEO_NORMAL then
        (if i + 1 \<ge> n then Inl (Rc DQERR_ERR)
         else if w \<ge> 64 then Inl UB
         else var_loop m n (i + 1) (w + 6) (v OR push_bit w (drop_bit 2 (ucast (m ! (i + 1))))))
      else Inr (i, w, v))"
  by pat_completeness auto
termination
  by (relation "measure (\<lambda>(m, n, i, w, v). n - i)") auto

declare var_loop.simps [simp del]

definition parseVarField :: "(u64 \<times> nat) parser" where
  "parseVarField s =
     (let i = bitIndex s div 6; b = bitIndex s mod 6 in
      if i \<ge> msgSlices s then (Inl (Rc DQERR_EOM), s\<lparr>status := DQERR_EOM\<rparr>)
      else case var_loop (msg s) (msgSlices s) i (6 - b) (drop_bit (b + 2) (ucast (msg s ! i))) of
        Inl (Rc e) \<Rightarrow> (Inl (Rc e), s\<lparr>status := e\<rparr>)
      | Inl UB \<Rightarrow> (Inl UB, s)
      | Inr (i', w, v) \<Rightarrow>
          (if w > 64 \<and> msg s ! i' AND 0xc0 \<noteq> 0
           then (Inl (Rc DQERR_ERR), s\<lparr>status := DQERR_ERR\<rparr>)
           else (Inr (v, w),
                 (if msg s ! i' AND 3 = MSEO_END then s\<lparr>eom := True\<rparr> else s)
                   \<lparr>bitIndex := bitIndex s + w\<rparr>)))"

section \<open>The bit stream of a message\<close>

definition sbit :: "u8 list \<Rightarrow> nat \<Rightarrow> bool" where
  "sbit m k = bit (m ! (k div 6)) (2 + k mod 6)"

definition field_val :: "u8 list \<Rightarrow> nat \<Rightarrow> nat \<Rightarrow> u64" where
  "field_val m k w = horner_sum of_bool 2 (map (\<lambda>j. sbit m (k + j)) [0..<w])"

lemma bit_field_val: "bit (field_val m k w) j \<longleftrightarrow> j < 64 \<and> j < w \<and> sbit m (k + j)"
  by (auto simp: field_val_def bit_horner_sum_bit_iff)

lemma field_val_eqI:
  "(\<And>j. j < 64 \<Longrightarrow> bit v j \<longleftrightarrow> j < w \<and> sbit m (k + j)) \<Longrightarrow> v = field_val m k w"
  by (rule bit_word_eqI) (auto simp: bit_field_val)

text \<open>Appending the six data bits of one more slice.\<close>

lemma bit_slice_data:
  "bit (push_bit c (drop_bit 2 (ucast (x :: u8)) :: u64)) j \<longleftrightarrow>
     c \<le> j \<and> j < 64 \<and> j - c < 6 \<and> bit x (2 + (j - c))"
  using bit_imp_le_length [of x "2 + (j - c)"]
  by (auto simp: bit_push_bit_iff bit_drop_bit_eq bit_ucast_iff)

lemma sbit_slice: "i * 6 \<le> k \<Longrightarrow> k - i * 6 < 6 \<Longrightarrow> sbit m k = bit (m ! i) (2 + (k - i * 6))"
proof -
  assume a: "i * 6 \<le> k" "k - i * 6 < 6"
  define r where "r = k - i * 6"
  have "k = r + i * 6" "r < 6" using a by (simp_all add: r_def)
  then show ?thesis by (simp add: sbit_def)
qed

lemma field_val_slice:
  assumes "k + w = i * 6" and "v = field_val m k w"
  shows "v OR push_bit w (drop_bit 2 (ucast (m ! i))) = field_val m k (w + 6)"
proof (rule field_val_eqI)
  fix j :: nat
  assume "j < 64"
  show "bit (v OR push_bit w (drop_bit 2 (ucast (m ! i)))) j \<longleftrightarrow> j < w + 6 \<and> sbit m (k + j)"
  proof (cases "j < w")
    case True
    then show ?thesis using \<open>j < 64\<close> by (auto simp: assms(2) bit_or_iff bit_field_val bit_slice_data)
  next
    case False
    then have "i * 6 \<le> k + j" "k + j - i * 6 = j - w" using assms(1) by auto
    then show ?thesis
      using False \<open>j < 64\<close> sbit_slice [of i "k + j" m]
      by (auto simp: assms(2) bit_or_iff bit_field_val bit_slice_data)
  qed
qed

lemma field_val_first:
  "b = k mod 6 \<Longrightarrow> drop_bit (b + 2) (ucast (m ! (k div 6)) :: u64) = field_val m k (6 - b)"
proof (rule field_val_eqI)
  fix j :: nat
  assume b: "b = k mod 6" and "j < 64"
  have "sbit m (k + j) = bit (m ! (k div 6)) (2 + b + j)" if "j < 6 - b"
    using that b sbit_slice [of "k div 6" "k + j" m] by (simp add: modulo_nat_def add.assoc)
  then show "bit (drop_bit (b + 2) (ucast (m ! (k div 6)) :: u64)) j \<longleftrightarrow> j < 6 - b \<and> sbit m (k + j)"
    using bit_imp_le_length [of "m ! (k div 6)" "2 + b + j"] \<open>j < 64\<close> b
    by (auto simp: bit_drop_bit_eq bit_ucast_iff ac_simps)
qed

section \<open>Variable fields read the stream\<close>

text \<open>The slice a variable field ends in: the first from \<open>i\<close> whose MSEO bits are not 0.\<close>

function var_end :: "u8 list \<Rightarrow> nat \<Rightarrow> nat \<Rightarrow> nat option" where
  "var_end m n i =
     (if i \<ge> n then None else if m ! i AND 3 \<noteq> 0 then Some i else var_end m n (i + 1))"
  by pat_completeness auto
termination
  by (relation "measure (\<lambda>(m, n, i). n - i)") auto

declare var_end.simps [simp del]

lemma var_end_range: "var_end m n i = Some e \<Longrightarrow> i \<le> e \<and> e < n \<and> m ! e AND 3 \<noteq> 0"
  by (induction m n i rule: var_end.induct)
    (subst (asm) var_end.simps, auto split: if_splits)

lemma var_end_eqI:
  "i \<le> e \<Longrightarrow> e < n \<Longrightarrow> m ! e AND 3 \<noteq> 0 \<Longrightarrow> (\<And>j. i \<le> j \<Longrightarrow> j < e \<Longrightarrow> m ! j AND 3 = 0) \<Longrightarrow>
   var_end m n i = Some e"
proof (induction m n i rule: var_end.induct)
  case (1 m n i)
  show ?case
  proof (cases "i = e")
    case True
    with 1(3,4) show ?thesis by (simp add: var_end.simps)
  next
    case False
    then have "i < e" using 1(2) by simp
    then have z: "m ! i AND 3 = 0" using 1(5) by simp
    have "var_end m n (i + 1) = Some e"
      using \<open>i < e\<close> 1(3-5) z by (intro 1(1)) auto
    then show ?thesis using z \<open>i < e\<close> 1(3) by (simp add: var_end.simps [of m n i])
  qed
qed

lemma var_loop_end:
  "var_end m n i = Some e \<Longrightarrow> v = field_val m k w \<Longrightarrow> k + w = (i + 1) * 6 \<Longrightarrow>
   var_loop m n i w v =
     (if i < e \<and> 64 + k \<le> e * 6 then Inl UB
      else Inr (e, (e + 1) * 6 - k, field_val m k ((e + 1) * 6 - k)))"
proof (induction m n i w v rule: var_loop.induct)
  case (1 m n i w v)
  have r: "i \<le> e" "e < n" using var_end_range [OF 1(2)] by auto
  show ?case
  proof (cases "m ! i AND 3 = MSEO_NORMAL")
    case False
    then have "e = i" using 1(2) by (subst (asm) var_end.simps) (auto simp: mseo_defs split: if_splits)
    moreover have "(i + 1) * 6 - k = w" using 1(4) by simp
    ultimately show ?thesis using False 1(3) by (simp add: var_loop.simps [of m n i])
  next
    case True
    then have e: "var_end m n (i + 1) = Some e"
      using 1(2) by (subst (asm) var_end.simps) (auto simp: mseo_defs split: if_splits)
    then have ie: "i < e" "i + 1 < n" using var_end_range [OF e] by auto
    show ?thesis
    proof (cases "w \<ge> 64")
      case True
      then have "64 + k \<le> e * 6" using 1(4) ie(1) by simp
      with True \<open>m ! i AND 3 = MSEO_NORMAL\<close> ie show ?thesis by (simp add: var_loop.simps [of m n i])
    next
      case False
      have "v OR push_bit w (drop_bit 2 (ucast (m ! (i + 1)))) = field_val m k (w + 6)"
        using 1(4) 1(3) by (intro field_val_slice) auto
      then have "var_loop m n i w v =
          (if i + 1 < e \<and> 64 + k \<le> e * 6 then Inl UB
           else Inr (e, (e + 1) * 6 - k, field_val m k ((e + 1) * 6 - k)))"
        using 1(1) [OF True _ False e] ie False True 1(4) by (simp add: var_loop.simps [of m n i])
      moreover have "\<not> 64 + k \<le> e * 6" if "\<not> i + 1 < e"
        using that ie(1) False 1(4) by simp
      ultimately show ?thesis using ie(1) by auto
    qed
  qed
qed

lemma var_loop_start:
  assumes "var_end (msg s) (msgSlices s) (bitIndex s div 6) = Some e"
  shows "var_loop (msg s) (msgSlices s) (bitIndex s div 6) (6 - bitIndex s mod 6)
     (drop_bit (bitIndex s mod 6 + 2) (ucast (msg s ! (bitIndex s div 6)))) =
     (if bitIndex s div 6 < e \<and> 64 + bitIndex s \<le> e * 6 then Inl UB
      else Inr (e, (e + 1) * 6 - bitIndex s, field_val (msg s) (bitIndex s) ((e + 1) * 6 - bitIndex s)))"
  by (rule var_loop_end [OF assms field_val_first]) (simp_all, presburger)

text \<open>Where a variable field ends, and how wide it is.\<close>

definition var_width :: "SliceFileParser \<Rightarrow> nat \<Rightarrow> nat" where
  "var_width s e = (e + 1) * 6 - bitIndex s"

lemma top_bits_c0: "x AND 0xc0 \<noteq> (0::u8) \<longleftrightarrow> bit x 6 \<or> bit x 7"
proof -
  have c: "(0xc0::u8) = push_bit 6 (mask 2)" by (simp add: mask_eq_exp_minus_1)
  have "bit (x AND 0xc0) j \<longleftrightarrow> bit x j \<and> (j = 6 \<or> j = 7)" for j
    unfolding c using bit_imp_le_length [of x j]
    by (auto simp: bit_and_iff bit_push_bit_iff bit_mask_iff)
  then show ?thesis by (auto simp: word_nonzero_bit)
qed

lemma parseVarField_unfold:
  assumes e: "var_end (msg s) (msgSlices s) (bitIndex s div 6) = Some e"
    and w: "var_width s e < 70"
  shows "parseVarField s =
     (if var_width s e > 64 \<and> (bit (msg s ! e) 6 \<or> bit (msg s ! e) 7)
      then (Inl (Rc DQERR_ERR), s\<lparr>status := DQERR_ERR\<rparr>)
      else (Inr (field_val (msg s) (bitIndex s) (var_width s e), var_width s e),
            s\<lparr>bitIndex := (e + 1) * 6, eom := eom s \<or> msg s ! e AND 3 = MSEO_END\<rparr>))"
proof -
  have r: "bitIndex s div 6 \<le> e" "e < msgSlices s" using var_end_range [OF e] by auto
  have k: "bitIndex s \<le> (e + 1) * 6"
    using r(1) div_mult_mod_eq [of "bitIndex s" 6] mod_less_divisor [of 6 "bitIndex s"] by simp
  have "\<not> 64 + bitIndex s \<le> e * 6" using w k by (simp add: var_width_def)
  then show ?thesis
    using r k var_loop_start [OF e] top_bits_c0 [of "msg s ! e"]
    by (simp add: parseVarField_def Let_def var_width_def)
qed

section \<open>Fixed fields read the stream\<close>

lemma ucast_drop_bit_u8: "ucast (drop_bit n (x :: u8)) = (drop_bit n (ucast x) :: u64)"
  by (rule bit_word_eqI) (auto simp: bit_ucast_iff bit_drop_bit_eq dest: bit_imp_le_length)

lemma fixed_mid_val:
  "v = field_val m k c \<Longrightarrow> k + c = i * 6 \<Longrightarrow> q < 6 \<Longrightarrow> c + (6 * n + q) \<le> 64 \<Longrightarrow>
   fixed_mid m i (6 * n + q) c v = Inr (i + n, q, c + 6 * n, field_val m k (c + 6 * n))"
proof (induction n arbitrary: i c v)
  case 0
  then show ?case by (simp add: fixed_mid.simps)
next
  case (Suc n)
  have v: "v OR push_bit c (ucast (drop_bit 2 (m ! i))) = field_val m k (c + 6)"
    unfolding ucast_drop_bit_u8 using Suc.prems by (intro field_val_slice) auto
  have "fixed_mid m (i + 1) (6 * n + q) (c + 6) (field_val m k (c + 6)) =
     Inr (i + 1 + n, q, c + 6 + 6 * n, field_val m k (c + 6 + 6 * n))"
    using Suc.prems by (intro Suc.IH) auto
  then show ?case
    using Suc.prems v by (simp add: fixed_mid.simps [of m i] ac_simps)
qed

text \<open>The leading \<open>q\<close> data bits of a slice, as the readers extract them.\<close>

lemma bit_last_slice:
  "q < 6 \<Longrightarrow> bit (drop_bit (6 - q + 2) (push_bit (6 - q) (x :: u8))) t \<longleftrightarrow> t < q \<and> bit x (2 + t)"
  using bit_imp_le_length [of x "2 + t"]
  by (auto simp: bit_drop_bit_eq bit_push_bit_iff ac_simps)

lemma field_val_last:
  assumes "k + c = i * 6" and "q < 6"
  shows "field_val m k c OR push_bit c (ucast (drop_bit (6 - q + 2) (push_bit (6 - q) (m ! i))))
     = field_val m k (c + q)"
proof -
  define l where "l = drop_bit (6 - q + 2) (push_bit (6 - q) (m ! i))"
  have l: "bit l t \<longleftrightarrow> t < q \<and> bit (m ! i) (2 + t)" for t
    unfolding l_def by (rule bit_last_slice [OF assms(2)])
  have "field_val m k c OR push_bit c (ucast l) = field_val m k (c + q)"
  proof (rule field_val_eqI)
    fix j :: nat
    assume j: "j < 64"
    have "sbit m (k + j) = bit (m ! i) (2 + (j - c))" if h: "c \<le> j" "j < c + q"
    proof -
      have "i * 6 \<le> k + j" "k + j - i * 6 = j - c" using h assms by simp_all
      then show ?thesis using h assms(2) sbit_slice [of i "k + j" m] by simp
    qed
    then show "bit (field_val m k c OR push_bit c (ucast l)) j \<longleftrightarrow> j < c + q \<and> sbit m (k + j)"
      using j by (cases "j < c") (auto simp: bit_or_iff bit_field_val bit_push_bit_iff bit_ucast_iff l)
  qed
  then show ?thesis by (simp add: l_def)
qed

lemma fixed_cross_val:
  assumes k: "k = i * 6 + b" and b: "b < 6" and w: "b + width > 6" "width \<le> 64"
  shows "fixed_cross m i b width = Inr ((k + width) div 6, field_val m k width)"
proof -
  define n where "n = (width - (6 - b)) div 6"
  define q where "q = (width - (6 - b)) mod 6"
  have r: "width - (6 - b) = 6 * n + q" by (simp add: n_def q_def)
  have q: "q < 6" by (simp add: q_def)
  have cw: "6 - b + (6 * n + q) = width" using r b w by linarith
  have pos: "k + (6 - b) = (i + 1) * 6" using k b by simp
  have "k + width = (k + (6 - b)) + (6 * n + q)" using cw by simp
  also have "\<dots> = (i + 1 + n) * 6 + q" unfolding pos by simp
  finally have "k + width = (i + 1 + n) * 6 + q" .
  then have e: "(k + width) div 6 = i + 1 + n" using q by simp
  have first: "(ucast (drop_bit (b + 2) (m ! i)) :: u64) = field_val m k (6 - b)"
    using field_val_first [of b k m] k b by (simp add: ucast_drop_bit_u8)
  have mid: "fixed_mid m (i + 1) (width - (6 - b)) (6 - b) (ucast (drop_bit (b + 2) (m ! i))) =
      Inr (i + 1 + n, q, 6 - b + 6 * n, field_val m k (6 - b + 6 * n))"
    unfolding r using cw w q by (intro fixed_mid_val [OF first pos]) auto
  show ?thesis
  proof (cases "q = 0")
    case True
    then show ?thesis using mid cw e by (simp add: fixed_cross_def)
  next
    case False
    have "k + (6 - b + 6 * n) = (i + 1 + n) * 6" using pos by simp
    note l = field_val_last [OF this q, of m]
    have "6 - b + 6 * n < 64" using cw w(2) False by linarith
    moreover have "6 - b + 6 * n + q = width" using cw by simp
    ultimately show ?thesis using mid e False l by (simp add: fixed_cross_def)
  qed
qed

lemma fixed_within_val:
  assumes "k = i * 6 + b" and "b + width \<le> 6"
  shows "fixed_within m i b width = field_val m k width"
proof (rule field_val_eqI)
  fix j :: nat
  assume j: "j < 64"
  have "sbit m (k + j) = bit (m ! i) (b + 2 + j)" if "j < width"
    using that assms sbit_slice [of i "k + j" m] by (simp add: ac_simps)
  then show "bit (fixed_within m i b width) j \<longleftrightarrow> j < width \<and> sbit m (k + j)"
    using j assms(2)
    by (auto simp: fixed_within_def bit_ucast_iff bit_drop_bit_eq bit_push_bit_iff ac_simps)
qed

section \<open>Properties\<close>

text \<open>The slice whose MSEO bits \<^verbatim>\<open>parseFixedField\<close> inspects after the field.\<close>

definition fixed_stop :: "SliceFileParser \<Rightarrow> nat \<Rightarrow> nat" where
  "fixed_stop s width =
     (if bitIndex s mod 6 + width > 6 then (bitIndex s + width) div 6 else bitIndex s div 6)"

text \<open>
  A fixed field of 1 to 64 bits that ends before the last data bit of the message reads
  exactly the data bits at the current position, least significant first, over any number of
  slices; it advances the position by its width and raises the end-of-message flag only from the
  slice it stops in.
\<close>

theorem parseFixedField_reads_stream:
  assumes "0 < width" and "width \<le> 64" and "bitIndex s + width < msgSlices s * 6"
  shows "parseFixedField width s =
    (Inr (field_val (msg s) (bitIndex s) width),
     s\<lparr>bitIndex := bitIndex s + width,
       eom := eom s \<or> msg s ! fixed_stop s width AND 3 = MSEO_END\<rparr>)"
proof -
  have k: "bitIndex s = bitIndex s div 6 * 6 + bitIndex s mod 6" by simp
  show ?thesis
    using assms fixed_cross_val [OF k _ _ assms(2), of "msg s"] fixed_within_val [OF k, of width "msg s"]
    by (auto simp: parseFixedField_def Let_def fixed_stop_def)
qed

theorem parseFixedField_reads_stream_witness:
  "fst (parseFixedField 10 (undefined\<lparr>msg := [0xA8, 0x74, 0xFF], msgSlices := 3, bitIndex := 4, eom := False\<rparr>))
   = Inr (field_val [0xA8, 0x74, 0xFF] 4 10)"
  using parseFixedField_reads_stream [of 10
      "undefined\<lparr>msg := [0xA8, 0x74, 0xFF], msgSlices := 3, bitIndex := 4, eom := False\<rparr>"]
  by simp

text \<open>
  A fixed field that would reach or pass the end of the message is refused with
  end-of-message: the value is not produced, the status is recorded, and nothing of the message
  changes but the position.
\<close>

theorem parseFixedField_past_end:
  assumes "0 < width" and "msgSlices s * 6 \<le> bitIndex s + width"
  shows "parseFixedField width s =
    (Inl (Rc DQERR_EOM), s\<lparr>bitIndex := bitIndex s + width, status := DQERR_EOM\<rparr>)"
  using assms by (simp add: parseFixedField_def)

theorem parseFixedField_past_end_witness:
  "parseFixedField 6 (undefined\<lparr>msgSlices := 1, bitIndex := 0\<rparr>) =
   (Inl (Rc DQERR_EOM), undefined\<lparr>msgSlices := 1, bitIndex := 6, status := DQERR_EOM\<rparr>)"
  using parseFixedField_past_end [of 6 "undefined\<lparr>msgSlices := 1, bitIndex := 0\<rparr>"] by simp

text \<open>
  A variable field of at most 64 bits reads exactly the data bits from the current position
  to the end of the first slice whose MSEO bits are not 0, reports that width, stops at the
  slice boundary, and raises the end-of-message flag exactly when that slice ends the message.
\<close>

theorem parseVarField_reads_stream:
  assumes "var_end (msg s) (msgSlices s) (bitIndex s div 6) = Some e" and "var_width s e \<le> 64"
  shows "parseVarField s =
    (Inr (field_val (msg s) (bitIndex s) (var_width s e), var_width s e),
     s\<lparr>bitIndex := (e + 1) * 6, eom := eom s \<or> msg s ! e AND 3 = MSEO_END\<rparr>)"
  using parseVarField_unfold [OF assms(1)] assms(2) by simp

theorem parseVarField_reads_stream_witness:
  "fst (parseVarField (undefined\<lparr>msg := [0xA8, 0x77], msgSlices := 2, bitIndex := 4, eom := False\<rparr>))
   = Inr (field_val [0xA8, 0x77] 4 8, 8)"
proof -
  let ?s = "undefined\<lparr>msg := [0xA8, 0x77], msgSlices := 2, bitIndex := 4, eom := False\<rparr>"
  have "var_end (msg ?s) (msgSlices ?s) (bitIndex ?s div 6) = Some 1"
    by (rule var_end_eqI) simp_all
  from parseVarField_reads_stream [OF this] show ?thesis by (simp add: var_width_def)
qed

text \<open>
  C40. The overflow check of \<^verbatim>\<open>parseVarField\<close> looks only at the two top data bits of the last slice.
  A field of 65 to 69 bits is refused exactly when one of these two bits is set; otherwise it is
  accepted with its low 64 bits, whatever the data bits from position 64 up to the two top ones
  hold. From 70 bits on the shift that adds a slice is undefined.
\<close>

theorem parseVarField_overflow_check:
  assumes "var_end (msg s) (msgSlices s) (bitIndex s div 6) = Some e" and "64 < var_width s e"
  shows "fst (parseVarField s) =
    (if 70 \<le> var_width s e then Inl UB
     else if bit (msg s ! e) 6 \<or> bit (msg s ! e) 7 then Inl (Rc DQERR_ERR)
     else Inr (field_val (msg s) (bitIndex s) 64, var_width s e))"
proof -
  have lim: "field_val (msg s) (bitIndex s) w = field_val (msg s) (bitIndex s) 64" if "64 < w" for w
    using that by (intro bit_word_eqI) (simp add: bit_field_val)
  show ?thesis
  proof (cases "70 \<le> var_width s e")
    case True
    have r: "bitIndex s div 6 \<le> e" "e < msgSlices s" using var_end_range [OF assms(1)] by auto
    have "64 + bitIndex s \<le> e * 6" using True by (simp add: var_width_def)
    moreover from this have "bitIndex s div 6 < e" by simp
    ultimately show ?thesis
      using var_loop_start [OF assms(1)] r True by (simp add: parseVarField_def Let_def)
  next
    case False
    then show ?thesis
      using parseVarField_unfold [OF assms(1)] assms(2) lim [OF assms(2)] by auto
  qed
qed

theorem parseVarField_overflow_check_witness:
  "fst (parseVarField (undefined\<lparr>msg := replicate 12 0 @ [0x31], msgSlices := 13, bitIndex := 10, eom := False\<rparr>))
   = Inr (field_val (replicate 12 0 @ [0x31]) 10 64, 68)"
proof -
  let ?s = "undefined\<lparr>msg := replicate 12 0 @ [0x31], msgSlices := 13, bitIndex := 10, eom := False\<rparr>"
  have "var_end (msg ?s) (msgSlices ?s) (bitIndex ?s div 6) = Some 12"
    by (rule var_end_eqI) (simp_all add: nth_append)
  from parseVarField_overflow_check [OF this] show ?thesis by (simp add: var_width_def nth_append)
qed

end
