(* ===== verification/Addr_Stack.thy ===== *)
theory Addr_Stack
  imports Dqr_Types
begin

text \<open>
  \<^verbatim>\<open>class AddrStack\<close> (include/trace.hpp, src/dqr.cpp): the bounded return-address stack. It grows
  down from \<^verbatim>\<open>stackSize\<close>; a push on a full stack returns 1 and drops the address, a pop of an
  empty stack returns the address -1. The interface the address computation relies on is the
  locale \<open>return_stack\<close>, interpreted here on the array implementation.
\<close>

section \<open>The interface\<close>

locale return_stack =
  fixes push_op :: "'s \<Rightarrow> 'a \<Rightarrow> int \<times> 's"
    and pop_op :: "'s \<Rightarrow> 'a \<times> 's"
    and reset_op :: "'s \<Rightarrow> 's"
    and items :: "'s \<Rightarrow> 'a list"
    and capacity :: "'s \<Rightarrow> nat"
    and invar :: "'s \<Rightarrow> bool"
    and no_item :: 'a
  assumes push_room: "invar s \<Longrightarrow> length (items s) < capacity s \<Longrightarrow>
      fst (push_op s a) = 0 \<and> items (snd (push_op s a)) = a # items s"
    and push_full: "invar s \<Longrightarrow> length (items s) = capacity s \<Longrightarrow>
      fst (push_op s a) = 1 \<and> items (snd (push_op s a)) = items s"
    and pop_item: "invar s \<Longrightarrow> items s = a # r \<Longrightarrow>
      fst (pop_op s) = a \<and> items (snd (pop_op s)) = r"
    and pop_none: "invar s \<Longrightarrow> items s = [] \<Longrightarrow>
      fst (pop_op s) = no_item \<and> items (snd (pop_op s)) = []"
    and reset_items: "invar s \<Longrightarrow> items (reset_op s) = []"
    and bounded: "invar s \<Longrightarrow> length (items s) \<le> capacity s"
    and invar_push: "invar s \<Longrightarrow> invar (snd (push_op s a))"
    and invar_pop: "invar s \<Longrightarrow> invar (snd (pop_op s))"
    and invar_reset: "invar s \<Longrightarrow> invar (reset_op s)"
    and capacity_push: "capacity (snd (push_op s a)) = capacity s"
    and capacity_pop: "capacity (snd (pop_op s)) = capacity s"
    and capacity_reset: "capacity (reset_op s) = capacity s"
begin

fun pushes :: "'s \<Rightarrow> 'a list \<Rightarrow> 's" where
  "pushes s [] = s"
| "pushes s (a # as) = pushes (snd (push_op s a)) as"

fun pops :: "'s \<Rightarrow> nat \<Rightarrow> 'a list \<times> 's" where
  "pops s 0 = ([], s)"
| "pops s (Suc n) = (let (a, s') = pop_op s; (as, s'') = pops s' n in (a # as, s''))"

lemma invar_pushes: "invar s \<Longrightarrow> invar (pushes s as)"
  by (induction as arbitrary: s) (auto intro: invar_push)

lemma items_pushes:
  "invar s \<Longrightarrow> length (items s) + length as \<le> capacity s \<Longrightarrow>
   items (pushes s as) = rev as @ items s"
proof (induction as arbitrary: s)
  case Nil
  then show ?case by simp
next
  case (Cons a as)
  have room: "items (snd (push_op s a)) = a # items s"
    using Cons.prems push_room [of s a] by simp
  have "items (pushes (snd (push_op s a)) as) = rev as @ items (snd (push_op s a))"
    by (rule Cons.IH) (use Cons.prems room in \<open>simp_all add: invar_push capacity_push\<close>)
  then show ?case by (simp add: room)
qed

lemma pops_items:
  "invar s \<Longrightarrow> items s = xs @ r \<Longrightarrow>
   fst (pops s (length xs)) = xs \<and> items (snd (pops s (length xs))) = r"
proof (induction xs arbitrary: s)
  case Nil
  then show ?case by simp
next
  case (Cons x xs)
  obtain a s' where p: "pop_op s = (a, s')" by fastforce
  have "a = x" and i: "items s' = xs @ r"
    using pop_item [OF Cons.prems(1), of x "xs @ r"] Cons.prems(2) p by auto
  moreover have "invar s'"
    using invar_pop [OF Cons.prems(1)] p by simp
  ultimately show ?case
    using Cons.IH [of s'] p by (auto simp: Let_def split: prod.splits)
qed

text \<open>Calls followed by as many returns come back in reverse order and restore the stack.\<close>

lemma nested_calls_return:
  assumes "invar s" and "length (items s) + length as \<le> capacity s"
  shows "fst (pops (pushes s as) (length as)) = rev as
       \<and> items (snd (pops (pushes s as) (length as))) = items s"
  using pops_items [OF invar_pushes [OF assms(1)], of as "rev as" "items s"]
    items_pushes [OF assms] by simp

end

section \<open>The array implementation\<close>

record AddrStack =
  stackSize :: nat
  sp :: nat
  stack_mem :: "ADDRESS list"

text \<open>The memory \<^verbatim>\<open>new ADDRESS[size]\<close> returns is uninitialised: \<open>mem\<close>.\<close>

definition AddrStack_new :: "ADDRESS list \<Rightarrow> AddrStack" where
  "AddrStack_new mem = \<lparr>stackSize = length mem, sp = length mem, stack_mem = mem\<rparr>"

definition AddrStack_reset :: "AddrStack \<Rightarrow> AddrStack" where
  "AddrStack_reset s = s\<lparr>sp := stackSize s\<rparr>"

definition AddrStack_push :: "AddrStack \<Rightarrow> ADDRESS \<Rightarrow> int \<times> AddrStack" where
  "AddrStack_push s addr =
     (if sp s \<le> 0 then (1, s)
      else (0, s\<lparr>sp := sp s - 1, stack_mem := (stack_mem s)[sp s - 1 := addr]\<rparr>))"

definition AddrStack_pop :: "AddrStack \<Rightarrow> ADDRESS \<times> AddrStack" where
  "AddrStack_pop s =
     (if sp s \<ge> stackSize s then (-1, s)
      else (stack_mem s ! sp s, s\<lparr>sp := sp s + 1\<rparr>))"

definition AddrStack_getNumOnStack :: "AddrStack \<Rightarrow> nat" where
  "AddrStack_getNumOnStack s = stackSize s - sp s"

section \<open>Correctness\<close>

definition AddrStack_inv :: "AddrStack \<Rightarrow> bool" where
  "AddrStack_inv s \<longleftrightarrow> sp s \<le> stackSize s \<and> length (stack_mem s) = stackSize s"

definition AddrStack_items :: "AddrStack \<Rightarrow> ADDRESS list" where
  "AddrStack_items s = drop (sp s) (stack_mem s)"

lemma AddrStack_inv_new: "AddrStack_inv (AddrStack_new mem)"
  by (simp add: AddrStack_inv_def AddrStack_new_def)

lemma drop_update_before: "i < length xs \<Longrightarrow> drop i (xs[i := a]) = a # drop (Suc i) xs"
  by (simp add: drop_update_swap Cons_nth_drop_Suc [symmetric])

interpretation ras: return_stack AddrStack_push AddrStack_pop AddrStack_reset
  AddrStack_items stackSize AddrStack_inv "-1"
proof (unfold_locales, goal_cases)
  case (1 s a)
  then have "0 < sp s" by (auto simp: AddrStack_inv_def AddrStack_items_def)
  moreover have "sp s - 1 < length (stack_mem s)"
    using 1 \<open>0 < sp s\<close> by (simp add: AddrStack_inv_def) linarith
  then have "drop (sp s - 1) ((stack_mem s)[sp s - 1 := a]) = a # drop (sp s) (stack_mem s)"
    using \<open>0 < sp s\<close> drop_update_before [of "sp s - 1" "stack_mem s" a] by simp
  ultimately show ?case by (simp add: AddrStack_push_def AddrStack_items_def)
next
  case (3 s a r)
  then have "sp s < stackSize s"
    by (cases "sp s < stackSize s") (auto simp: AddrStack_inv_def AddrStack_items_def)
  with 3 show ?case
    by (auto simp: AddrStack_pop_def AddrStack_inv_def AddrStack_items_def
        Cons_nth_drop_Suc [symmetric])
qed (auto simp: AddrStack_push_def AddrStack_pop_def AddrStack_reset_def AddrStack_inv_def
      AddrStack_items_def)

lemma AddrStack_num_items: "AddrStack_inv s \<Longrightarrow> AddrStack_getNumOnStack s = length (AddrStack_items s)"
  by (simp add: AddrStack_getNumOnStack_def AddrStack_inv_def AddrStack_items_def)

text \<open>
  The return address stack is right for every nesting of calls it has room for: after any
  number of calls, the same number of returns yields the return addresses in reverse order and
  leaves the stack as it was.
\<close>

theorem nested_calls_return_addresses:
  assumes "AddrStack_inv s" and "AddrStack_getNumOnStack s + length as \<le> stackSize s"
  shows "fst (ras.pops (ras.pushes s as) (length as)) = rev as \<and>
     AddrStack_items (snd (ras.pops (ras.pushes s as) (length as))) = AddrStack_items s"
  using ras.nested_calls_return [of s as] assms by (simp add: AddrStack_num_items)

theorem nested_calls_return_addresses_witness:
  "fst (ras.pops (ras.pushes (AddrStack_new (replicate 4 0)) [0x100, 0x200, 0x300]) 3) = [0x300, 0x200, 0x100]"
  using nested_calls_return_addresses [of "AddrStack_new (replicate 4 0)" "[0x100, 0x200, 0x300]"]
  by (simp add: AddrStack_inv_def AddrStack_new_def AddrStack_getNumOnStack_def numeral_3_eq_3)

end
