(* ===== verification/Counts.thy ===== *)
theory Counts
  imports Nexus Addr_Stack
begin

text \<open>
  \<^verbatim>\<open>class Count\<close> (include/trace.hpp, src/dqr.cpp): per core, the instruction count, the branch
  history with the position of its next bit, the taken and not-taken counts of resource-full
  messages, and the return-address stack. The arrays of \<^verbatim>\<open>DQR_MAXCORES\<close> elements are functions of
  the core number; the message parser refuses a core number outside the arrays.
\<close>

record Count =
  i_cnt :: "nat \<Rightarrow> int"
  history :: "nat \<Rightarrow> u64"
  histBit :: "nat \<Rightarrow> int"
  takenCount :: "nat \<Rightarrow> int"
  notTakenCount :: "nat \<Rightarrow> int"
  stack :: "nat \<Rightarrow> AddrStack"

definition Count_new :: "(nat \<Rightarrow> AddrStack) \<Rightarrow> Count" where
  "Count_new st = \<lparr>i_cnt = (\<lambda>_. 0), history = (\<lambda>_. 0), histBit = (\<lambda>_. -1),
     takenCount = (\<lambda>_. 0), notTakenCount = (\<lambda>_. 0), stack = st\<rparr>"

definition resetCounts :: "nat \<Rightarrow> Count \<Rightarrow> Count" where
  "resetCounts core c = c\<lparr>i_cnt := (i_cnt c)(core := 0), histBit := (histBit c)(core := -1),
     takenCount := (takenCount c)(core := 0), notTakenCount := (notTakenCount c)(core := 0)\<rparr>"

definition getCurrentCountType :: "nat \<Rightarrow> Count \<Rightarrow> CountType" where
  "getCurrentCountType core c =
     (if histBit c core \<ge> 0 then COUNTTYPE_history
      else if takenCount c core > 0 then COUNTTYPE_taken
      else if notTakenCount c core > 0 then COUNTTYPE_notTaken
      else if i_cnt c core > 0 then COUNTTYPE_i_cnt
      else COUNTTYPE_none)"

section \<open>Setting counts\<close>

definition setICnt :: "nat \<Rightarrow> int \<Rightarrow> Count \<Rightarrow> DQErr \<times> Count" where
  "setICnt core count c =
     (DQERR_OK, c\<lparr>i_cnt := (i_cnt c)(core := s32 (i_cnt c core + count))\<rparr>)"

text \<open>The loop that looks for the most significant 1, from bit \<open>i - 1\<close> down; -1 is no such bit.\<close>

fun hist_scan :: "u64 \<Rightarrow> nat \<Rightarrow> int" where
  "hist_scan hist 0 = -1"
| "hist_scan hist (Suc i) = (if bit hist i then int i else hist_scan hist i)"

definition setHistory :: "nat \<Rightarrow> u64 \<Rightarrow> Count \<Rightarrow> DQErr \<times> Count" where
  "setHistory core hist c =
     (if histBit c core \<ge> 0 then (DQERR_ERR, c)
      else if takenCount c core \<noteq> 0 then (DQERR_ERR, c)
      else if notTakenCount c core \<noteq> 0 then (DQERR_ERR, c)
      else if hist = 0 then
        (DQERR_OK, c\<lparr>history := (history c)(core := 0), histBit := (histBit c)(core := -1)\<rparr>)
      else
        (let i = hist_scan hist 64 in
         (DQERR_OK, c\<lparr>history := (history c)(core := hist),
                      histBit := (histBit c)(core := (if i < 0 then -1 else i - 1))\<rparr>)))"

definition setHistory_cnt :: "nat \<Rightarrow> u64 \<Rightarrow> int \<Rightarrow> Count \<Rightarrow> DQErr \<times> Count" where
  "setHistory_cnt core hist count c =
     (let (rc, c1) = setICnt core count c in
      if rc \<noteq> DQERR_OK then (rc, c1)
      else let (rc2, c2) = setHistory core hist c1 in
        if rc2 \<noteq> DQERR_OK then (rc2, c2) else (DQERR_OK, c2))"

definition setTakenCount :: "nat \<Rightarrow> int \<Rightarrow> Count \<Rightarrow> DQErr \<times> Count" where
  "setTakenCount core takenCnt c =
     (if histBit c core \<ge> 0 then (DQERR_ERR, c)
      else if takenCount c core \<noteq> 0 then (DQERR_ERR, c)
      else if notTakenCount c core \<noteq> 0 then (DQERR_ERR, c)
      else (DQERR_OK, c\<lparr>takenCount := (takenCount c)(core := takenCnt)\<rparr>))"

definition setNotTakenCount :: "nat \<Rightarrow> int \<Rightarrow> Count \<Rightarrow> DQErr \<times> Count" where
  "setNotTakenCount core notTakenCnt c =
     (if histBit c core \<ge> 0 then (DQERR_ERR, c)
      else if takenCount c core \<noteq> 0 then (DQERR_ERR, c)
      else if notTakenCount c core \<noteq> 0 then (DQERR_ERR, c)
      else (DQERR_OK, c\<lparr>notTakenCount := (notTakenCount c)(core := notTakenCnt)\<rparr>))"

text \<open>
  The switch of \<^verbatim>\<open>Count::setCounts\<close>: the four temporaries (i-cnt, history, taken, not taken), or
  an early return.
\<close>

definition setCounts_tmp :: "NexusMessage \<Rightarrow> DQErr + (int \<times> u64 \<times> int \<times> int)" where
  "setCounts_tmp nm = (case tcode nm of
      TCODE_DEBUG_STATUS \<Rightarrow> Inl DQERR_OK
    | TCODE_DEVICE_ID \<Rightarrow> Inl DQERR_OK
    | TCODE_OWNERSHIP_TRACE \<Rightarrow> Inl DQERR_OK
    | TCODE_DATA_WRITE \<Rightarrow> Inl DQERR_OK
    | TCODE_DATA_READ \<Rightarrow> Inl DQERR_OK
    | TCODE_DATA_ACQUISITION \<Rightarrow> Inl DQERR_OK
    | TCODE_ERROR \<Rightarrow> Inl DQERR_OK
    | TCODE_CORRECTION \<Rightarrow> Inl DQERR_OK
    | TCODE_AUXACCESS_WRITE \<Rightarrow> Inl DQERR_OK
    | TCODE_INCIRCUITTRACE \<Rightarrow> Inl DQERR_OK
    | TCODE_INCIRCUITTRACE_WS \<Rightarrow> Inl DQERR_OK
    | TCODE_DIRECT_BRANCH \<Rightarrow> Inr (directBranch_i_cnt nm, 0, 0, 0)
    | TCODE_INDIRECT_BRANCH \<Rightarrow> Inr (indirectBranch_i_cnt nm, 0, 0, 0)
    | TCODE_SYNC \<Rightarrow> Inr (sync_i_cnt nm, 0, 0, 0)
    | TCODE_DIRECT_BRANCH_WS \<Rightarrow> Inr (directBranchWS_i_cnt nm, 0, 0, 0)
    | TCODE_INDIRECT_BRANCH_WS \<Rightarrow> Inr (indirectBranchWS_i_cnt nm, 0, 0, 0)
    | TCODE_RESOURCEFULL \<Rightarrow>
        (if resourceFull_rCode nm = 0 then Inr (resourceFull_i_cnt nm, 0, 0, 0)
         else if resourceFull_rCode nm = 1 then Inr (0, resourceFull_history nm, 0, 0)
         else if resourceFull_rCode nm = 8 then Inr (0, 0, 0, sint (resourceFull_notTakenCount nm))
         else if resourceFull_rCode nm = 9 then Inr (0, 0, sint (resourceFull_takenCount nm), 0)
         else Inl DQERR_ERR)
    | TCODE_INDIRECTBRANCHHISTORY \<Rightarrow>
        Inr (indirectHistory_i_cnt nm, indirectHistory_history nm, 0, 0)
    | TCODE_INDIRECTBRANCHHISTORY_WS \<Rightarrow>
        Inr (indirectHistoryWS_i_cnt nm, indirectHistoryWS_history nm, 0, 0)
    | TCODE_CORRELATION \<Rightarrow>
        Inr (correlation_i_cnt nm, if correlation_cdf nm = 1 then correlation_history nm else 0, 0, 0)
    | _ \<Rightarrow> Inl DQERR_ERR)"

text \<open>One guarded call of the tail of \<^verbatim>\<open>setCounts\<close>: skipped when the temporary is 0.\<close>

definition set_unless_zero ::
  "bool \<Rightarrow> (Count \<Rightarrow> DQErr \<times> Count) \<Rightarrow> DQErr \<times> Count \<Rightarrow> DQErr \<times> Count" where
  "set_unless_zero zero f r =
     (if fst r \<noteq> DQERR_OK then r else if zero then r else f (snd r))"

definition setCounts :: "NexusMessage \<Rightarrow> Count \<Rightarrow> DQErr \<times> Count" where
  "setCounts nm c = (case setCounts_tmp nm of
      Inl rc \<Rightarrow> (rc, c)
    | Inr (tmp_i_cnt, tmp_history, tmp_taken, tmp_notTaken) \<Rightarrow>
        (let core = unat (coreId nm) in
         set_unless_zero (tmp_notTaken = 0) (setNotTakenCount core tmp_notTaken)
          (set_unless_zero (tmp_taken = 0) (setTakenCount core tmp_taken)
            (set_unless_zero (tmp_history = 0) (setHistory core tmp_history)
              (set_unless_zero (tmp_i_cnt = 0) (setICnt core tmp_i_cnt) (DQERR_OK, c))))))"

section \<open>Consuming counts\<close>

definition consumeICnt :: "nat \<Rightarrow> int \<Rightarrow> Count \<Rightarrow> int \<times> Count" where
  "consumeICnt core numToConsume c =
     (let n = s32 (i_cnt c core - numToConsume) in (n, c\<lparr>i_cnt := (i_cnt c)(core := n)\<rparr>))"

text \<open>
  The C++ expression \<^verbatim>\<open>1 << n\<close> is a shift of an \<^verbatim>\<open>int\<close>: undefined for a count of 32 or more, and
  for 31 the value is negative, so that its conversion to \<^verbatim>\<open>uint64_t\<close> sets bits 31 to 63.
\<close>

definition int_shl1 :: "int \<Rightarrow> u64 outcome" where
  "int_shl1 n =
     (if n < 0 \<or> n \<ge> 32 then Inl UB else Inr (word_of_int (s32 (2 ^ nat n))))"

definition consumeHistory :: "nat \<Rightarrow> bool \<Rightarrow> Count \<Rightarrow> (int \<times> bool \<times> Count) outcome" where
  "consumeHistory core taken c =
     (if histBit c core < 0 then Inr (1, taken, c)
      else case int_shl1 (histBit c core) of
        Inl e \<Rightarrow> Inl e
      | Inr m \<Rightarrow>
          Inr (0, history c core AND m \<noteq> 0, c\<lparr>histBit := (histBit c)(core := histBit c core - 1)\<rparr>))"

definition consumeTakenCount :: "nat \<Rightarrow> Count \<Rightarrow> int \<times> Count" where
  "consumeTakenCount core c =
     (if takenCount c core \<le> 0 then (1, c)
      else (0, c\<lparr>takenCount := (takenCount c)(core := takenCount c core - 1)\<rparr>))"

definition consumeNotTakenCount :: "nat \<Rightarrow> Count \<Rightarrow> int \<times> Count" where
  "consumeNotTakenCount core c =
     (if notTakenCount c core \<le> 0 then (1, c)
      else (0, c\<lparr>notTakenCount := (notTakenCount c)(core := notTakenCount c core - 1)\<rparr>))"

section \<open>The stack operations of a core\<close>

definition Count_push :: "nat \<Rightarrow> ADDRESS \<Rightarrow> Count \<Rightarrow> int \<times> Count" where
  "Count_push core addr c =
     (let (rc, s) = AddrStack_push (stack c core) addr in (rc, c\<lparr>stack := (stack c)(core := s)\<rparr>))"

definition Count_pop :: "nat \<Rightarrow> Count \<Rightarrow> ADDRESS \<times> Count" where
  "Count_pop core c =
     (let (a, s) = AddrStack_pop (stack c core) in (a, c\<lparr>stack := (stack c)(core := s)\<rparr>))"

definition resetStack :: "nat \<Rightarrow> Count \<Rightarrow> Count" where
  "resetStack core c = c\<lparr>stack := (stack c)(core := AddrStack_reset (stack c core))\<rparr>"

section \<open>Branch histories as bit lists\<close>

text \<open>
  The encoder's side of a history field: a stop bit followed by one bit per conditional branch,
  oldest first, so that the first branch is next to the stop bit.
\<close>

definition hist_pack_nat :: "bool list \<Rightarrow> nat" where
  "hist_pack_nat bs = foldl (\<lambda>v b. 2 * v + of_bool b) 1 bs"

definition hist_pack :: "bool list \<Rightarrow> u64" where
  "hist_pack bs = word_of_nat (hist_pack_nat bs)"

text \<open>Consuming \<open>n\<close> history bits one after the other.\<close>

fun drain :: "nat \<Rightarrow> nat \<Rightarrow> Count \<Rightarrow> (bool list \<times> Count) outcome" where
  "drain core 0 c = Inr ([], c)"
| "drain core (Suc n) c = (case consumeHistory core False c of
      Inl e \<Rightarrow> Inl e
    | Inr (rc, b, c1) \<Rightarrow>
        (if rc \<noteq> 0 then Inr ([], c1)
         else case drain core n c1 of Inl e \<Rightarrow> Inl e | Inr (bs, c2) \<Rightarrow> Inr (b # bs, c2)))"

lemma hist_pack_nat_snoc: "hist_pack_nat (bs @ [b]) = 2 * hist_pack_nat bs + of_bool b"
  by (simp add: hist_pack_nat_def)

lemma bit_hist_pack_nat:
  "bit (hist_pack_nat bs) i \<longleftrightarrow> (if i < length bs then rev bs ! i else i = length bs)"
proof (induction bs arbitrary: i rule: rev_induct)
  case Nil
  then show ?case by (simp add: hist_pack_nat_def bit_Suc_0_iff)
next
  case (snoc b bs)
  show ?case
  proof (cases i)
    case 0
    then show ?thesis by (simp add: hist_pack_nat_snoc bit_0)
  next
    case (Suc j)
    have "bit (hist_pack_nat (bs @ [b])) (Suc j) = bit (hist_pack_nat bs) j"
      by (simp add: hist_pack_nat_snoc bit_Suc)
    then show ?thesis using snoc.IH [of j] Suc by simp
  qed
qed

lemma bit_hist_pack:
  "length bs < 64 \<Longrightarrow>
   bit (hist_pack bs) i \<longleftrightarrow> (if i < length bs then rev bs ! i else i = length bs)"
  by (auto simp: hist_pack_def bit_of_nat_iff bit_hist_pack_nat)

lemma hist_scan_msb:
  "k < n \<Longrightarrow> bit h k \<Longrightarrow> (\<And>j. k < j \<Longrightarrow> j < n \<Longrightarrow> \<not> bit h j) \<Longrightarrow> hist_scan h n = int k"
proof (induction n)
  case 0
  then show ?case by simp
next
  case (Suc n)
  show ?case
  proof (cases "k = n")
    case True
    with Suc.prems show ?thesis by simp
  next
    case False
    with Suc.prems show ?thesis by (auto intro!: Suc.IH)
  qed
qed

lemma hist_scan_range: "-1 \<le> hist_scan h n \<and> hist_scan h n < int n"
  by (induction n) auto

lemma hist_scan_pack: "length bs < 64 \<Longrightarrow> hist_scan (hist_pack bs) 64 = int (length bs)"
  by (rule hist_scan_msb) (auto simp: bit_hist_pack)

lemma hist_pack_nonzero: "length bs < 64 \<Longrightarrow> hist_pack bs \<noteq> 0"
  using bit_hist_pack [of bs "length bs"] by auto

lemma int_shl1_small: "0 \<le> n \<Longrightarrow> n \<le> 30 \<Longrightarrow> int_shl1 n = Inr (2 ^ nat n)"
proof -
  assume a: "0 \<le> n" "n \<le> 30"
  then have "nat n \<le> 30" by simp
  then have "(2::int) ^ nat n \<le> 2 ^ 30" by (intro power_increasing) simp_all
  then have "s32 (2 ^ nat n) = 2 ^ nat n"
    by (intro s32_id) (auto intro: order_trans [of _ 0])
  with a show ?thesis by (simp add: int_shl1_def)
qed

lemma int_shl1_31: "int_shl1 31 = Inr (NOT (mask 31))"
  by (simp add: int_shl1_def s32_def mask_eq_exp_minus_1)

lemma and_not_mask_31: "x AND NOT (mask 31) \<noteq> (0::u64) \<longleftrightarrow> (\<exists>i. 31 \<le> i \<and> bit x i)"
proof -
  have "bit (x AND NOT (mask 31)) i \<longleftrightarrow> bit x i \<and> 31 \<le> i" for i
    using bit_imp_le_length [of x i] by (auto simp: bit_and_iff bit_not_iff bit_mask_iff)
  then show ?thesis by (auto simp: word_nonzero_bit)
qed

section \<open>Reading a history back\<close>

text \<open>No history, taken or not-taken count is pending on a core.\<close>

definition no_branch_counts :: "nat \<Rightarrow> Count \<Rightarrow> bool" where
  "no_branch_counts core c \<longleftrightarrow>
     histBit c core < 0 \<and> takenCount c core = 0 \<and> notTakenCount c core = 0"

lemma setHistory_pack:
  assumes "no_branch_counts core c" and "length bs < 64"
  shows "setHistory core (hist_pack bs) c =
    (DQERR_OK, c\<lparr>history := (history c)(core := hist_pack bs),
                 histBit := (histBit c)(core := int (length bs) - 1)\<rparr>)"
  using assms by (auto simp: setHistory_def no_branch_counts_def hist_scan_pack hist_pack_nonzero)

lemma consumeHistory_bit:
  assumes "histBit c core = int k" and "k \<le> 30"
  shows "consumeHistory core t c =
    Inr (0, bit (history c core) k, c\<lparr>histBit := (histBit c)(core := int k - 1)\<rparr>)"
  using assms int_shl1_small [of "int k"]
  by (simp add: consumeHistory_def and_exp_eq_0_iff_not_bit)

lemma drain_bits:
  "histBit c core = int n - 1 \<Longrightarrow> n \<le> 31 \<Longrightarrow>
   drain core n c = Inr (map (bit (history c core)) (rev [0..<n]),
                         c\<lparr>histBit := (histBit c)(core := -1)\<rparr>)"
proof (induction n arbitrary: c)
  case 0
  then show ?case by (cases c) (simp add: fun_upd_idem)
next
  case (Suc n)
  let ?c = "c\<lparr>histBit := (histBit c)(core := int n - 1)\<rparr>"
  have "consumeHistory core False c = Inr (0, bit (history c core) n, ?c)"
    using Suc.prems by (intro consumeHistory_bit) auto
  moreover have "drain core n ?c = Inr (map (bit (history c core)) (rev [0..<n]),
                         c\<lparr>histBit := (histBit c)(core := -1)\<rparr>)"
    using Suc.IH [of ?c] Suc.prems by (simp cong: if_cong add: fun_upd_def)
  ultimately show ?case by (simp add: fun_upd_def)
qed

lemma map_bit_hist_pack:
  "length bs < 64 \<Longrightarrow> map (bit (hist_pack bs)) (rev [0..<length bs]) = bs"
  by (rule nth_equalityI) (auto simp: bit_hist_pack rev_nth nth_append)

section \<open>Invariants\<close>

text \<open>
  What the class keeps per core: the history position is -1 or the index of one of the 63 bits
  below a stop bit, the counts are not negative, and at most one of history, taken count and
  not-taken count is pending, so that the priority order of \<^verbatim>\<open>getCurrentCountType\<close> never hides one.
\<close>

definition count_inv :: "nat \<Rightarrow> Count \<Rightarrow> bool" where
  "count_inv core c \<longleftrightarrow>
     -1 \<le> histBit c core \<and> histBit c core \<le> 62 \<and>
     0 \<le> takenCount c core \<and> 0 \<le> notTakenCount c core \<and>
     (histBit c core \<ge> 0 \<longrightarrow> takenCount c core = 0 \<and> notTakenCount c core = 0) \<and>
     (takenCount c core \<noteq> 0 \<longrightarrow> notTakenCount c core = 0) \<and>
     AddrStack_inv (stack c core)"

lemma count_inv_new: "AddrStack_inv (st core) \<Longrightarrow> count_inv core (Count_new st)"
  by (simp add: count_inv_def Count_new_def)

lemma count_inv_reset: "count_inv core c \<Longrightarrow> count_inv core (resetCounts k c)"
  by (auto simp: count_inv_def resetCounts_def)

lemma count_inv_setICnt: "count_inv core c \<Longrightarrow> count_inv core (snd (setICnt k n c))"
  by (auto simp: count_inv_def setICnt_def)

lemma count_inv_setHistory: "count_inv core c \<Longrightarrow> count_inv core (snd (setHistory k h c))"
  using hist_scan_range [of h 64] by (auto simp: count_inv_def setHistory_def Let_def)

lemma count_inv_setTaken:
  "count_inv core c \<Longrightarrow> 0 \<le> n \<Longrightarrow> count_inv core (snd (setTakenCount k n c))"
  by (auto simp: count_inv_def setTakenCount_def)

lemma count_inv_setNotTaken:
  "count_inv core c \<Longrightarrow> 0 \<le> n \<Longrightarrow> count_inv core (snd (setNotTakenCount k n c))"
  by (auto simp: count_inv_def setNotTakenCount_def)

lemma count_inv_consume:
  "count_inv core c \<Longrightarrow> count_inv core (snd (consumeICnt k n c))"
  "count_inv core c \<Longrightarrow> count_inv core (snd (consumeTakenCount k c))"
  "count_inv core c \<Longrightarrow> count_inv core (snd (consumeNotTakenCount k c))"
  "count_inv core c \<Longrightarrow> consumeHistory k t c = Inr (rc, b, c') \<Longrightarrow> count_inv core c'"
  by (auto simp: count_inv_def consumeICnt_def Let_def consumeTakenCount_def
      consumeNotTakenCount_def consumeHistory_def split: if_splits sum.splits)

lemma count_inv_stack:
  "count_inv core c \<Longrightarrow> count_inv core (snd (Count_push k a c))"
  "count_inv core c \<Longrightarrow> count_inv core (snd (Count_pop k c))"
  "count_inv core c \<Longrightarrow> count_inv core (resetStack k c)"
  using ras.invar_push [of "stack c core" a] ras.invar_pop [of "stack c core"]
    ras.invar_reset [of "stack c core"]
  by (auto simp: count_inv_def Count_push_def Count_pop_def resetStack_def split: prod.splits)

lemma count_inv_set_unless_zero:
  "count_inv core (snd r) \<Longrightarrow> (\<not> z \<Longrightarrow> count_inv core (snd (f (snd r)))) \<Longrightarrow>
   count_inv core (snd (set_unless_zero z f r))"
  by (simp add: set_unless_zero_def)

lemmas count_inv_intros = count_inv_reset count_inv_setICnt count_inv_setHistory
  count_inv_setTaken count_inv_setNotTaken count_inv_consume count_inv_stack
  count_inv_set_unless_zero

text \<open>
  A resource-full message with a count of branches from \<open>2 ^ 31\<close> on: its field is unsigned, the
  temporary of \<^verbatim>\<open>setCounts\<close> and the member it is stored in are \<^verbatim>\<open>int\<close>.
\<close>

definition wide_count :: "NexusMessage \<Rightarrow> bool" where
  "wide_count nm \<longleftrightarrow> tcode nm = TCODE_RESOURCEFULL \<and>
     (resourceFull_rCode nm = 8 \<and> sint (resourceFull_notTakenCount nm) < 0 \<or>
      resourceFull_rCode nm = 9 \<and> sint (resourceFull_takenCount nm) < 0)"

lemma setCounts_tmp_nonneg: "setCounts_tmp nm = Inr (i, h, t, n) \<Longrightarrow> \<not> wide_count nm \<Longrightarrow> 0 \<le> t \<and> 0 \<le> n"
  by (auto simp: setCounts_tmp_def wide_count_def split: TCode.splits if_splits)

lemma setCounts_inv:
  assumes "count_inv core c" and "\<not> wide_count nm"
  shows "count_inv core (snd (setCounts nm c))"
proof (cases "setCounts_tmp nm")
  case (Inl e)
  with assms(1) show ?thesis by (simp add: setCounts_def)
next
  case (Inr r)
  obtain i h t n where r: "r = (i, h, t, n)" by (metis prod_cases4)
  have "0 \<le> t" "0 \<le> n"
    using setCounts_tmp_nonneg Inr r assms(2) by blast+
  with assms(1) show ?thesis
    by (simp add: setCounts_def Inr r Let_def count_inv_intros)
qed

text \<open>A negative count is neither consumed nor replaced.\<close>

definition jammed :: "nat \<Rightarrow> Count \<Rightarrow> bool" where
  "jammed core c \<longleftrightarrow> histBit c core < 0 \<and> takenCount c core \<le> 0 \<and> notTakenCount c core \<le> 0 \<and>
     (takenCount c core \<noteq> 0 \<or> notTakenCount c core \<noteq> 0)"

lemma jammed_keeps:
  assumes "jammed core c"
  shows "getCurrentCountType core c \<in> {COUNTTYPE_i_cnt, COUNTTYPE_none} \<and>
    consumeTakenCount core c = (1, c) \<and> consumeNotTakenCount core c = (1, c) \<and>
    setHistory core h c = (DQERR_ERR, c) \<and> setTakenCount core n c = (DQERR_ERR, c) \<and> setNotTakenCount core n c = (DQERR_ERR, c)"
  using assms by (simp add: jammed_def getCurrentCountType_def consumeTakenCount_def consumeNotTakenCount_def
      setHistory_def setTakenCount_def setNotTakenCount_def)

lemma set_wide:
  assumes "count_inv core c" and "n < 0"
  shows "if fst (setTakenCount k n c) = DQERR_OK \<and> core = k then jammed core (snd (setTakenCount k n c))
      else count_inv core (snd (setTakenCount k n c))"
    and "if fst (setNotTakenCount k n c) = DQERR_OK \<and> core = k then jammed core (snd (setNotTakenCount k n c))
      else count_inv core (snd (setNotTakenCount k n c))"
  using assms by (simp_all add: setTakenCount_def setNotTakenCount_def jammed_def count_inv_def)

lemma setCounts_wide:
  assumes "count_inv core c" and "wide_count nm"
  shows "if fst (setCounts nm c) = DQERR_OK \<and> core = unat (coreId nm) then jammed core (snd (setCounts nm c))
    else count_inv core (snd (setCounts nm c))"
proof -
  let ?k = "unat (coreId nm)"
  let ?n = "sint (resourceFull_notTakenCount nm)" and ?t = "sint (resourceFull_takenCount nm)"
  have "setCounts nm c = setNotTakenCount ?k ?n c" if "tcode nm = TCODE_RESOURCEFULL" "resourceFull_rCode nm = 8" "?n < 0"
    using that by (simp add: setCounts_def setCounts_tmp_def set_unless_zero_def Let_def)
  moreover have "setCounts nm c = setTakenCount ?k ?t c" if "tcode nm = TCODE_RESOURCEFULL" "resourceFull_rCode nm = 9" "?t < 0"
    using that by (simp add: setCounts_def setCounts_tmp_def set_unless_zero_def Let_def)
  ultimately consider "setCounts nm c = setNotTakenCount ?k ?n c" "?n < 0" | "setCounts nm c = setTakenCount ?k ?t c" "?t < 0"
    using assms(2) unfolding wide_count_def by blast
  then show ?thesis
  proof cases
    case 1
    show ?thesis unfolding 1(1) by (rule set_wide(2) [OF assms(1) 1(2)])
  next
    case 2
    show ?thesis unfolding 2(1) by (rule set_wide(1) [OF assms(1) 2(2)])
  qed
qed

section \<open>Properties\<close>

text \<open>
  C25. A branch history of up to 31 branches survives the trip: setting it from a message on a
  core with no pending branch counts and consuming its bits gives back exactly the sequence of
  taken/not-taken outcomes, oldest first, with no undefined behaviour, and leaves no history.
\<close>

theorem history_roundtrip:
  assumes "no_branch_counts core c" and "length bs \<le> 31"
  shows "fst (setHistory core (hist_pack bs) c) = DQERR_OK \<and>
    drain core (length bs) (snd (setHistory core (hist_pack bs) c)) =
      Inr (bs, c\<lparr>history := (history c)(core := hist_pack bs), histBit := (histBit c)(core := -1)\<rparr>)"
proof -
  have l: "length bs < 64" using assms(2) by simp
  note s = setHistory_pack [OF assms(1) l]
  show ?thesis
    using drain_bits [of "snd (setHistory core (hist_pack bs) c)" core "length bs"] assms(2)
    by (simp add: s map_bit_hist_pack [OF l])
qed

theorem history_roundtrip_witness:
  "drain 0 3 (snd (setHistory 0 (hist_pack [True, False, True]) (Count_new (\<lambda>_. AddrStack_new []))))
   = Inr ([True, False, True],
       (Count_new (\<lambda>_. AddrStack_new []))\<lparr>history := (\<lambda>_. 0)(0 := hist_pack [True, False, True]),
          histBit := (\<lambda>_. -1)(0 := -1)\<rparr>)"
proof -
  have "no_branch_counts 0 (Count_new (\<lambda>_. AddrStack_new []))"
    by (simp add: no_branch_counts_def Count_new_def)
  from history_roundtrip [OF this, of "[True, False, True]"] show ?thesis
    by (simp add: Count_new_def numeral_3_eq_3)
qed

text \<open>
  The mask of \<^verbatim>\<open>consumeHistory\<close> is an \<^verbatim>\<open>int\<close>, although a history is 64 bits wide. For a history
  of 32 branches the first outcome read back is "taken" whatever the trace says, because the
  mask of bit 31 also covers the stop bit; for 33 branches or more the shift is undefined.
\<close>

theorem history_wide_misread:
  assumes "no_branch_counts core c" and "32 \<le> length bs" and "length bs < 64"
  shows "consumeHistory core t (snd (setHistory core (hist_pack bs) c)) =
    (if length bs = 32
     then Inr (0, True, c\<lparr>history := (history c)(core := hist_pack bs),
                          histBit := (histBit c)(core := 30)\<rparr>)
     else Inl UB)"
proof (cases "length bs = 32")
  case True
  then have "\<exists>i. 31 \<le> i \<and> bit (hist_pack bs) i"
    by (intro exI [of _ 32]) (simp add: bit_hist_pack)
  then have "hist_pack bs AND NOT (mask 31) \<noteq> 0" by (simp add: and_not_mask_31)
  with True show ?thesis
    by (simp add: setHistory_pack [OF assms(1,3)] consumeHistory_def int_shl1_31)
next
  case False
  with assms(2) have "int (length bs) - 1 \<ge> 32" by linarith
  with False show ?thesis
    by (auto simp: setHistory_pack [OF assms(1,3)] consumeHistory_def int_shl1_def)
qed

theorem history_wide_misread_witness:
  "consumeHistory 0 False
     (snd (setHistory 0 (hist_pack (replicate 32 False)) (Count_new (\<lambda>_. AddrStack_new []))))
   = Inr (0, True,
       (Count_new (\<lambda>_. AddrStack_new []))\<lparr>history := (\<lambda>_. 0)(0 := hist_pack (replicate 32 False)),
          histBit := (\<lambda>_. -1)(0 := 30)\<rparr>)"
proof -
  have "no_branch_counts 0 (Count_new (\<lambda>_. AddrStack_new []))"
    by (simp add: no_branch_counts_def Count_new_def)
  from history_wide_misread [OF this, of "replicate 32 False" False] show ?thesis
    by (simp add: Count_new_def)
qed



end
