(* ===== verification/Analytics.thy ===== *)
theory Analytics
  imports Counts
begin

text \<open>
  \<^verbatim>\<open>class Analytics\<close> (include/dqr.hpp, src/dqr.cpp): the statistics every parsed message and every
  decoded instruction updates. All counters are \<^verbatim>\<open>uint32_t\<close> and wrap. The per-core counters are
  an array of \<^verbatim>\<open>DQR_MAXCORES\<close> elements: a core number outside it is undefined behaviour, and this
  is the first use the parser makes of the core number of a message.
\<close>

section \<open>State\<close>

record CoreStats =
  num_inst :: u32
  num_inst16 :: u32
  num_inst32 :: u32
  num_trace_msgs :: u32
  num_trace_syncs :: u32
  num_trace_dbranch :: u32
  num_trace_ibranch :: u32
  num_trace_dataacq :: u32
  num_trace_dbranchws :: u32
  num_trace_ibranchws :: u32
  num_trace_ihistory :: u32
  num_trace_ihistoryws :: u32
  num_trace_takenhistory :: u32
  num_trace_resourcefull :: u32
  num_trace_correlation :: u32
  num_trace_auxaccesswrite :: u32
  num_trace_ownership :: u32
  num_trace_error :: u32
  num_trace_incircuittraceWS :: u32
  num_trace_incircuittrace :: u32
  trace_bits :: u32
  trace_bits_max :: u32
  trace_bits_min :: u32
  trace_bits_mseo :: u32
  max_hist_bits :: u32
  min_hist_bits :: u32
  max_notTakenCount :: u32
  min_notTakenCount :: u32
  max_takenCount :: u32
  min_takenCount :: u32
  trace_bits_sync :: u32
  trace_bits_dbranch :: u32
  trace_bits_ibranch :: u32
  trace_bits_dataacq :: u32
  trace_bits_dbranchws :: u32
  trace_bits_ibranchws :: u32
  trace_bits_ihistory :: u32
  trace_bits_ihistoryws :: u32
  trace_bits_resourcefull :: u32
  trace_bits_correlation :: u32
  trace_bits_auxaccesswrite :: u32
  trace_bits_ownership :: u32
  trace_bits_error :: u32
  trace_bits_incircuittraceWS :: u32
  trace_bits_incircuittrace :: u32
  num_trace_ts :: u32
  num_trace_uaddr :: u32
  num_trace_faddr :: u32
  num_trace_ihistory_taken_branches :: u32
  num_trace_ihistory_nottaken_branches :: u32
  num_trace_resourcefull_i_cnt :: u32
  num_trace_resourcefull_hist :: u32
  num_trace_resourcefull_takenCount :: u32
  num_trace_resourcefull_notTakenCount :: u32
  num_trace_resourcefull_taken_branches :: u32
  num_trace_resourcefull_nottaken_branches :: u32
  num_taken_branches :: u32
  num_notTaken_branches :: u32
  num_calls :: u32
  num_returns :: u32
  num_swaps :: u32
  num_exceptions :: u32
  num_exception_returns :: u32
  num_interrupts :: u32
  trace_bits_ts :: u32
  trace_bits_ts_max :: u32
  trace_bits_ts_min :: u32
  trace_bits_uaddr :: u32
  trace_bits_uaddr_max :: u32
  trace_bits_uaddr_min :: u32
  trace_bits_faddr :: u32
  trace_bits_faddr_max :: u32
  trace_bits_faddr_min :: u32
  trace_bits_hist :: u32

record Analytics =
  an_status :: DQErr
  cores :: u32
  num_trace_msgs_all_cores :: u32
  num_trace_mseo_bits_all_cores :: u32
  num_trace_bits_all_cores :: u32
  num_trace_bits_all_cores_max :: u32
  num_trace_bits_all_cores_min :: u32
  num_inst_all_cores :: u32
  num_inst16_all_cores :: u32
  num_inst32_all_cores :: u32
  num_branches_all_cores :: u32
  core_stats :: "nat \<Rightarrow> CoreStats"

definition CoreStats_init :: "CoreStats \<Rightarrow> CoreStats" where
  "CoreStats_init k =
     k\<lparr>num_inst16 := 0, num_inst32 := 0, num_inst := 0, num_trace_msgs := 0, num_trace_syncs :=
       0, num_trace_dbranch := 0, num_trace_ibranch := 0, num_trace_ihistory := 0,
       num_trace_ihistoryws := 0, num_trace_resourcefull := 0, num_trace_incircuittraceWS := 0,
       num_trace_incircuittrace := 0, num_trace_dataacq := 0, num_trace_dbranchws := 0,
       num_trace_ibranchws := 0, num_trace_correlation := 0, num_trace_auxaccesswrite := 0,
       num_trace_ownership := 0, num_trace_error := 0, num_trace_ts := 0, num_trace_uaddr := 0,
       num_trace_faddr := 0, num_trace_ihistory_taken_branches := 0,
       num_trace_ihistory_nottaken_branches := 0, num_trace_resourcefull_i_cnt := 0,
       num_trace_resourcefull_hist := 0, num_trace_resourcefull_takenCount := 0,
       num_trace_resourcefull_notTakenCount := 0, num_trace_resourcefull_taken_branches := 0,
       num_trace_resourcefull_nottaken_branches := 0, trace_bits := 0, trace_bits_max := 0,
       trace_bits_min := 0, trace_bits_mseo := 0, max_hist_bits := 0, min_hist_bits := 0,
       max_notTakenCount := 0, min_notTakenCount := 0, max_takenCount := 0, min_takenCount := 0,
       trace_bits_sync := 0, trace_bits_dbranch := 0, trace_bits_ibranch := 0, trace_bits_dataacq
       := 0, trace_bits_dbranchws := 0, trace_bits_ibranchws := 0, trace_bits_ihistory := 0,
       trace_bits_ihistoryws := 0, trace_bits_resourcefull := 0, trace_bits_correlation := 0,
       trace_bits_auxaccesswrite := 0, trace_bits_ownership := 0, trace_bits_error := 0,
       trace_bits_incircuittrace := 0, trace_bits_incircuittraceWS := 0, trace_bits_ts := 0,
       trace_bits_ts_max := 0, trace_bits_ts_min := 0, trace_bits_uaddr := 0,
       trace_bits_uaddr_max := 0, trace_bits_uaddr_min := 0, trace_bits_faddr := 0,
       trace_bits_faddr_max := 0, trace_bits_faddr_min := 0, trace_bits_hist := 0,
       num_taken_branches := 0, num_notTaken_branches := 0, num_calls := 0, num_returns := 0,
       num_swaps := 0, num_exceptions := 0, num_exception_returns := 0, num_interrupts := 0\<rparr>"

text \<open>The constructor; \<open>k\<close> is the uninitialised memory of the per-core array.\<close>

definition Analytics_new :: "(nat \<Rightarrow> CoreStats) \<Rightarrow> Analytics" where
  "Analytics_new k = \<lparr>an_status = DQERR_OK, cores = 0, num_trace_msgs_all_cores = 0,
     num_trace_mseo_bits_all_cores = 0, num_trace_bits_all_cores = 0,
     num_trace_bits_all_cores_max = 0, num_trace_bits_all_cores_min = 0,
     num_inst_all_cores = 0, num_inst16_all_cores = 0, num_inst32_all_cores = 0,
     num_branches_all_cores = 0, core_stats = (\<lambda>i. CoreStats_init (k i))\<rparr>"

definition currentTraceMsgNum :: "Analytics \<Rightarrow> int" where
  "currentTraceMsgNum a = sint (num_trace_msgs_all_cores a)"

section \<open>Message statistics\<close>

text \<open>The updates before the switch on the message kind: all cores, then the message's core.\<close>

definition msg_totals :: "u32 \<Rightarrow> u32 \<Rightarrow> Analytics \<Rightarrow> Analytics" where
  "msg_totals bits mseo_bits a =
     a\<lparr>num_trace_msgs_all_cores := num_trace_msgs_all_cores a + 1,
       num_trace_bits_all_cores := num_trace_bits_all_cores a + bits,
       num_trace_mseo_bits_all_cores := num_trace_mseo_bits_all_cores a + mseo_bits,
       num_trace_bits_all_cores_max :=
         (if bits > num_trace_bits_all_cores_max a then bits else num_trace_bits_all_cores_max a),
       num_trace_bits_all_cores_min :=
         (if num_trace_bits_all_cores_min a = 0 \<or> bits < num_trace_bits_all_cores_min a
          then bits else num_trace_bits_all_cores_min a)\<rparr>"

definition core_totals :: "u32 \<Rightarrow> u32 \<Rightarrow> u32 \<Rightarrow> CoreStats \<Rightarrow> CoreStats" where
  "core_totals bits mseo_bits ts_bits k =
     (let k1 = k\<lparr>num_trace_msgs := num_trace_msgs k + 1,
                 trace_bits_mseo := trace_bits_mseo k + mseo_bits,
                 trace_bits := trace_bits k + bits,
                 trace_bits_max := (if bits > trace_bits_max k then bits else trace_bits_max k),
                 trace_bits_min :=
                   (if trace_bits_min k = 0 \<or> bits < trace_bits_min k then bits else trace_bits_min k)\<rparr>
      in if ts_bits > 0 then
           k1\<lparr>num_trace_ts := num_trace_ts k1 + 1,
              trace_bits_ts := trace_bits_ts k1 + ts_bits,
              trace_bits_ts_max :=
                (if ts_bits > trace_bits_ts_max k1 then ts_bits else trace_bits_ts_max k1),
              trace_bits_ts_min :=
                (if trace_bits_ts_min k1 = 0 \<or> ts_bits < trace_bits_ts_min k1
                 then ts_bits else trace_bits_ts_min k1)\<rparr>
         else k1)"

text \<open>The loop that counts the bits of a history: the last \<^verbatim>\<open>msb\<close>, \<^verbatim>\<open>taken\<close> and \<^verbatim>\<open>nottaken\<close>.\<close>

function hist_count :: "u64 \<Rightarrow> int \<Rightarrow> int \<Rightarrow> int \<Rightarrow> int \<times> int \<times> int" where
  "hist_count msk msb taken nottaken =
     (if msk > 1 then
        (if msk AND 1 \<noteq> 0 then hist_count (drop_bit 1 msk) (msb + 1) (taken + 1) nottaken
         else hist_count (drop_bit 1 msk) (msb + 1) taken (nottaken + 1))
      else (msb, taken, nottaken))"
  by pat_completeness auto
termination
proof (relation "measure (\<lambda>(msk, _, _, _). unat msk)", goal_cases)
  case 1
  then show ?case by simp
next
  case (2 msk msb taken nottaken)
  then have "unat msk > 1" by (simp add: word_less_nat_alt)
  then show ?case by (simp add: drop_bit_Suc unat_div)
next
  case (3 msk msb taken nottaken)
  then have "unat msk > 1" by (simp add: word_less_nat_alt)
  then show ?case by (simp add: drop_bit_Suc unat_div)
qed

declare hist_count.simps [simp del]

text \<open>The statistics of one history field; the same code stands in three cases of the switch.\<close>

definition hist_stats :: "u64 \<Rightarrow> CoreStats \<Rightarrow> CoreStats \<times> int \<times> int" where
  "hist_stats hist k =
     (let (msb, taken, nottaken) = hist_count hist (-1) (-1) 0;
          k1 = k\<lparr>num_trace_ihistory_taken_branches :=
                   num_trace_ihistory_taken_branches k + word_of_int taken,
                 num_trace_ihistory_nottaken_branches :=
                   num_trace_ihistory_nottaken_branches k + word_of_int nottaken\<rparr>;
          k2 = (if msb \<ge> 0 then
                  k1\<lparr>trace_bits_hist := trace_bits_hist k1 + word_of_int (msb + 1),
                     max_hist_bits := (if msb \<ge> sint (max_hist_bits k1)
                                       then word_of_int (msb + 1) else max_hist_bits k1)\<rparr>
                else k1);
          k3 = (if msb + 1 < sint (min_hist_bits k2)
                then k2\<lparr>min_hist_bits := word_of_int (msb + 1)\<rparr> else k2)
      in (k3, taken, nottaken))"

text \<open>
  The resource-full case: the new counters and what is added to \<^verbatim>\<open>num_branches_all_cores\<close>;
  \<open>None\<close> is the unknown resource code.
\<close>

definition rfull_stats :: "NexusMessage \<Rightarrow> CoreStats \<Rightarrow> (CoreStats \<times> int) option" where
  "rfull_stats nm k =
     (if resourceFull_rCode nm = 0 then
        Some (k\<lparr>num_trace_resourcefull_i_cnt := num_trace_resourcefull_i_cnt k + 1\<rparr>, 0)
      else if resourceFull_rCode nm = 1 then
        (let k1 = k\<lparr>num_trace_resourcefull_hist := num_trace_resourcefull_hist k + 1\<rparr>;
             (k2, taken, nottaken) = hist_stats (resourceFull_history nm) k1
         in Some (k2, taken + nottaken))
      else if resourceFull_rCode nm = 8 then
        (let n = resourceFull_notTakenCount nm in
         Some (k\<lparr>num_trace_resourcefull_notTakenCount := num_trace_resourcefull_notTakenCount k + 1,
                 num_trace_resourcefull_nottaken_branches :=
                   num_trace_resourcefull_nottaken_branches k + n,
                 max_notTakenCount := (if n > max_notTakenCount k then n else max_notTakenCount k),
                 min_notTakenCount :=
                   (if min_notTakenCount k = 0 \<or> n < min_notTakenCount k
                    then n else min_notTakenCount k)\<rparr>, 0))
      else if resourceFull_rCode nm = 9 then
        (let n = resourceFull_takenCount nm in
         Some (k\<lparr>num_trace_resourcefull_takenCount := num_trace_resourcefull_takenCount k + 1,
                 num_trace_resourcefull_taken_branches :=
                   num_trace_resourcefull_taken_branches k + n,
                 max_takenCount := (if n > max_takenCount k then n else max_takenCount k),
                 min_takenCount :=
                   (if min_takenCount k = 0 \<or> n < min_takenCount k
                    then n else min_takenCount k)\<rparr>, 0))
      else None)"

datatype addr_kind = no_addr | have_uaddr | have_faddr

text \<open>
  The switch on the message kind: the counters of the core, what is added to
  \<^verbatim>\<open>num_branches_all_cores\<close> and which address statistics follow, and whether the code returns an
  error from inside the switch.
\<close>

definition kind_stats :: "NexusMessage \<Rightarrow> u32 \<Rightarrow> CoreStats \<Rightarrow> CoreStats \<times> int \<times> addr_kind \<times> bool" where
  "kind_stats nm bits k = (case tcode nm of
      TCODE_OWNERSHIP_TRACE \<Rightarrow>
        (k\<lparr>num_trace_ownership := num_trace_ownership k + 1,
           trace_bits_ownership := trace_bits_ownership k + bits\<rparr>, 0, no_addr, False)
    | TCODE_DIRECT_BRANCH \<Rightarrow>
        (k\<lparr>num_trace_dbranch := num_trace_dbranch k + 1,
           trace_bits_dbranch := trace_bits_dbranch k + bits\<rparr>, 1, no_addr, False)
    | TCODE_INDIRECT_BRANCH \<Rightarrow>
        (k\<lparr>num_trace_ibranch := num_trace_ibranch k + 1,
           trace_bits_ibranch := trace_bits_ibranch k + bits\<rparr>, 1, have_uaddr, False)
    | TCODE_DATA_ACQUISITION \<Rightarrow>
        (k\<lparr>num_trace_dataacq := num_trace_dataacq k + 1,
           trace_bits_dataacq := trace_bits_dataacq k + bits\<rparr>, 0, no_addr, False)
    | TCODE_ERROR \<Rightarrow>
        (k\<lparr>num_trace_error := num_trace_error k + 1,
           trace_bits_error := trace_bits_error k + bits\<rparr>, 0, no_addr, False)
    | TCODE_SYNC \<Rightarrow>
        (k\<lparr>num_trace_syncs := num_trace_syncs k + 1,
           trace_bits_sync := trace_bits_sync k + bits\<rparr>, 0, have_faddr, False)
    | TCODE_DIRECT_BRANCH_WS \<Rightarrow>
        (k\<lparr>num_trace_dbranchws := num_trace_dbranchws k + 1,
           trace_bits_dbranchws := trace_bits_dbranchws k + bits\<rparr>, 1, have_faddr, False)
    | TCODE_INDIRECT_BRANCH_WS \<Rightarrow>
        (k\<lparr>num_trace_ibranchws := num_trace_ibranchws k + 1,
           trace_bits_ibranchws := trace_bits_ibranchws k + bits\<rparr>, 1, have_faddr, False)
    | TCODE_AUXACCESS_WRITE \<Rightarrow>
        (k\<lparr>num_trace_auxaccesswrite := num_trace_auxaccesswrite k + 1,
           trace_bits_auxaccesswrite := trace_bits_auxaccesswrite k + bits\<rparr>, 0, no_addr, False)
    | TCODE_CORRELATION \<Rightarrow>
        (k\<lparr>num_trace_correlation := num_trace_correlation k + 1,
           trace_bits_ibranchws := trace_bits_ibranchws k + bits\<rparr>, 0, no_addr, False)
    | TCODE_INDIRECTBRANCHHISTORY \<Rightarrow>
        (let (k1, taken, nottaken) = hist_stats (indirectHistory_history nm)
               (k\<lparr>num_trace_ihistory := num_trace_ihistory k + 1,
                  trace_bits_ihistory := trace_bits_ihistory k + bits\<rparr>)
         in (k1, 1 + taken + nottaken, have_uaddr, False))
    | TCODE_INDIRECTBRANCHHISTORY_WS \<Rightarrow>
        (let (k1, taken, nottaken) = hist_stats (indirectHistoryWS_history nm)
               (k\<lparr>num_trace_ihistoryws := num_trace_ihistoryws k + 1,
                  trace_bits_ihistoryws := trace_bits_ihistoryws k + bits\<rparr>)
         in (k1, 1 + taken + nottaken, have_faddr, False))
    | TCODE_RESOURCEFULL \<Rightarrow>
        (let k1 = k\<lparr>num_trace_resourcefull := num_trace_resourcefull k + 1,
                    trace_bits_resourcefull := trace_bits_resourcefull k + bits\<rparr>
         in case rfull_stats nm k1 of
              None \<Rightarrow> (k1, 0, no_addr, True)
            | Some (k2, n) \<Rightarrow> (k2, n, no_addr, False))
    | TCODE_INCIRCUITTRACE \<Rightarrow>
        (k\<lparr>num_trace_incircuittrace := num_trace_incircuittrace k + 1,
           trace_bits_incircuittrace := trace_bits_incircuittrace k + bits\<rparr>, 0, have_uaddr, False)
    | TCODE_INCIRCUITTRACE_WS \<Rightarrow>
        (k\<lparr>num_trace_incircuittraceWS := num_trace_incircuittraceWS k + 1,
           trace_bits_incircuittraceWS := trace_bits_incircuittraceWS k + bits\<rparr>, 0, have_faddr, False)
    | _ \<Rightarrow> (k, 0, no_addr, True))"

definition addr_stats :: "addr_kind \<Rightarrow> u32 \<Rightarrow> CoreStats \<Rightarrow> CoreStats" where
  "addr_stats kind addr_bits k = (case kind of
      no_addr \<Rightarrow> k
    | have_uaddr \<Rightarrow>
        k\<lparr>num_trace_uaddr := num_trace_uaddr k + 1,
          trace_bits_uaddr := trace_bits_uaddr k + addr_bits,
          trace_bits_uaddr_max :=
            (if addr_bits > trace_bits_uaddr_max k then addr_bits else trace_bits_uaddr_max k),
          trace_bits_uaddr_min :=
            (if trace_bits_uaddr_min k = 0 \<or> addr_bits < trace_bits_uaddr_min k
             then addr_bits else trace_bits_uaddr_min k)\<rparr>
    | have_faddr \<Rightarrow>
        k\<lparr>num_trace_faddr := num_trace_faddr k + 1,
          trace_bits_faddr := trace_bits_faddr k + addr_bits,
          trace_bits_faddr_max :=
            (if addr_bits > trace_bits_faddr_max k then addr_bits else trace_bits_faddr_max k),
          trace_bits_faddr_min :=
            (if trace_bits_faddr_min k = 0 \<or> addr_bits < trace_bits_faddr_min k
             then addr_bits else trace_bits_faddr_min k)\<rparr>)"

definition updateTraceInfo ::
  "NexusMessage \<Rightarrow> u32 \<Rightarrow> u32 \<Rightarrow> u32 \<Rightarrow> u32 \<Rightarrow> Analytics \<Rightarrow> (DQErr \<times> Analytics) outcome" where
  "updateTraceInfo nm bits mseo_bits ts_bits addr_bits a =
     (let c = unat (coreId nm) in
      if c \<ge> DQR_MAXCORES then Inl UB
      else
        let a1 = msg_totals bits mseo_bits a;
            a2 = a1\<lparr>cores := cores a1 OR push_bit c 1\<rparr>;
            k1 = core_totals bits mseo_bits ts_bits (core_stats a c);
            (k2, branches, kind, failed) = kind_stats nm bits k1;
            a3 = a2\<lparr>num_branches_all_cores := num_branches_all_cores a2 + word_of_int branches\<rparr>
        in if failed then
             Inr (DQERR_ERR, a3\<lparr>core_stats := (core_stats a)(c := k2), an_status := DQERR_ERR\<rparr>)
           else
             Inr (an_status a3, a3\<lparr>core_stats := (core_stats a)(c := addr_stats kind addr_bits k2)\<rparr>))"

section \<open>Instruction statistics\<close>

definition updateInstructionInfo ::
  "nat \<Rightarrow> int \<Rightarrow> crflags \<Rightarrow> BranchFlags \<Rightarrow> Analytics \<Rightarrow> (DQErr \<times> Analytics) outcome" where
  "updateInstructionInfo core_id instSize crFlags brFlags a =
     (if core_id \<ge> DQR_MAXCORES then Inl UB
      else
        let a1 = a\<lparr>num_inst_all_cores := num_inst_all_cores a + 1\<rparr>;
            k1 = (core_stats a core_id)\<lparr>num_inst := num_inst (core_stats a core_id) + 1\<rparr>;
            (a2, k2) =
              (if instSize = 16 then
                 (a1\<lparr>num_inst16_all_cores := num_inst16_all_cores a1 + 1\<rparr>,
                  k1\<lparr>num_inst16 := num_inst16 k1 + 1\<rparr>)
               else if instSize = 32 then
                 (a1\<lparr>num_inst32_all_cores := num_inst32_all_cores a1 + 1\<rparr>,
                  k1\<lparr>num_inst32 := num_inst32 k1 + 1\<rparr>)
               else (a1\<lparr>an_status := DQERR_ERR\<rparr>, k1));
            k3 = (case brFlags of
                BRFLAG_none \<Rightarrow> k2
              | BRFLAG_unknown \<Rightarrow> k2
              | BRFLAG_taken \<Rightarrow> k2\<lparr>num_taken_branches := num_taken_branches k2 + 1\<rparr>
              | BRFLAG_notTaken \<Rightarrow> k2\<lparr>num_notTaken_branches := num_notTaken_branches k2 + 1\<rparr>);
            k4 = (if crFlags AND isCall \<noteq> 0 then k3\<lparr>num_calls := num_calls k3 + 1\<rparr> else k3);
            k5 = (if crFlags AND isReturn \<noteq> 0 then k4\<lparr>num_returns := num_returns k4 + 1\<rparr> else k4);
            k6 = (if crFlags AND isSwap \<noteq> 0 then k5\<lparr>num_swaps := num_swaps k5 + 1\<rparr> else k5);
            k7 = (if crFlags AND isInterrupt \<noteq> 0
                  then k6\<lparr>num_interrupts := num_interrupts k6 + 1\<rparr> else k6);
            k8 = (if crFlags AND isException \<noteq> 0
                  then k7\<lparr>num_exceptions := num_exceptions k7 + 1\<rparr> else k7);
            k9 = (if crFlags AND isExceptionReturn \<noteq> 0
                  then k8\<lparr>num_exception_returns := num_exception_returns k8 + 1\<rparr> else k8)
        in Inr (an_status a2, a2\<lparr>core_stats := (core_stats a)(core_id := k9)\<rparr>))"

section \<open>What one call records\<close>

text \<open>The message kinds the switch knows.\<close>

definition counted :: "NexusMessage \<Rightarrow> bool" where
  "counted nm \<longleftrightarrow> (case tcode nm of
      TCODE_OWNERSHIP_TRACE \<Rightarrow> True | TCODE_DIRECT_BRANCH \<Rightarrow> True | TCODE_INDIRECT_BRANCH \<Rightarrow> True
    | TCODE_DATA_ACQUISITION \<Rightarrow> True | TCODE_ERROR \<Rightarrow> True | TCODE_SYNC \<Rightarrow> True
    | TCODE_DIRECT_BRANCH_WS \<Rightarrow> True | TCODE_INDIRECT_BRANCH_WS \<Rightarrow> True
    | TCODE_AUXACCESS_WRITE \<Rightarrow> True | TCODE_CORRELATION \<Rightarrow> True
    | TCODE_INDIRECTBRANCHHISTORY \<Rightarrow> True | TCODE_INDIRECTBRANCHHISTORY_WS \<Rightarrow> True
    | TCODE_INCIRCUITTRACE \<Rightarrow> True | TCODE_INCIRCUITTRACE_WS \<Rightarrow> True
    | TCODE_RESOURCEFULL \<Rightarrow> resourceFull_rCode nm \<in> {0, 1, 8, 9}
    | _ \<Rightarrow> False)"

lemma hist_stats_msgs: "num_trace_msgs (fst (hist_stats h k)) = num_trace_msgs k"
  "trace_bits (fst (hist_stats h k)) = trace_bits k"
  by (simp_all add: hist_stats_def Let_def split: prod.splits)

lemma rfull_stats_msgs:
  "rfull_stats nm k = Some (k', n) \<Longrightarrow> num_trace_msgs k' = num_trace_msgs k \<and> trace_bits k' = trace_bits k"
  by (auto simp: rfull_stats_def Let_def case_prod_unfold hist_stats_msgs split: if_splits)

lemma kind_stats_msgs:
  "num_trace_msgs (fst (kind_stats nm b k)) = num_trace_msgs k \<and>
   trace_bits (fst (kind_stats nm b k)) = trace_bits k"
proof (cases "tcode nm = TCODE_RESOURCEFULL")
  case True
  then show ?thesis
    using rfull_stats_msgs by (fastforce simp: kind_stats_def Let_def split: option.splits prod.splits)
next
  case False
  then show ?thesis
    by (simp add: kind_stats_def Let_def case_prod_unfold hist_stats_msgs split: TCode.split)
qed

lemma counted_iff: "snd (snd (snd (kind_stats nm b k))) \<longleftrightarrow> \<not> counted nm"
proof (cases "tcode nm = TCODE_RESOURCEFULL")
  case True
  then show ?thesis
    by (auto simp: kind_stats_def counted_def rfull_stats_def Let_def case_prod_unfold)
next
  case False
  then show ?thesis
    by (simp add: kind_stats_def counted_def Let_def case_prod_unfold split: TCode.split)
qed

lemma core_totals_msgs:
  "num_trace_msgs (core_totals b e t k) = num_trace_msgs k + 1"
  "trace_bits (core_totals b e t k) = trace_bits k + b"
  by (simp_all add: core_totals_def Let_def)

lemma addr_stats_msgs:
  "num_trace_msgs (addr_stats d w k) = num_trace_msgs k" "trace_bits (addr_stats d w k) = trace_bits k"
  by (simp_all add: addr_stats_def split: addr_kind.split)

section \<open>Properties\<close>

lemma updateTraceInfo_effect:
  assumes "unat (coreId nm) < DQR_MAXCORES"
  shows "\<exists>rc a'. updateTraceInfo nm b e t d a = Inr (rc, a') \<and>
     rc = (if counted nm then an_status a else DQERR_ERR) \<and> an_status a' = rc \<and>
     num_trace_msgs_all_cores a' = num_trace_msgs_all_cores a + 1 \<and>
     num_trace_bits_all_cores a' = num_trace_bits_all_cores a + b \<and>
     num_trace_mseo_bits_all_cores a' = num_trace_mseo_bits_all_cores a + e \<and>
     cores a' = cores a OR push_bit (unat (coreId nm)) 1 \<and>
     num_trace_msgs (core_stats a' (unat (coreId nm))) = num_trace_msgs (core_stats a (unat (coreId nm))) + 1 \<and>
     trace_bits (core_stats a' (unat (coreId nm))) = trace_bits (core_stats a (unat (coreId nm))) + b \<and>
     (\<forall>c. c \<noteq> unat (coreId nm) \<longrightarrow> core_stats a' c = core_stats a c)"
proof -
  let ?k = "core_totals b e t (core_stats a (unat (coreId nm)))"
  obtain k2 n kd fl where k: "kind_stats nm b ?k = (k2, n, kd, fl)"
    by (metis prod_cases4)
  show ?thesis
    using assms kind_stats_msgs [of nm b ?k] counted_iff [of nm b ?k] by (cases fl)
      (simp_all add: updateTraceInfo_def Let_def k core_totals_msgs addr_stats_msgs msg_totals_def)
qed

text \<open>
  \<^verbatim>\<open>updateTraceInfo\<close> adds every message of a core below \<^verbatim>\<open>DQR_MAXCORES\<close> exactly once, with its
  bits, to the totals of all cores and to the totals of its own core, and touches the statistics
  of no other core; it reports an error exactly for a message kind its switch does not know (an
  unknown resource code included) and otherwise returns the status it had. A core number from
  \<^verbatim>\<open>DQR_MAXCORES\<close> on indexes past the array, whatever else the message holds.
\<close>

theorem updateTraceInfo_totals:
  "if unat (coreId nm) \<ge> DQR_MAXCORES then updateTraceInfo nm b e t d a = Inl UB
   else \<exists>rc a'. updateTraceInfo nm b e t d a = Inr (rc, a') \<and>
     rc = (if counted nm then an_status a else DQERR_ERR) \<and> an_status a' = rc \<and>
     num_trace_msgs_all_cores a' = num_trace_msgs_all_cores a + 1 \<and>
     num_trace_bits_all_cores a' = num_trace_bits_all_cores a + b \<and>
     num_trace_mseo_bits_all_cores a' = num_trace_mseo_bits_all_cores a + e \<and>
     cores a' = cores a OR push_bit (unat (coreId nm)) 1 \<and>
     num_trace_msgs (core_stats a' (unat (coreId nm))) = num_trace_msgs (core_stats a (unat (coreId nm))) + 1 \<and>
     trace_bits (core_stats a' (unat (coreId nm))) = trace_bits (core_stats a (unat (coreId nm))) + b \<and>
     (\<forall>c. c \<noteq> unat (coreId nm) \<longrightarrow> core_stats a' c = core_stats a c)"
proof (cases "unat (coreId nm) \<ge> DQR_MAXCORES")
  case True
  then show ?thesis by (simp add: updateTraceInfo_def)
next
  case False
  then show ?thesis using updateTraceInfo_effect [of nm b e t d a] by simp
qed

theorem updateTraceInfo_totals_witness:
  "\<exists>a'. updateTraceInfo (undefined\<lparr>coreId := 2, tcode := TCODE_SYNC\<rparr>) 30 10 0 12 (Analytics_new (\<lambda>_. undefined)) =
       Inr (DQERR_OK, a') \<and> num_trace_msgs_all_cores a' = 1 \<and> num_trace_bits_all_cores a' = 30"
  using updateTraceInfo_totals [of "undefined\<lparr>coreId := 2, tcode := TCODE_SYNC\<rparr>" 30 10 0 12 "Analytics_new (\<lambda>_. undefined)"]
  by (auto simp: DQR_MAXCORES_def counted_def Analytics_new_def)

text \<open>The loop over a history word with its stop bit.\<close>

lemma hist_pack_snoc_word:
  assumes "length bs < 63"
  shows "drop_bit 1 (hist_pack (bs @ [b])) = hist_pack bs" and "bit (hist_pack (bs @ [b])) 0 \<longleftrightarrow> b"
    and "hist_pack (bs @ [b]) > 1"
proof -
  have l: "length (bs @ [b]) < 64" using assms by simp
  show "drop_bit 1 (hist_pack (bs @ [b])) = hist_pack bs"
    by (rule bit_word_eqI) (use assms in \<open>auto simp: bit_drop_bit_eq bit_hist_pack\<close>)
  show "bit (hist_pack (bs @ [b])) 0 \<longleftrightarrow> b" using l by (simp add: bit_hist_pack)
  have "bit (hist_pack (bs @ [b])) (Suc (length bs))" using l by (simp add: bit_hist_pack)
  then have "hist_pack (bs @ [b]) \<noteq> 0" "hist_pack (bs @ [b]) \<noteq> 1" by (auto simp: bit_1_iff)
  then show "hist_pack (bs @ [b]) > 1" 
    by (metis linorder_neqE word_less_1)
qed

lemma hist_count_pack:
  "length bs < 64 \<Longrightarrow> hist_count (hist_pack bs) msb taken nottaken =
     (msb + int (length bs), taken + int (length (filter (\<lambda>x. x) bs)), nottaken + int (length (filter Not bs)))"
proof (induction bs arbitrary: msb taken nottaken rule: rev_induct)
  case Nil
  then show ?case by (simp add: hist_count.simps hist_pack_def hist_pack_nat_def)
next
  case (snoc b bs)
  then have l: "length bs < 63" by simp
  have "hist_pack (bs @ [b]) AND 1 \<noteq> 0 \<longleftrightarrow> b"
    using hist_pack_snoc_word(2) [OF l] by (simp add: and_one_eq odd_iff_mod_2_eq_one bit_0)
  then show ?case
    using snoc hist_pack_snoc_word(1,3) [OF l] by (subst hist_count.simps) (cases b; simp)
qed

text \<open>
  The history statistics count the branches of a history of fewer than 64 branches, except for
  the taken ones, of which they count one too few: the counter starts at -1 \<open>to account for
  the stop bit\<close>, but the loop stops before the stop bit and never counts it. A history of
  branches that are all not taken therefore subtracts one from the taken counter, which wraps.
\<close>

theorem hist_stats_undercount:
  assumes "length bs < 64"
  shows "num_trace_ihistory_nottaken_branches (fst (hist_stats (hist_pack bs) k)) =
      num_trace_ihistory_nottaken_branches k + word_of_nat (length (filter Not bs)) \<and>
    num_trace_ihistory_taken_branches (fst (hist_stats (hist_pack bs) k)) =
      num_trace_ihistory_taken_branches k + word_of_nat (length (filter (\<lambda>x. x) bs)) - 1 \<and>
    snd (hist_stats (hist_pack bs) k) = (int (length (filter (\<lambda>x. x) bs)) - 1, int (length (filter Not bs)))"
  using hist_count_pack [OF assms, of "-1" "-1" 0]
  by (simp add: hist_stats_def Let_def)

theorem hist_stats_undercount_witness:
  "num_trace_ihistory_taken_branches (fst (hist_stats (hist_pack [False, False])
     (undefined\<lparr>num_trace_ihistory_taken_branches := 0\<rparr>))) = 0xffffffff"
  using hist_stats_undercount [of "[False, False]" "undefined\<lparr>num_trace_ihistory_taken_branches := 0\<rparr>"]
  by simp

end
