(* ===== verification/Slice_Messages.thy ===== *)
theory Slice_Messages
  imports Slice_Fields Analytics
begin

text \<open>
  The message parsers of \<^verbatim>\<open>class SliceFileParser\<close> (src/dqr.cpp): one definition per
  \<^verbatim>\<open>parse...\<close> method, which reads the fields of one message kind into the \<open>NexusMessage\<close> record and
  reports the message to the analytics.

  A parser method works on the slice parser, the message \<^verbatim>\<open>nm\<close>, the analytics object and the
  local counters \<^verbatim>\<open>bits\<close>, \<^verbatim>\<open>ts_bits\<close> and \<^verbatim>\<open>addr_bits\<close>; the record \<open>Parse\<close> holds all of them. The
  methods read field after field and return at the first error, so each reading step takes the
  rest of the method as its continuation: \<open>get_fixed\<close>, \<open>get_var\<close>. The result is \<open>Inr ()\<close> for the
  return value \<^verbatim>\<open>DQERR_OK\<close> and \<open>Inl (Rc e)\<close> for every other one.
\<close>

section \<open>Steps shared by the parsers\<close>

record Parse =
  pf :: SliceFileParser
  pm :: NexusMessage
  pa :: Analytics
  bits :: nat
  ts_bits :: nat
  addr_bits :: nat

type_synonym step = "Parse \<Rightarrow> unit outcome \<times> Parse"

text \<open>\<^verbatim>\<open>status = e; return status;\<close>\<close>

definition fail_with :: "DQErr \<Rightarrow> step" where
  "fail_with e p = (Inl (Rc e), p\<lparr>pf := (pf p)\<lparr>status := e\<rparr>\<rparr>)"

text \<open>\<^verbatim>\<open>rc = parseFixedField(w,&tmp); if (rc != DQERR_OK) { status = rc; return status; } bits += w;\<close>\<close>

definition get_fixed :: "nat \<Rightarrow> (u64 \<Rightarrow> step) \<Rightarrow> step" where
  "get_fixed w k p =
     (case parseFixedField w (pf p) of
        (Inl (Rc e), s) \<Rightarrow> fail_with e (p\<lparr>pf := s\<rparr>)
      | (Inl UB, s) \<Rightarrow> (Inl UB, p\<lparr>pf := s\<rparr>)
      | (Inr tmp, s) \<Rightarrow> k tmp (p\<lparr>pf := s, bits := bits p + w\<rparr>))"

text \<open>\<^verbatim>\<open>rc = parseVarField(&tmp,&width); if (rc != DQERR_OK) { status = rc; return status; } bits += width;\<close>\<close>

definition get_var :: "(u64 \<Rightarrow> nat \<Rightarrow> step) \<Rightarrow> step" where
  "get_var k p =
     (case parseVarField (pf p) of
        (Inl (Rc e), s) \<Rightarrow> fail_with e (p\<lparr>pf := s\<rparr>)
      | (Inl UB, s) \<Rightarrow> (Inl UB, p\<lparr>pf := s\<rparr>)
      | (Inr (tmp, width), s) \<Rightarrow> k tmp width (p\<lparr>pf := s, bits := bits p + width\<rparr>))"

text \<open>An assignment to fields of \<^verbatim>\<open>nm\<close>, and to \<^verbatim>\<open>addr_bits\<close>.\<close>

definition set_nm :: "(NexusMessage \<Rightarrow> NexusMessage) \<Rightarrow> step \<Rightarrow> step" where
  "set_nm f k p = k (p\<lparr>pm := f (pm p)\<rparr>)"

definition set_addr_bits :: "nat \<Rightarrow> step \<Rightarrow> step" where
  "set_addr_bits w k p = k (p\<lparr>addr_bits := w\<rparr>)"

text \<open>The optional source field that starts every message.\<close>

definition src_field :: "step \<Rightarrow> step" where
  "src_field k p =
     (if srcbits (pf p) > 0
      then get_fixed (srcbits (pf p)) (\<lambda>tmp. set_nm (coreId_update (\<lambda>_. ucast tmp)) k) p
      else set_nm (coreId_update (\<lambda>_. 0)) k p)"

text \<open>
  The end of every parser: the analytics call. Its result becomes the status and the result.
\<close>

definition update_info :: step where
  "update_info p =
     (let n = msgSlices (pf p) * 2 in
      case updateTraceInfo (pm p) (of_nat (bits p + n)) (of_nat n) (of_nat (ts_bits p))
             (of_nat (addr_bits p)) (pa p) of
        Inl e \<Rightarrow> (Inl e, p)
      | Inr (rc, a) \<Rightarrow>
          (if rc = DQERR_OK then Inr () else Inl (Rc rc),
           p\<lparr>pf := (pf p)\<lparr>status := rc\<rparr>, pa := a,
             pm := (pm p)\<lparr>msgNum := currentTraceMsgNum a\<rparr>\<rparr>))"

text \<open>
  The optional timestamp that ends every message, and then the analytics call. Some methods add
  the width to \<^verbatim>\<open>bits\<close> before and some after the check that the message is consumed; the counters
  are local, so on the failing path the order is not visible.
\<close>

definition ts_field :: step where
  "ts_field p =
     (if eom (pf p)
      then set_nm (\<lambda>m. m\<lparr>haveTimestamp := False, timestamp := 0\<rparr>) update_info p
      else get_var (\<lambda>tmp width p'.
             if \<not> eom (pf p') then fail_with DQERR_BM p'
             else set_nm (\<lambda>m. m\<lparr>haveTimestamp := True, timestamp := tmp\<rparr>) update_info
                    (p'\<lparr>ts_bits := width\<rparr>)) p)"

text \<open>The locals at the start of a method: six bits for the TCODE, no timestamp.\<close>

definition parse_msg :: "TCode \<Rightarrow> step \<Rightarrow> SliceFileParser \<Rightarrow> NexusMessage \<Rightarrow> Analytics \<Rightarrow> unit outcome \<times> Parse" where
  "parse_msg tc k s nm a =
     src_field k \<lparr>pf = s, pm = nm\<lparr>tcode := tc\<rparr>, pa = a, bits = 6, ts_bits = 0, addr_bits = 0\<rparr>"

section \<open>The parsers\<close>

text \<open>
  \<^verbatim>\<open>parseICT\<close> and \<^verbatim>\<open>parseICTWS\<close> differ in the \<^verbatim>\<open>tcode\<close> and in the struct they write, \<^verbatim>\<open>nm.ict\<close> and
  \<^verbatim>\<open>nm.ictWS\<close>, which are one group of fields of the record. The loop \<^verbatim>\<open>for (i = 0; i <= ckdf; i++)\<close>
  runs once or twice, since a \<^verbatim>\<open>ckdf\<close> above 1 has been refused.
\<close>

definition ict_fields :: step where
  "ict_fields =
     get_fixed 4 (\<lambda>tmp. set_nm (\<lambda>m. m\<lparr>ict_cksrc := ICTReason_of tmp\<rparr>)
    (get_fixed 2 (\<lambda>tmp.
       if tmp > 1 then fail_with DQERR_ERR
       else set_nm (\<lambda>m. m\<lparr>ict_ckdf := ucast tmp\<rparr>)
           (get_var (\<lambda>tmp0 width0. set_addr_bits width0 (set_nm (\<lambda>m. m\<lparr>ict_ckdata0 := tmp0\<rparr>)
             (if tmp = 0 then ts_field
              else get_var (\<lambda>tmp1 width1. set_addr_bits width1
                     (set_nm (\<lambda>m. m\<lparr>ict_ckdata1 := tmp1\<rparr>) ts_field)))))))))"

definition parseICT :: "SliceFileParser \<Rightarrow> NexusMessage \<Rightarrow> Analytics \<Rightarrow> unit outcome \<times> Parse" where
  "parseICT = parse_msg TCODE_INCIRCUITTRACE ict_fields"

definition parseICTWS :: "SliceFileParser \<Rightarrow> NexusMessage \<Rightarrow> Analytics \<Rightarrow> unit outcome \<times> Parse" where
  "parseICTWS = parse_msg TCODE_INCIRCUITTRACE_WS ict_fields"

definition parseIndirectHistory :: "SliceFileParser \<Rightarrow> NexusMessage \<Rightarrow> Analytics \<Rightarrow> unit outcome \<times> Parse" where
  "parseIndirectHistory = parse_msg TCODE_INDIRECTBRANCHHISTORY
    (get_fixed 2 (\<lambda>tmp. set_nm (\<lambda>m. m\<lparr>indirectHistory_b_type := BType_of tmp\<rparr>)
    (get_var (\<lambda>tmp width. set_nm (\<lambda>m. m\<lparr>indirectHistory_i_cnt := int_of_u64 tmp\<rparr>)
    (get_var (\<lambda>tmp width. set_addr_bits width (set_nm (\<lambda>m. m\<lparr>indirectHistory_u_addr := tmp\<rparr>)
    (get_var (\<lambda>tmp width. set_nm (\<lambda>m. m\<lparr>indirectHistory_history := tmp\<rparr>) ts_field)))))))))"

definition parseIndirectHistoryWS :: "SliceFileParser \<Rightarrow> NexusMessage \<Rightarrow> Analytics \<Rightarrow> unit outcome \<times> Parse" where
  "parseIndirectHistoryWS = parse_msg TCODE_INDIRECTBRANCHHISTORY_WS
    (get_fixed 4 (\<lambda>tmp. set_nm (\<lambda>m. m\<lparr>indirectHistoryWS_sync := SyncReason_of tmp\<rparr>)
    (get_fixed 2 (\<lambda>tmp. set_nm (\<lambda>m. m\<lparr>indirectHistoryWS_b_type := BType_of tmp\<rparr>)
    (get_var (\<lambda>tmp width. set_nm (\<lambda>m. m\<lparr>indirectHistoryWS_i_cnt := int_of_u64 tmp\<rparr>)
    (get_var (\<lambda>tmp width. set_addr_bits width (set_nm (\<lambda>m. m\<lparr>indirectHistoryWS_f_addr := tmp\<rparr>)
    (get_var (\<lambda>tmp width. set_nm (\<lambda>m. m\<lparr>indirectHistoryWS_history := tmp\<rparr>) ts_field)))))))))))"

definition parseResourceFull :: "SliceFileParser \<Rightarrow> NexusMessage \<Rightarrow> Analytics \<Rightarrow> unit outcome \<times> Parse" where
  "parseResourceFull = parse_msg TCODE_RESOURCEFULL
    (get_fixed 4 (\<lambda>rc. set_nm (\<lambda>m. m\<lparr>resourceFull_rCode := int_of_u64 rc\<rparr>)
    (get_var (\<lambda>tmp width.
       if int_of_u64 rc = 0 then set_nm (\<lambda>m. m\<lparr>resourceFull_i_cnt := int_of_u64 tmp\<rparr>) ts_field
       else if int_of_u64 rc = 1 then set_nm (\<lambda>m. m\<lparr>resourceFull_history := tmp\<rparr>) ts_field
       else if int_of_u64 rc = 8
         then set_nm (\<lambda>m. m\<lparr>resourceFull_notTakenCount := word_of_int (int_of_u64 tmp)\<rparr>) ts_field
       else if int_of_u64 rc = 9
         then set_nm (\<lambda>m. m\<lparr>resourceFull_takenCount := word_of_int (int_of_u64 tmp)\<rparr>) ts_field
       else fail_with DQERR_ERR))))"

definition parseDirectBranch :: "SliceFileParser \<Rightarrow> NexusMessage \<Rightarrow> Analytics \<Rightarrow> unit outcome \<times> Parse" where
  "parseDirectBranch = parse_msg TCODE_DIRECT_BRANCH
    (get_var (\<lambda>tmp width. set_nm (\<lambda>m. m\<lparr>directBranch_i_cnt := int_of_u64 tmp\<rparr>) ts_field))"

definition parseDirectBranchWS :: "SliceFileParser \<Rightarrow> NexusMessage \<Rightarrow> Analytics \<Rightarrow> unit outcome \<times> Parse" where
  "parseDirectBranchWS = parse_msg TCODE_DIRECT_BRANCH_WS
    (get_fixed 4 (\<lambda>tmp. set_nm (\<lambda>m. m\<lparr>directBranchWS_sync := SyncReason_of tmp\<rparr>)
    (get_var (\<lambda>tmp width. set_nm (\<lambda>m. m\<lparr>directBranchWS_i_cnt := int_of_u64 tmp\<rparr>)
    (get_var (\<lambda>tmp width. set_addr_bits width
       (set_nm (\<lambda>m. m\<lparr>directBranchWS_f_addr := tmp\<rparr>) ts_field)))))))"

definition parseIndirectBranch :: "SliceFileParser \<Rightarrow> NexusMessage \<Rightarrow> Analytics \<Rightarrow> unit outcome \<times> Parse" where
  "parseIndirectBranch = parse_msg TCODE_INDIRECT_BRANCH
    (get_fixed 2 (\<lambda>tmp. set_nm (\<lambda>m. m\<lparr>indirectBranch_b_type := BType_of tmp\<rparr>)
    (get_var (\<lambda>tmp width. set_nm (\<lambda>m. m\<lparr>indirectBranch_i_cnt := int_of_u64 tmp\<rparr>)
    (get_var (\<lambda>tmp width. set_addr_bits width
       (set_nm (\<lambda>m. m\<lparr>indirectBranch_u_addr := tmp\<rparr>) ts_field)))))))"

definition parseIndirectBranchWS :: "SliceFileParser \<Rightarrow> NexusMessage \<Rightarrow> Analytics \<Rightarrow> unit outcome \<times> Parse" where
  "parseIndirectBranchWS = parse_msg TCODE_INDIRECT_BRANCH_WS
    (get_fixed 4 (\<lambda>tmp. set_nm (\<lambda>m. m\<lparr>indirectBranchWS_sync := SyncReason_of tmp\<rparr>)
    (get_fixed 2 (\<lambda>tmp. set_nm (\<lambda>m. m\<lparr>indirectBranchWS_b_type := BType_of tmp\<rparr>)
    (get_var (\<lambda>tmp width. set_nm (\<lambda>m. m\<lparr>indirectBranchWS_i_cnt := int_of_u64 tmp\<rparr>)
    (get_var (\<lambda>tmp width. set_addr_bits width
       (set_nm (\<lambda>m. m\<lparr>indirectBranchWS_f_addr := tmp\<rparr>) ts_field)))))))))"

definition parseSync :: "SliceFileParser \<Rightarrow> NexusMessage \<Rightarrow> Analytics \<Rightarrow> unit outcome \<times> Parse" where
  "parseSync = parse_msg TCODE_SYNC
    (get_fixed 4 (\<lambda>tmp. set_nm (\<lambda>m. m\<lparr>sync_sync := SyncReason_of tmp\<rparr>)
    (get_var (\<lambda>tmp width. set_nm (\<lambda>m. m\<lparr>sync_i_cnt := int_of_u64 tmp\<rparr>)
    (get_var (\<lambda>tmp width. set_addr_bits width
       (set_nm (\<lambda>m. m\<lparr>sync_f_addr := tmp\<rparr>) ts_field)))))))"

definition parseCorrelation :: "SliceFileParser \<Rightarrow> NexusMessage \<Rightarrow> Analytics \<Rightarrow> unit outcome \<times> Parse" where
  "parseCorrelation = parse_msg TCODE_CORRELATION
    (get_fixed 4 (\<lambda>tmp. set_nm (\<lambda>m. m\<lparr>correlation_evcode := ucast tmp\<rparr>)
    (get_fixed 2 (\<lambda>cdf. set_nm (\<lambda>m. m\<lparr>correlation_cdf := ucast cdf\<rparr>)
    (get_var (\<lambda>tmp width. set_nm (\<lambda>m. m\<lparr>correlation_i_cnt := int_of_u64 tmp\<rparr>)
       (if (ucast cdf :: u8) = 0 then ts_field
        else if (ucast cdf :: u8) = 1
          then get_var (\<lambda>tmp width. set_nm (\<lambda>m. m\<lparr>correlation_history := tmp\<rparr>) ts_field)
        else fail_with DQERR_ERR)))))))"

definition parseError :: "SliceFileParser \<Rightarrow> NexusMessage \<Rightarrow> Analytics \<Rightarrow> unit outcome \<times> Parse" where
  "parseError = parse_msg TCODE_ERROR
    (get_fixed 4 (\<lambda>tmp. set_nm (\<lambda>m. m\<lparr>error_etype := ucast tmp\<rparr>)
    (get_var (\<lambda>tmp width. ts_field))))"

definition parseOwnershipTrace :: "SliceFileParser \<Rightarrow> NexusMessage \<Rightarrow> Analytics \<Rightarrow> unit outcome \<times> Parse" where
  "parseOwnershipTrace = parse_msg TCODE_OWNERSHIP_TRACE
    (get_var (\<lambda>tmp width. set_nm (\<lambda>m. m\<lparr>
         ownership_pid := int_of_u64 (drop_bit 5 tmp),
         ownership_v := ucast (drop_bit 4 tmp AND 1),
         ownership_prv := ucast (drop_bit 2 tmp AND 3),
         ownership_tag := ucast (tmp AND 3)\<rparr>) ts_field))"

definition parseAuxAccessWrite :: "SliceFileParser \<Rightarrow> NexusMessage \<Rightarrow> Analytics \<Rightarrow> unit outcome \<times> Parse" where
  "parseAuxAccessWrite = parse_msg TCODE_AUXACCESS_WRITE
    (get_var (\<lambda>tmp width. set_nm (\<lambda>m. m\<lparr>auxAccessWrite_addr := ucast tmp\<rparr>)
    (get_var (\<lambda>tmp width. set_nm (\<lambda>m. m\<lparr>auxAccessWrite_data := ucast tmp\<rparr>) ts_field))))"

definition parseDataAcquisition :: "SliceFileParser \<Rightarrow> NexusMessage \<Rightarrow> Analytics \<Rightarrow> unit outcome \<times> Parse" where
  "parseDataAcquisition = parse_msg TCODE_DATA_ACQUISITION
    (get_var (\<lambda>tmp width. set_nm (\<lambda>m. m\<lparr>dataAcquisition_idTag := ucast tmp\<rparr>)
    (get_var (\<lambda>tmp width. set_nm (\<lambda>m. m\<lparr>dataAcquisition_data := ucast tmp\<rparr>) ts_field))))"

section \<open>Dispatch on the TCODE\<close>

text \<open>
  The \<^verbatim>\<open>switch (tcode)\<close> of \<^verbatim>\<open>readNextTraceMsg\<close>. A TCODE with no parser gives the error code and
  leaves the parser's \<^verbatim>\<open>status\<close> alone.
\<close>

definition TCode_val :: "TCode \<Rightarrow> u64" where
  "TCode_val t = (case t of
      TCODE_DEBUG_STATUS \<Rightarrow> 0 | TCODE_DEVICE_ID \<Rightarrow> 1 | TCODE_OWNERSHIP_TRACE \<Rightarrow> 2
    | TCODE_DIRECT_BRANCH \<Rightarrow> 3 | TCODE_INDIRECT_BRANCH \<Rightarrow> 4 | TCODE_DATA_WRITE \<Rightarrow> 5
    | TCODE_DATA_READ \<Rightarrow> 6 | TCODE_DATA_ACQUISITION \<Rightarrow> 7 | TCODE_ERROR \<Rightarrow> 8 | TCODE_SYNC \<Rightarrow> 9
    | TCODE_CORRECTION \<Rightarrow> 10 | TCODE_DIRECT_BRANCH_WS \<Rightarrow> 11 | TCODE_INDIRECT_BRANCH_WS \<Rightarrow> 12
    | TCODE_DATA_WRITE_WS \<Rightarrow> 13 | TCODE_DATA_READ_WS \<Rightarrow> 14 | TCODE_WATCHPOINT \<Rightarrow> 15
    | TCODE_OUTPUT_PORTREPLACEMENT \<Rightarrow> 20 | TCODE_INPUT_PORTREPLACEMENT \<Rightarrow> 21
    | TCODE_AUXACCESS_READ \<Rightarrow> 22 | TCODE_AUXACCESS_WRITE \<Rightarrow> 23 | TCODE_AUXACCESS_READNEXT \<Rightarrow> 24
    | TCODE_AUXACCESS_WRITENEXT \<Rightarrow> 25 | TCODE_AUXACCESS_RESPONSE \<Rightarrow> 26 | TCODE_RESOURCEFULL \<Rightarrow> 27
    | TCODE_INDIRECTBRANCHHISTORY \<Rightarrow> 28 | TCODE_INDIRECTBRANCHHISTORY_WS \<Rightarrow> 29
    | TCODE_REPEATBRANCH \<Rightarrow> 30 | TCODE_REPEATINSTRUCTION \<Rightarrow> 31 | TCODE_REPEATINSTRUCTION_WS \<Rightarrow> 32
    | TCODE_CORRELATION \<Rightarrow> 33 | TCODE_INCIRCUITTRACE \<Rightarrow> 34 | TCODE_INCIRCUITTRACE_WS \<Rightarrow> 35
    | TCODE_UNDEFINED \<Rightarrow> 36)"

definition parse_tcode :: "u64 \<Rightarrow> SliceFileParser \<Rightarrow> NexusMessage \<Rightarrow> Analytics \<Rightarrow> unit outcome \<times> Parse" where
  "parse_tcode tc s nm a =
     (if tc = TCode_val TCODE_OWNERSHIP_TRACE then parseOwnershipTrace s nm a
      else if tc = TCode_val TCODE_DIRECT_BRANCH then parseDirectBranch s nm a
      else if tc = TCode_val TCODE_INDIRECT_BRANCH then parseIndirectBranch s nm a
      else if tc = TCode_val TCODE_DATA_ACQUISITION then parseDataAcquisition s nm a
      else if tc = TCode_val TCODE_ERROR then parseError s nm a
      else if tc = TCode_val TCODE_SYNC then parseSync s nm a
      else if tc = TCode_val TCODE_DIRECT_BRANCH_WS then parseDirectBranchWS s nm a
      else if tc = TCode_val TCODE_INDIRECT_BRANCH_WS then parseIndirectBranchWS s nm a
      else if tc = TCode_val TCODE_CORRELATION then parseCorrelation s nm a
      else if tc = TCode_val TCODE_AUXACCESS_WRITE then parseAuxAccessWrite s nm a
      else if tc = TCode_val TCODE_INDIRECTBRANCHHISTORY then parseIndirectHistory s nm a
      else if tc = TCode_val TCODE_INDIRECTBRANCHHISTORY_WS then parseIndirectHistoryWS s nm a
      else if tc = TCode_val TCODE_INCIRCUITTRACE then parseICT s nm a
      else if tc = TCode_val TCODE_INCIRCUITTRACE_WS then parseICTWS s nm a
      else if tc = TCode_val TCODE_RESOURCEFULL then parseResourceFull s nm a
      else (Inl (Rc DQERR_ERR),
            \<lparr>pf = s, pm = nm, pa = a, bits = 6, ts_bits = 0, addr_bits = 0\<rparr>))"

end
