(* ===== verification/Slice_Encoding.thy ===== *)
theory Slice_Encoding
  imports Slice_Fields
begin

text \<open>
  What the field readers promise to the message parsers. A message is a sequence of groups of
  data bits: each group ends with a slice that closes a variable field, the last one with the slice
  that ends the message. \<open>groups_at\<close> says which groups the bytes hold from a bit position on,
  \<open>enc_groups\<close> writes them, and the locale \<open>field_reader\<close> is the contract of the two readers
  in terms of them. The interpretation \<open>slice\<close> discharges it for \<^verbatim>\<open>parseFixedField\<close> and
  \<^verbatim>\<open>parseVarField\<close>.
\<close>

section \<open>Groups of data bits\<close>

definition num :: "bool list \<Rightarrow> u64" where
  "num bs = horner_sum of_bool 2 bs"

text \<open>The bytes from position \<open>k\<close> hold the groups \<open>gs\<close> of a message of \<open>n\<close> slices.\<close>

fun groups_at :: "u8 list \<Rightarrow> nat \<Rightarrow> nat \<Rightarrow> bool list list \<Rightarrow> bool" where
  "groups_at m n k [] = False"
| "groups_at m n k (g # gs) =
     (g \<noteq> [] \<and> (k + length g) mod 6 = 0 \<and>
      (\<forall>j < length g. sbit m (k + j) = g ! j) \<and>
      var_end m n (k div 6) = Some ((k + length g) div 6 - 1) \<and>
      (if gs = [] then m ! ((k + length g) div 6 - 1) AND 3 = MSEO_END
       else m ! ((k + length g) div 6 - 1) AND 3 \<noteq> MSEO_END \<and> groups_at m n (k + length g) gs))"

lemma groups_at_cases:
  assumes "groups_at m n k (g # gs)"
  obtains e where "k + length g = (e + 1) * 6" and "var_end m n (k div 6) = Some e"
    and "field_val m k (length g) = num g" and "m ! e AND 3 = MSEO_END \<longleftrightarrow> gs = []"
proof -
  define e where "e = (k + length g) div 6 - 1"
  have pos: "k + length g > 0" and d: "(k + length g) mod 6 = 0" using assms by auto
  then obtain c where c: "k + length g = 6 * c" by (metis mod_0_imp_dvd dvdE)
  then have "c > 0" using pos by (cases c) auto
  then have "k + length g = (e + 1) * 6" using c by (simp add: e_def)
  moreover have "map (\<lambda>j. sbit m (k + j)) [0..<length g] = g"
    using assms by (intro nth_equalityI) auto
  ultimately show ?thesis
    using that assms by (auto simp: e_def num_def field_val_def split: if_splits)
qed

text \<open>Dropping read bits of the first group keeps the rest.\<close>

lemma var_end_skip:
  "var_end m n i = Some e \<Longrightarrow> i \<le> j \<Longrightarrow> j \<le> e \<Longrightarrow> var_end m n j = Some e"
proof (induction m n i rule: var_end.induct)
  case (1 m n i)
  show ?case
  proof (cases "i = j")
    case True
    then show ?thesis using 1(2) by simp
  next
    case False
    then have "i < j" using 1(3) by simp
    then have ne: "m ! i AND 3 = 0" "i < n"
      using 1(2,4) by (auto simp: var_end.simps [of m n i] split: if_splits)
    then have "var_end m n (i + 1) = Some e" using 1(2) by (simp add: var_end.simps [of m n i])
    then show ?thesis using 1(1) ne \<open>i < j\<close> 1(4) by auto
  qed
qed

lemma groups_at_drop:
  assumes g: "groups_at m n k ((a @ b) # gs)" and "b \<noteq> []"
  shows "groups_at m n (k + length a) (b # gs)"
proof -
  obtain e where e: "k + length (a @ b) = (e + 1) * 6" "var_end m n (k div 6) = Some e"
    using g by (rule groups_at_cases)
  have "length b > 0" using assms(2) by simp
  then have "k + length a < (e + 1) * 6" unfolding e(1) [symmetric] by simp
  then have "(k + length a) div 6 \<le> e" by (simp add: less_mult_imp_div_less less_Suc_eq_le)
  moreover have "k div 6 \<le> (k + length a) div 6" by (simp add: div_le_mono)
  ultimately have v: "var_end m n ((k + length a) div 6) = Some e"
    using var_end_skip [OF e(2)] by simp
  have "sbit m (k + length a + j) = b ! j" if "j < length b" for j
  proof -
    have "sbit m (k + (length a + j)) = (a @ b) ! (length a + j)" using g that by simp
    then show ?thesis by (simp add: nth_append add.assoc)
  qed
  then show ?thesis using g v e(1) assms(2) by (simp add: add.assoc split: if_splits)
qed

section \<open>The contract of the field readers\<close>

text \<open>
  The encodings of a variable field that are read back: at most 64 bits, or a few more when the
  last slice pads the value with zeros. A value of 61 to 64 bits in a message without source bits
  takes 11 slices, so 66 bits, the two top ones zero. The check of \<^verbatim>\<open>parseVarField\<close> refuses a set bit
  among the two top ones; a field of 70 bits shifts a slice by 64 or more, which is undefined.
\<close>

definition fits :: "bool list \<Rightarrow> bool" where
  "fits g \<longleftrightarrow> length g \<le> 64 \<or> length g < 70 \<and> True \<notin> set (drop (min 64 (length g - 2)) g)"

lemma fits_short: "length g \<le> 64 \<Longrightarrow> fits g"
  by (simp add: fits_def)

lemma fits_less: "fits g \<Longrightarrow> length g < 70"
  by (auto simp: fits_def)

lemma fits_top:
  assumes "fits g" and "64 < length g" and "min 64 (length g - 2) \<le> j" and "j < length g"
  shows "\<not> g ! j"
proof -
  have "g ! j = drop (min 64 (length g - 2)) g ! (j - min 64 (length g - 2))" using assms(3,4) by simp
  moreover have "\<dots> \<in> set (drop (min 64 (length g - 2)) g)" using assms(3,4) by (intro nth_mem) simp
  moreover have "True \<notin> set (drop (min 64 (length g - 2)) g)" using assms(1,2) by (simp add: fits_def)
  ultimately show ?thesis by metis
qed

text \<open>
  What is left to read in a parser state: the groups from the current position on. The
  end-of-message flag may be raised early, inside the last group, but never before it.
\<close>

definition remains :: "SliceFileParser \<Rightarrow> bool list list \<Rightarrow> bool" where
  "remains s gs \<longleftrightarrow>
     (case gs of [] \<Rightarrow> eom s
      | g # gs' \<Rightarrow> groups_at (msg s) (msgSlices s) (bitIndex s) gs \<and> (eom s \<longrightarrow> gs' = []))"

text \<open>Reading a field changes the position and the end-of-message flag only.\<close>

definition same_message :: "SliceFileParser \<Rightarrow> SliceFileParser \<Rightarrow> bool" where
  "same_message s s' \<longleftrightarrow> (\<exists>k e. s' = s\<lparr>bitIndex := k, eom := e\<rparr>)"

lemma same_message_refl: "same_message s s"
  unfolding same_message_def by (rule exI [of _ "bitIndex s"], rule exI [of _ "eom s"]) simp

lemma same_message_trans: "same_message s t \<Longrightarrow> same_message t u \<Longrightarrow> same_message s u"
  unfolding same_message_def by (elim exE, simp) blast

locale field_reader =
  fixes rd_fixed :: "nat \<Rightarrow> 's \<Rightarrow> u64 outcome \<times> 's"
    and rd_var :: "'s \<Rightarrow> (u64 \<times> nat) outcome \<times> 's"
    and at_end :: "'s \<Rightarrow> bool"
    and left :: "'s \<Rightarrow> bool list list \<Rightarrow> bool"
    and frame :: "'s \<Rightarrow> 's \<Rightarrow> bool"
  assumes fixed_law: "left s ((a @ b) # gs) \<Longrightarrow> a \<noteq> [] \<Longrightarrow> length a \<le> 64 \<Longrightarrow> b \<noteq> [] \<Longrightarrow>
      \<exists>s'. rd_fixed (length a) s = (Inr (num a), s') \<and> left s' (b # gs) \<and> frame s s'"
    and var_law: "left s (g # gs) \<Longrightarrow> fits g \<Longrightarrow>
      \<exists>s'. rd_var s = (Inr (num g, length g), s') \<and> left s' gs \<and> (gs \<noteq> [] \<longrightarrow> \<not> at_end s') \<and> frame s s'"
    and end_law: "left s [] \<Longrightarrow> at_end s"
    and frame_refl: "frame s s"
    and frame_trans: "frame s t \<Longrightarrow> frame t u \<Longrightarrow> frame s u"
begin

text \<open>A sequence of variable fields is read in order, and ends the message when it is used up.\<close>

fun read_vars :: "nat \<Rightarrow> 's \<Rightarrow> (u64 \<times> nat) list outcome \<times> 's" where
  "read_vars 0 s = (Inr [], s)"
| "read_vars (Suc n) s =
     (case rd_var s of
        (Inl e, s') \<Rightarrow> (Inl e, s')
      | (Inr x, s') \<Rightarrow> (case read_vars n s' of (Inl e, t) \<Rightarrow> (Inl e, t) | (Inr xs, t) \<Rightarrow> (Inr (x # xs), t)))"

lemma read_vars_all:
  "left s (gs @ hs) \<Longrightarrow> \<forall>g \<in> set gs. fits g \<Longrightarrow>
   \<exists>s'. read_vars (length gs) s = (Inr (map (\<lambda>g. (num g, length g)) gs), s') \<and> left s' hs \<and> frame s s'"
proof (induction gs arbitrary: s)
  case Nil
  then show ?case using frame_refl by auto
next
  case (Cons g gs)
  obtain s1 where 1: "rd_var s = (Inr (num g, length g), s1)" "left s1 (gs @ hs)" "frame s s1"
    using var_law [of s g "gs @ hs"] Cons.prems by auto
  obtain s2 where "read_vars (length gs) s1 = (Inr (map (\<lambda>g. (num g, length g)) gs), s2)"
      "left s2 hs" "frame s1 s2"
    using Cons.IH [OF 1(2)] Cons.prems(2) by auto
  then show ?case using 1 frame_trans by auto
qed

lemma read_vars_end:
  "left s gs \<Longrightarrow> \<forall>g \<in> set gs. fits g \<Longrightarrow>
   \<exists>s'. read_vars (length gs) s = (Inr (map (\<lambda>g. (num g, length g)) gs), s') \<and> at_end s'"
  using read_vars_all [of s gs "[]"] end_law by auto

end

lemma parseFixedField_group:
  assumes r: "remains s ((a @ b) # gs)" and a: "a \<noteq> []" "length a \<le> 64" "b \<noteq> []"
  shows "\<exists>s'. parseFixedField (length a) s = (Inr (num a), s') \<and> remains s' (b # gs) \<and> same_message s s'"
proof -
  have g: "groups_at (msg s) (msgSlices s) (bitIndex s) ((a @ b) # gs)" and em: "eom s \<longrightarrow> gs = []"
    using r by (auto simp: remains_def)
  define k where "k = bitIndex s"
  obtain e where e: "k + length (a @ b) = (e + 1) * 6"
      "var_end (msg s) (msgSlices s) (k div 6) = Some e" "msg s ! e AND 3 = MSEO_END \<longleftrightarrow> gs = []"
    using groups_at_cases [OF g] unfolding k_def by metis
  have lb: "length b > 0" using a(3) by simp
  have lim: "k + length a < (e + 1) * 6" unfolding e(1) [symmetric] using lb by simp
  have en: "e < msgSlices s" using var_end_range [OF e(2)] by simp
  then have "(e + 1) * 6 \<le> msgSlices s * 6" by simp
  with lim have len: "k + length a < msgSlices s * 6" by (rule less_le_trans)
  have "field_val (msg s) k (length a) = num a"
  proof -
    have "map (\<lambda>j. sbit (msg s) (k + j)) [0..<length a] = a"
      using g by (intro nth_equalityI) (auto simp: nth_append k_def)
    then show ?thesis by (simp add: field_val_def num_def)
  qed
  note fv = this
  define q where "q = fixed_stop s (length a)"
  have "q \<le> (k + length a) div 6" by (simp add: q_def k_def fixed_stop_def div_le_mono)
  also have "\<dots> \<le> e" using lim by (simp add: less_mult_imp_div_less less_Suc_eq_le)
  finally have qe: "q \<le> e" .
  have "k div 6 \<le> q" by (simp add: q_def k_def fixed_stop_def div_le_mono)
  with qe have "var_end (msg s) (msgSlices s) q = Some e" using var_end_skip [OF e(2)] by simp
  then have "msg s ! q AND 3 = MSEO_END \<Longrightarrow> q = e"
    by (auto simp: var_end.simps [of _ _ q] mseo_defs split: if_splits)
  then have stop: "msg s ! q AND 3 = MSEO_END \<Longrightarrow> gs = []" using e(3) by auto
  have la: "0 < length a" using a(1) by simp
  let ?s = "s\<lparr>bitIndex := k + length a, eom := eom s \<or> msg s ! q AND 3 = MSEO_END\<rparr>"
  have "parseFixedField (length a) s = (Inr (num a), ?s)"
  proof -
    have k: "bitIndex s = bitIndex s div 6 * 6 + bitIndex s mod 6" by simp
    show ?thesis
      using a(1,2) len fv fixed_cross_val [OF k _ _ a(2), of "msg s"]
        fixed_within_val [OF k, of "length a" "msg s"]
      by (auto simp: parseFixedField_def Let_def fixed_stop_def k_def q_def)
  qed
  moreover have "remains ?s (b # gs)"
    using groups_at_drop [OF g a(3)] em stop by (auto simp: remains_def k_def)
  ultimately show ?thesis unfolding same_message_def by blast
qed

lemma parseVarField_group:
  assumes r: "remains s (g # gs)" and w: "fits g"
  shows "\<exists>s'. parseVarField s = (Inr (num g, length g), s') \<and> remains s' gs \<and>
     (gs \<noteq> [] \<longrightarrow> \<not> eom s') \<and> same_message s s'"
proof -
  have g: "groups_at (msg s) (msgSlices s) (bitIndex s) (g # gs)" and em: "eom s \<longrightarrow> gs = []"
    using r by (auto simp: remains_def)
  obtain e where e: "bitIndex s + length g = (e + 1) * 6"
      "var_end (msg s) (msgSlices s) (bitIndex s div 6) = Some e"
      "field_val (msg s) (bitIndex s) (length g) = num g" "msg s ! e AND 3 = MSEO_END \<longleftrightarrow> gs = []"
    using groups_at_cases [OF g] by metis
  have vw: "var_width s e = length g" using e(1) by (simp add: var_width_def)
  let ?s = "s\<lparr>bitIndex := (e + 1) * 6, eom := eom s \<or> msg s ! e AND 3 = MSEO_END\<rparr>"
  have top: "\<not> bit (msg s ! e) 6" "\<not> bit (msg s ! e) 7" if l: "64 < length g"
  proof -
    have at: "sbit (msg s) (bitIndex s + j) = g ! j" if "j < length g" for j using g that by simp
    have k: "bitIndex s + (length g - 2) = e * 6 + 4" "bitIndex s + (length g - 1) = e * 6 + 5"
      using e(1) l by simp_all
    have "sbit (msg s) (e * 6 + 4) = g ! (length g - 2)" "sbit (msg s) (e * 6 + 5) = g ! (length g - 1)"
      using at [of "length g - 2"] at [of "length g - 1"] l unfolding k by simp_all
    then show "\<not> bit (msg s ! e) 6" "\<not> bit (msg s ! e) 7"
      using fits_top [OF w l, of "length g - 2"] fits_top [OF w l, of "length g - 1"] l
      by (simp_all add: sbit_def)
  qed
  have "parseVarField s = (Inr (num g, length g), ?s)"
    using parseVarField_unfold [OF e(2)] fits_less [OF w] top e(3) by (auto simp: vw)
  moreover have "remains ?s gs"
  proof (cases gs)
    case Nil
    then show ?thesis using e(4) by (simp add: remains_def)
  next
    case (Cons h hs)
    then show ?thesis using g em e(1,4) by (auto simp: remains_def)
  qed
  moreover have "gs \<noteq> [] \<longrightarrow> \<not> eom ?s" using em e(4) by auto
  ultimately show ?thesis unfolding same_message_def by blast
qed

interpretation slice: field_reader parseFixedField parseVarField eom remains same_message
proof (unfold_locales, goal_cases)
  case (1 s a b gs)
  then show ?case by (rule parseFixedField_group)
next
  case (2 s g gs)
  then show ?case by (rule parseVarField_group)
next
  case (3 s)
  then show ?case by (simp add: remains_def)
next
  case (4 s)
  show ?case by (rule same_message_refl)
next
  case (5 s t u)
  then show ?case by (rule same_message_trans)
qed

section \<open>Writing groups as slices\<close>

definition enc_slice :: "bool list \<Rightarrow> u8 \<Rightarrow> u8" where
  "enc_slice bs t = push_bit 2 (horner_sum of_bool 2 bs) OR t"

fun enc_group :: "u8 \<Rightarrow> bool list \<Rightarrow> u8 list" where
  "enc_group t bs =
     (if length bs \<le> 6 then [enc_slice bs t]
      else enc_slice (take 6 bs) MSEO_NORMAL # enc_group t (drop 6 bs))"

declare enc_group.simps [simp del]

fun enc_groups :: "bool list list \<Rightarrow> u8 list" where
  "enc_groups [] = []"
| "enc_groups [g] = enc_group MSEO_END g"
| "enc_groups (g # gs) = enc_group MSEO_VAR_END g @ enc_groups gs"

text \<open>The groups fill their slices.\<close>

definition whole :: "bool list \<Rightarrow> bool" where
  "whole g \<longleftrightarrow> g \<noteq> [] \<and> length g mod 6 = 0"

lemma bit_enc_slice:
  "take_bit 2 t = t \<Longrightarrow> j < 6 \<Longrightarrow> j < length bs \<Longrightarrow> bit (enc_slice bs t) (2 + j) = bs ! j"
proof -
  assume a: "take_bit 2 t = t" "j < 6" "j < length bs"
  then have "\<not> bit t (2 + j)" by (metis bit_take_bit_iff not_add_less1)
  then show ?thesis
    using a(2,3) by (simp add: enc_slice_def bit_or_iff bit_push_bit_iff bit_horner_sum_bit_iff)
qed

lemma enc_slice_mseo: "take_bit 2 t = t \<Longrightarrow> enc_slice bs t AND 3 = t"
proof -
  assume a: "take_bit 2 t = t"
  have "(3::u8) = mask 2" by (simp add: mask_eq_exp_minus_1)
  then have "enc_slice bs t AND 3 = take_bit 2 (enc_slice bs t)" by (simp add: take_bit_eq_mask)
  also have "\<dots> = take_bit 2 t" by (simp add: enc_slice_def take_bit_push_bit)
  finally show ?thesis using a by simp
qed

lemma mseo_take_bit:
  "take_bit 2 MSEO_NORMAL = MSEO_NORMAL" "take_bit 2 MSEO_VAR_END = MSEO_VAR_END"
  "take_bit 2 MSEO_END = MSEO_END"
  by (simp_all add: mseo_defs)

lemma whole_cases:
  assumes "whole g"
  obtains c where "length g = 6 * Suc c"
proof -
  have "length g mod 6 = 0" "length g > 0" using assms by (auto simp: whole_def)
  then obtain c where "length g = 6 * c" by (metis mod_0_imp_dvd dvdE)
  with \<open>length g > 0\<close> that show ?thesis by (cases c) auto
qed

lemma enc_group_shape:
  "length g = 6 * Suc c \<Longrightarrow> length (enc_group t g) = Suc c \<and>
   (\<forall>i < Suc c. enc_group t g ! i =
      enc_slice (take 6 (drop (6 * i) g)) (if i = c then t else MSEO_NORMAL))"
proof (induction c arbitrary: g)
  case 0
  then show ?case by (simp add: enc_group.simps)
next
  case (Suc c)
  have "length (drop 6 g) = 6 * Suc c" using Suc.prems by simp
  note IH = Suc.IH [OF this]
  have u: "enc_group t g = enc_slice (take 6 g) MSEO_NORMAL # enc_group t (drop 6 g)"
    using Suc.prems by (simp add: enc_group.simps [of t g])
  have "enc_group t g ! i = enc_slice (take 6 (drop (6 * i) g)) (if i = Suc c then t else MSEO_NORMAL)"
    if "i < Suc (Suc c)" for i
    using that IH by (cases i) (simp_all add: u add.commute)
  then show ?case using IH u by simp
qed

text \<open>One group, at any place of a message.\<close>

lemma enc_group_at:
  assumes c: "length g = 6 * Suc c" and t: "t = MSEO_VAR_END \<or> t = MSEO_END"
    and m: "m = pre @ enc_group t g @ post" and n: "length pre + Suc c \<le> n"
  shows "\<forall>j < length g. sbit m (6 * length pre + j) = g ! j"
    and "var_end m n (length pre) = Some (length pre + c)"
    and "m ! (length pre + c) AND 3 = t"
proof -
  note shape = enc_group_shape [OF c, of t]
  have tb: "take_bit 2 t = t" using t mseo_take_bit by auto
  have at: "m ! (length pre + i) =
      enc_slice (take 6 (drop (6 * i) g)) (if i = c then t else MSEO_NORMAL)" if "i < Suc c" for i
    using that shape by (simp add: m nth_append)
  show "\<forall>j < length g. sbit m (6 * length pre + j) = g ! j"
  proof (intro allI impI)
    fix j
    assume j: "j < length g"
    define i where "i = j div 6"
    define r where "r = j mod 6"
    have jr: "j = 6 * i + r" "r < 6" by (simp_all add: i_def r_def)
    have "j < 6 * Suc c" using j unfolding c .
    then have ic: "i < Suc c" unfolding i_def by (simp add: less_mult_imp_div_less mult.commute)
    have "sbit m (6 * length pre + j) = bit (m ! (length pre + i)) (2 + r)"
      using sbit_slice [of "length pre + i" "6 * length pre + j" m] jr
      by (simp add: algebra_simps)
    also have "\<dots> = take 6 (drop (6 * i) g) ! r"
      unfolding at [OF ic] using jr(2) ic c mseo_take_bit tb by (intro bit_enc_slice) auto
    also have "\<dots> = g ! j" using jr ic c by simp
    finally show "sbit m (6 * length pre + j) = g ! j" .
  qed
  show e: "m ! (length pre + c) AND 3 = t" using at [of c] enc_slice_mseo [OF tb] by simp
  show "var_end m n (length pre) = Some (length pre + c)"
  proof (rule var_end_eqI)
    show "m ! (length pre + c) AND 3 \<noteq> 0" using e t by (auto simp: mseo_defs)
    show "m ! j AND 3 = 0" if j: "length pre \<le> j" "j < length pre + c" for j
    proof -
      have "j - length pre < c" "length pre + (j - length pre) = j" using j by auto
      then show ?thesis
        using at [of "j - length pre"] enc_slice_mseo [OF mseo_take_bit(1)] by (simp add: mseo_defs)
    qed
  qed (use n in auto)
qed

lemma length_enc_groups:
  "gs \<noteq> [] \<Longrightarrow> \<forall>g \<in> set gs. whole g \<Longrightarrow> length (enc_groups gs) * 6 = length (concat gs)"
proof (induction gs rule: enc_groups.induct)
  case (2 g)
  then obtain c where "length g = 6 * Suc c" by (auto elim: whole_cases)
  then show ?case using enc_group_shape [of g c] by simp
next
  case (3 g h hs)
  then obtain c where "length g = 6 * Suc c" by (auto elim: whole_cases)
  then show ?case using 3 enc_group_shape [of g c] by (simp add: algebra_simps)
qed simp

lemma groups_at_enc:
  "gs \<noteq> [] \<Longrightarrow> \<forall>g \<in> set gs. whole g \<Longrightarrow> m = pre @ enc_groups gs @ post \<Longrightarrow>
   n = length pre + length (enc_groups gs) \<Longrightarrow> groups_at m n (6 * length pre) gs"
proof (induction gs arbitrary: pre rule: enc_groups.induct)
  case (2 g)
  then obtain c where c: "length g = 6 * Suc c" by (auto elim: whole_cases)
  have "length pre + Suc c \<le> n" using 2(4) enc_group_shape [OF c] by simp
  note at = enc_group_at [OF c disjI2 [OF refl] _ this, of m post]
  have d: "(6 * length pre + length g) div 6 = Suc (length pre + c)" using c by simp
  show ?case using 2 c at d by auto
next
  case (3 g h hs)
  then obtain c where c: "length g = 6 * Suc c" by (auto elim: whole_cases)
  have "length pre + Suc c \<le> n" using 3(5) enc_group_shape [OF c] by simp
  note at = enc_group_at [OF c disjI1 [OF refl] _ this, of m "enc_groups (h # hs) @ post"]
  have l: "length (enc_group MSEO_VAR_END g) = Suc c" using enc_group_shape [OF c] by simp
  have d: "(6 * length pre + length g) div 6 = Suc (length pre + c)" using c by simp
  have "groups_at m n (6 * length (pre @ enc_group MSEO_VAR_END g)) (h # hs)"
    using 3(3-5) by (intro 3(1)) auto
  moreover have "6 * length (pre @ enc_group MSEO_VAR_END g) = 6 * length pre + length g"
    using c l by simp
  ultimately have rest: "groups_at m n (6 * length pre + length g) (h # hs)" by (simp only:)
  have "m = pre @ enc_group MSEO_VAR_END g @ enc_groups (h # hs) @ post" using 3(4) by simp
  note at = at [OF this]
  have "m ! (length pre + c) AND 3 \<noteq> MSEO_END" using at(3) by (simp add: mseo_defs)
  then show ?case unfolding groups_at.simps(2) [of m n _ g] using at(1,2) rest c d by auto
qed simp

end
