(* ===== verification/Slice_Roundtrip.thy ===== *)
theory Slice_Roundtrip
  imports Slice_Messages Slice_Encoding
begin

text \<open>
  Every message parser reads back the message an encoder wrote. The encoding of a message is
  described by its fixed fields (width and value) and its variable fields in wire order;
  \<open>encodes\<close> lets the encoder choose how many bits each variable field takes. \<open>reads\<close> is
  the judgement that a parser step consumes given groups and turns one message record into
  another; its rules follow the steps of the parsers, over the contract \<open>field_reader\<close>.
\<close>

section \<open>The wire format\<close>

definition SyncReason_to :: "SyncReason \<Rightarrow> u64" where
  "SyncReason_to x = (case x of SYNC_EVTI \<Rightarrow> 0 | SYNC_EXIT_RESET \<Rightarrow> 1 | SYNC_T_CNT \<Rightarrow> 2
    | SYNC_EXIT_DEBUG \<Rightarrow> 3 | SYNC_I_CNT_OVERFLOW \<Rightarrow> 4 | SYNC_TRACE_ENABLE \<Rightarrow> 5
    | SYNC_WATCHPINT \<Rightarrow> 6 | SYNC_FIFO_OVERRUN \<Rightarrow> 7 | SYNC_EXIT_POWERDOWN \<Rightarrow> 9
    | SYNC_MESSAGE_CONTENTION \<Rightarrow> 11 | SYNC_PC_SAMPLE \<Rightarrow> 15 | SYNC_NONE \<Rightarrow> 16 | SYNC_cast v \<Rightarrow> v)"

definition ICTReason_to :: "ICTReason \<Rightarrow> u64" where
  "ICTReason_to x = (case x of ICT_CONTROL \<Rightarrow> 0 | ICT_EXT_TRIG \<Rightarrow> 8 | ICT_INFERABLECALL \<Rightarrow> 9
    | ICT_EXCEPTION \<Rightarrow> 10 | ICT_INTERRUPT \<Rightarrow> 11 | ICT_CONTEXT \<Rightarrow> 13 | ICT_WATCHPOINT \<Rightarrow> 14
    | ICT_PC_SAMPLE \<Rightarrow> 15 | ICT_NONE \<Rightarrow> 16 | ICT_cast v \<Rightarrow> v)"

definition BType_to :: "BType \<Rightarrow> u64" where
  "BType_to x = (case x of BTYPE_INDIRECT \<Rightarrow> 0 | BTYPE_EXCEPTION \<Rightarrow> 1 | BTYPE_HARDWARE \<Rightarrow> 2
    | BTYPE_UNDEFINED \<Rightarrow> 3 | BTYPE_cast v \<Rightarrow> v)"

text \<open>The process, the virtual flag, the privilege and the tag share one variable field.\<close>

definition ownership_word :: "NexusMessage \<Rightarrow> u64" where
  "ownership_word nm =
     push_bit 5 (word_of_int (ownership_pid nm)) OR push_bit 4 (ucast (ownership_v nm)) OR
     push_bit 2 (ucast (ownership_prv nm)) OR ucast (ownership_tag nm)"

definition fixed_fields :: "NexusMessage \<Rightarrow> (nat \<times> u64) list" where
  "fixed_fields nm = (case tcode nm of
      TCODE_INCIRCUITTRACE \<Rightarrow> [(4, ICTReason_to (ict_cksrc nm)), (2, ucast (ict_ckdf nm))]
    | TCODE_INCIRCUITTRACE_WS \<Rightarrow> [(4, ICTReason_to (ict_cksrc nm)), (2, ucast (ict_ckdf nm))]
    | TCODE_INDIRECTBRANCHHISTORY \<Rightarrow> [(2, BType_to (indirectHistory_b_type nm))]
    | TCODE_INDIRECTBRANCHHISTORY_WS \<Rightarrow>
        [(4, SyncReason_to (indirectHistoryWS_sync nm)), (2, BType_to (indirectHistoryWS_b_type nm))]
    | TCODE_RESOURCEFULL \<Rightarrow> [(4, word_of_int (resourceFull_rCode nm))]
    | TCODE_DIRECT_BRANCH_WS \<Rightarrow> [(4, SyncReason_to (directBranchWS_sync nm))]
    | TCODE_INDIRECT_BRANCH \<Rightarrow> [(2, BType_to (indirectBranch_b_type nm))]
    | TCODE_INDIRECT_BRANCH_WS \<Rightarrow>
        [(4, SyncReason_to (indirectBranchWS_sync nm)), (2, BType_to (indirectBranchWS_b_type nm))]
    | TCODE_SYNC \<Rightarrow> [(4, SyncReason_to (sync_sync nm))]
    | TCODE_CORRELATION \<Rightarrow> [(4, ucast (correlation_evcode nm)), (2, ucast (correlation_cdf nm))]
    | TCODE_ERROR \<Rightarrow> [(4, ucast (error_etype nm))]
    | _ \<Rightarrow> [])"

definition var_fields :: "NexusMessage \<Rightarrow> u64 list" where
  "var_fields nm = (case tcode nm of
      TCODE_INCIRCUITTRACE \<Rightarrow> ict_ckdata0 nm # (if ict_ckdf nm = 0 then [] else [ict_ckdata1 nm])
    | TCODE_INCIRCUITTRACE_WS \<Rightarrow> ict_ckdata0 nm # (if ict_ckdf nm = 0 then [] else [ict_ckdata1 nm])
    | TCODE_INDIRECTBRANCHHISTORY \<Rightarrow>
        [word_of_int (indirectHistory_i_cnt nm), indirectHistory_u_addr nm, indirectHistory_history nm]
    | TCODE_INDIRECTBRANCHHISTORY_WS \<Rightarrow>
        [word_of_int (indirectHistoryWS_i_cnt nm), indirectHistoryWS_f_addr nm, indirectHistoryWS_history nm]
    | TCODE_RESOURCEFULL \<Rightarrow>
        [if resourceFull_rCode nm = 0 then word_of_int (resourceFull_i_cnt nm)
         else if resourceFull_rCode nm = 1 then resourceFull_history nm
         else if resourceFull_rCode nm = 8 then ucast (resourceFull_notTakenCount nm)
         else ucast (resourceFull_takenCount nm)]
    | TCODE_DIRECT_BRANCH \<Rightarrow> [word_of_int (directBranch_i_cnt nm)]
    | TCODE_DIRECT_BRANCH_WS \<Rightarrow> [word_of_int (directBranchWS_i_cnt nm), directBranchWS_f_addr nm]
    | TCODE_INDIRECT_BRANCH \<Rightarrow> [word_of_int (indirectBranch_i_cnt nm), indirectBranch_u_addr nm]
    | TCODE_INDIRECT_BRANCH_WS \<Rightarrow> [word_of_int (indirectBranchWS_i_cnt nm), indirectBranchWS_f_addr nm]
    | TCODE_SYNC \<Rightarrow> [word_of_int (sync_i_cnt nm), sync_f_addr nm]
    | TCODE_CORRELATION \<Rightarrow>
        word_of_int (correlation_i_cnt nm) # (if correlation_cdf nm = 0 then [] else [correlation_history nm])
    | TCODE_ERROR \<Rightarrow> [0]
    | TCODE_OWNERSHIP_TRACE \<Rightarrow> [ownership_word nm]
    | TCODE_AUXACCESS_WRITE \<Rightarrow> [ucast (auxAccessWrite_addr nm), ucast (auxAccessWrite_data nm)]
    | TCODE_DATA_ACQUISITION \<Rightarrow> [ucast (dataAcquisition_idTag nm), ucast (dataAcquisition_data nm)]
    | _ \<Rightarrow> [])"

text \<open>A message with values its wire fields can carry.\<close>

definition ok_int :: "int \<Rightarrow> bool" where
  "ok_int i \<longleftrightarrow> 0 \<le> i \<and> i < 2 ^ 31"

definition ok_sync :: "SyncReason \<Rightarrow> bool" where
  "ok_sync x \<longleftrightarrow> SyncReason_of (SyncReason_to x) = x"

definition ok_ict :: "ICTReason \<Rightarrow> bool" where
  "ok_ict x \<longleftrightarrow> ICTReason_of (ICTReason_to x) = x"

definition ok_btype :: "BType \<Rightarrow> bool" where
  "ok_btype x \<longleftrightarrow> BType_of (BType_to x) = x"

definition kind_ok :: "NexusMessage \<Rightarrow> bool" where
  "kind_ok nm = (case tcode nm of
      TCODE_INCIRCUITTRACE \<Rightarrow> ok_ict (ict_cksrc nm) \<and> ict_ckdf nm \<le> 1
    | TCODE_INCIRCUITTRACE_WS \<Rightarrow> ok_ict (ict_cksrc nm) \<and> ict_ckdf nm \<le> 1
    | TCODE_INDIRECTBRANCHHISTORY \<Rightarrow> ok_btype (indirectHistory_b_type nm) \<and> ok_int (indirectHistory_i_cnt nm)
    | TCODE_INDIRECTBRANCHHISTORY_WS \<Rightarrow>
        ok_sync (indirectHistoryWS_sync nm) \<and> ok_btype (indirectHistoryWS_b_type nm) \<and>
        ok_int (indirectHistoryWS_i_cnt nm)
    | TCODE_RESOURCEFULL \<Rightarrow>
        resourceFull_rCode nm = 0 \<and> ok_int (resourceFull_i_cnt nm) \<or>
        resourceFull_rCode nm = 1 \<or> resourceFull_rCode nm = 8 \<or> resourceFull_rCode nm = 9
    | TCODE_DIRECT_BRANCH \<Rightarrow> ok_int (directBranch_i_cnt nm)
    | TCODE_DIRECT_BRANCH_WS \<Rightarrow> ok_sync (directBranchWS_sync nm) \<and> ok_int (directBranchWS_i_cnt nm)
    | TCODE_INDIRECT_BRANCH \<Rightarrow> ok_btype (indirectBranch_b_type nm) \<and> ok_int (indirectBranch_i_cnt nm)
    | TCODE_INDIRECT_BRANCH_WS \<Rightarrow>
        ok_sync (indirectBranchWS_sync nm) \<and> ok_btype (indirectBranchWS_b_type nm) \<and>
        ok_int (indirectBranchWS_i_cnt nm)
    | TCODE_SYNC \<Rightarrow> ok_sync (sync_sync nm) \<and> ok_int (sync_i_cnt nm)
    | TCODE_CORRELATION \<Rightarrow> correlation_cdf nm \<le> 1 \<and> ok_int (correlation_i_cnt nm)
    | TCODE_ERROR \<Rightarrow> True
    | TCODE_OWNERSHIP_TRACE \<Rightarrow>
        ok_int (ownership_pid nm) \<and> take_bit 1 (ownership_v nm) = ownership_v nm \<and>
        take_bit 2 (ownership_prv nm) = ownership_prv nm \<and> take_bit 2 (ownership_tag nm) = ownership_tag nm
    | TCODE_AUXACCESS_WRITE \<Rightarrow> True
    | TCODE_DATA_ACQUISITION \<Rightarrow> True
    | _ \<Rightarrow> False)"

definition msg_ok :: "nat \<Rightarrow> NexusMessage \<Rightarrow> bool" where
  "msg_ok sb nm \<longleftrightarrow> kind_ok nm \<and> sb \<le> 8 \<and> take_bit sb (coreId nm) = coreId nm \<and>
     (\<forall>(w, v) \<in> set (fixed_fields nm). take_bit w v = v)"

text \<open>The groups of a message after its TCODE.\<close>

definition bits_n :: "nat \<Rightarrow> u64 \<Rightarrow> bool list" where
  "bits_n w v = map (bit v) [0..<w]"

definition head_bits :: "nat \<Rightarrow> NexusMessage \<Rightarrow> bool list" where
  "head_bits sb nm = bits_n sb (ucast (coreId nm)) @ concat (map (\<lambda>(w, v). bits_n w v) (fixed_fields nm))"

definition ts_fields :: "NexusMessage \<Rightarrow> u64 list" where
  "ts_fields nm = (if haveTimestamp nm then [timestamp nm] else [])"

text \<open>
  \<open>encodes_by P\<close> asks \<open>P\<close> of the bits of every variable field. The decoder reads all the fields
  that \<open>fits\<close> allows; another reader of the same messages may read fewer.
\<close>

definition encodes_by :: "(bool list \<Rightarrow> bool) \<Rightarrow> nat \<Rightarrow> NexusMessage \<Rightarrow> bool list list \<Rightarrow> bool" where
  "encodes_by P sb nm gs \<longleftrightarrow>
     (\<exists>v vs. gs = (head_bits sb nm @ v) # vs \<and> map num (v # vs) = var_fields nm @ ts_fields nm \<and>
        (\<forall>g \<in> set (v # vs). g \<noteq> [] \<and> P g))"

definition encodes :: "nat \<Rightarrow> NexusMessage \<Rightarrow> bool list list \<Rightarrow> bool" where
  "encodes = encodes_by fits"

text \<open>What a parser leaves in the record: the fields of the message kind, and nothing else.\<close>

definition copy_kind :: "NexusMessage \<Rightarrow> NexusMessage \<Rightarrow> NexusMessage" where
  "copy_kind nm m = (case tcode nm of
      TCODE_INCIRCUITTRACE \<Rightarrow>
        (if ict_ckdf nm = 0
         then m\<lparr>ict_cksrc := ict_cksrc nm, ict_ckdf := ict_ckdf nm, ict_ckdata0 := ict_ckdata0 nm\<rparr>
         else m\<lparr>ict_cksrc := ict_cksrc nm, ict_ckdf := ict_ckdf nm, ict_ckdata0 := ict_ckdata0 nm,
                ict_ckdata1 := ict_ckdata1 nm\<rparr>)
    | TCODE_INCIRCUITTRACE_WS \<Rightarrow>
        (if ict_ckdf nm = 0
         then m\<lparr>ict_cksrc := ict_cksrc nm, ict_ckdf := ict_ckdf nm, ict_ckdata0 := ict_ckdata0 nm\<rparr>
         else m\<lparr>ict_cksrc := ict_cksrc nm, ict_ckdf := ict_ckdf nm, ict_ckdata0 := ict_ckdata0 nm,
                ict_ckdata1 := ict_ckdata1 nm\<rparr>)
    | TCODE_INDIRECTBRANCHHISTORY \<Rightarrow>
        m\<lparr>indirectHistory_b_type := indirectHistory_b_type nm, indirectHistory_i_cnt := indirectHistory_i_cnt nm,
          indirectHistory_u_addr := indirectHistory_u_addr nm, indirectHistory_history := indirectHistory_history nm\<rparr>
    | TCODE_INDIRECTBRANCHHISTORY_WS \<Rightarrow>
        m\<lparr>indirectHistoryWS_sync := indirectHistoryWS_sync nm, indirectHistoryWS_b_type := indirectHistoryWS_b_type nm,
          indirectHistoryWS_i_cnt := indirectHistoryWS_i_cnt nm, indirectHistoryWS_f_addr := indirectHistoryWS_f_addr nm,
          indirectHistoryWS_history := indirectHistoryWS_history nm\<rparr>
    | TCODE_RESOURCEFULL \<Rightarrow>
        (let m1 = m\<lparr>resourceFull_rCode := resourceFull_rCode nm\<rparr> in
         if resourceFull_rCode nm = 0 then m1\<lparr>resourceFull_i_cnt := resourceFull_i_cnt nm\<rparr>
         else if resourceFull_rCode nm = 1 then m1\<lparr>resourceFull_history := resourceFull_history nm\<rparr>
         else if resourceFull_rCode nm = 8 then m1\<lparr>resourceFull_notTakenCount := resourceFull_notTakenCount nm\<rparr>
         else m1\<lparr>resourceFull_takenCount := resourceFull_takenCount nm\<rparr>)
    | TCODE_DIRECT_BRANCH \<Rightarrow> m\<lparr>directBranch_i_cnt := directBranch_i_cnt nm\<rparr>
    | TCODE_DIRECT_BRANCH_WS \<Rightarrow>
        m\<lparr>directBranchWS_sync := directBranchWS_sync nm, directBranchWS_i_cnt := directBranchWS_i_cnt nm,
          directBranchWS_f_addr := directBranchWS_f_addr nm\<rparr>
    | TCODE_INDIRECT_BRANCH \<Rightarrow>
        m\<lparr>indirectBranch_b_type := indirectBranch_b_type nm, indirectBranch_i_cnt := indirectBranch_i_cnt nm,
          indirectBranch_u_addr := indirectBranch_u_addr nm\<rparr>
    | TCODE_INDIRECT_BRANCH_WS \<Rightarrow>
        m\<lparr>indirectBranchWS_sync := indirectBranchWS_sync nm, indirectBranchWS_b_type := indirectBranchWS_b_type nm,
          indirectBranchWS_i_cnt := indirectBranchWS_i_cnt nm, indirectBranchWS_f_addr := indirectBranchWS_f_addr nm\<rparr>
    | TCODE_SYNC \<Rightarrow>
        m\<lparr>sync_sync := sync_sync nm, sync_i_cnt := sync_i_cnt nm, sync_f_addr := sync_f_addr nm\<rparr>
    | TCODE_CORRELATION \<Rightarrow>
        (let m1 = m\<lparr>correlation_evcode := correlation_evcode nm, correlation_cdf := correlation_cdf nm,
                    correlation_i_cnt := correlation_i_cnt nm\<rparr> in
         if correlation_cdf nm = 0 then m1 else m1\<lparr>correlation_history := correlation_history nm\<rparr>)
    | TCODE_ERROR \<Rightarrow> m\<lparr>error_etype := error_etype nm\<rparr>
    | TCODE_OWNERSHIP_TRACE \<Rightarrow>
        m\<lparr>ownership_pid := ownership_pid nm, ownership_v := ownership_v nm,
          ownership_prv := ownership_prv nm, ownership_tag := ownership_tag nm\<rparr>
    | TCODE_AUXACCESS_WRITE \<Rightarrow>
        m\<lparr>auxAccessWrite_addr := auxAccessWrite_addr nm, auxAccessWrite_data := auxAccessWrite_data nm\<rparr>
    | TCODE_DATA_ACQUISITION \<Rightarrow>
        m\<lparr>dataAcquisition_idTag := dataAcquisition_idTag nm, dataAcquisition_data := dataAcquisition_data nm\<rparr>
    | _ \<Rightarrow> m)"

definition copy_ts :: "NexusMessage \<Rightarrow> NexusMessage \<Rightarrow> NexusMessage" where
  "copy_ts nm m = m\<lparr>haveTimestamp := haveTimestamp nm,
                    timestamp := (if haveTimestamp nm then timestamp nm else 0)\<rparr>"

definition copy_msg :: "NexusMessage \<Rightarrow> NexusMessage \<Rightarrow> NexusMessage" where
  "copy_msg nm m = copy_ts nm (copy_kind nm (m\<lparr>tcode := tcode nm, coreId := coreId nm\<rparr>))"

section \<open>The judgement of the parser steps\<close>

text \<open>
  \<open>reads f sb k gs m m'\<close>: from every state with \<open>sb\<close> source bits in which the groups \<open>gs\<close> are left
  to read and the message record is \<open>m\<close>, the step \<open>k\<close> consumes the message to its end, counts
  all its bits, and reports the record \<open>m'\<close> to the analytics. With \<open>f\<close> the step may rely on the
  end-of-message flag being down while groups are left, which holds after a variable field.
\<close>

definition reads :: "bool \<Rightarrow> nat \<Rightarrow> step \<Rightarrow> bool list list \<Rightarrow> NexusMessage \<Rightarrow> NexusMessage \<Rightarrow> bool" where
  "reads f sb k gs m m' \<longleftrightarrow>
     (\<forall>p. remains (pf p) gs \<and> (f \<and> gs \<noteq> [] \<longrightarrow> \<not> eom (pf p)) \<and> pm p = m \<and> srcbits (pf p) = sb \<longrightarrow>
        (\<exists>q. k p = update_info q \<and> pm q = m' \<and> pa q = pa p \<and>
             bits q = bits p + length (concat gs) \<and> eom (pf q) \<and> same_message (pf p) (pf q)))"

lemma same_message_srcbits: "same_message s s' \<Longrightarrow> srcbits s' = srcbits s"
  by (auto simp: same_message_def)

text \<open>A step that reads some bits and goes on reads what the rest reads, and these bits.\<close>

definition goes_to :: "Parse \<Rightarrow> nat \<Rightarrow> bool list list \<Rightarrow> NexusMessage \<Rightarrow> bool \<Rightarrow> Parse \<Rightarrow> bool" where
  "goes_to p b gs m f q \<longleftrightarrow> remains (pf q) gs \<and> (f \<and> gs \<noteq> [] \<longrightarrow> \<not> eom (pf q)) \<and> pm q = m \<and>
     pa q = pa p \<and> bits q = bits p + b \<and> same_message (pf p) (pf q)"

lemma reads_stepI:
  assumes k: "\<And>p. remains (pf p) gs \<Longrightarrow> (f \<and> gs \<noteq> [] \<Longrightarrow> \<not> eom (pf p)) \<Longrightarrow> pm p = m \<Longrightarrow>
      srcbits (pf p) = sb \<Longrightarrow> \<exists>q. step p = k q \<and> goes_to p b gs1 m1 f1 q"
    and l: "length (concat gs) = b + length (concat gs1)"
    and r: "reads f1 sb k gs1 m1 m'"
  shows "reads f sb step gs m m'"
  unfolding reads_def
proof (intro allI impI, elim conjE)
  fix p :: Parse
  assume p: "remains (pf p) gs" "f \<and> gs \<noteq> [] \<longrightarrow> \<not> eom (pf p)" "pm p = m" "srcbits (pf p) = sb"
  from k [OF p(1) mp [OF p(2)] p(3,4)] obtain q where q: "step p = k q" "goes_to p b gs1 m1 f1 q"
    by blast
  then have "remains (pf q) gs1" "f1 \<and> gs1 \<noteq> [] \<longrightarrow> \<not> eom (pf q)" "pm q = m1" "srcbits (pf q) = sb"
    using same_message_srcbits [of "pf p" "pf q"] p(4) by (auto simp: goes_to_def)
  with r obtain z where "k q = update_info z" "pm z = m'" "pa z = pa q"
      "bits z = bits q + length (concat gs1)" "eom (pf z)" "same_message (pf q) (pf z)"
    unfolding reads_def by blast
  then show "\<exists>q. step p = update_info q \<and> pm q = m' \<and> pa q = pa p \<and>
      bits q = bits p + length (concat gs) \<and> eom (pf q) \<and> same_message (pf p) (pf q)"
    using q l same_message_trans [of "pf p" "pf q" "pf z"]
    by (intro exI [of _ z]) (auto simp: goes_to_def)
qed

lemma reads_fixed:
  assumes a: "length a = w" "a \<noteq> []" "w \<le> 64" "b \<noteq> []" and k: "reads False sb (k (num a)) (b # gs) m m'"
  shows "reads f sb (get_fixed w k) ((a @ b) # gs) m m'"
proof (rule reads_stepI [OF _ _ k])
  fix p :: Parse
  assume p: "remains (pf p) ((a @ b) # gs)" "pm p = m"
  obtain s1 where s1: "parseFixedField w (pf p) = (Inr (num a), s1)" "remains s1 (b # gs)"
      "same_message (pf p) s1"
    using slice.fixed_law [OF p(1) a(2) _ a(4)] a(1,3) by auto
  then show "\<exists>q. get_fixed w k p = k (num a) q \<and> goes_to p w (b # gs) m False q"
    using p(2) by (intro exI [of _ "p\<lparr>pf := s1, bits := bits p + w\<rparr>"])
      (simp add: get_fixed_def goes_to_def)
qed (use a in simp)

lemma reads_var:
  assumes g: "fits g" and k: "reads True sb (k (num g) (length g)) gs m m'"
  shows "reads f sb (get_var k) (g # gs) m m'"
proof (rule reads_stepI [OF _ _ k])
  fix p :: Parse
  assume p: "remains (pf p) (g # gs)" "pm p = m"
  obtain s1 where s1: "parseVarField (pf p) = (Inr (num g, length g), s1)" "remains s1 gs"
      "gs \<noteq> [] \<longrightarrow> \<not> eom s1" "same_message (pf p) s1"
    using slice.var_law [OF p(1) g] by auto
  then show "\<exists>q. get_var k p = k (num g) (length g) q \<and> goes_to p (length g) gs m True q"
    using p(2) by (intro exI [of _ "p\<lparr>pf := s1, bits := bits p + length g\<rparr>"])
      (simp add: get_var_def goes_to_def)
qed simp

lemma reads_set: "reads f sb k gs (h m) m' \<Longrightarrow> reads f sb (set_nm h k) gs m m'"
  by (rule reads_stepI [of _ _ _ _ _ k 0 gs "h m" f])
    (auto simp: set_nm_def goes_to_def same_message_refl)

lemma reads_addr: "reads f sb k gs m m' \<Longrightarrow> reads f sb (set_addr_bits w k) gs m m'"
  by (rule reads_stepI [of _ _ _ _ _ k 0 gs m f])
    (auto simp: set_addr_bits_def goes_to_def same_message_refl)

lemma reads_cong:
  "(\<And>p. srcbits (pf p) = sb \<Longrightarrow> remains (pf p) gs \<Longrightarrow> (f \<and> gs \<noteq> [] \<Longrightarrow> \<not> eom (pf p)) \<Longrightarrow> k p = k' p) \<Longrightarrow>
   reads f sb k' gs m m' \<Longrightarrow> reads f sb k gs m m'"
  by (simp add: reads_def)

text \<open>The source field and the timestamp.\<close>

lemma bits_n_simps:
  "length (bits_n w v) = w" "bits_n 0 v = []" "bits_n w v = [] \<longleftrightarrow> w = 0"
  "num (bits_n w v) = take_bit w v"
  by (simp_all add: bits_n_def num_def horner_sum_bit_eq_take_bit)

lemma ucast_u8_bits: "ucast (take_bit n (ucast (c :: u8) :: u64)) = take_bit n c"
  by (rule bit_word_eqI) (auto simp: bit_ucast_iff bit_take_bit_iff)

lemma reads_src:
  assumes c: "take_bit sb c = c" "sb \<le> 8" and b: "b \<noteq> []"
    and k: "reads False sb k (b # gs) (m\<lparr>coreId := c\<rparr>) m'"
  shows "reads False sb (src_field k) ((bits_n sb (ucast c) @ b) # gs) m m'"
proof (cases "sb = 0")
  case True
  then have "c = 0" using c by simp
  then have "reads False sb (set_nm (coreId_update (\<lambda>_. 0)) k) (b # gs) m m'"
    using k by (intro reads_set) simp
  then have "reads False sb (src_field k) (b # gs) m m'"
    by (rule reads_cong [rotated]) (simp add: src_field_def True)
  then show ?thesis by (simp add: True bits_n_simps)
next
  case False
  have "reads False sb (get_fixed sb (\<lambda>tmp. set_nm (coreId_update (\<lambda>_. ucast tmp)) k))
      ((bits_n sb (ucast c) @ b) # gs) m m'"
    using False c b k by (intro reads_fixed reads_set) (simp_all add: bits_n_simps ucast_u8_bits)
  then show ?thesis
    by (rule reads_cong [rotated]) (use False in \<open>simp add: src_field_def\<close>)
qed

lemma reads_info: "reads f sb update_info [] m m"
  unfolding reads_def
proof (intro allI impI, elim conjE)
  fix p :: Parse
  assume "remains (pf p) []" "pm p = m"
  then show "\<exists>q. update_info p = update_info q \<and> pm q = m \<and> pa q = pa p \<and>
      bits q = bits p + length (concat []) \<and> eom (pf q) \<and> same_message (pf p) (pf q)"
    using same_message_refl [of "pf p"] slice.end_law by (intro exI [of _ p]) simp
qed

lemma reads_ts:
  assumes "map num gs = ts_fields nm" and "\<forall>g \<in> set gs. fits g"
  shows "reads True sb ts_field gs m (copy_ts nm m)"
proof (cases "haveTimestamp nm")
  case False
  then have "gs = []" using assms(1) by (simp add: ts_fields_def)
  have "reads True sb (set_nm (\<lambda>m. m\<lparr>haveTimestamp := False, timestamp := 0\<rparr>) update_info) [] m (copy_ts nm m)"
    by (intro reads_set) (simp add: copy_ts_def False reads_info)
  then show ?thesis
    unfolding \<open>gs = []\<close> by (rule reads_cong [rotated]) (simp add: ts_field_def remains_def)
next
  case True
  then obtain g where g: "gs = [g]" "num g = timestamp nm" using assms(1) by (auto simp: ts_fields_def)
  have r: "reads True sb update_info [] (copy_ts nm m) (copy_ts nm m)" by (rule reads_info)
  show ?thesis
    unfolding g(1)
  proof (rule reads_stepI [OF _ _ r])
    fix p :: Parse
    assume p: "remains (pf p) [g]" "(True \<and> [g] \<noteq> [] \<Longrightarrow> \<not> eom (pf p))" "pm p = m"
    obtain s1 where s1: "parseVarField (pf p) = (Inr (num g, length g), s1)" "remains s1 []"
        "same_message (pf p) s1"
      using slice.var_law [OF p(1)] assms(2) g(1) by auto
    then show "\<exists>q. ts_field p = update_info q \<and> goes_to p (length g) [] (copy_ts nm m) True q"
      using p(2,3) True g(2) slice.end_law [OF s1(2)]
      by (intro exI [of _ "p\<lparr>pf := s1, bits := bits p + length g, ts_bits := length g, pm := copy_ts nm m\<rparr>"])
        (simp add: ts_field_def get_var_def set_nm_def goes_to_def copy_ts_def)
  qed simp
qed

section \<open>The message kinds\<close>

lemma int_of_u64_of_int: "ok_int i \<Longrightarrow> int_of_u64 (word_of_int i) = i"
proof -
  assume "ok_int i"
  then have i: "0 \<le> i" "i < 2 ^ 31" by (simp_all add: ok_int_def)
  then have u: "uint (word_of_int i :: u64) = i" by (simp add: uint_word_of_int take_bit_int_eq_self)
  then have "(word_of_int i :: u64) < 2 ^ 31" using i(2) by (simp add: word_less_def)
  with u show ?thesis using int_of_u64_small by simp
qed

lemma ucast_u32_u64: "ucast (ucast (x :: u32) :: u64) = x"
  by (rule bit_word_eqI) (simp add: bit_ucast_iff)

lemma ucast_u8_u64: "ucast (ucast (x :: u8) :: u64) = x"
  by (rule bit_word_eqI) (simp add: bit_ucast_iff)

lemma of_int_of_u64_u32: "word_of_int (int_of_u64 (ucast (x :: u32))) = x"
  by (simp add: int_of_u64_def ucast_u32_u64)

text \<open>The two shapes a proof meets: the last step with its result record, and a group that is only fixed bits and a variable field.\<close>

lemma reads_ts_eq:
  "map num gs = ts_fields nm \<Longrightarrow> \<forall>g \<in> set gs. fits g \<Longrightarrow> m' = copy_ts nm m \<Longrightarrow>
   reads True sb ts_field gs m m'"
  using reads_ts by simp

lemma reads_bits:
  "0 < w \<Longrightarrow> w \<le> 64 \<Longrightarrow> b \<noteq> [] \<Longrightarrow> reads False sb (k (take_bit w x)) (b # gs) m m' \<Longrightarrow>
   reads f sb (get_fixed w k) ((bits_n w x @ b) # gs) m m'"
  using reads_fixed [of "bits_n w x" w b sb k gs m m' f] by (simp add: bits_n_simps)

lemmas reads_rules = reads_bits reads_var reads_set reads_addr

lemmas kind_defs = fixed_fields_def var_fields_def copy_kind_def kind_ok_def ok_sync_def ok_ict_def ok_btype_def

text \<open>The fields after the source field, and the whole parser.\<close>

definition body_ok :: "nat \<Rightarrow> NexusMessage \<Rightarrow> step \<Rightarrow> bool" where
  "body_ok sb nm k \<longleftrightarrow> (\<forall>v vs m. map num (v # vs) = var_fields nm @ ts_fields nm \<longrightarrow>
     (\<forall>g \<in> set (v # vs). g \<noteq> [] \<and> fits g) \<longrightarrow>
     reads False sb k ((concat (map (\<lambda>(w, v). bits_n w v) (fixed_fields nm)) @ v) # vs) m
       (copy_ts nm (copy_kind nm m)))"

definition parses :: "nat \<Rightarrow> NexusMessage \<Rightarrow> (SliceFileParser \<Rightarrow> NexusMessage \<Rightarrow> Analytics \<Rightarrow> unit outcome \<times> Parse) \<Rightarrow> bool" where
  "parses sb nm f \<longleftrightarrow> (\<forall>gs s m a. encodes sb nm gs \<longrightarrow> remains s gs \<longrightarrow> srcbits s = sb \<longrightarrow>
     (\<exists>q. f s m a = update_info q \<and> pm q = copy_msg nm m \<and> pa q = a \<and>
          bits q = 6 + length (concat gs) \<and> eom (pf q) \<and> same_message s (pf q)))"

lemma parsesI:
  assumes ok: "msg_ok sb nm" and tc: "tcode nm = tc" and body: "body_ok sb nm k"
  shows "parses sb nm (parse_msg tc k)"
  unfolding parses_def
proof (intro allI impI)
  fix gs s m a
  assume e: "encodes sb nm gs" and r: "remains s gs" "srcbits s = sb"
  from e obtain v vs where v: "gs = (head_bits sb nm @ v) # vs"
      "map num (v # vs) = var_fields nm @ ts_fields nm" "\<forall>g \<in> set (v # vs). g \<noteq> [] \<and> fits g"
    unfolding encodes_def encodes_by_def by blast
  have "reads False sb k ((concat (map (\<lambda>(w, v). bits_n w v) (fixed_fields nm)) @ v) # vs)
      (m\<lparr>tcode := tc, coreId := coreId nm\<rparr>) (copy_msg nm m)"
    using body v(2,3) tc unfolding body_ok_def copy_msg_def by blast
  then have "reads False sb (src_field k) gs (m\<lparr>tcode := tc\<rparr>) (copy_msg nm m)"
    unfolding v(1) head_bits_def append_assoc
    using ok v(3) by (intro reads_src) (simp_all add: msg_ok_def)
  then show "\<exists>q. parse_msg tc k s m a = update_info q \<and> pm q = copy_msg nm m \<and> pa q = a \<and>
      bits q = 6 + length (concat gs) \<and> eom (pf q) \<and> same_message s (pf q)"
    using r unfolding reads_def parse_msg_def
    by (elim allE [of _ "\<lparr>pf = s, pm = m\<lparr>tcode := tc\<rparr>, pa = a, bits = 6, ts_bits = 0, addr_bits = 0\<rparr>"])
      simp
qed

lemma bodyI:
  "(\<And>v vs m. map num (v # vs) = var_fields nm @ ts_fields nm \<Longrightarrow>
     \<forall>g \<in> set (v # vs). g \<noteq> [] \<and> fits g \<Longrightarrow>
     reads False sb k ((concat (map (\<lambda>(w, v). bits_n w v) (fixed_fields nm)) @ v) # vs) m
       (copy_ts nm (copy_kind nm m))) \<Longrightarrow> body_ok sb nm k"
  unfolding body_ok_def by blast

lemmas wire_simps = msg_ok_def kind_defs map_eq_Cons_conv bits_n_simps int_of_u64_of_int
  ucast_u32_u64 ucast_u8_u64

lemma parses_IndirectHistory: "tcode nm = TCODE_INDIRECTBRANCHHISTORY \<Longrightarrow> msg_ok sb nm \<Longrightarrow> parses sb nm parseIndirectHistory"
  unfolding parseIndirectHistory_def
  by (auto simp: wire_simps intro!: parsesI bodyI reads_rules reads_ts_eq [where nm = nm])

lemma parses_IndirectHistoryWS: "tcode nm = TCODE_INDIRECTBRANCHHISTORY_WS \<Longrightarrow> msg_ok sb nm \<Longrightarrow> parses sb nm parseIndirectHistoryWS"
  unfolding parseIndirectHistoryWS_def
  by (auto simp: wire_simps intro!: parsesI bodyI reads_rules reads_ts_eq [where nm = nm])

lemma parses_DirectBranch: "tcode nm = TCODE_DIRECT_BRANCH \<Longrightarrow> msg_ok sb nm \<Longrightarrow> parses sb nm parseDirectBranch"
  unfolding parseDirectBranch_def
  by (auto simp: wire_simps intro!: parsesI bodyI reads_rules reads_ts_eq [where nm = nm])

lemma parses_DirectBranchWS: "tcode nm = TCODE_DIRECT_BRANCH_WS \<Longrightarrow> msg_ok sb nm \<Longrightarrow> parses sb nm parseDirectBranchWS"
  unfolding parseDirectBranchWS_def
  by (auto simp: wire_simps intro!: parsesI bodyI reads_rules reads_ts_eq [where nm = nm])

lemma parses_IndirectBranch: "tcode nm = TCODE_INDIRECT_BRANCH \<Longrightarrow> msg_ok sb nm \<Longrightarrow> parses sb nm parseIndirectBranch"
  unfolding parseIndirectBranch_def
  by (auto simp: wire_simps intro!: parsesI bodyI reads_rules reads_ts_eq [where nm = nm])

lemma parses_IndirectBranchWS: "tcode nm = TCODE_INDIRECT_BRANCH_WS \<Longrightarrow> msg_ok sb nm \<Longrightarrow> parses sb nm parseIndirectBranchWS"
  unfolding parseIndirectBranchWS_def
  by (auto simp: wire_simps intro!: parsesI bodyI reads_rules reads_ts_eq [where nm = nm])

lemma parses_Sync: "tcode nm = TCODE_SYNC \<Longrightarrow> msg_ok sb nm \<Longrightarrow> parses sb nm parseSync"
  unfolding parseSync_def
  by (auto simp: wire_simps intro!: parsesI bodyI reads_rules reads_ts_eq [where nm = nm])

lemma parses_Error: "tcode nm = TCODE_ERROR \<Longrightarrow> msg_ok sb nm \<Longrightarrow> parses sb nm parseError"
  unfolding parseError_def
  by (auto simp: wire_simps intro!: parsesI bodyI reads_rules reads_ts_eq [where nm = nm])

lemma parses_AuxAccessWrite: "tcode nm = TCODE_AUXACCESS_WRITE \<Longrightarrow> msg_ok sb nm \<Longrightarrow> parses sb nm parseAuxAccessWrite"
  unfolding parseAuxAccessWrite_def
  by (auto simp: wire_simps intro!: parsesI bodyI reads_rules reads_ts_eq [where nm = nm])

lemma parses_DataAcquisition: "tcode nm = TCODE_DATA_ACQUISITION \<Longrightarrow> msg_ok sb nm \<Longrightarrow> parses sb nm parseDataAcquisition"
  unfolding parseDataAcquisition_def
  by (auto simp: wire_simps intro!: parsesI bodyI reads_rules reads_ts_eq [where nm = nm])

lemma u8_le_1: "(x :: u8) \<le> 1 \<longleftrightarrow> x = 0 \<or> x = 1"
proof
  assume "x \<le> 1"
  then have "unat x \<le> 1" by (simp add: word_le_nat_alt)
  then have "unat x = 0 \<or> unat x = 1" by linarith
  then show "x = 0 \<or> x = 1" by (metis unat_0 unat_1 word_unat_eq_iff)
qed auto

lemma parses_Correlation: "tcode nm = TCODE_CORRELATION \<Longrightarrow> msg_ok sb nm \<Longrightarrow> parses sb nm parseCorrelation"
  unfolding parseCorrelation_def
  by (auto simp: wire_simps u8_le_1 Let_def intro!: parsesI bodyI reads_rules reads_ts_eq [where nm = nm])

lemma body_ict:
  "tcode nm = TCODE_INCIRCUITTRACE \<or> tcode nm = TCODE_INCIRCUITTRACE_WS \<Longrightarrow> msg_ok sb nm \<Longrightarrow>
   body_ok sb nm ict_fields"
  unfolding ict_fields_def
  by (auto simp: wire_simps u8_le_1 intro!: bodyI reads_rules reads_ts_eq [where nm = nm])

lemma parses_ICT: "tcode nm = TCODE_INCIRCUITTRACE \<Longrightarrow> msg_ok sb nm \<Longrightarrow> parses sb nm parseICT"
  unfolding parseICT_def by (simp add: parsesI body_ict)

lemma parses_ICTWS: "tcode nm = TCODE_INCIRCUITTRACE_WS \<Longrightarrow> msg_ok sb nm \<Longrightarrow> parses sb nm parseICTWS"
  unfolding parseICTWS_def by (simp add: parsesI body_ict)

lemma int_of_u64_rcode: "int_of_u64 0 = 0" "int_of_u64 1 = 1" "int_of_u64 8 = 8" "int_of_u64 9 = 9"
  by (simp_all add: int_of_u64_def)

lemma parses_ResourceFull: "tcode nm = TCODE_RESOURCEFULL \<Longrightarrow> msg_ok sb nm \<Longrightarrow> parses sb nm parseResourceFull"
  unfolding parseResourceFull_def
  by (auto simp: wire_simps int_of_u64_rcode of_int_of_u64_u32 intro!: parsesI bodyI reads_rules reads_ts_eq [where nm = nm])

lemma ownership_word_fields:
  assumes "ok_int (ownership_pid nm)" and "take_bit 1 (ownership_v nm) = ownership_v nm"
    and "take_bit 2 (ownership_prv nm) = ownership_prv nm" and "take_bit 2 (ownership_tag nm) = ownership_tag nm"
  shows "int_of_u64 (drop_bit 5 (ownership_word nm)) = ownership_pid nm"
    and "ucast (drop_bit 4 (ownership_word nm) AND 1) = ownership_v nm"
    and "ucast (drop_bit 2 (ownership_word nm) AND 3) = ownership_prv nm"
    and "ucast (ownership_word nm AND 3) = ownership_tag nm"
proof -
  have b: "bit (ownership_v nm) j \<Longrightarrow> j < 1" "bit (ownership_prv nm) j \<Longrightarrow> j < 2" "bit (ownership_tag nm) j \<Longrightarrow> j < 2"
    for j using assms(2-4) by (metis bit_take_bit_iff)+
  have m: "(3::u64) = mask 2" "(1::u64) = mask 1" by (simp_all add: mask_eq_exp_minus_1)
  have p: "0 \<le> ownership_pid nm" "ownership_pid nm < 2 ^ 31" using assms(1) by (simp_all add: ok_int_def)
  have pb: "\<not> bit (word_of_int (ownership_pid nm) :: u64) j" if "31 \<le> j" for j
  proof -
    have "take_bit 31 (ownership_pid nm) = ownership_pid nm" using p by (simp add: take_bit_int_eq_self)
    then have "\<not> bit (ownership_pid nm) j" using that by (metis bit_take_bit_iff not_less)
    then show ?thesis by (simp add: bit_word_of_int_iff)
  qed
  have "drop_bit 5 (ownership_word nm) = word_of_int (ownership_pid nm)"
  proof (rule bit_word_eqI)
    fix j :: nat
    assume "j < LENGTH(64)"
    then show "bit (drop_bit 5 (ownership_word nm)) j = bit (word_of_int (ownership_pid nm) :: u64) j"
      using b(1) [of "5 + j - 4"] b(2) [of "5 + j - 2"] b(3) [of "5 + j"] pb [of j]
      by (auto simp: ownership_word_def bit_drop_bit_eq bit_or_iff bit_push_bit_iff bit_ucast_iff)
  qed
  then show "int_of_u64 (drop_bit 5 (ownership_word nm)) = ownership_pid nm"
    using int_of_u64_of_int [OF assms(1)] by simp
  show "ucast (drop_bit 4 (ownership_word nm) AND 1) = ownership_v nm"
  proof (rule bit_word_eqI)
    fix j :: nat
    assume "j < LENGTH(8)"
    then show "bit (ucast (drop_bit 4 (ownership_word nm) AND 1) :: u8) j = bit (ownership_v nm) j"
      unfolding m using b(1) [of j] b(2) [of "4 + j - 2"] b(3) [of "4 + j"]
      by (auto simp: bit_1_iff ownership_word_def bit_drop_bit_eq bit_or_iff bit_push_bit_iff bit_ucast_iff bit_and_iff bit_mask_iff)
  qed
  show "ucast (drop_bit 2 (ownership_word nm) AND 3) = ownership_prv nm"
  proof (rule bit_word_eqI)
    fix j :: nat
    assume "j < LENGTH(8)"
    then show "bit (ucast (drop_bit 2 (ownership_word nm) AND 3) :: u8) j = bit (ownership_prv nm) j"
      unfolding m using b(2) [of j] b(3) [of "2 + j"]
      by (auto simp: ownership_word_def bit_drop_bit_eq bit_or_iff bit_push_bit_iff bit_ucast_iff bit_and_iff bit_mask_iff)
  qed
  show "ucast (ownership_word nm AND 3) = ownership_tag nm"
  proof (rule bit_word_eqI)
    fix j :: nat
    assume "j < LENGTH(8)"
    then show "bit (ucast (ownership_word nm AND 3) :: u8) j = bit (ownership_tag nm) j"
      unfolding m using b(3) [of j]
      by (auto simp: ownership_word_def bit_or_iff bit_push_bit_iff bit_ucast_iff bit_and_iff bit_mask_iff)
  qed
qed

lemma parses_OwnershipTrace: "tcode nm = TCODE_OWNERSHIP_TRACE \<Longrightarrow> msg_ok sb nm \<Longrightarrow> parses sb nm parseOwnershipTrace"
  unfolding parseOwnershipTrace_def
  by (auto simp: wire_simps ownership_word_fields intro!: parsesI bodyI reads_rules reads_ts_eq [where nm = nm])

section \<open>Any message\<close>

lemma parse_tcode_simps:
  "parse_tcode (TCode_val TCODE_OWNERSHIP_TRACE) = parseOwnershipTrace"
  "parse_tcode (TCode_val TCODE_DIRECT_BRANCH) = parseDirectBranch"
  "parse_tcode (TCode_val TCODE_INDIRECT_BRANCH) = parseIndirectBranch"
  "parse_tcode (TCode_val TCODE_DATA_ACQUISITION) = parseDataAcquisition"
  "parse_tcode (TCode_val TCODE_ERROR) = parseError"
  "parse_tcode (TCode_val TCODE_SYNC) = parseSync"
  "parse_tcode (TCode_val TCODE_DIRECT_BRANCH_WS) = parseDirectBranchWS"
  "parse_tcode (TCode_val TCODE_INDIRECT_BRANCH_WS) = parseIndirectBranchWS"
  "parse_tcode (TCode_val TCODE_CORRELATION) = parseCorrelation"
  "parse_tcode (TCode_val TCODE_AUXACCESS_WRITE) = parseAuxAccessWrite"
  "parse_tcode (TCode_val TCODE_INDIRECTBRANCHHISTORY) = parseIndirectHistory"
  "parse_tcode (TCode_val TCODE_INDIRECTBRANCHHISTORY_WS) = parseIndirectHistoryWS"
  "parse_tcode (TCode_val TCODE_INCIRCUITTRACE) = parseICT"
  "parse_tcode (TCode_val TCODE_INCIRCUITTRACE_WS) = parseICTWS"
  "parse_tcode (TCode_val TCODE_RESOURCEFULL) = parseResourceFull"
  by (simp_all add: parse_tcode_def TCode_val_def fun_eq_iff)

lemmas parses_kinds = parses_OwnershipTrace parses_DirectBranch parses_IndirectBranch
  parses_DataAcquisition parses_Error parses_Sync parses_DirectBranchWS parses_IndirectBranchWS
  parses_Correlation parses_AuxAccessWrite parses_IndirectHistory parses_IndirectHistoryWS
  parses_ICT parses_ICTWS parses_ResourceFull

lemma msg_ok_kind: "msg_ok sb nm \<Longrightarrow> kind_ok nm"
  by (simp add: msg_ok_def)

lemma parses_tcode: "msg_ok sb nm \<Longrightarrow> parses sb nm (parse_tcode (TCode_val (tcode nm)))"
  by (cases "tcode nm") (simp_all add: parse_tcode_simps parses_kinds, auto dest!: msg_ok_kind simp: kind_ok_def)

lemma kind_ok_counted: "kind_ok nm \<Longrightarrow> counted (copy_msg nm m)"
  by (cases "tcode nm")
    (auto simp: kind_ok_def counted_def copy_msg_def copy_ts_def copy_kind_def Let_def)

lemma kind_ok_core: "coreId (copy_msg nm m) = coreId nm"
  by (cases "tcode nm") (simp_all add: copy_msg_def copy_ts_def copy_kind_def Let_def)

lemma update_info_ok:
  assumes c: "counted (pm p)" "unat (coreId (pm p)) < DQR_MAXCORES" and a: "an_status (pa p) = DQERR_OK"
  shows "\<exists>q. update_info p = (Inr (), q) \<and> pf q = (pf p)\<lparr>status := DQERR_OK\<rparr> \<and>
     pm q = (pm p)\<lparr>msgNum := currentTraceMsgNum (pa q)\<rparr> \<and> an_status (pa q) = DQERR_OK \<and>
     num_trace_msgs_all_cores (pa q) = num_trace_msgs_all_cores (pa p) + 1 \<and>
     num_trace_bits_all_cores (pa q) = num_trace_bits_all_cores (pa p) + of_nat (bits p + msgSlices (pf p) * 2)"
proof -
  let ?n = "msgSlices (pf p) * 2"
  obtain a' where "updateTraceInfo (pm p) (of_nat (bits p + ?n)) (of_nat ?n) (of_nat (ts_bits p))
      (of_nat (addr_bits p)) (pa p) = Inr (DQERR_OK, a')" "an_status a' = DQERR_OK"
      "num_trace_msgs_all_cores a' = num_trace_msgs_all_cores (pa p) + 1"
      "num_trace_bits_all_cores a' = num_trace_bits_all_cores (pa p) + of_nat (bits p + ?n)"
    using updateTraceInfo_effect [OF c(2), of "of_nat (bits p + ?n)" "of_nat ?n" "of_nat (ts_bits p)"
        "of_nat (addr_bits p)" "pa p"] c(1) a by auto
  then show ?thesis by (simp add: update_info_def Let_def)
qed

lemma parse_tcode_roundtrip:
  assumes ok: "msg_ok sb nm" "unat (coreId nm) < DQR_MAXCORES" and e: "encodes sb nm gs"
    and s: "remains s gs" "srcbits s = sb" and a: "an_status a = DQERR_OK"
  shows "\<exists>p. parse_tcode (TCode_val (tcode nm)) s m a = (Inr (), p) \<and>
     pm p = (copy_msg nm m)\<lparr>msgNum := currentTraceMsgNum (pa p)\<rparr> \<and>
     (\<exists>k. pf p = s\<lparr>bitIndex := k, eom := True, status := DQERR_OK\<rparr>) \<and> an_status (pa p) = DQERR_OK \<and>
     num_trace_msgs_all_cores (pa p) = num_trace_msgs_all_cores a + 1 \<and>
     num_trace_bits_all_cores (pa p) =
       num_trace_bits_all_cores a + of_nat (6 + length (concat gs) + msgSlices s * 2)"
proof -
  from parses_tcode [OF ok(1)] e s obtain q where
    q: "parse_tcode (TCode_val (tcode nm)) s m a = update_info q" "pm q = copy_msg nm m" "pa q = a"
       "bits q = 6 + length (concat gs)" "eom (pf q)" "same_message s (pf q)"
    unfolding parses_def by blast
  have "counted (pm q)" using kind_ok_counted msg_ok_kind [OF ok(1)] q(2) by simp
  moreover have "unat (coreId (pm q)) < DQR_MAXCORES" using ok(2) q(2) by (simp add: kind_ok_core)
  moreover have "msgSlices (pf q) = msgSlices s" using q(6) by (auto simp: same_message_def)
  moreover have "\<exists>k. pf q = s\<lparr>bitIndex := k, eom := True\<rparr>" using q(5,6) by (auto simp: same_message_def)
  ultimately show ?thesis using update_info_ok [of q] a q by fastforce
qed

end
