(* ===== verification/Slice_Reader.thy ===== *)
theory Slice_Reader
  imports Slice_Roundtrip "HOL-Library.Monad_Syntax"
begin

text \<open>
  How \<^verbatim>\<open>class SliceFileParser\<close> (src/dqr.cpp) gets its bytes: from the trace file, or from a socket
  through the ring buffer \<^verbatim>\<open>sockBuffer\<close>; how \<^verbatim>\<open>readBinaryMsg\<close> cuts the bytes into messages, and
  how \<^verbatim>\<open>readNextTraceMsg\<close> parses the next one.

  \<^verbatim>\<open>recv\<close> is the operating system's: it is the parameter \<open>recv\<close>, which takes the number of bytes
  wanted and the state of the connection. Its documented behaviour is the hypothesis \<open>delivers\<close>: it
  delivers the bytes of the stream in order, and never more than were asked for. \<^verbatim>\<open>globalDebugFlag\<close>, which only adds debug output, is off.
\<close>

section \<open>The ring buffer\<close>

datatype recv_result = Received "u8 list" | Would_block | Recv_error

type_synonym 'net recv = "nat \<Rightarrow> 'net \<Rightarrow> recv_result \<times> 'net"

definition SOCKBUF :: nat where "SOCKBUF = 2048"

definition MSGBUF :: nat where "MSGBUF = 64"

text \<open>\<^verbatim>\<open>recv\<close> writes the bytes it delivers at the given place of the buffer.\<close>

definition put_bytes :: "nat \<Rightarrow> u8 list \<Rightarrow> u8 list \<Rightarrow> u8 list" where
  "put_bytes i bs buf = take i buf @ bs @ drop (i + length bs) buf"

definition received :: "recv_result \<Rightarrow> u8 list" where
  "received r = (case r of Received bs \<Rightarrow> bs | _ \<Rightarrow> [])"

text \<open>\<open>sent net\<close> is what the peer has sent and \<^verbatim>\<open>recv\<close> has not delivered yet.\<close>

definition delivers :: "'net recv \<Rightarrow> ('net \<Rightarrow> u8 list) \<Rightarrow> bool" where
  "delivers recv sent \<longleftrightarrow> (\<forall>n net r net'. recv n net = (r, net') \<longrightarrow>
     sent net = received r @ sent net' \<and> length (received r) \<le> n)"

text \<open>The status a call of \<^verbatim>\<open>bufferSWT\<close> ends with, from the last \<^verbatim>\<open>recv\<close> it made.\<close>

definition swt_result :: "recv_result \<Rightarrow> SliceFileParser \<Rightarrow> 'net \<Rightarrow> DQErr \<times> SliceFileParser \<times> 'net" where
  "swt_result r s net =
     (if r = Recv_error then (DQERR_ERR, s\<lparr>status := DQERR_ERR\<rparr>, net) else (DQERR_OK, s, net))"

definition bufferSWT :: "'net recv \<Rightarrow> SliceFileParser \<Rightarrow> 'net \<Rightarrow> DQErr \<times> SliceFileParser \<times> 'net" where
  "bufferSWT recv s net =
     (if bufferInIndex s = bufferOutIndex s then
        let (r, net1) = recv (SOCKBUF - 1) net; bs = received r in
        swt_result r
          (if bs \<noteq> [] then s\<lparr>sockBuffer := put_bytes 0 bs (sockBuffer s),
                             bufferInIndex := length bs, bufferOutIndex := 0\<rparr>
           else s) net1
      else if bufferInIndex s < bufferOutIndex s then
        if bufferOutIndex s - bufferInIndex s - 1 > 0 then
          let (r, net1) = recv (bufferOutIndex s - bufferInIndex s - 1) net; bs = received r in
          swt_result r (s\<lparr>sockBuffer := put_bytes (bufferInIndex s) bs (sockBuffer s),
                          bufferInIndex := bufferInIndex s + length bs\<rparr>) net1
        else (DQERR_OK, s, net)
      else
        let n = (if bufferOutIndex s = 0 then SOCKBUF - bufferInIndex s - 1 else SOCKBUF - bufferInIndex s) in
        if n > 0 then
          let (r, net1) = recv n net; bs = received r;
              s1 = s\<lparr>sockBuffer := put_bytes (bufferInIndex s) bs (sockBuffer s)\<rparr>
          in if bs \<noteq> [] then
               if bufferInIndex s + length bs \<ge> SOCKBUF then
                 let s2 = s1\<lparr>bufferInIndex := 0\<rparr> in
                 if bufferOutIndex s - 1 > 0 then
                   let (r2, net2) = recv (bufferOutIndex s - 1) net1; bs2 = received r2 in
                   swt_result r2
                     (if bs2 \<noteq> [] then s2\<lparr>sockBuffer := put_bytes 0 bs2 (sockBuffer s2),
                                           bufferInIndex := length bs2\<rparr>
                      else s2) net2
                 else (DQERR_OK, s2, net1)
               else (DQERR_OK, s1\<lparr>bufferInIndex := bufferInIndex s + length bs\<rparr>, net1)
             else swt_result r s net1
        else (DQERR_OK, s, net))"

definition getNumBytesInSWTQ :: "'net recv \<Rightarrow> SliceFileParser \<Rightarrow> 'net \<Rightarrow> nat outcome \<times> SliceFileParser \<times> 'net" where
  "getNumBytesInSWTQ recv s net =
     (if SWTsock s < 0 then (Inl (Rc DQERR_ERR), s, net)
      else case bufferSWT recv s net of (rc, s1, net1) \<Rightarrow>
        if rc \<noteq> DQERR_OK then (Inl (Rc rc), s1, net1)
        else (Inr (if bufferInIndex s1 = bufferOutIndex s1 then 0
                   else if bufferInIndex s1 < bufferOutIndex s1
                     then SOCKBUF - bufferOutIndex s1 + bufferInIndex s1
                   else bufferInIndex s1 - bufferOutIndex s1), s1, net1))"

text \<open>Taking one byte out of the buffer.\<close>

definition pop_byte :: "SliceFileParser \<Rightarrow> u8 \<times> SliceFileParser" where
  "pop_byte s =
     (sockBuffer s ! bufferOutIndex s,
      s\<lparr>bufferOutIndex := (if bufferOutIndex s + 1 \<ge> SOCKBUF then 0 else bufferOutIndex s + 1)\<rparr>)"

section \<open>One byte of input\<close>

datatype rd = Got u8 | No_data | Rd_err DQErr

text \<open>\<^verbatim>\<open>tf.read\<close> of one byte: past the end of the file it sets end-of-file, at a bad place it fails.\<close>

definition file_byte :: "SliceFileParser \<Rightarrow> rd \<times> SliceFileParser" where
  "file_byte s =
     (if (case tf_err s of Some p \<Rightarrow> tf_pos s \<ge> p | None \<Rightarrow> False)
      then (Rd_err DQERR_ERR, s\<lparr>status := DQERR_ERR, tf_open := False\<rparr>)
      else if tf_pos s \<ge> length (tf_data s)
        then (Rd_err DQERR_EOF, s\<lparr>status := DQERR_EOF, tf_open := False\<rparr>)
      else (Got (tf_data s ! tf_pos s), s\<lparr>tf_pos := tf_pos s + 1\<rparr>))"

text \<open>The code that stands in each of the three loops of \<^verbatim>\<open>readBinaryMsg\<close>: the next byte, into \<^verbatim>\<open>msg[i]\<close>.\<close>

definition next_byte :: "'net recv \<Rightarrow> nat \<Rightarrow> SliceFileParser \<Rightarrow> 'net \<Rightarrow> rd \<times> SliceFileParser \<times> 'net" where
  "next_byte recv i s net =
     (if SWTsock s \<ge> 0 then
        case bufferSWT recv s net of (rc, s1, net1) \<Rightarrow>
          let s2 = s1\<lparr>status := rc\<rparr> in
          if rc \<noteq> DQERR_OK then (Rd_err DQERR_ERR, s2, net1)
          else if bufferInIndex s2 = bufferOutIndex s2 then (No_data, s2, net1)
          else let (b, s3) = pop_byte s2 in (Got b, s3\<lparr>msg := (msg s3)[i := b]\<rparr>, net1)
      else case file_byte s of
          (Got b, s1) \<Rightarrow> (Got b, s1\<lparr>msg := (msg s1)[i := b]\<rparr>, net)
        | (r, s1) \<Rightarrow> (r, s1, net))"

section \<open>Cutting the input into messages\<close>

text \<open>
  The first two loops of \<^verbatim>\<open>readBinaryMsg\<close> end with the input. On a socket that always has another
  byte to skip they need not end, so they are partial: \<open>None\<close> is a loop that runs forever.
\<close>

partial_function (option) flush_loop ::
  "'net recv \<Rightarrow> SliceFileParser \<Rightarrow> 'net \<Rightarrow> (rd \<times> SliceFileParser \<times> 'net) option" where
  "flush_loop recv s net =
     (case next_byte recv 0 s net of
        (Got b, s1, net1) \<Rightarrow>
          if b AND MSEO_END \<noteq> MSEO_END then flush_loop recv s1 net1 else Some (Got b, s1, net1)
      | r \<Rightarrow> Some r)"

partial_function (option) start_loop ::
  "'net recv \<Rightarrow> SliceFileParser \<Rightarrow> 'net \<Rightarrow> (rd \<times> SliceFileParser \<times> 'net) option" where
  "start_loop recv s net =
     (case next_byte recv 0 s net of
        (Got b, s1, net1) \<Rightarrow>
          if b = 0 \<or> b AND 3 \<noteq> MSEO_NORMAL then start_loop recv s1 net1 else Some (Got b, s1, net1)
      | r \<Rightarrow> Some r)"

text \<open>The last loop is bounded by the message buffer. \<open>Got\<close> is its regular end.\<close>

function body_loop :: "'net recv \<Rightarrow> SliceFileParser \<Rightarrow> 'net \<Rightarrow> rd \<times> SliceFileParser \<times> 'net" where
  "body_loop recv s net =
     (if pendingMsgIndex s \<ge> MSGBUF
      then (Rd_err DQERR_BM, s\<lparr>pendingMsgIndex := 0, flushMessage := False, status := DQERR_BM\<rparr>, net)
      else case next_byte recv (pendingMsgIndex s) s net of
        (Got b, s1, net1) \<Rightarrow>
          if b AND 3 = MSEO_END
          then (Got b, s1\<lparr>msgSlices := pendingMsgIndex s + 1, pendingMsgIndex := pendingMsgIndex s + 1\<rparr>, net1)
          else body_loop recv (s1\<lparr>pendingMsgIndex := pendingMsgIndex s + 1\<rparr>) net1
      | r \<Rightarrow> r)"
  by pat_completeness auto
termination
  by (relation "measure (\<lambda>(_, s, _). MSGBUF - pendingMsgIndex s)") auto

declare body_loop.simps [simp del]

text \<open>What an operation that may loop forever on a socket returns: the code, the flag \<^verbatim>\<open>haveMsg\<close>, and the state.\<close>

type_synonym 'net msg_result = "((DQErr \<times> bool) \<times> SliceFileParser \<times> 'net) option"

definition readBinaryMsg :: "'net recv \<Rightarrow> SliceFileParser \<Rightarrow> 'net \<Rightarrow> 'net msg_result" where
  "readBinaryMsg recv s net = do {
     (r0, s0, net0) \<leftarrow> (if flushMessage s then flush_loop recv s net else Some (Got 0, s, net));
     (case r0 of
        Rd_err e \<Rightarrow> Some ((e, False), s0\<lparr>flushMessage := False, pendingMsgIndex := 0\<rparr>, net0)
      | No_data \<Rightarrow> Some ((DQERR_OK, False), s0, net0)
      | Got _ \<Rightarrow> do {
          let s1 = (if flushMessage s then s0\<lparr>flushMessage := False, pendingMsgIndex := 0\<rparr> else s0);
          (r1, s2, net1) \<leftarrow> (if pendingMsgIndex s1 = 0 then start_loop recv s1 net0 else Some (Got 0, s1, net0));
          (case r1 of
             Rd_err e \<Rightarrow> Some ((e, False), s2, net1)
           | No_data \<Rightarrow> Some ((DQERR_OK, False), s2, net1)
           | Got _ \<Rightarrow>
               let s3 = (if pendingMsgIndex s1 = 0 then s2\<lparr>pendingMsgIndex := 1\<rparr> else s2);
                   s4 = s3\<lparr>msgOffset := (if SWTsock s3 \<ge> 0 then 0 else of_nat (tf_pos s3) - 1)\<rparr>
               in case body_loop recv s4 net1 of
                    (Rd_err e, s5, net2) \<Rightarrow> Some ((e, False), s5, net2)
                  | (No_data, s5, net2) \<Rightarrow> Some ((DQERR_OK, False), s5, net2)
                  | (Got _, s5, net2) \<Rightarrow>
                      Some ((DQERR_OK, True), s5\<lparr>eom := False, bitIndex := 0, pendingMsgIndex := 0\<rparr>, net2))
        })
   }"

section \<open>The next message\<close>

text \<open>The copy of the raw bytes into \<^verbatim>\<open>nm.rawData[32]\<close>.\<close>

function raw_copy :: "u8 list \<Rightarrow> u8 list \<Rightarrow> nat \<Rightarrow> u8 list" where
  "raw_copy m raw i =
     (let raw1 = raw[i := m ! i] in
      if i + 1 < 32 \<and> m ! i AND 3 \<noteq> MSEO_END then raw_copy m raw1 (i + 1) else raw1)"
  by pat_completeness auto
termination
  by (relation "measure (\<lambda>(_, _, i). 32 - i)") auto

declare raw_copy.simps [simp del]

text \<open>
  The result is \<open>Inl UB\<close> when parsing reaches undefined behaviour. The TCODE is cast to
  \<^verbatim>\<open>uint8_t\<close>, which a field of six bits survives.
\<close>

type_synonym 'net next_result =
  "((DQErr \<times> bool) outcome \<times> SliceFileParser \<times> NexusMessage \<times> Analytics \<times> 'net) option"

definition parse_binary :: "SliceFileParser \<Rightarrow> NexusMessage \<Rightarrow> Analytics \<Rightarrow>
    (DQErr \<times> bool) outcome \<times> SliceFileParser \<times> NexusMessage \<times> Analytics" where
  "parse_binary s nm a =
     (let nm1 = nm\<lparr>offset := msgOffset s, rawData := raw_copy (msg s) (rawData nm) 0\<rparr> in
      case parseFixedField 6 s of
        (Inl UB, s1) \<Rightarrow> (Inl UB, s1, nm1, a)
      | (Inl (Rc e), s1) \<Rightarrow> (Inr (DQERR_BM, False), s1, nm1, a)
      | (Inr val, s1) \<Rightarrow>
          (case parse_tcode val s1 nm1 a of
             (Inl UB, p) \<Rightarrow> (Inl UB, pf p, pm p, pa p)
           | (Inl (Rc e), p) \<Rightarrow> (Inr (DQERR_BM, False), pf p, pm p, pa p)
           | (Inr _, p) \<Rightarrow> (Inr (DQERR_OK, True), (pf p)\<lparr>status := DQERR_OK\<rparr>, pm p, pa p)))"

definition readNextTraceMsg :: "'net recv \<Rightarrow> SliceFileParser \<Rightarrow> NexusMessage \<Rightarrow> Analytics \<Rightarrow> 'net \<Rightarrow> 'net next_result" where
  "readNextTraceMsg recv s nm a net =
     (if status s \<noteq> DQERR_OK then Some (Inr (status s, False), s, nm, a, net)
      else do {
        ((rc, haveMsg), s1, net1) \<leftarrow> readBinaryMsg recv s net;
        if rc = DQERR_BM then Some (Inr (DQERR_BM, haveMsg), s1, nm, a, net1)
        else if rc \<noteq> DQERR_OK then Some (Inr (rc, haveMsg), s1\<lparr>status := rc\<rparr>, nm, a, net1)
        else if \<not> haveMsg then Some (Inr (DQERR_OK, False), s1, nm, a, net1)
        else case parse_binary s1 nm a of (r, s2, nm2, a2) \<Rightarrow> Some (r, s2, nm2, a2, net1)
      })"

section \<open>Reading a file\<close>

text \<open>A parser on a file that has the bytes \<open>bs\<close> left to read.\<close>

definition file_left :: "SliceFileParser \<Rightarrow> u8 list \<Rightarrow> bool" where
  "file_left s bs \<longleftrightarrow> SWTsock s < 0 \<and> tf_err s = None \<and> drop (tf_pos s) (tf_data s) = bs"

lemma next_byte_file:
  assumes "file_left s (b # bs)"
  shows "next_byte recv i s net = (Got b, s\<lparr>tf_pos := tf_pos s + 1, msg := (msg s)[i := b]\<rparr>, net)"
    and "file_left (s\<lparr>tf_pos := tf_pos s + 1, msg := x\<rparr>) bs"
proof -
  have d: "drop (tf_pos s) (tf_data s) = b # bs" using assms by (simp add: file_left_def)
  then have l: "tf_pos s < length (tf_data s)" by (metis drop_all list.distinct(1) not_less)
  then have "tf_data s ! tf_pos s = b" using d by (metis Cons_nth_drop_Suc list.inject)
  then show "next_byte recv i s net = (Got b, s\<lparr>tf_pos := tf_pos s + 1, msg := (msg s)[i := b]\<rparr>, net)"
    using assms l by (simp add: next_byte_def file_byte_def file_left_def)
  have "drop (tf_pos s + 1) (tf_data s) = bs" using d l by (metis Cons_nth_drop_Suc Suc_eq_plus1 list.inject)
  then show "file_left (s\<lparr>tf_pos := tf_pos s + 1, msg := x\<rparr>) bs"
    using assms by (simp add: file_left_def)
qed

lemma next_byte_file_end:
  "file_left s [] \<Longrightarrow>
   next_byte recv i s net = (Rd_err DQERR_EOF, s\<lparr>status := DQERR_EOF, tf_open := False\<rparr>, net)"
  by (simp add: next_byte_def file_byte_def file_left_def)

text \<open>The bytes that are skipped before a message, and the shape of a message.\<close>

definition idle :: "u8 \<Rightarrow> bool" where
  "idle b \<longleftrightarrow> b = 0 \<or> b AND 3 \<noteq> MSEO_NORMAL"

definition framed :: "u8 list \<Rightarrow> bool" where
  "framed m \<longleftrightarrow> (\<exists>b bs l. m = b # bs @ [l] \<and> \<not> idle b \<and> (\<forall>x \<in> set bs. x AND 3 \<noteq> MSEO_END) \<and>
     l AND 3 = MSEO_END \<and> length m \<le> MSGBUF)"

lemma start_loop_file:
  "file_left s (ib @ b # bs) \<Longrightarrow> \<forall>x \<in> set ib. idle x \<Longrightarrow> \<not> idle b \<Longrightarrow> msg s \<noteq> [] \<Longrightarrow>
   start_loop recv s net =
     Some (Got b, s\<lparr>tf_pos := tf_pos s + length ib + 1, msg := (msg s)[0 := b]\<rparr>, net) \<and>
   file_left (s\<lparr>tf_pos := tf_pos s + length ib + 1, msg := x\<rparr>) bs"
proof (induction ib arbitrary: s)
  case Nil
  then have "file_left s (b # bs)" by simp
  note f = next_byte_file [OF this]
  then show ?case
    using Nil f(2) [of x] by (subst start_loop.simps) (simp add: idle_def f(1))
next
  case (Cons c ib)
  then have f: "file_left s (c # ib @ b # bs)" by simp
  let ?s = "s\<lparr>tf_pos := tf_pos s + 1, msg := (msg s)[0 := c]\<rparr>"
  have "start_loop recv ?s net =
      Some (Got b, ?s\<lparr>tf_pos := tf_pos ?s + length ib + 1, msg := (msg ?s)[0 := b]\<rparr>, net) \<and>
     file_left (?s\<lparr>tf_pos := tf_pos ?s + length ib + 1, msg := x\<rparr>) bs"
    using Cons.prems next_byte_file(2) [OF f] by (intro Cons.IH) auto
  moreover have "start_loop recv s net = start_loop recv ?s net"
    using Cons.prems(2) by (subst start_loop.simps) (simp add: idle_def next_byte_file(1) [OF f])
  ultimately show ?case by simp
qed

lemma put_bytes_step:
  "length m = n \<Longrightarrow> i < n \<Longrightarrow> put_bytes (i + 1) bs (m[i := b]) = put_bytes i (b # bs) m"
  by (simp add: put_bytes_def take_Suc_conv_app_nth)

lemma body_loop_file:
  "file_left s (bs @ l # rest) \<Longrightarrow> \<forall>x \<in> set bs. x AND 3 \<noteq> MSEO_END \<Longrightarrow> l AND 3 = MSEO_END \<Longrightarrow>
   length (msg s) = MSGBUF \<Longrightarrow> pendingMsgIndex s + length bs < MSGBUF \<Longrightarrow>
   body_loop recv s net =
     (Got l, s\<lparr>tf_pos := tf_pos s + length bs + 1, msg := put_bytes (pendingMsgIndex s) (bs @ [l]) (msg s),
        msgSlices := pendingMsgIndex s + length bs + 1,
        pendingMsgIndex := pendingMsgIndex s + length bs + 1\<rparr>, net)"
proof (induction bs arbitrary: s)
  case Nil
  then have f: "file_left s (l # rest)" by simp
  have "(msg s)[pendingMsgIndex s := l] = put_bytes (pendingMsgIndex s) [l] (msg s)"
    using Nil.prems by (simp add: put_bytes_def upd_conv_take_nth_drop)
  then show ?case
    using Nil by (simp add: body_loop.simps next_byte_file(1) [OF f])
next
  case (Cons c bs)
  then have f: "file_left s (c # bs @ l # rest)" by simp
  let ?s = "s\<lparr>tf_pos := tf_pos s + 1, msg := (msg s)[pendingMsgIndex s := c], pendingMsgIndex := pendingMsgIndex s + 1\<rparr>"
  have fl: "file_left ?s (bs @ l # rest)" using next_byte_file(2) [OF f] by (simp add: file_left_def)
  have "body_loop recv ?s net =
     (Got l, ?s\<lparr>tf_pos := tf_pos ?s + length bs + 1, msg := put_bytes (pendingMsgIndex ?s) (bs @ [l]) (msg ?s),
        msgSlices := pendingMsgIndex ?s + length bs + 1,
        pendingMsgIndex := pendingMsgIndex ?s + length bs + 1\<rparr>, net)"
    using Cons.prems by (intro Cons.IH fl) auto
  moreover have "body_loop recv s net = body_loop recv ?s net"
    using Cons.prems by (subst body_loop.simps) (simp add: next_byte_file(1) [OF f])
  moreover have "put_bytes (pendingMsgIndex s + 1) (bs @ [l]) ((msg s)[pendingMsgIndex s := c]) =
      put_bytes (pendingMsgIndex s) (c # bs @ [l]) (msg s)"
    using Cons.prems by (intro put_bytes_step) auto
  ultimately show ?case by simp
qed

text \<open>A parser between two messages of a file.\<close>

definition file_ready :: "SliceFileParser \<Rightarrow> u8 list \<Rightarrow> bool" where
  "file_ready s bs \<longleftrightarrow> file_left s bs \<and> flushMessage s = False \<and> pendingMsgIndex s = 0 \<and>
     length (msg s) = MSGBUF \<and> status s = DQERR_OK"

lemma readBinaryMsg_file:
  assumes r: "file_ready s (ib @ m @ rest)" and i: "\<forall>x \<in> set ib. idle x" and m: "framed m"
  shows "\<exists>s'. readBinaryMsg recv s net = Some ((DQERR_OK, True), s', net) \<and> file_ready s' rest \<and>
     msg s' = m @ drop (length m) (msg s) \<and> msgSlices s' = length m \<and> bitIndex s' = 0 \<and>
     eom s' = False \<and> srcbits s' = srcbits s \<and> msgOffset s' = of_nat (tf_pos s + length ib)"
proof -
  obtain b bs l where f: "m = b # bs @ [l]" "\<not> idle b" "\<forall>x \<in> set bs. x AND 3 \<noteq> MSEO_END"
      "l AND 3 = MSEO_END" "length m \<le> MSGBUF"
    using m unfolding framed_def by blast
  have fl: "file_left s (ib @ b # bs @ l # rest)" and ms: "length (msg s) = MSGBUF"
    using r f(1) by (simp_all add: file_ready_def)
  then have ne: "msg s \<noteq> []" by (auto simp: MSGBUF_def)
  define s1 where "s1 = s\<lparr>tf_pos := tf_pos s + length ib + 1, msg := (msg s)[0 := b]\<rparr>"
  have st: "start_loop recv s net = Some (Got b, s1, net)" "file_left s1 (bs @ l # rest)"
    using start_loop_file [OF fl i f(2) ne, of recv net "(msg s)[0 := b]"] by (simp_all add: s1_def)
  define s2 where "s2 = s1\<lparr>pendingMsgIndex := 1, msgOffset := of_nat (tf_pos s + length ib)\<rparr>"
  have fl2: "file_left s2 (bs @ l # rest)" using st(2) by (simp add: s2_def file_left_def)
  define s3 where "s3 = s2\<lparr>tf_pos := tf_pos s2 + length bs + 1,
      msg := put_bytes (pendingMsgIndex s2) (bs @ [l]) (msg s2),
      msgSlices := pendingMsgIndex s2 + length bs + 1,
      pendingMsgIndex := pendingMsgIndex s2 + length bs + 1\<rparr>"
  have body: "body_loop recv s2 net = (Got l, s3, net)"
    unfolding s3_def using f ms by (intro body_loop_file [OF fl2]) (auto simp: s2_def s1_def)
  have "put_bytes 1 (bs @ [l]) ((msg s)[0 := b]) = m @ drop (length m) (msg s)"
    using put_bytes_step [of "msg s" MSGBUF 0 "bs @ [l]" b] ms f(1) by (simp add: put_bytes_def MSGBUF_def)
  then have msg3: "msg s3 = m @ drop (length m) (msg s)" by (simp add: s3_def s2_def s1_def)
  have "drop (tf_pos s2) (tf_data s2) = bs @ l # rest" using fl2 by (simp add: file_left_def)
  then have "drop (length bs + 1) (drop (tf_pos s2) (tf_data s2)) = rest" by simp
  then have fl3: "file_left s3 rest" using fl2 by (simp add: file_left_def s3_def add.commute add.left_commute)
  let ?s = "s3\<lparr>eom := False, bitIndex := 0, pendingMsgIndex := 0\<rparr>"
  have "readBinaryMsg recv s net = Some ((DQERR_OK, True), ?s, net)"
    using r st(1) body fl by (simp add: readBinaryMsg_def file_ready_def file_left_def s2_def s1_def)
  moreover have "file_ready ?s rest"
    using fl3 r msg3 f(5) ms by (simp add: file_ready_def file_left_def s3_def s2_def s1_def)
  ultimately show ?thesis using msg3 f(1) by (auto simp: s3_def s2_def s1_def)
qed

section \<open>Encoded messages\<close>

text \<open>
  The bytes \<open>m\<close> are an encoding of the message \<open>nm\<close> for a trace with \<open>sb\<close> source bits, with \<open>P\<close>
  asked of the bits of every variable field.
\<close>

definition encoding_by :: "(bool list \<Rightarrow> bool) \<Rightarrow> nat \<Rightarrow> NexusMessage \<Rightarrow> u8 list \<Rightarrow> bool" where
  "encoding_by P sb nm m \<longleftrightarrow> (\<exists>g gs. encodes_by P sb nm (g # gs) \<and>
     (\<forall>h \<in> set ((bits_n 6 (TCode_val (tcode nm)) @ g) # gs). whole h) \<and>
     m = enc_groups ((bits_n 6 (TCode_val (tcode nm)) @ g) # gs) \<and> length m \<le> MSGBUF)"

definition encoding :: "nat \<Rightarrow> NexusMessage \<Rightarrow> u8 list \<Rightarrow> bool" where
  "encoding = encoding_by fits"

text \<open>
  The encodings in which no field takes more than 64 bits, for a reader that does not take padding
  beyond that.
\<close>

definition narrow :: "bool list \<Rightarrow> bool" where
  "narrow g \<longleftrightarrow> length g \<le> 64"

definition narrow_encoding :: "nat \<Rightarrow> NexusMessage \<Rightarrow> u8 list \<Rightarrow> bool" where
  "narrow_encoding = encoding_by narrow"

lemma encodes_by_mono: "encodes_by P sb nm gs \<Longrightarrow> (\<And>g. P g \<Longrightarrow> Q g) \<Longrightarrow> encodes_by Q sb nm gs"
  unfolding encodes_by_def by (elim exE conjE) (intro exI conjI, assumption+, blast)

lemma encoding_by_mono: "encoding_by P sb nm m \<Longrightarrow> (\<And>g. P g \<Longrightarrow> Q g) \<Longrightarrow> encoding_by Q sb nm m"
  unfolding encoding_by_def using encodes_by_mono [of P sb nm _ Q] by blast

lemma narrow_encoding_encoding: "narrow_encoding sb nm m \<Longrightarrow> encoding sb nm m"
  unfolding narrow_encoding_def encoding_def
  by (erule encoding_by_mono) (simp add: narrow_def fits_short)

lemma enc_group_ends:
  assumes "length g = 6 * Suc c" and "take_bit 2 t = t"
  shows "\<exists>bs l. enc_group t g = bs @ [l] \<and> length bs = c \<and> (\<forall>x \<in> set bs. x AND 3 = MSEO_NORMAL) \<and>
     l AND 3 = t"
proof -
  note sh = enc_group_shape [OF assms(1), of t]
  define e where "e = enc_group t g"
  have l: "length e = Suc c" and n: "\<And>i. i < Suc c \<Longrightarrow> e ! i =
      enc_slice (take 6 (drop (6 * i) g)) (if i = c then t else MSEO_NORMAL)"
    using sh by (auto simp: e_def)
  have ne: "e \<noteq> []" using l by auto
  have "\<forall>x \<in> set (butlast e). x AND 3 = MSEO_NORMAL"
    using l n enc_slice_mseo [OF mseo_take_bit(1)]
    by (auto simp: in_set_conv_nth nth_butlast)
  moreover have "last e AND 3 = t" using l n ne enc_slice_mseo [OF assms(2)] by (simp add: last_conv_nth)
  ultimately show ?thesis using ne l
    by (intro exI [of _ "butlast e"] exI [of _ "last e"]) (auto simp: e_def [symmetric])
qed

lemma enc_groups_ends:
  "gs \<noteq> [] \<Longrightarrow> \<forall>g \<in> set gs. whole g \<Longrightarrow>
   \<exists>bs l. enc_groups gs = bs @ [l] \<and> (\<forall>x \<in> set bs. x AND 3 \<noteq> MSEO_END) \<and> l AND 3 = MSEO_END"
proof (induction gs rule: enc_groups.induct)
  case (2 g)
  then obtain c where c: "length g = 6 * Suc c" by (auto elim: whole_cases)
  from enc_group_ends [OF c mseo_take_bit(3)] obtain bs l where
    "enc_group MSEO_END g = bs @ [l]" "\<forall>x \<in> set bs. x AND 3 = MSEO_NORMAL" "l AND 3 = MSEO_END"
    by blast
  then show ?case by (auto simp: mseo_defs)
next
  case (3 g h hs)
  then obtain c where c: "length g = 6 * Suc c" by (auto elim: whole_cases)
  from enc_group_ends [OF c mseo_take_bit(2)] obtain cs k where g:
    "enc_group MSEO_VAR_END g = cs @ [k]" "\<forall>x \<in> set cs. x AND 3 = MSEO_NORMAL" "k AND 3 = MSEO_VAR_END"
    by blast
  from 3 obtain bs l where h: "enc_groups (h # hs) = bs @ [l]" "\<forall>x \<in> set bs. x AND 3 \<noteq> MSEO_END"
      "l AND 3 = MSEO_END" by auto
  have "enc_groups (g # h # hs) = ((cs @ [k]) @ bs) @ [l]" using g(1) h(1) by simp
  moreover have "\<forall>x \<in> set ((cs @ [k]) @ bs). x AND 3 \<noteq> MSEO_END" using g h by (auto simp: mseo_defs)
  ultimately show ?case using h(3) by blast
qed simp

lemma TCode_val_range: "kind_ok nm \<Longrightarrow> take_bit 6 (TCode_val (tcode nm)) = TCode_val (tcode nm) \<and> TCode_val (tcode nm) \<noteq> 0"
  by (cases "tcode nm") (simp_all add: kind_ok_def TCode_val_def)

text \<open>The first slice of a message is its TCODE.\<close>

lemma first_slice:
  assumes "take_bit 6 v = v" and "v \<noteq> 0"
  shows "\<not> idle (enc_slice (bits_n 6 v) MSEO_NORMAL)"
proof -
  obtain i where i: "bit v i" using assms(2) word_nonzero_bit by blast
  then have "i < 6" using assms(1) by (metis bit_take_bit_iff)
  then have "bit (enc_slice (bits_n 6 v) MSEO_NORMAL) (2 + i)"
    using i bit_enc_slice [OF mseo_take_bit(1), of i "bits_n 6 v"] by (simp add: bits_n_def)
  then have "enc_slice (bits_n 6 v) MSEO_NORMAL \<noteq> 0" by (metis bit_0_eq bot_apply bot_bool_def)
  then show ?thesis using enc_slice_mseo [OF mseo_take_bit(1)] by (simp add: idle_def)
qed

lemma enc_groups_first:
  assumes "length g = 6 * Suc (Suc c)"
  shows "\<exists>x. enc_groups (g # gs) = enc_slice (take 6 g) MSEO_NORMAL # x"
proof -
  have "\<exists>x. enc_group t g = enc_slice (take 6 g) MSEO_NORMAL # x" for t
    using assms by (simp add: enc_group.simps [of t g])
  then show ?thesis by (cases gs) (auto, metis append_Cons)
qed

lemma encoding_framed:
  assumes "kind_ok nm" and "encoding sb nm m"
  shows "framed m"
proof -
  let ?t = "bits_n 6 (TCode_val (tcode nm))"
  obtain g gs where e: "encodes sb nm (g # gs)" "\<forall>h \<in> set ((?t @ g) # gs). whole h"
      "m = enc_groups ((?t @ g) # gs)" "length m \<le> MSGBUF"
    using assms(2) unfolding encoding_def encoding_by_def encodes_def by blast
  have "g \<noteq> []" using e(1) by (auto simp: encodes_def encodes_by_def)
  obtain c where c: "length (?t @ g) = 6 * Suc c" using e(2) by (auto elim: whole_cases)
  then obtain d where "c = Suc d" using \<open>g \<noteq> []\<close> by (cases c) (auto simp: bits_n_simps)
  then obtain x where x: "m = enc_slice (take 6 (?t @ g)) MSEO_NORMAL # x"
    using enc_groups_first [of "?t @ g" d gs] c e(3) by auto
  moreover have "take 6 (?t @ g) = ?t" by (simp add: bits_n_simps)
  ultimately have f: "m = enc_slice ?t MSEO_NORMAL # x" "\<not> idle (enc_slice ?t MSEO_NORMAL)"
    using first_slice TCode_val_range [OF assms(1)] by auto
  obtain bs l where b: "m = bs @ [l]" "\<forall>x \<in> set bs. x AND 3 \<noteq> MSEO_END" "l AND 3 = MSEO_END"
    using enc_groups_ends [OF _ e(2)] e(3) by auto
  have "bs \<noteq> []" using b(1,3) f by (auto simp: idle_def mseo_defs)
  then obtain ys where "bs = enc_slice ?t MSEO_NORMAL # ys" using b(1) f(1) by (cases bs) auto
  then show ?thesis unfolding framed_def using b f(2) e(4) by (intro exI [of _ "enc_slice ?t MSEO_NORMAL"] exI [of _ ys] exI [of _ l]) auto
qed

section \<open>Properties\<close>

text \<open>What parsing a framed message that encodes \<open>nm\<close> gives.\<close>

lemma parse_binary_encoding:
  assumes s: "msg s = m @ post" "msgSlices s = length m" "bitIndex s = 0" "eom s = False"
    and e: "encoding (srcbits s) nm m" and ok: "msg_ok (srcbits s) nm" "unat (coreId nm) < DQR_MAXCORES"
    and a: "an_status a = DQERR_OK"
  shows "\<exists>k a'. parse_binary s nm0 a =
     (Inr (DQERR_OK, True), s\<lparr>bitIndex := k, eom := True, status := DQERR_OK\<rparr>,
      (copy_msg nm (nm0\<lparr>offset := msgOffset s, rawData := raw_copy (msg s) (rawData nm0) 0\<rparr>))
        \<lparr>msgNum := currentTraceMsgNum a'\<rparr>, a') \<and> an_status a' = DQERR_OK \<and>
     num_trace_msgs_all_cores a' = num_trace_msgs_all_cores a + 1 \<and>
     num_trace_bits_all_cores a' = num_trace_bits_all_cores a + of_nat (8 * length m)"
proof -
  let ?t = "bits_n 6 (TCode_val (tcode nm))"
  let ?nm = "nm0\<lparr>offset := msgOffset s, rawData := raw_copy (msg s) (rawData nm0) 0\<rparr>"
  obtain g gs where e: "encodes (srcbits s) nm (g # gs)" "\<forall>h \<in> set ((?t @ g) # gs). whole h"
      "m = enc_groups ((?t @ g) # gs)" using e unfolding encoding_def encoding_by_def encodes_def by blast
  have ne: "g \<noteq> []" using e(1) by (auto simp: encodes_def encodes_by_def)
  have "groups_at (msg s) (msgSlices s) (6 * length ([] :: u8 list)) ((?t @ g) # gs)"
    using s e by (intro groups_at_enc [where post = post]) auto
  then have "remains s ((?t @ g) # gs)" using s by (simp add: remains_def del: groups_at.simps)
  from slice.fixed_law [OF this _ _ ne] obtain s1 where s1:
      "parseFixedField 6 s = (Inr (TCode_val (tcode nm)), s1)" "remains s1 (g # gs)" "same_message s s1"
    using TCode_val_range [OF msg_ok_kind [OF ok(1)]] by (auto simp: bits_n_simps)
  have sb: "srcbits s1 = srcbits s" "msgSlices s1 = length m"
    using s1(3) s(2) by (auto simp: same_message_def)
  obtain p k where p: "parse_tcode (TCode_val (tcode nm)) s1 ?nm a = (Inr (), p)"
      "pm p = (copy_msg nm ?nm)\<lparr>msgNum := currentTraceMsgNum (pa p)\<rparr>"
      "pf p = s1\<lparr>bitIndex := k, eom := True, status := DQERR_OK\<rparr>" "an_status (pa p) = DQERR_OK"
      "num_trace_msgs_all_cores (pa p) = num_trace_msgs_all_cores a + 1"
      "num_trace_bits_all_cores (pa p) =
         num_trace_bits_all_cores a + of_nat (6 + length (concat (g # gs)) + msgSlices s1 * 2)"
    using parse_tcode_roundtrip [OF ok e(1) s1(2) sb(1) a, of ?nm] by blast
  have "length m * 6 = 6 + length (concat (g # gs))"
    using length_enc_groups [OF _ e(2)] e(3) by (simp add: bits_n_simps)
  then have "6 + length (concat (g # gs)) + msgSlices s1 * 2 = 8 * length m" using sb(2) by simp
  moreover have "pf p = s\<lparr>bitIndex := k, eom := True, status := DQERR_OK\<rparr>"
    using p(3) s1(3) by (auto simp: same_message_def)
  ultimately show ?thesis using p s1(1) by (intro exI [of _ k] exI [of _ "pa p"]) (simp add: parse_binary_def)
qed

lemma readNextTraceMsg_message:
  assumes r: "file_ready s (ib @ m @ rest)" "\<forall>x \<in> set ib. idle x"
    and e: "encoding (srcbits s) nm m" and ok: "msg_ok (srcbits s) nm" "unat (coreId nm) < DQR_MAXCORES"
    and a: "an_status a = DQERR_OK"
  shows "\<exists>s' raw a'. readNextTraceMsg recv s nm0 a net =
      Some (Inr (DQERR_OK, True), s',
        (copy_msg nm (nm0\<lparr>offset := of_nat (tf_pos s + length ib), rawData := raw\<rparr>))
           \<lparr>msgNum := currentTraceMsgNum a'\<rparr>, a', net) \<and>
     file_ready s' rest \<and> srcbits s' = srcbits s \<and> an_status a' = DQERR_OK \<and>
     num_trace_msgs_all_cores a' = num_trace_msgs_all_cores a + 1 \<and>
     num_trace_bits_all_cores a' = num_trace_bits_all_cores a + of_nat (8 * length m)"
proof -
  have "framed m" using encoding_framed [OF msg_ok_kind [OF ok(1)] e] .
  from readBinaryMsg_file [OF r this, of recv net] obtain s1 where
    s1: "readBinaryMsg recv s net = Some ((DQERR_OK, True), s1, net)" "file_ready s1 rest"
      "msg s1 = m @ drop (length m) (msg s)" "msgSlices s1 = length m" "bitIndex s1 = 0"
      "eom s1 = False" "srcbits s1 = srcbits s" "msgOffset s1 = of_nat (tf_pos s + length ib)" by blast
  note sb = s1(7) [symmetric]
  from parse_binary_encoding [OF s1(3-6) e [unfolded sb] ok(1) [unfolded sb] ok(2) a, of nm0]
  obtain k a' where p: "parse_binary s1 nm0 a =
     (Inr (DQERR_OK, True), s1\<lparr>bitIndex := k, eom := True, status := DQERR_OK\<rparr>,
      (copy_msg nm (nm0\<lparr>offset := msgOffset s1, rawData := raw_copy (msg s1) (rawData nm0) 0\<rparr>))
        \<lparr>msgNum := currentTraceMsgNum a'\<rparr>, a')" "an_status a' = DQERR_OK"
     "num_trace_msgs_all_cores a' = num_trace_msgs_all_cores a + 1"
     "num_trace_bits_all_cores a' = num_trace_bits_all_cores a + of_nat (8 * length m)" by blast
  have "file_ready (s1\<lparr>bitIndex := k, eom := True, status := DQERR_OK\<rparr>) rest"
    using s1(2) by (simp add: file_ready_def file_left_def)
  moreover have "status s = DQERR_OK" using r(1) by (simp add: file_ready_def)
  ultimately show ?thesis using s1(1,7,8) p by (simp add: readNextTraceMsg_def) blast
qed

text \<open>
  The record \<open>nm'\<close> holds the message \<open>nm\<close>: its kind, core, timestamp and the fields of its kind are
  those of \<open>nm\<close>, so that writing them into it changes nothing. Of the fields of other kinds, which
  share the storage of the union, nothing is said.
\<close>

definition holds_msg :: "NexusMessage \<Rightarrow> NexusMessage \<Rightarrow> bool" where
  "holds_msg nm nm' \<longleftrightarrow> copy_msg nm nm' = nm'"

lemma copy_msg_idem: "holds_msg nm ((copy_msg nm m)\<lparr>msgNum := k\<rparr>)"
  by (cases "tcode nm") (simp_all add: holds_msg_def copy_msg_def copy_ts_def copy_kind_def Let_def)

text \<open>
  What the rest of the decoder gets from a record it is handed, through the accessors of
  \<^verbatim>\<open>NexusMessage\<close>. \<^verbatim>\<open>getHistory\<close> of a correlation message without history reads bytes no message
  wrote, and is left out there.
\<close>

definition reads_alike :: "NexusMessage \<Rightarrow> NexusMessage \<Rightarrow> bool" where
  "reads_alike nm r \<longleftrightarrow>
     tcode r = tcode nm \<and> coreId r = coreId nm \<and> haveTimestamp r = haveTimestamp nm \<and>
     timestamp r = (if haveTimestamp nm then timestamp nm else 0) \<and>
     getI_Cnt r = getI_Cnt nm \<and> getU_Addr r = getU_Addr nm \<and> getF_Addr r = getF_Addr nm \<and>
     getB_Type r = getB_Type nm \<and> getSyncReason r = getSyncReason nm \<and> getEType r = getEType nm \<and>
     getCKDF r = getCKDF nm \<and> getCKSRC r = getCKSRC nm \<and> getCKData r 0 = getCKData nm 0 \<and>
     getCDF r = getCDF nm \<and> getEVCode r = getEVCode nm \<and> getData r = getData nm \<and>
     getAddr r = getAddr nm \<and> getIdTag r = getIdTag nm \<and> getProcessId r = getProcessId nm \<and>
     getRCode r = getRCode nm \<and> getRData r = getRData nm \<and>
     (tcode nm = TCODE_CORRELATION \<and> correlation_cdf nm = 0 \<or> getHistory r = getHistory nm)"

lemmas accessor_defs = getI_Cnt_def getU_Addr_def getF_Addr_def getB_Type_def getSyncReason_def
  getEType_def getCKDF_def getCKSRC_def getCKData_def ckdata_def getCDF_def getEVCode_def getData_def
  getAddr_def getIdTag_def getProcessId_def getRCode_def getRData_def getHistory_def

lemma copy_msg_reads_alike:
  "kind_ok nm \<Longrightarrow> reads_alike nm ((copy_msg nm m)\<lparr>msgNum := k\<rparr>)"
  by (cases "tcode nm")
    (auto simp: kind_ok_def reads_alike_def accessor_defs copy_msg_def copy_ts_def copy_kind_def Let_def
      split: ICTReason.split)

text \<open>The fields outside the union that parsing a message leaves as they are.\<close>

definition same_rest :: "NexusMessage \<Rightarrow> NexusMessage \<Rightarrow> bool" where
  "same_rest m r \<longleftrightarrow> currentAddress r = currentAddress m \<and> time r = time m \<and> prv r = prv m \<and> pid r = pid m"

lemma copy_msg_rest:
  "same_rest m ((copy_msg nm (m\<lparr>offset := w, rawData := raw\<rparr>))\<lparr>msgNum := k\<rparr>) \<and>
   offset ((copy_msg nm (m\<lparr>offset := w, rawData := raw\<rparr>))\<lparr>msgNum := k\<rparr>) = w"
  by (cases "tcode nm") (simp_all add: same_rest_def copy_msg_def copy_ts_def copy_kind_def Let_def)


text \<open>A direct branch of five half-words from core 2, with a timestamp, after two idle bytes.\<close>

definition sample_msg :: NexusMessage where
  "sample_msg = undefined\<lparr>tcode := TCODE_DIRECT_BRANCH, coreId := 2, directBranch_i_cnt := 5,
     haveTimestamp := True, timestamp := 9\<rparr>"

definition sample_bits :: "bool list list" where
  "sample_bits = [[False, True, True, False, True, False], [True, False, False, True, False, False]]"

definition sample_reader :: "u8 list \<Rightarrow> SliceFileParser" where
  "sample_reader bs = \<lparr>status = DQERR_OK, srcbits = 2, tf_data = bs, tf_pos = 0, tf_open = True,
     tf_err = None, SWTsock = -1, bitIndex = 0, msgSlices = 0, msgOffset = 0, pendingMsgIndex = 0,
     msg = replicate 64 0, eom = False, flushMessage = False, bufferInIndex = 0, bufferOutIndex = 0,
     sockBuffer = []\<rparr>"

lemma sample_narrow: "narrow_encoding 2 sample_msg [0x0c, 0x59, 0x27]"
proof -
  have b: "bits_n 6 (TCode_val (tcode sample_msg)) = [True, True, False, False, False, False]"
    "bits_n 2 (ucast (coreId sample_msg)) = [False, True]"
    by (simp_all add: bits_n_def sample_msg_def TCode_val_def upt_rec bit_simps)
  have "encodes_by narrow 2 sample_msg sample_bits"
    unfolding encodes_by_def sample_bits_def
    by (rule exI [of _ "[True, False, True, False]"], rule exI [of _ "[[True, False, False, True, False, False]]"])
      (simp add: head_bits_def b(2), simp add: narrow_def sample_msg_def fixed_fields_def var_fields_def ts_fields_def num_def)
  moreover have "enc_groups ((bits_n 6 (TCode_val (tcode sample_msg)) @ hd sample_bits) # tl sample_bits) = [0x0c, 0x59, 0x27]"
    by (simp add: b(1) sample_bits_def enc_group.simps enc_slice_def mseo_defs)
  ultimately show ?thesis
    unfolding narrow_encoding_def encoding_by_def
    by (intro exI [of _ "hd sample_bits"] exI [of _ "tl sample_bits"])
      (simp add: b(1), simp add: sample_bits_def whole_def MSGBUF_def)
qed

lemmas sample_encoding = narrow_encoding_encoding [OF sample_narrow]


text \<open>Reading \<open>n\<close> messages, one call each, with a fresh message record for every call.\<close>

fun read_msgs :: "'net recv \<Rightarrow> nat \<Rightarrow> SliceFileParser \<Rightarrow> NexusMessage \<Rightarrow> Analytics \<Rightarrow> 'net \<Rightarrow>
    (NexusMessage list \<times> SliceFileParser \<times> Analytics) option" where
  "read_msgs recv 0 s nm0 a net = Some ([], s, a)"
| "read_msgs recv (Suc n) s nm0 a net =
     (case readNextTraceMsg recv s nm0 a net of
        Some (Inr (rc, hm), s1, nm, a1, net1) \<Rightarrow>
          if rc = DQERR_OK \<and> hm then
            map_option (\<lambda>(nms, r). (nm # nms, r)) (read_msgs recv n s1 nm0 a1 net1)
          else None
      | _ \<Rightarrow> None)"

definition readable :: "nat \<Rightarrow> u8 list \<times> NexusMessage \<times> u8 list \<Rightarrow> bool" where
  "readable sb x = (case x of (ib, nm, m) \<Rightarrow> (\<forall>b \<in> set ib. idle b) \<and> encoding sb nm m \<and> msg_ok sb nm \<and>
     unat (coreId nm) < DQR_MAXCORES)"

lemma read_msgs_stream:
  "file_ready s (concat (map (\<lambda>(ib, nm, m). ib @ m) xs) @ rest) \<Longrightarrow> \<forall>x \<in> set xs. readable (srcbits s) x \<Longrightarrow>
   an_status a = DQERR_OK \<Longrightarrow>
   \<exists>nms s' a'. read_msgs recv (length xs) s nm0 a net = Some (nms, s', a') \<and>
     list_all2 holds_msg (map (\<lambda>(ib, nm, m). nm) xs) nms \<and> file_ready s' rest \<and>
     num_trace_msgs_all_cores a' = num_trace_msgs_all_cores a + of_nat (length xs)"
proof (induction xs arbitrary: s a net)
  case Nil
  then show ?case by simp
next
  case (Cons x xs)
  obtain ib nm m where x: "x = (ib, nm, m)" by (cases x)
  have f: "file_ready s (ib @ m @ concat (map (\<lambda>(ib, nm, m). ib @ m) xs) @ rest)"
    using Cons.prems(1) by (simp add: x)
  have r: "\<forall>b \<in> set ib. idle b" "encoding (srcbits s) nm m" "msg_ok (srcbits s) nm"
      "unat (coreId nm) < DQR_MAXCORES"
    using Cons.prems(2) by (simp_all add: x readable_def)
  from readNextTraceMsg_message [OF f r Cons.prems(3), of recv nm0 net] obtain s1 raw a1 where
    1: "readNextTraceMsg recv s nm0 a net = Some (Inr (DQERR_OK, True), s1,
        (copy_msg nm (nm0\<lparr>offset := of_nat (tf_pos s + length ib), rawData := raw\<rparr>))
           \<lparr>msgNum := currentTraceMsgNum a1\<rparr>, a1, net)"
      "file_ready s1 (concat (map (\<lambda>(ib, nm, m). ib @ m) xs) @ rest)" "srcbits s1 = srcbits s"
      "an_status a1 = DQERR_OK" "num_trace_msgs_all_cores a1 = num_trace_msgs_all_cores a + 1" by blast
  from Cons.IH [OF 1(2) _ 1(4), of net] Cons.prems(2) 1(3) obtain nms s' a' where
    2: "read_msgs recv (length xs) s1 nm0 a1 net = Some (nms, s', a')"
      "list_all2 holds_msg (map (\<lambda>(ib, nm, m). nm) xs) nms" "file_ready s' rest"
      "num_trace_msgs_all_cores a' = num_trace_msgs_all_cores a1 + of_nat (length xs)" by auto
  show ?case using 1(1,5) 2 copy_msg_idem [of nm] by (simp add: x)
qed

lemma readNextTraceMsg_eof:
  assumes "file_ready s ib" and "\<forall>b \<in> set ib. idle b"
  shows "\<exists>s'. readNextTraceMsg recv s nm0 a net = Some (Inr (DQERR_EOF, False), s', nm0, a, net) \<and>
     status s' = DQERR_EOF"
proof -
  have "\<exists>s'. start_loop recv t net = Some (Rd_err DQERR_EOF, s', net)"
    if "file_left t ib" "\<forall>b \<in> set ib. idle b" for t
    using that
  proof (induction ib arbitrary: t)
    case Nil
    then show ?case by (subst start_loop.simps) (simp add: next_byte_file_end)
  next
    case (Cons c ib)
    have "start_loop recv t net = start_loop recv (t\<lparr>tf_pos := tf_pos t + 1, msg := (msg t)[0 := c]\<rparr>) net"
      using Cons.prems(2)
      by (subst start_loop.simps) (simp add: idle_def next_byte_file(1) [OF Cons.prems(1)])
    then show ?case
      using Cons.IH [OF next_byte_file(2) [OF Cons.prems(1)]] Cons.prems(2) by simp
  qed
  then obtain s' where "start_loop recv s net = Some (Rd_err DQERR_EOF, s', net)"
    using assms by (auto simp: file_ready_def)
  then show ?thesis
    using assms(1) by (simp add: readNextTraceMsg_def readBinaryMsg_def file_ready_def)
qed

text \<open>
  C4. A whole file: the messages of a trace file, each preceded by any idle bytes, are returned one
  per call, all of them, in order and with the fields they were encoded with; after the last one,
  and whatever idle bytes follow it, the next call reports the end of the file.
\<close>

theorem trace_file_read_in_order:
  assumes "file_ready s (concat (map (\<lambda>(ib, nm, m). ib @ m) xs) @ rest)"
    and "\<forall>x \<in> set xs. readable (srcbits s) x" and "\<forall>b \<in> set rest. idle b" and "an_status a = DQERR_OK"
  shows "\<exists>nms s' a'. read_msgs recv (length xs) s nm0 a net = Some (nms, s', a') \<and>
     list_all2 holds_msg (map (\<lambda>(ib, nm, m). nm) xs) nms \<and>
     num_trace_msgs_all_cores a' = num_trace_msgs_all_cores a + of_nat (length xs) \<and>
     (\<exists>s''. readNextTraceMsg recv s' nm0 a' net = Some (Inr (DQERR_EOF, False), s'', nm0, a', net) \<and>
        status s'' = DQERR_EOF)"
proof -
  obtain nms s' a' where "read_msgs recv (length xs) s nm0 a net = Some (nms, s', a')"
     "list_all2 holds_msg (map (\<lambda>(ib, nm, m). nm) xs) nms" "file_ready s' rest"
     "num_trace_msgs_all_cores a' = num_trace_msgs_all_cores a + of_nat (length xs)"
    using read_msgs_stream [OF assms(1,2,4), of recv nm0 net] by blast
  then show ?thesis using readNextTraceMsg_eof [of s' rest recv nm0 a' net] assms(3) by blast
qed

theorem trace_file_read_in_order_witness:
  "\<exists>nms s' a'. read_msgs (\<lambda>n net. (Would_block, net)) (Suc (Suc 0))
      (sample_reader [0xff, 0x0c, 0x59, 0x27, 0x0c, 0x59, 0x27, 0xff, 0]) undefined
      (Analytics_new (\<lambda>_. undefined)) () = Some (nms, s', a') \<and>
     list_all2 holds_msg [sample_msg, sample_msg] nms \<and>
     (\<exists>s''. readNextTraceMsg (\<lambda>n net. (Would_block, net)) s' undefined a' () =
        Some (Inr (DQERR_EOF, False), s'', undefined, a', ()))"
proof -
  let ?xs = "[([0xff], sample_msg, [0x0c, 0x59, 0x27]), ([], sample_msg, [0x0c, 0x59, 0x27])]"
  let ?s = "sample_reader [0xff, 0x0c, 0x59, 0x27, 0x0c, 0x59, 0x27, 0xff, 0]"
  have r: "file_ready ?s (concat (map (\<lambda>(ib, nm, m). ib @ m) ?xs) @ [0xff, 0])"
    by (simp add: sample_reader_def file_ready_def file_left_def MSGBUF_def)
  have m: "msg_ok 2 sample_msg" "unat (coreId sample_msg) < DQR_MAXCORES"
    by (simp_all add: msg_ok_def kind_ok_def ok_int_def fixed_fields_def sample_msg_def
        take_bit_eq_mask mask_eq_exp_minus_1 DQR_MAXCORES_def)
  have x: "\<forall>x \<in> set ?xs. readable (srcbits ?s) x"
    using sample_encoding m by (simp add: readable_def sample_reader_def idle_def mseo_defs)
  have i: "\<forall>b \<in> set [0xff, 0]. idle b" by (simp add: idle_def mseo_defs)
  have a: "an_status (Analytics_new (\<lambda>_. undefined)) = DQERR_OK" by (simp add: Analytics_new_def)
  from trace_file_read_in_order [OF r x i a, of "\<lambda>n net. (Would_block, net)" undefined "()"]
  show ?thesis by (simp del: read_msgs.simps) blast
qed

end
