(* ===== verification/Slice_Socket.thy ===== *)
theory Slice_Socket
  imports Slice_Reader
begin

text \<open>
  The socket side of \<^verbatim>\<open>class SliceFileParser\<close>: the ring buffer is a first-in first-out queue that
  neither loses nor reorders bytes (locale \<open>byte_fifo\<close>, interpretation \<open>swtq\<close>), and a message
  may arrive in any number of pieces: \<^verbatim>\<open>readBinaryMsg\<close> resumes where it stopped.
\<close>

section \<open>The ring buffer as a queue\<close>

definition swt_inv :: "SliceFileParser \<Rightarrow> bool" where
  "swt_inv s \<longleftrightarrow> length (sockBuffer s) = SOCKBUF \<and> bufferInIndex s < SOCKBUF \<and> bufferOutIndex s < SOCKBUF"

definition swt_items :: "SliceFileParser \<Rightarrow> u8 list" where
  "swt_items s =
     (if bufferOutIndex s \<le> bufferInIndex s
      then drop (bufferOutIndex s) (take (bufferInIndex s) (sockBuffer s))
      else drop (bufferOutIndex s) (sockBuffer s) @ take (bufferInIndex s) (sockBuffer s))"

text \<open>
  The contract of a buffered byte queue over a connection: filling it moves bytes from the
  connection to the end of the queue, taking a byte removes the first one.
\<close>

locale byte_fifo =
  fixes fill :: "'net recv \<Rightarrow> 's \<Rightarrow> 'net \<Rightarrow> DQErr \<times> 's \<times> 'net"
    and pop :: "'s \<Rightarrow> u8 \<times> 's"
    and items :: "'s \<Rightarrow> u8 list"
    and invar :: "'s \<Rightarrow> bool"
  assumes fill_law: "delivers recv sent \<Longrightarrow> invar s \<Longrightarrow> fill recv s net = (rc, s', net') \<Longrightarrow>
      invar s' \<and> items s' @ sent net' = items s @ sent net"
    and pop_law: "invar s \<Longrightarrow> items s \<noteq> [] \<Longrightarrow> pop s = (b, s') \<Longrightarrow> invar s' \<and> items s = b # items s'"
begin

text \<open>Any interleaving of filling and taking: \<open>True\<close> fills, \<open>False\<close> takes a byte if there is one.\<close>

fun run :: "'net recv \<Rightarrow> bool list \<Rightarrow> 's \<Rightarrow> 'net \<Rightarrow> u8 list \<times> 's \<times> 'net" where
  "run recv [] s net = ([], s, net)"
| "run recv (True # ops) s net = (case fill recv s net of (rc, s', net') \<Rightarrow> run recv ops s' net')"
| "run recv (False # ops) s net =
     (if items s = [] then run recv ops s net
      else case pop s of (b, s') \<Rightarrow> case run recv ops s' net of (bs, r) \<Rightarrow> (b # bs, r))"

lemma run_order:
  "delivers recv sent \<Longrightarrow> invar s \<Longrightarrow> run recv ops s net = (bs, s', net') \<Longrightarrow>
   invar s' \<and> bs @ items s' @ sent net' = items s @ sent net"
proof (induction recv ops s net arbitrary: bs rule: run.induct)
  case (2 recv ops s net)
  obtain rc s1 net1 where f: "fill recv s net = (rc, s1, net1)" by (cases "fill recv s net")
  then show ?case using 2 fill_law [OF 2(2,3) f] by auto
next
  case (3 recv ops s net)
  show ?case
  proof (cases "items s = []")
    case True
    then show ?thesis using 3 by simp
  next
    case False
    obtain b s1 where p: "pop s = (b, s1)" by (cases "pop s")
    obtain cs r where r: "run recv ops s1 net = (cs, r)" by (cases "run recv ops s1 net")
    have "r = (s', net')" "bs = b # cs" using 3(5) False p r by auto
    then show ?thesis using 3(2) [OF False p [symmetric] 3(3)] pop_law [OF 3(4) False p] r by simp
  qed
qed simp

end

lemma put_bytes_length: "i + length bs \<le> length buf \<Longrightarrow> length (put_bytes i bs buf) = length buf"
  by (simp add: put_bytes_def)

lemma put_bytes_take: "i \<le> length buf \<Longrightarrow> take (i + length bs) (put_bytes i bs buf) = take i buf @ bs"
  by (simp add: put_bytes_def)

lemma put_bytes_drop: "i + length bs \<le> o' \<Longrightarrow> o' \<le> length buf \<Longrightarrow> drop o' (put_bytes i bs buf) = drop o' buf"
proof -
  assume a: "i + length bs \<le> o'" "o' \<le> length buf"
  then have "drop o' (put_bytes i bs buf) = drop (o' - (i + length bs)) (drop (i + length bs) buf)"
    by (simp add: put_bytes_def)
  then show ?thesis using a by simp
qed

text \<open>The three ways bytes enter the buffer.\<close>

lemma fill_empty:
  "swt_inv s \<Longrightarrow> bufferInIndex s = bufferOutIndex s \<Longrightarrow> length bs \<le> SOCKBUF - 1 \<Longrightarrow>
   swt_inv (s\<lparr>sockBuffer := put_bytes 0 bs (sockBuffer s), bufferInIndex := length bs, bufferOutIndex := 0\<rparr>) \<and>
   swt_items (s\<lparr>sockBuffer := put_bytes 0 bs (sockBuffer s), bufferInIndex := length bs, bufferOutIndex := 0\<rparr>) = bs \<and>
   swt_items s = []"
  using put_bytes_take [of 0 "sockBuffer s" bs]
  by (auto simp: swt_inv_def swt_items_def put_bytes_length SOCKBUF_def)

lemma fill_low:
  "swt_inv s \<Longrightarrow> bufferInIndex s < bufferOutIndex s \<Longrightarrow>
   length bs \<le> bufferOutIndex s - bufferInIndex s - 1 \<Longrightarrow>
   swt_inv (s\<lparr>sockBuffer := put_bytes (bufferInIndex s) bs (sockBuffer s), bufferInIndex := bufferInIndex s + length bs\<rparr>) \<and>
   swt_items (s\<lparr>sockBuffer := put_bytes (bufferInIndex s) bs (sockBuffer s), bufferInIndex := bufferInIndex s + length bs\<rparr>)
     = swt_items s @ bs"
  using put_bytes_take [of "bufferInIndex s" "sockBuffer s" bs]
    put_bytes_drop [of "bufferInIndex s" bs "bufferOutIndex s" "sockBuffer s"]
  by (auto simp: swt_inv_def swt_items_def put_bytes_length)

lemma fill_high:
  "swt_inv s \<Longrightarrow> bufferOutIndex s < bufferInIndex s \<Longrightarrow> bufferInIndex s + length bs < SOCKBUF \<Longrightarrow>
   swt_inv (s\<lparr>sockBuffer := put_bytes (bufferInIndex s) bs (sockBuffer s), bufferInIndex := bufferInIndex s + length bs\<rparr>) \<and>
   swt_items (s\<lparr>sockBuffer := put_bytes (bufferInIndex s) bs (sockBuffer s), bufferInIndex := bufferInIndex s + length bs\<rparr>)
     = swt_items s @ bs"
  using put_bytes_take [of "bufferInIndex s" "sockBuffer s" bs]
  by (auto simp: swt_inv_def swt_items_def put_bytes_length)

lemma fill_wrap:
  "swt_inv s \<Longrightarrow> bufferOutIndex s < bufferInIndex s \<Longrightarrow> bufferInIndex s + length bs = SOCKBUF \<Longrightarrow>
   0 < bufferOutIndex s \<Longrightarrow>
   swt_inv (s\<lparr>sockBuffer := put_bytes (bufferInIndex s) bs (sockBuffer s), bufferInIndex := 0\<rparr>) \<and>
   swt_items (s\<lparr>sockBuffer := put_bytes (bufferInIndex s) bs (sockBuffer s), bufferInIndex := 0\<rparr>)
     = swt_items s @ bs"
  using put_bytes_take [of "bufferInIndex s" "sockBuffer s" bs]
    put_bytes_length [of "bufferInIndex s" bs "sockBuffer s"]
  by (auto simp: swt_inv_def swt_items_def)

text \<open>The status is not part of the queue.\<close>

lemma swt_result_queue:
  "swt_result r s net = (rc, s', net') \<Longrightarrow> swt_inv s' = swt_inv s \<and> swt_items s' = swt_items s \<and> net' = net"
  by (auto simp: swt_result_def swt_inv_def swt_items_def split: if_splits)

lemma delivers_recv:
  "delivers recv sent \<Longrightarrow> recv n net = (r, net') \<Longrightarrow> sent net = received r @ sent net' \<and> length (received r) \<le> n"
  unfolding delivers_def by blast

lemma bufferSWT_empty:
  assumes d: "delivers recv sent" and i: "swt_inv s" and e: "bufferInIndex s = bufferOutIndex s"
    and b: "bufferSWT recv s net = (rc, s', net')"
  shows "swt_inv s' \<and> swt_items s' @ sent net' = swt_items s @ sent net"
proof -
  obtain r net1 where r: "recv (SOCKBUF - 1) net = (r, net1)" by (cases "recv (SOCKBUF - 1) net")
  note dr = delivers_recv [OF d r]
  have b1: "swt_result r
      (if received r \<noteq> [] then s\<lparr>sockBuffer := put_bytes 0 (received r) (sockBuffer s),
           bufferInIndex := length (received r), bufferOutIndex := 0\<rparr> else s) net1 = (rc, s', net')"
    using b r e by (simp add: bufferSWT_def Let_def cong: if_cong)
  note q = swt_result_queue [OF b1]
  show ?thesis
  proof (cases "received r = []")
    case True
    then show ?thesis using q dr i by simp
  next
    case False
    then show ?thesis using q dr fill_empty [OF i e, of "received r"] by simp
  qed
qed

lemma bufferSWT_low:
  assumes d: "delivers recv sent" and i: "swt_inv s" and e: "bufferInIndex s < bufferOutIndex s"
    and b: "bufferSWT recv s net = (rc, s', net')"
  shows "swt_inv s' \<and> swt_items s' @ sent net' = swt_items s @ sent net"
proof (cases "bufferOutIndex s - bufferInIndex s - 1 > 0")
  case False
  then show ?thesis using b e i by (auto simp: bufferSWT_def)
next
  case True
  let ?n = "bufferOutIndex s - bufferInIndex s - 1"
  obtain r net1 where r: "recv ?n net = (r, net1)" by (cases "recv ?n net")
  have "swt_result r (s\<lparr>sockBuffer := put_bytes (bufferInIndex s) (received r) (sockBuffer s),
      bufferInIndex := bufferInIndex s + length (received r)\<rparr>) net1 = (rc, s', net')"
    using b r e True by (simp add: bufferSWT_def Let_def)
  note q = swt_result_queue [OF this]
  show ?thesis using q delivers_recv [OF d r] fill_low [OF i e, of "received r"] by simp
qed

lemma bufferSWT_high:
  assumes d: "delivers recv sent" and i: "swt_inv s" and e: "bufferOutIndex s < bufferInIndex s"
    and b: "bufferSWT recv s net = (rc, s', net')"
  shows "swt_inv s' \<and> swt_items s' @ sent net' = swt_items s @ sent net"
proof -
  define n where "n = (if bufferOutIndex s = 0 then SOCKBUF - bufferInIndex s - 1 else SOCKBUF - bufferInIndex s)"
  obtain r net1 where r: "recv n net = (r, net1)" by (cases "recv n net")
  note dr = delivers_recv [OF d r]
  define bs where "bs = received r"
  define s1 where "s1 = s\<lparr>sockBuffer := put_bytes (bufferInIndex s) bs (sockBuffer s)\<rparr>"
  define s2 where "s2 = s1\<lparr>bufferInIndex := 0\<rparr>"
  obtain r2 net2 where r2: "recv (bufferOutIndex s - 1) net1 = (r2, net2)" by (cases "recv (bufferOutIndex s - 1) net1")
  define s3 where "s3 = (if received r2 \<noteq> [] then s2\<lparr>sockBuffer := put_bytes 0 (received r2) (sockBuffer s2),
      bufferInIndex := length (received r2)\<rparr> else s2)"
  have "bufferSWT recv s net = (if n > 0 then
        if bs \<noteq> [] then
          if bufferInIndex s + length bs \<ge> SOCKBUF then
            if bufferOutIndex s - 1 > 0 then swt_result r2 s3 net2 else (DQERR_OK, s2, net1)
          else (DQERR_OK, s1\<lparr>bufferInIndex := bufferInIndex s + length bs\<rparr>, net1)
        else swt_result r s net1
      else (DQERR_OK, s, net))"
    using e r r2 unfolding bufferSWT_def n_def [symmetric] Let_def
    by (simp add: bs_def [symmetric] s1_def [symmetric] s2_def [symmetric] s3_def)
  note b1 = this [unfolded b]
  have lim: "length bs \<le> n" "n \<le> SOCKBUF - bufferInIndex s" using dr by (auto simp: bs_def n_def)
  have w: "swt_inv s2 \<and> swt_items s2 = swt_items s @ bs" if "bufferInIndex s + length bs \<ge> SOCKBUF"
  proof -
    have "bufferInIndex s < SOCKBUF" using i by (simp add: swt_inv_def)
    then have "bufferInIndex s + length bs = SOCKBUF" "0 < bufferOutIndex s"
      using that lim by (auto simp: n_def split: if_splits)
    then show ?thesis using fill_wrap [OF i e] by (simp add: s2_def s1_def)
  qed
  have o2: "bufferOutIndex s2 = bufferOutIndex s" "bufferInIndex s2 = 0" by (simp_all add: s2_def s1_def)
  have w3: "swt_inv s3 \<and> swt_items s3 @ sent net2 = swt_items s @ sent net"
    if "bufferInIndex s + length bs \<ge> SOCKBUF" "bufferOutIndex s - 1 > 0"
    using w [OF that(1)] fill_low [of s2 "received r2"] delivers_recv [OF d r2] dr o2 that(2)
    by (auto simp: s3_def bs_def)
  show ?thesis
    using b1 dr w w3 i fill_high [OF i e, of bs] swt_result_queue [of r2 s3 net2 rc s' net']
      swt_result_queue [of r s net1 rc s' net']
    by (auto simp: bs_def s1_def split: if_splits)
qed

lemma bufferSWT_conserves:
  "delivers recv sent \<Longrightarrow> swt_inv s \<Longrightarrow> bufferSWT recv s net = (rc, s', net') \<Longrightarrow>
   swt_inv s' \<and> swt_items s' @ sent net' = swt_items s @ sent net"
  using bufferSWT_empty bufferSWT_low bufferSWT_high by (metis linorder_cases)

lemma swt_items_empty: "swt_inv s \<Longrightarrow> swt_items s = [] \<longleftrightarrow> bufferInIndex s = bufferOutIndex s"
  by (auto simp: swt_inv_def swt_items_def)

lemma pop_byte_items:
  assumes i: "swt_inv s" and n: "swt_items s \<noteq> []" and p: "pop_byte s = (b, s')"
  shows "swt_inv s' \<and> swt_items s = b # swt_items s'"
proof -
  let ?o = "bufferOutIndex s" and ?i = "bufferInIndex s" and ?b = "sockBuffer s"
  have lim: "?o < SOCKBUF" "?i < SOCKBUF" "length ?b = SOCKBUF" and ne: "?i \<noteq> ?o"
    using i n swt_items_empty [OF i] by (auto simp: swt_inv_def)
  have b: "b = ?b ! ?o" and s': "s' = s\<lparr>bufferOutIndex := (if ?o + 1 \<ge> SOCKBUF then 0 else ?o + 1)\<rparr>"
    using p by (auto simp: pop_byte_def)
  have d: "drop ?o ?b = b # drop (?o + 1) ?b" using lim b by (simp add: Cons_nth_drop_Suc)
  show ?thesis
  proof (cases "?o < ?i")
    case True
    then have "drop ?o (take ?i ?b) = b # drop (?o + 1) (take ?i ?b)"
      using lim b Cons_nth_drop_Suc [of ?o "take ?i ?b"] by simp
    then show ?thesis using True lim by (auto simp: s' swt_inv_def swt_items_def)
  next
    case False
    then have "?i < ?o" using ne by simp
    then show ?thesis using d lim by (auto simp: s' swt_inv_def swt_items_def)
  qed
qed

interpretation swtq: byte_fifo bufferSWT pop_byte swt_items swt_inv
proof (unfold_locales, goal_cases)
  case (1 recv sent s net rc s' net')
  then show ?case by (rule bufferSWT_conserves)
next
  case (2 s b s')
  then show ?case by (rule pop_byte_items)
qed

section \<open>Messages in pieces\<close>

text \<open>What the parser has not read yet: the rest of the file, or the queue and what was sent.\<close>

definition input :: "('net \<Rightarrow> u8 list) \<Rightarrow> SliceFileParser \<Rightarrow> 'net \<Rightarrow> u8 list" where
  "input sent s net =
     (if SWTsock s \<ge> 0 then swt_items s @ sent net else drop (tf_pos s) (tf_data s))"

definition reader_inv :: "SliceFileParser \<Rightarrow> bool" where
  "reader_inv s \<longleftrightarrow> length (msg s) = MSGBUF \<and> (SWTsock s \<ge> 0 \<longrightarrow> swt_inv s)"

text \<open>\<open>s'\<close> differs from \<open>s\<close> only in where its input stands, in the status and in the message buffer.\<close>

definition same_reader :: "SliceFileParser \<Rightarrow> SliceFileParser \<Rightarrow> bool" where
  "same_reader s s' \<longleftrightarrow> SWTsock s' = SWTsock s \<and> flushMessage s' = flushMessage s \<and>
     pendingMsgIndex s' = pendingMsgIndex s \<and> length (msg s') = length (msg s)"

lemma bufferSWT_frame:
  assumes "bufferSWT recv s net = (rc, s', net')"
  shows "same_reader s s' \<and> msg s' = msg s \<and> rc \<in> {DQERR_OK, DQERR_ERR}"
proof -
  have q: "swt_result r t n = (c, t', n') \<Longrightarrow> same_reader s t \<Longrightarrow> msg t = msg s \<Longrightarrow>
      same_reader s t' \<and> msg t' = msg s \<and> c \<in> {DQERR_OK, DQERR_ERR}" for r t n c t' n'
    by (auto simp: swt_result_def same_reader_def split: if_splits)
  show ?thesis
    using assms by (auto simp: bufferSWT_def Let_def split: if_splits prod.splits dest!: q)
      (auto simp: same_reader_def)
qed

lemma next_byte_input:
  assumes d: "delivers recv sent" and i: "reader_inv s" and n: "next_byte recv j s net = (r, s', net')"
  shows "reader_inv s' \<and> same_reader s s' \<and>
    (case r of Got b \<Rightarrow> input sent s net = b # input sent s' net' \<and> msg s' = (msg s)[j := b]
     | No_data \<Rightarrow> input sent s net = input sent s' net' \<and> msg s' = msg s \<and> SWTsock s \<ge> 0
     | Rd_err e \<Rightarrow> e \<noteq> DQERR_OK)"
proof (cases "SWTsock s \<ge> 0")
  case False
  then show ?thesis
    using i n by (auto simp: next_byte_def file_byte_def input_def reader_inv_def same_reader_def
        Cons_nth_drop_Suc split: if_splits option.splits)
next
  case True
  obtain rc s1 net1 where b: "bufferSWT recv s net = (rc, s1, net1)" by (cases "bufferSWT recv s net")
  have i1: "swt_inv s" using i True by (simp add: reader_inv_def)
  note q = swtq.fill_law [OF d i1 b] and f = bufferSWT_frame [OF b]
  define s2 where "s2 = s1\<lparr>status := rc\<rparr>"
  have q2: "swt_inv s2" "swt_items s2 = swt_items s1" using q by (simp_all add: s2_def swt_inv_def swt_items_def)
  obtain c s3 where p: "pop_byte s2 = (c, s3)" by (cases "pop_byte s2")
  have p3: "same_reader s2 s3" "msg s3 = msg s2" using p by (auto simp: pop_byte_def same_reader_def)
  have "next_byte recv j s net =
      (if rc \<noteq> DQERR_OK then (Rd_err DQERR_ERR, s2, net1)
       else if bufferInIndex s2 = bufferOutIndex s2 then (No_data, s2, net1)
       else (Got c, s3\<lparr>msg := (msg s3)[j := c]\<rparr>, net1))"
    using True b p by (cases "rc = DQERR_OK") (simp_all add: next_byte_def s2_def Let_def)
  note n2 = this [unfolded n]
  have pop: "swt_inv s3 \<and> swt_items s2 = c # swt_items s3" if "bufferInIndex s2 \<noteq> bufferOutIndex s2"
    using swtq.pop_law [OF q2(1) _ p] swt_items_empty [OF q2(1)] that by simp
  have m: "swt_inv (s3\<lparr>msg := x\<rparr>) = swt_inv s3" "swt_items (s3\<lparr>msg := x\<rparr>) = swt_items s3" for x
    by (simp_all add: swt_inv_def swt_items_def)
  show ?thesis
    using n2 pop q q2 f p3 i True m
    by (auto simp: reader_inv_def same_reader_def input_def s2_def split: if_splits)
qed

text \<open>The search for the start of a message ends, and skips idle bytes only.\<close>

lemma start_loop_returns:
  "delivers recv sent \<Longrightarrow> reader_inv s \<Longrightarrow>
   \<exists>r s' net' ib. start_loop recv s net = Some (r, s', net') \<and> reader_inv s' \<and> same_reader s s' \<and>
     (\<forall>b \<in> set ib. idle b) \<and>
     (case r of Got b \<Rightarrow> \<not> idle b \<and> input sent s net = ib @ b # input sent s' net' \<and> msg s' ! 0 = b
      | No_data \<Rightarrow> input sent s net = ib @ input sent s' net' \<and> SWTsock s \<ge> 0
      | Rd_err e \<Rightarrow> e \<noteq> DQERR_OK)"
proof (induction "length (input sent s net)" arbitrary: s net rule: less_induct)
  case less
  obtain r s1 net1 where n: "next_byte recv 0 s net = (r, s1, net1)" by (cases "next_byte recv 0 s net")
  note f = next_byte_input [OF less.prems n]
  have m: "0 < length (msg s)" using less.prems(2) by (simp add: reader_inv_def MSGBUF_def)
  show ?case
  proof (cases "\<exists>b. r = Got b \<and> idle b")
    case True
    then obtain b where b: "r = Got b" "idle b" by blast
    have u: "start_loop recv s net = start_loop recv s1 net1"
      using b n by (subst start_loop.simps) (simp add: idle_def)
    have "length (input sent s1 net1) < length (input sent s net)" using f b(1) by simp
    from less.hyps [OF this less.prems(1)] f obtain r' s' net' ib where
      IH: "start_loop recv s1 net1 = Some (r', s', net')" "reader_inv s'" "same_reader s1 s'"
        "\<forall>b \<in> set ib. idle b"
        "case r' of Got b \<Rightarrow> \<not> idle b \<and> input sent s1 net1 = ib @ b # input sent s' net' \<and> msg s' ! 0 = b
          | No_data \<Rightarrow> input sent s1 net1 = ib @ input sent s' net' \<and> SWTsock s1 \<ge> 0
          | Rd_err e \<Rightarrow> e \<noteq> DQERR_OK" by blast
    have sr: "same_reader s s'" "SWTsock s1 = SWTsock s" using f IH(3) by (simp_all add: same_reader_def)
    have inp: "input sent s net = b # input sent s1 net1" using f b(1) by simp
    have "case r' of Got b' \<Rightarrow> \<not> idle b' \<and> input sent s net = (b # ib) @ b' # input sent s' net' \<and> msg s' ! 0 = b'
      | No_data \<Rightarrow> input sent s net = (b # ib) @ input sent s' net' \<and> SWTsock s \<ge> 0
      | Rd_err e \<Rightarrow> e \<noteq> DQERR_OK"
      using IH(5) inp sr(2) by (cases r') simp_all
    moreover have "\<forall>x \<in> set (b # ib). idle x" using b(2) IH(4) by simp
    ultimately show ?thesis
      using u IH(1,2) sr(1)
      by (intro exI [of _ r'] exI [of _ s'] exI [of _ net'] exI [of _ "b # ib"] conjI) simp_all
  next
    case False
    have u: "start_loop recv s net = Some (r, s1, net1)"
      using False n by (subst start_loop.simps) (auto simp: idle_def split: rd.splits)
    show ?thesis
      using u f False m by (intro exI [of _ r] exI [of _ s1] exI [of _ net1] exI [of _ "[]"])
        (auto split: rd.splits)
  qed
qed

text \<open>The bytes of the message that have been read so far, and all that was not returned yet.\<close>

definition part :: "SliceFileParser \<Rightarrow> u8 list" where
  "part s = take (pendingMsgIndex s) (msg s)"

definition part_ok :: "SliceFileParser \<Rightarrow> bool" where
  "part_ok s \<longleftrightarrow> pendingMsgIndex s \<le> MSGBUF \<and> (part s \<noteq> [] \<longrightarrow> \<not> idle (hd (part s))) \<and>
     (\<forall>b \<in> set (part s). b AND 3 \<noteq> MSEO_END)"

lemma body_loop_returns:
  "delivers recv sent \<Longrightarrow> reader_inv s \<Longrightarrow> part_ok s \<Longrightarrow> pendingMsgIndex s > 0 \<Longrightarrow>
   body_loop recv s net = (r, s', net') \<Longrightarrow>
   reader_inv s' \<and> SWTsock s' = SWTsock s \<and> (flushMessage s = False \<longrightarrow> flushMessage s' = False) \<and>
   (case r of Got b \<Rightarrow> msgSlices s' \<le> MSGBUF \<and> framed (take (msgSlices s') (msg s')) \<and>
        part s @ input sent s net = take (msgSlices s') (msg s') @ input sent s' net'
    | No_data \<Rightarrow> part_ok s' \<and> pendingMsgIndex s' > 0 \<and> part s @ input sent s net = part s' @ input sent s' net' \<and>
        SWTsock s \<ge> 0
    | Rd_err e \<Rightarrow> e \<noteq> DQERR_OK)"
proof (induction recv s net rule: body_loop.induct)
  case (1 recv s net)
  show ?case
  proof (cases "pendingMsgIndex s \<ge> MSGBUF")
    case True
    then show ?thesis using 1(3,6) by (auto simp: body_loop.simps reader_inv_def swt_inv_def)
  next
    case False
    obtain q s1 net1 where n: "next_byte recv (pendingMsgIndex s) s net = (q, s1, net1)"
      by (cases "next_byte recv (pendingMsgIndex s) s net")
    note f = next_byte_input [OF 1(2,3) n]
    have len: "length (msg s) = MSGBUF" using 1(3) by (simp add: reader_inv_def)
    have frame: "SWTsock s1 = SWTsock s" "flushMessage s1 = flushMessage s" "pendingMsgIndex s1 = pendingMsgIndex s"
      using f by (simp_all add: same_reader_def)
    have ne: "part s \<noteq> []" using 1(5) len by (auto simp: part_def MSGBUF_def)
    show ?thesis
    proof (cases q)
      case (Got b)
      have m1: "take (pendingMsgIndex s + 1) (msg s1) = part s @ [b]"
        using f Got False len by (simp add: part_def take_Suc_conv_app_nth)
      have inp: "part s @ input sent s net = (part s @ [b]) @ input sent s1 net1" using f Got by simp
      show ?thesis
      proof (cases "b AND 3 = MSEO_END")
        case True
        let ?t = "s1\<lparr>msgSlices := pendingMsgIndex s + 1, pendingMsgIndex := pendingMsgIndex s + 1\<rparr>"
        have r: "r = Got b" "s' = ?t" "net' = net1"
          using 1(6) False n Got True by (auto simp: body_loop.simps)
        have "framed (part s @ [b])"
        proof -
          obtain c cs where c: "part s = c # cs" using ne by (cases "part s") auto
          have "length (part s) = pendingMsgIndex s" using False len by (simp add: part_def)
          then show ?thesis unfolding framed_def using 1(4) c True False
            by (intro exI [of _ c] exI [of _ cs] exI [of _ b]) (simp add: part_ok_def)
        qed
        moreover have "input sent ?t net1 = input sent s1 net1" "reader_inv ?t"
          using f by (simp_all add: input_def swt_items_def reader_inv_def swt_inv_def)
        ultimately show ?thesis using r m1 inp False frame by simp
      next
        case no_end: False
        let ?t = "s1\<lparr>pendingMsgIndex := pendingMsgIndex s + 1\<rparr>"
        have u: "body_loop recv ?t net1 = (r, s', net')"
          using 1(6) False n Got no_end by (simp add: body_loop.simps [of recv s])
        have p: "part ?t = part s @ [b]" using m1 by (simp add: part_def)
        have "part_ok ?t" using 1(4) False no_end ne p by (auto simp: part_ok_def)
        moreover have "reader_inv ?t" "input sent ?t net1 = input sent s1 net1"
          using f by (simp_all add: input_def swt_items_def reader_inv_def swt_inv_def)
        ultimately show ?thesis
          using 1(1) [OF False n [symmetric] Got refl no_end 1(2) _ _ _ u] p inp frame
          by (cases r) simp_all
      qed
    qed (use 1(4,5,6) False n f frame in \<open>auto simp: body_loop.simps part_ok_def part_def\<close>)
  qed
qed

text \<open>The end of \<^verbatim>\<open>readBinaryMsg\<close>, once a message has been started.\<close>

definition finish_msg :: "'net recv \<Rightarrow> SliceFileParser \<Rightarrow> 'net \<Rightarrow> 'net msg_result" where
  "finish_msg recv s net = (case body_loop recv s net of
      (Rd_err e, s5, net2) \<Rightarrow> Some ((e, False), s5, net2)
    | (No_data, s5, net2) \<Rightarrow> Some ((DQERR_OK, False), s5, net2)
    | (Got _, s5, net2) \<Rightarrow>
        Some ((DQERR_OK, True), s5\<lparr>eom := False, bitIndex := 0, pendingMsgIndex := 0\<rparr>, net2))"

lemma finish_msg_returns:
  assumes "delivers recv sent" and "reader_inv s" and "part_ok s" and "flushMessage s = False"
    and "pendingMsgIndex s > 0"
  shows "\<exists>rc hm s' net'. finish_msg recv s net = Some ((rc, hm), s', net') \<and> reader_inv s' \<and>
    (rc = DQERR_OK \<longrightarrow> part_ok s' \<and> flushMessage s' = False) \<and>
    (hm \<longrightarrow> rc = DQERR_OK \<and> part s' = [] \<and> framed (take (msgSlices s') (msg s')) \<and>
       part s @ input sent s net = take (msgSlices s') (msg s') @ input sent s' net') \<and>
    (rc = DQERR_OK \<and> \<not> hm \<longrightarrow> SWTsock s \<ge> 0 \<and>
       part s @ input sent s net = part s' @ input sent s' net')"
proof -
  obtain r s5 net2 where b: "body_loop recv s net = (r, s5, net2)" by (cases "body_loop recv s net")
  note f = body_loop_returns [OF assms(1-3,5) b]
  let ?t = "s5\<lparr>eom := False, bitIndex := 0, pendingMsgIndex := 0\<rparr>"
  have t: "input sent ?t net2 = input sent s5 net2" "reader_inv ?t = reader_inv s5" "part ?t = []" "pendingMsgIndex ?t = 0"
    by (simp_all add: input_def swt_items_def reader_inv_def swt_inv_def part_def)
  show ?thesis
    using f t assms(4) b by (cases r) (auto simp: finish_msg_def part_ok_def)
qed

lemma readBinaryMsg_finish:
  assumes "flushMessage s = False"
  shows "pendingMsgIndex s > 0 \<Longrightarrow> readBinaryMsg recv s net =
      finish_msg recv (s\<lparr>msgOffset := (if SWTsock s \<ge> 0 then 0 else of_nat (tf_pos s) - 1)\<rparr>) net"
    and "pendingMsgIndex s = 0 \<Longrightarrow> start_loop recv s net = Some (r, t, net1) \<Longrightarrow> readBinaryMsg recv s net =
      (case r of Rd_err e \<Rightarrow> Some ((e, False), t, net1)
       | No_data \<Rightarrow> Some ((DQERR_OK, False), t, net1)
       | Got b \<Rightarrow> finish_msg recv (t\<lparr>pendingMsgIndex := 1,
            msgOffset := (if SWTsock t \<ge> 0 then 0 else of_nat (tf_pos t) - 1)\<rparr>) net1)"
  using assms by (simp_all add: readBinaryMsg_def finish_msg_def Let_def split: rd.split)

section \<open>Properties\<close>

text \<open>Any interleaving of the two queue operations, on the model's own definitions.\<close>

fun swt_run :: "'net recv \<Rightarrow> bool list \<Rightarrow> SliceFileParser \<Rightarrow> 'net \<Rightarrow> u8 list \<times> SliceFileParser \<times> 'net" where
  "swt_run recv [] s net = ([], s, net)"
| "swt_run recv (True # ops) s net = (case bufferSWT recv s net of (rc, s', net') \<Rightarrow> swt_run recv ops s' net')"
| "swt_run recv (False # ops) s net =
     (if swt_items s = [] then swt_run recv ops s net
      else case pop_byte s of (b, s') \<Rightarrow> case swt_run recv ops s' net of (bs, r) \<Rightarrow> (b # bs, r))"

lemma swt_run_eq: "swt_run recv ops s net = swtq.run recv ops s net"
  by (induction recv ops s net rule: swt_run.induct) (auto split: prod.splits)

text \<open>
  C15. The socket buffer is a first-in first-out queue: however the code interleaves filling it from
  the connection and taking bytes out of it, the bytes taken out, followed by the bytes still in the
  buffer and those still on the connection, are the bytes that were there at the start, in the
  same order. No byte is lost, duplicated or overwritten, also when the buffer wraps.
\<close>

theorem swt_buffer_fifo:
  assumes "delivers recv sent" and "swt_inv s" and "swt_run recv ops s net = (bs, s', net')"
  shows "swt_inv s' \<and> bs @ swt_items s' @ sent net' = swt_items s @ sent net"
  using swtq.run_order [OF assms(1,2)] assms(3) by (simp add: swt_run_eq)

text \<open>A connection that delivers given chunks, one per call, as far as there is room.\<close>

definition chunk_recv :: "u8 list list recv" where
  "chunk_recv n net = (case net of [] \<Rightarrow> (Would_block, [])
     | c # cs \<Rightarrow> (Received (take n c), if length c \<le> n then cs else drop n c # cs))"

lemma chunk_recv_delivers: "delivers chunk_recv concat"
  by (auto simp: delivers_def chunk_recv_def received_def split: list.splits)

definition sample_socket :: "nat \<Rightarrow> nat \<Rightarrow> SliceFileParser" where
  "sample_socket i j = (sample_reader [])\<lparr>SWTsock := 3, sockBuffer := replicate SOCKBUF 0,
     bufferInIndex := i, bufferOutIndex := j\<rparr>"

theorem swt_buffer_fifo_witness:
  "\<exists>bs s' net'. swt_run chunk_recv [True, False, True, False, False, False] (sample_socket 2046 2044) [[1, 2, 3], [4]] =
      (bs, s', net') \<and> bs @ swt_items s' @ concat net' = [0, 0, 1, 2, 3, 4]"
proof -
  obtain bs s' net' where r: "swt_run chunk_recv [True, False, True, False, False, False] (sample_socket 2046 2044)
      [[1, 2, 3], [4]] = (bs, s', net')" by (metis prod_cases3)
  have i: "swt_inv (sample_socket 2046 2044)" by (simp add: swt_inv_def sample_socket_def SOCKBUF_def)
  have "swt_items (sample_socket 2046 2044) = [0, 0]"
    by (simp add: swt_items_def sample_socket_def SOCKBUF_def numeral_eq_Suc)
  with swt_buffer_fifo [OF chunk_recv_delivers i r] r show ?thesis by auto
qed

text \<open>
  C8. \<^verbatim>\<open>readBinaryMsg\<close> cuts its input into messages whatever the pieces are in which the bytes
  arrive, on a file and on a socket alike. It always returns. When it reports a message, the bytes
  read so far and the input were idle bytes (none, if a message had been started), then exactly
  the message in the buffer, framed by its first and its last slice, then the input that is left.
  When it reports none yet, which happens on a socket only, it keeps what it has read of the
  message, and nothing but idle bytes is gone.
\<close>

theorem readBinaryMsg_frames:
  assumes d: "delivers recv sent" and i: "reader_inv s" and p: "part_ok s" and fl: "flushMessage s = False"
  shows "\<exists>rc haveMsg s' net'. readBinaryMsg recv s net = Some ((rc, haveMsg), s', net') \<and> reader_inv s' \<and>
    (rc = DQERR_OK \<longrightarrow> part_ok s' \<and> flushMessage s' = False) \<and>
    (haveMsg \<longrightarrow> rc = DQERR_OK \<and> part s' = [] \<and> framed (take (msgSlices s') (msg s')) \<and>
       (\<exists>ib. (\<forall>b \<in> set ib. idle b) \<and> (part s \<noteq> [] \<longrightarrow> ib = []) \<and>
         part s @ input sent s net = ib @ take (msgSlices s') (msg s') @ input sent s' net')) \<and>
    (rc = DQERR_OK \<and> \<not> haveMsg \<longrightarrow> SWTsock s \<ge> 0 \<and>
       (\<exists>ib. (\<forall>b \<in> set ib. idle b) \<and> part s @ input sent s net = ib @ part s' @ input sent s' net'))"
proof (cases "pendingMsgIndex s = 0")
  case False
  let ?t = "s\<lparr>msgOffset := (if SWTsock s \<ge> 0 then 0 else of_nat (tf_pos s) - 1)\<rparr>"
  have t: "reader_inv ?t" "part_ok ?t" "part ?t = part s" "input sent ?t net = input sent s net"
      "flushMessage ?t = False" "pendingMsgIndex ?t > 0"
    using i p fl False by (simp_all add: input_def swt_items_def reader_inv_def swt_inv_def part_def part_ok_def)
  have u: "readBinaryMsg recv s net = finish_msg recv ?t net"
    using False by (intro readBinaryMsg_finish(1) [OF fl]) simp
  show ?thesis
    using finish_msg_returns [OF d t(1,2,5,6), of net] unfolding u t(3,4) by fastforce
next
  case True
  have s0: "part s = []" using True by (simp add: part_def)
  obtain r s1 net1 ib where 1: "start_loop recv s net = Some (r, s1, net1)" "reader_inv s1" "same_reader s s1"
      "\<forall>b \<in> set ib. idle b"
      "case r of Got b \<Rightarrow> \<not> idle b \<and> input sent s net = ib @ b # input sent s1 net1 \<and> msg s1 ! 0 = b
        | No_data \<Rightarrow> input sent s net = ib @ input sent s1 net1 \<and> SWTsock s \<ge> 0
        | Rd_err e \<Rightarrow> e \<noteq> DQERR_OK"
    using start_loop_returns [OF d i, of net] by blast
  note u = readBinaryMsg_finish(2) [OF fl True 1(1)]
  have p1: "part s1 = []" "part_ok s1" "flushMessage s1 = False"
    using 1(3) True fl by (simp_all add: same_reader_def part_def part_ok_def)
  show ?thesis
  proof (cases r)
    case No_data
    then show ?thesis using u 1 p1 s0 by auto
  next
    case (Rd_err e)
    then show ?thesis using u 1 by auto
  next
    case (Got b)
    let ?t = "s1\<lparr>pendingMsgIndex := 1, msgOffset := (if SWTsock s1 \<ge> 0 then 0 else of_nat (tf_pos s1) - 1)\<rparr>"
    have m: "take 1 (msg s1) = [b]" using 1(2,5) Got by (cases "msg s1") (auto simp: reader_inv_def MSGBUF_def)
    have b: "\<not> idle b" "input sent s net = ib @ b # input sent s1 net1" using 1(5) Got by auto
    have t: "reader_inv ?t" "part ?t = [b]" "input sent ?t net1 = input sent s1 net1"
        "flushMessage ?t = False" "pendingMsgIndex ?t > 0" "SWTsock ?t = SWTsock s"
      using 1(2,3) m p1(3)
      by (simp_all add: input_def swt_items_def reader_inv_def swt_inv_def part_def same_reader_def)
    have "part_ok ?t" using t(2) b(1) by (auto simp: part_ok_def idle_def mseo_defs MSGBUF_def)
    note f = finish_msg_returns [OF d t(1) this t(4,5), of net1]
    have u2: "readBinaryMsg recv s net = finish_msg recv ?t net1" using u Got by simp
    show ?thesis
      using f 1(4) unfolding u2 t(2,3,6) s0 b(2) by fastforce
  qed
qed

theorem readBinaryMsg_frames_witness:
  "\<exists>rc haveMsg s' net'. readBinaryMsg chunk_recv (sample_socket 0 0) [[0xff, 0x0c], [0x59, 0x27]] =
      Some ((rc, haveMsg), s', net') \<and> reader_inv s'"
proof -
  have "reader_inv (sample_socket 0 0)" "part_ok (sample_socket 0 0)" "flushMessage (sample_socket 0 0) = False"
    by (simp_all add: reader_inv_def part_ok_def part_def swt_inv_def sample_socket_def sample_reader_def
        SOCKBUF_def MSGBUF_def)
  from readBinaryMsg_frames [OF chunk_recv_delivers this, of "[[0xff, 0x0c], [0x59, 0x27]]"]
  show ?thesis by blast
qed

end
