(* ===== verification/Slice_Errors.thy ===== *)
theory Slice_Errors
  imports Slice_Reader
begin

text \<open>
  What \<^verbatim>\<open>class SliceFileParser\<close> does after a message that cannot be parsed. Every field reader and every
  message parser records the error it returns in \<^verbatim>\<open>status\<close>; \<^verbatim>\<open>readNextTraceMsg\<close> refuses to read as
  long as \<^verbatim>\<open>status\<close> is not \<^verbatim>\<open>DQERR_OK\<close>, and nothing resets it.
\<close>

section \<open>Errors are recorded\<close>

definition records :: "step \<Rightarrow> bool" where
  "records k \<longleftrightarrow> (\<forall>p e q. k p = (Inl (Rc e), q) \<longrightarrow> e \<noteq> DQERR_OK \<and> status (pf q) = e)"

lemma fixed_mid_error: "fixed_mid m i w c v = Inl e \<Longrightarrow> e = UB"
  by (induction m i w c v rule: fixed_mid.induct) (subst (asm) fixed_mid.simps, simp split: if_splits)

lemma fixed_cross_error: "fixed_cross m i b w \<noteq> Inl (Rc e)"
  using fixed_mid_error [of m "i + 1" "w - (6 - b)" "6 - b" "ucast (drop_bit (b + 2) (m ! i))"]
  by (auto simp: fixed_cross_def split: sum.splits)

lemma parseFixedField_error:
  "parseFixedField w s = (Inl (Rc e), s') \<Longrightarrow> e \<noteq> DQERR_OK"
  using fixed_cross_error
  by (auto simp: parseFixedField_def Let_def split: if_splits sum.splits)

lemma var_loop_error: "var_loop m n i w v = Inl (Rc e) \<Longrightarrow> e = DQERR_ERR"
  by (induction m n i w v rule: var_loop.induct) (subst (asm) var_loop.simps, simp split: if_splits)

lemma parseVarField_error: "parseVarField s = (Inl (Rc e), s') \<Longrightarrow> e \<noteq> DQERR_OK"
  using var_loop_error
  by (fastforce simp: parseVarField_def Let_def split: if_splits sum.splits stop.splits)

lemma records_fail: "e \<noteq> DQERR_OK \<Longrightarrow> records (fail_with e)"
  by (simp add: records_def fail_with_def)

lemma records_fixed: "(\<And>v. records (k v)) \<Longrightarrow> records (get_fixed w k)"
  using parseFixedField_error
  by (fastforce simp: records_def get_fixed_def fail_with_def split: sum.splits stop.splits prod.splits)

lemma records_var: "(\<And>v w. records (k v w)) \<Longrightarrow> records (get_var k)"
  using parseVarField_error
  by (fastforce simp: records_def get_var_def fail_with_def split: sum.splits stop.splits prod.splits)

lemma records_set: "records k \<Longrightarrow> records (set_nm f k)"
  by (auto simp: records_def set_nm_def)

lemma records_addr: "records k \<Longrightarrow> records (set_addr_bits w k)"
  by (auto simp: records_def set_addr_bits_def)

lemma updateTraceInfo_UB: "updateTraceInfo nm b e t d a = Inl x \<Longrightarrow> x = UB"
  by (auto simp: updateTraceInfo_def Let_def split: if_splits prod.splits)

lemma records_info: "records update_info"
  using updateTraceInfo_UB
  by (fastforce simp: records_def update_info_def Let_def split: sum.splits prod.splits if_splits)

lemma records_if: "(b \<Longrightarrow> records k) \<Longrightarrow> (\<not> b \<Longrightarrow> records h) \<Longrightarrow> records (if b then k else h)"
  by simp

lemma records_choice: "records k \<Longrightarrow> records h \<Longrightarrow> records (\<lambda>p. if c p then k p else h p)"
  by (auto simp: records_def)

lemma records_ts: "records ts_field"
proof -
  let ?fin = "\<lambda>tmp width (p' :: Parse).
      if \<not> eom (pf p') then fail_with DQERR_BM p'
      else set_nm (\<lambda>m. m\<lparr>haveTimestamp := True, timestamp := tmp\<rparr>) update_info (p'\<lparr>ts_bits := width\<rparr>)"
  have "records (\<lambda>p. set_nm f update_info (g p))" for f g
    using records_set [OF records_info, of f] by (auto simp: records_def)
  then have fin: "records (?fin v w)" for v w
    by (intro records_choice records_fail) simp_all
  have "records (\<lambda>p. if eom (pf p) then set_nm (\<lambda>m. m\<lparr>haveTimestamp := False, timestamp := 0\<rparr>) update_info p
      else get_var ?fin p)"
    by (intro records_choice records_set records_info records_var fin)
  moreover have "ts_field = (\<lambda>p. if eom (pf p) then set_nm (\<lambda>m. m\<lparr>haveTimestamp := False, timestamp := 0\<rparr>) update_info p
      else get_var ?fin p)"
    by (rule ext) (simp add: ts_field_def)
  ultimately show ?thesis by simp
qed

lemma records_src: "records k \<Longrightarrow> records (src_field k)"
proof -
  assume k: "records k"
  have gf: "records (\<lambda>p. get_fixed (srcbits (pf p)) h p)" if "\<And>v. records (h v)" for h
    using records_fixed [OF that] by (auto simp: records_def)
  have "records (\<lambda>p. if srcbits (pf p) > 0
      then get_fixed (srcbits (pf p)) (\<lambda>tmp. set_nm (coreId_update (\<lambda>_. ucast tmp)) k) p
      else set_nm (coreId_update (\<lambda>_. 0)) k p)"
    by (intro records_choice records_set gf k)
  moreover have "src_field k = (\<lambda>p. if srcbits (pf p) > 0
      then get_fixed (srcbits (pf p)) (\<lambda>tmp. set_nm (coreId_update (\<lambda>_. ucast tmp)) k) p
      else set_nm (coreId_update (\<lambda>_. 0)) k p)"
    by (rule ext) (simp add: src_field_def)
  ultimately show ?thesis by simp
qed

lemmas records_rules = records_fixed records_var records_set records_addr records_if records_fail records_ts

text \<open>The TCODEs \<^verbatim>\<open>readNextTraceMsg\<close> has a parser for.\<close>

definition supported :: "u64 \<Rightarrow> bool" where
  "supported v \<longleftrightarrow> v \<in> {2, 3, 4, 7, 8, 9, 11, 12, 33, 23, 28, 29, 34, 35, 27}"

definition recording :: "(SliceFileParser \<Rightarrow> NexusMessage \<Rightarrow> Analytics \<Rightarrow> unit outcome \<times> Parse) \<Rightarrow> bool" where
  "recording f \<longleftrightarrow> (\<forall>s nm a e p. f s nm a = (Inl (Rc e), p) \<longrightarrow> e \<noteq> DQERR_OK \<and> status (pf p) = e)"

lemma recording_msg: "records k \<Longrightarrow> recording (parse_msg tc k)"
  using records_src [of k] unfolding recording_def parse_msg_def records_def by blast

lemma recording_parsers:
  "recording parseOwnershipTrace" "recording parseDirectBranch" "recording parseIndirectBranch"
  "recording parseDataAcquisition" "recording parseError" "recording parseSync"
  "recording parseDirectBranchWS" "recording parseIndirectBranchWS" "recording parseCorrelation"
  "recording parseAuxAccessWrite" "recording parseIndirectHistory" "recording parseIndirectHistoryWS"
  "recording parseICT" "recording parseICTWS" "recording parseResourceFull"
  unfolding parseOwnershipTrace_def parseDirectBranch_def
      parseIndirectBranch_def parseDataAcquisition_def parseError_def parseSync_def parseDirectBranchWS_def
      parseIndirectBranchWS_def parseCorrelation_def parseAuxAccessWrite_def parseIndirectHistory_def
      parseIndirectHistoryWS_def parseICT_def parseICTWS_def ict_fields_def parseResourceFull_def
  by (intro recording_msg records_rules; simp)+

lemma recordingD: "recording f \<Longrightarrow> f s nm a = (Inl (Rc e), p) \<Longrightarrow> e \<noteq> DQERR_OK \<and> status (pf p) = e"
  unfolding recording_def by blast

lemma parse_tcode_supported:
  "supported v \<Longrightarrow> parse_tcode v s nm a = (Inl (Rc e), p) \<Longrightarrow> e \<noteq> DQERR_OK \<and> status (pf p) = e"
  unfolding supported_def parse_tcode_def TCode_val_def
  by (simp split: if_splits) (auto dest: recording_parsers [THEN recordingD])

lemma parse_tcode_unsupported:
  "\<not> supported v \<Longrightarrow> parse_tcode v s nm a =
     (Inl (Rc DQERR_ERR), \<lparr>pf = s, pm = nm, pa = a, bits = 6, ts_bits = 0, addr_bits = 0\<rparr>)"
  by (simp add: supported_def parse_tcode_def TCode_val_def)

section \<open>Properties\<close>

text \<open>
  C39. A message that fails to parse is reported as a bad message, and the program prints that it
  skips it. It is skipped only when its TCODE is one the parser has no case for: the parser is then
  still in its normal state. A message of a known kind that fails to parse leaves its error in
  \<^verbatim>\<open>status\<close>, and from then on every call of \<^verbatim>\<open>readNextTraceMsg\<close> returns that error at once, without
  reading a byte: the rest of the trace is lost.
\<close>

theorem bad_message_ends_reading:
  assumes "parseFixedField 6 s = (Inr v, s1)" and "status s = DQERR_OK"
    and "parse_binary s nm a = (Inr (DQERR_BM, False), s', nm', a')"
  shows "(\<not> supported v \<longrightarrow> status s' = DQERR_OK) \<and>
    (supported v \<longrightarrow> status s' \<noteq> DQERR_OK \<and>
       (\<forall>nm2 a2 net. readNextTraceMsg recv s' nm2 a2 net = Some (Inr (status s', False), s', nm2, a2, net)))"
proof -
  let ?nm = "nm\<lparr>offset := msgOffset s, rawData := raw_copy (msg s) (rawData nm) 0\<rparr>"
  obtain r p where p: "parse_tcode v s1 ?nm a = (r, p)" by (cases "parse_tcode v s1 ?nm a")
  have "\<exists>e. r = Inl (Rc e)" and s': "s' = pf p"
    using assms(1,3) p by (auto simp: parse_binary_def Let_def split: sum.splits stop.splits)
  then obtain e where e: "parse_tcode v s1 ?nm a = (Inl (Rc e), p)" using p by auto
  have "status s1 = DQERR_OK"
    using assms(1,2) by (auto simp: parseFixedField_def Let_def split: if_splits sum.splits)
  then have "\<not> supported v \<longrightarrow> status s' = DQERR_OK"
    using parse_tcode_unsupported [of v s1 ?nm a] e s' by auto
  moreover have "supported v \<longrightarrow> status s' \<noteq> DQERR_OK" using parse_tcode_supported [OF _ e] s' by auto
  ultimately show ?thesis by (simp add: readNextTraceMsg_def)
qed

text \<open>A resource-full message with a resource code that does not exist.\<close>

definition sample_bad :: SliceFileParser where
  "sample_bad = (sample_reader [])\<lparr>srcbits := 0, msg := [0x6c, 0x0c, 0x07], msgSlices := 3\<rparr>"

theorem bad_message_ends_reading_witness:
  "\<exists>s' nm' a'. parse_binary sample_bad undefined (Analytics_new (\<lambda>_. undefined)) = (Inr (DQERR_BM, False), s', nm', a') \<and>
     readNextTraceMsg (\<lambda>n net. (Would_block, net)) s' undefined a' () = Some (Inr (DQERR_ERR, False), s', undefined, a', ())"
proof -
  let ?s = "\<lambda>k. sample_bad\<lparr>bitIndex := k\<rparr>"
  have f6: "parseFixedField 6 sample_bad = (Inr 27, ?s 6)"
    by (simp add: sample_bad_def sample_reader_def parseFixedField_def Let_def fixed_within_def mseo_defs)
  have f4: "parseFixedField 4 (?s 6) = (Inr 3, ?s 10)"
    by (simp add: sample_bad_def sample_reader_def parseFixedField_def Let_def fixed_within_def mseo_defs)
  have v: "parseVarField (?s 10) = (Inr (4, 8), (?s 18)\<lparr>eom := True\<rparr>)"
    by (simp add: sample_bad_def sample_reader_def parseVarField_def Let_def var_loop.simps mseo_defs)
  have r: "int_of_u64 3 = 3" by (simp add: int_of_u64_def)
  have sb: "srcbits (?s k) = 0" for k by (simp add: sample_bad_def)
  obtain s' nm' a' where b: "parse_binary sample_bad undefined (Analytics_new (\<lambda>_. undefined)) =
      (Inr (DQERR_BM, False), s', nm', a')" and st: "status s' = DQERR_ERR"
    by (simp add: parse_binary_def f6 parse_tcode_def TCode_val_def parseResourceFull_def parse_msg_def
        src_field_def sb set_nm_def get_fixed_def f4 get_var_def v r fail_with_def)
  have "supported 27" "status sample_bad = DQERR_OK"
    by (simp_all add: supported_def sample_bad_def sample_reader_def)
  with bad_message_ends_reading [OF f6 _ b, of "(\<lambda>n net. (Would_block, net)) :: unit recv"] b st show ?thesis by auto
qed

end
