(* ===== verification/Disasm.thy ===== *)
theory Disasm
  imports Dqr_Types
begin

text \<open>
  The instruction decoder of \<^verbatim>\<open>class Disassembler\<close> (src/dqr.cpp): the size of an instruction, and for
  control-flow instructions their kind, registers and offset. The decoder has one function per
  quadrant and architecture; their reference parameters are the record \<open>Decoded\<close>, which each function
  updates: a parameter the code does not set keeps the value it had.
\<close>

section \<open>State\<close>

record Decoded =
  inst_size :: int
  inst_type :: InstType
  rs1 :: Reg
  rd :: Reg
  immediate :: int
  is_branch :: bool

definition decodeInstructionSize :: "u32 \<Rightarrow> int outcome" where
  "decodeInstructionSize inst =
     (if inst AND 3 = 0 then Inr 16
      else if inst AND 3 = 1 then Inr 16
      else if inst AND 3 = 2 then Inr 16
      else if inst AND 0x1f = 0x1f then Inl (Rc DQERR_ERR)
      else Inr 32)"

text \<open>\<^verbatim>\<open>MOVE_BIT(bits,s,d)\<close>, and a chain \<^verbatim>\<open>t = MOVE_BIT(...); t |= MOVE_BIT(...); ...\<close>.\<close>

definition MOVE_BIT :: "u32 \<Rightarrow> nat \<Rightarrow> nat \<Rightarrow> u32" where
  "MOVE_BIT b s d = (if b AND push_bit s 1 \<noteq> 0 then push_bit d 1 else 0)"

fun MOVE_BITS :: "u32 \<Rightarrow> (nat \<times> nat) list \<Rightarrow> u32" where
  "MOVE_BITS b [] = 0"
| "MOVE_BITS b ((s, d) # ps) = MOVE_BIT b s d OR MOVE_BITS b ps"

text \<open>\<^verbatim>\<open>if (t & (1 << n)) t |= m; immediate = t;\<close> with \<^verbatim>\<open>m\<close> the mask of the bits from \<open>n + 1\<close> on.\<close>

definition sign_extend :: "nat \<Rightarrow> u32 \<Rightarrow> int" where
  "sign_extend n t = sint (if t AND push_bit n 1 \<noteq> 0 then t OR NOT (mask (n + 1)) else t)"

text \<open>Register fields of an instruction, \<^verbatim>\<open>(TraceDqr::Reg)((instruction >> n) & m)\<close>.\<close>

definition reg_field :: "nat \<Rightarrow> nat \<Rightarrow> u32 \<Rightarrow> Reg" where
  "reg_field n w inst = REG (ucast (take_bit w (drop_bit n inst)))"

section \<open>Compressed instructions\<close>

definition cj_bits :: "(nat \<times> nat) list" where
  "cj_bits = [(3, 1), (4, 2), (5, 3), (11, 4), (2, 5), (7, 6), (6, 7), (9, 8), (10, 9), (8, 10), (12, 11)]"

definition cb_bits :: "(nat \<times> nat) list" where
  "cb_bits = [(3, 1), (4, 2), (10, 3), (11, 4), (2, 5), (5, 6), (6, 7), (12, 8)]"

definition decodeQ0 :: "u32 \<Rightarrow> Decoded \<Rightarrow> nat \<times> Decoded" where
  "decodeQ0 inst d =
     (let d1 = d\<lparr>inst_size := 16, is_branch := False, immediate := 0\<rparr> in
      if inst AND 3 \<noteq> 0 then (1, d1)
      else (0, d1\<lparr>rs1 := REG_unknown, rd := REG_unknown, inst_type := INST_UNKNOWN\<rparr>))"

definition decodeRV32Q0Instruction :: "u32 \<Rightarrow> Decoded \<Rightarrow> nat \<times> Decoded" where
  "decodeRV32Q0Instruction = decodeQ0"

definition c_jump :: "InstType \<Rightarrow> Reg \<Rightarrow> u32 \<Rightarrow> Decoded \<Rightarrow> Decoded" where
  "c_jump ty r inst d =
     d\<lparr>inst_size := 16, inst_type := ty, is_branch := True,
       immediate := sign_extend 11 (MOVE_BITS inst cj_bits), rs1 := REG_unknown, rd := r\<rparr>"

definition c_branch :: "InstType \<Rightarrow> u32 \<Rightarrow> Decoded \<Rightarrow> Decoded" where
  "c_branch ty inst d =
     d\<lparr>inst_size := 16, inst_type := ty, is_branch := True, rs1 := reg_field 7 2 inst,
       rd := REG_unknown, immediate := sign_extend 8 (MOVE_BITS inst cb_bits)\<rparr>"

definition no_cflow :: "int \<Rightarrow> InstType \<Rightarrow> Decoded \<Rightarrow> Decoded" where
  "no_cflow sz ty d =
     d\<lparr>inst_size := sz, inst_type := ty, immediate := 0, rs1 := REG_unknown, rd := REG_unknown,
       is_branch := False\<rparr>"

definition decodeRV32Q1Instruction :: "u32 \<Rightarrow> Decoded \<Rightarrow> nat \<times> Decoded" where
  "decodeRV32Q1Instruction inst d =
     (0, if drop_bit 13 inst = 1 then c_jump INST_C_JAL (REG 1) inst d
         else if drop_bit 13 inst = 5 then c_jump INST_C_J (REG 0) inst d
         else if drop_bit 13 inst = 6 then c_branch INST_C_BEQZ inst d
         else if drop_bit 13 inst = 7 then c_branch INST_C_BNEZ inst d
         else no_cflow 16 INST_UNKNOWN d)"

text \<open>Quadrant 2, with the kind each architecture gives \<^verbatim>\<open>c.ebreak\<close>.\<close>

definition decodeQ2 :: "InstType \<Rightarrow> u32 \<Rightarrow> Decoded \<Rightarrow> nat \<times> Decoded" where
  "decodeQ2 ebreak inst d =
     (let d1 = d\<lparr>inst_size := 16, inst_type := INST_UNKNOWN, is_branch := False,
                  rs1 := REG_unknown, rd := REG_unknown\<rparr> in
      (0, if drop_bit 13 inst = 4 then
            if bit inst 12 then
              if inst AND 0x7c = 0 then
                if inst AND 0xf80 \<noteq> 0 then
                  d1\<lparr>inst_type := INST_C_JALR, is_branch := True, rs1 := reg_field 7 5 inst,
                      rd := REG 1, immediate := 0\<rparr>
                else d1\<lparr>inst_type := ebreak, immediate := 0, is_branch := True\<rparr>
              else d1
            else if inst AND 0x7c = 0 \<and> inst AND 0xf80 \<noteq> 0 then
              d1\<lparr>inst_type := INST_C_JR, is_branch := True, rs1 := reg_field 7 5 inst,
                  rd := REG 0, immediate := 0\<rparr>
            else d1
          else d1))"

definition decodeRV32Q2Instruction :: "u32 \<Rightarrow> Decoded \<Rightarrow> nat \<times> Decoded" where
  "decodeRV32Q2Instruction = decodeQ2 INST_C_EBREAK"

section \<open>Instructions of 32 bits\<close>

definition jal_bits :: "(nat \<times> nat) list" where
  "jal_bits = [(21, 1), (22, 2), (23, 3), (24, 4), (25, 5), (26, 6), (27, 7), (28, 8), (29, 9), (30, 10),
     (20, 11), (12, 12), (13, 13), (14, 14), (15, 15), (16, 16), (17, 17), (18, 18), (19, 19), (31, 20)]"

definition br_bits :: "(nat \<times> nat) list" where
  "br_bits = [(8, 1), (9, 2), (10, 3), (11, 4), (25, 5), (26, 6), (27, 7), (28, 8), (29, 9), (30, 10),
     (7, 11), (31, 12)]"

text \<open>The minor opcode, bits 12 to 14.\<close>

definition funct3 :: "u32 \<Rightarrow> u32" where
  "funct3 inst = drop_bit 12 inst AND 7"

definition branch_type :: "u32 \<Rightarrow> InstType option" where
  "branch_type f3 =
     (if f3 = 0 then Some INST_BEQ else if f3 = 1 then Some INST_BNE
      else if f3 = 4 then Some INST_BLT else if f3 = 5 then Some INST_BGE
      else if f3 = 6 then Some INST_BLTU else if f3 = 7 then Some INST_BGEU else None)"

definition vector_width :: "u32 \<Rightarrow> bool" where
  "vector_width f3 \<longleftrightarrow> f3 = 0 \<or> f3 = 5 \<or> f3 = 6 \<or> f3 = 7"

text \<open>The system instructions leave the registers alone.\<close>

definition sys_inst :: "InstType \<Rightarrow> Decoded \<Rightarrow> Decoded" where
  "sys_inst ty d = d\<lparr>inst_size := 32, inst_type := ty, is_branch := True, immediate := 0\<rparr>"

definition decodeRV32Instruction :: "u32 \<Rightarrow> Decoded \<Rightarrow> nat \<times> Decoded" where
  "decodeRV32Instruction inst d =
     (if inst AND 0x1f = 0x1f then (1, d)
      else (0,
        let op = inst AND 0x7f; f3 = funct3 inst in
        if op = 0x6f then
          d\<lparr>inst_size := 32, inst_type := INST_JAL, is_branch := True,
            immediate := sign_extend 20 (MOVE_BITS inst jal_bits), rd := reg_field 7 5 inst,
            rs1 := REG_unknown\<rparr>
        else if op = 0x67 then
          (if inst AND 0x7000 = 0 then
             d\<lparr>inst_size := 32, inst_type := INST_JALR, is_branch := True,
               immediate := sign_extend 11 (drop_bit 20 inst), rd := reg_field 7 5 inst,
               rs1 := reg_field 15 5 inst\<rparr>
           else no_cflow 32 INST_UNKNOWN d)
        else if op = 0x63 then
          (case branch_type f3 of
             None \<Rightarrow> no_cflow 32 INST_UNKNOWN d
           | Some ty \<Rightarrow>
               d\<lparr>inst_size := 32, inst_type := ty, is_branch := True,
                 immediate := sign_extend 12 (MOVE_BITS inst br_bits), rd := REG_unknown,
                 rs1 := reg_field 15 5 inst\<rparr>)
        else if op = 0x73 then
          (if inst = 0x00200073 then sys_inst INST_URET d
           else if inst = 0x10200073 then sys_inst INST_SRET d
           else if inst = 0x30200073 then sys_inst INST_MRET d
           else if inst = 0x00000073 then sys_inst INST_ECALL d
           else if inst = 0x00100073 then sys_inst INST_EBREAK d
           else no_cflow 32 INST_UNKNOWN d)
        else if op = 0x07 then
          no_cflow 32 (if vector_width f3 then INST_VECT_LOAD else INST_UNKNOWN) d
        else if op = 0x27 then
          no_cflow 32 (if vector_width f3 then INST_VECT_STORE else INST_UNKNOWN) d
        else if op = 0x2f then
          no_cflow 32 (if vector_width f3
             then (if drop_bit 26 inst AND 1 \<noteq> 0 then INST_VECT_AMO_WW else INST_VECT_AMO)
             else INST_UNKNOWN) d
        else if op = 0x57 then
          no_cflow 32 (if f3 \<le> 6 then INST_VECT_ARITH else INST_VECT_CONFIG) d
        else no_cflow 32 INST_UNKNOWN d))"

section \<open>The 64-bit architecture\<close>

text \<open>
  The 64-bit functions repeat the 32-bit ones; quadrant 1 has no \<^verbatim>\<open>c.jal\<close>, and \<^verbatim>\<open>c.ebreak\<close> is given
  the kind of the long instruction.
\<close>

definition decodeRV64Q0Instruction :: "u32 \<Rightarrow> Decoded \<Rightarrow> nat \<times> Decoded" where
  "decodeRV64Q0Instruction = decodeQ0"

definition decodeRV64Q1Instruction :: "u32 \<Rightarrow> Decoded \<Rightarrow> nat \<times> Decoded" where
  "decodeRV64Q1Instruction inst d =
     (0, if drop_bit 13 inst = 5 then c_jump INST_C_J (REG 0) inst d
         else if drop_bit 13 inst = 6 then c_branch INST_C_BEQZ inst d
         else if drop_bit 13 inst = 7 then c_branch INST_C_BNEZ inst d
         else no_cflow 16 INST_UNKNOWN d)"

definition decodeRV64Q2Instruction :: "u32 \<Rightarrow> Decoded \<Rightarrow> nat \<times> Decoded" where
  "decodeRV64Q2Instruction = decodeQ2 INST_EBREAK"

definition decodeRV64Instruction :: "u32 \<Rightarrow> Decoded \<Rightarrow> nat \<times> Decoded" where
  "decodeRV64Instruction = decodeRV32Instruction"

definition decodeInstruction :: "u32 \<Rightarrow> int \<Rightarrow> Decoded \<Rightarrow> nat \<times> Decoded" where
  "decodeInstruction inst archSize d =
     (if archSize = 32 then
        (if inst AND 3 = 0 then decodeRV32Q0Instruction inst d
         else if inst AND 3 = 1 then decodeRV32Q1Instruction inst d
         else if inst AND 3 = 2 then decodeRV32Q2Instruction inst d
         else decodeRV32Instruction inst d)
      else if archSize = 64 then
        (if inst AND 3 = 0 then decodeRV64Q0Instruction inst d
         else if inst AND 3 = 1 then decodeRV64Q1Instruction inst d
         else if inst AND 3 = 2 then decodeRV64Q2Instruction inst d
         else decodeRV64Instruction inst d)
      else (1, d))"

section \<open>Moving bits\<close>

lemma bit_MOVE_BIT: "bit (MOVE_BIT b s d) j \<longleftrightarrow> j < 32 \<and> d = j \<and> bit b s"
proof -
  have "b AND push_bit s 1 \<noteq> 0 \<longleftrightarrow> bit b s"
    using and_exp_eq_0_iff_not_bit [of b s] by (simp add: push_bit_eq_mult)
  then show ?thesis by (auto simp: MOVE_BIT_def bit_exp_iff)
qed

lemma bit_MOVE_BITS: "bit (MOVE_BITS b ps) j \<longleftrightarrow> j < 32 \<and> (\<exists>s. (s, j) \<in> set ps \<and> bit b s)"
  by (induction b ps rule: MOVE_BITS.induct) (auto simp: bit_MOVE_BIT bit_or_iff)

text \<open>The inverse: putting the bits of an offset where an instruction format has them.\<close>

definition scatter :: "(nat \<times> nat) list \<Rightarrow> u32 \<Rightarrow> u32" where
  "scatter ps i = MOVE_BITS i (map prod.swap ps)"

lemma bit_scatter: "bit (scatter ps i) s \<longleftrightarrow> s < 32 \<and> (\<exists>d. (s, d) \<in> set ps \<and> bit i d)"
  by (auto simp: scatter_def bit_MOVE_BITS)

lemma MOVE_BITS_scatter:
  assumes "distinct (map fst ps)" and "\<forall>s \<in> fst ` set ps. s < 32 \<and> \<not> bit x s"
  shows "bit (MOVE_BITS (x OR scatter ps i) ps) j \<longleftrightarrow> j < 32 \<and> j \<in> snd ` set ps \<and> bit i j"
proof -
  have "d = j" if "(s, d) \<in> set ps" "(s, j) \<in> set ps" for s d
    using that assms(1) by (auto dest: eq_key_imp_eq_value)
  then show ?thesis
    using assms(2) by (force simp: bit_MOVE_BITS bit_or_iff bit_scatter image_iff)
qed

text \<open>Offsets: even numbers of \<open>n + 1\<close> bits in two's complement.\<close>

definition offset_ok :: "nat \<Rightarrow> int \<Rightarrow> bool" where
  "offset_ok n k \<longleftrightarrow> even k \<and> - (2 ^ n) \<le> k \<and> k < 2 ^ n"

lemma offset_bits:
  assumes "offset_ok n k" and "n < 32"
  shows "\<not> bit k 0" and "n \<le> j \<Longrightarrow> bit k j = bit k n" and "sint (word_of_int k :: u32) = k"
proof -
  have s: "signed_take_bit n k = k"
    using assms(1) by (intro signed_take_bit_int_eq_self) (auto simp: offset_ok_def)
  show "\<not> bit k 0" using assms(1) by (simp add: offset_ok_def bit_0)
  show "n \<le> j \<Longrightarrow> bit k j = bit k n"
    using bit_signed_take_bit_iff [of n k j] s by (simp add: min_def)
  have "signed_take_bit 31 (signed_take_bit n k) = signed_take_bit (min 31 n) k" by simp
  also have "min 31 n = n" using assms(2) by simp
  finally have "signed_take_bit 31 k = k" using s by simp
  then show "sint (word_of_int k :: u32) = k" by (simp add: sint_uint unsigned_of_int signed_take_bit_take_bit)
qed

text \<open>Sign extension of a twelve-bit field.\<close>

lemma sign_extend_low:
  assumes "- (2 ^ 11) \<le> k" and "k < 2 ^ 11"
  shows "sign_extend 11 (take_bit 12 (word_of_int k)) = k"
proof -
  let ?t = "take_bit 12 (word_of_int k) :: u32"
  have s: "signed_take_bit 11 k = k" using assms by (intro signed_take_bit_int_eq_self) auto
  then have h: "11 \<le> j \<Longrightarrow> bit k j = bit k 11" for j
    using bit_signed_take_bit_iff [of 11 k j] by (simp add: min_def)
  have b: "?t AND push_bit 11 1 \<noteq> 0 \<longleftrightarrow> bit k 11"
    using and_exp_eq_0_iff_not_bit [of ?t 11] by (simp add: push_bit_eq_mult bit_take_bit_iff bit_word_of_int_iff)
  have "(if bit k 11 then ?t OR NOT (mask (11 + 1)) else ?t) = word_of_int k"
  proof (rule bit_word_eqI)
    fix j :: nat
    assume "j < LENGTH(32)"
    then show "bit (if bit k 11 then ?t OR NOT (mask (11 + 1)) else ?t) j = bit (word_of_int k :: u32) j"
      using h [of j] by (cases "j < 12") (auto simp: bit_or_iff bit_not_iff bit_mask_iff bit_take_bit_iff bit_word_of_int_iff)
  qed
  moreover have "sint (word_of_int k :: u32) = k"
  proof -
    have "signed_take_bit 31 (signed_take_bit 11 k) = signed_take_bit 11 k" by simp
    then have "signed_take_bit 31 k = k" using s by simp
    then show ?thesis by (simp add: sint_uint unsigned_of_int signed_take_bit_take_bit)
  qed
  ultimately show ?thesis using b unfolding sign_extend_def by presburger
qed

text \<open>Sign extension from the low bits of a word restores the offset.\<close>

lemma sign_extend_offset:
  assumes k: "offset_ok n k" "n < 31" "0 < n" and t: "\<And>j. bit t j \<longleftrightarrow> j \<in> {1..n} \<and> bit k j"
  shows "sign_extend n t = k"
proof -
  have "t AND push_bit n 1 \<noteq> 0 \<longleftrightarrow> bit t n"
    using and_exp_eq_0_iff_not_bit [of t n] by (simp add: push_bit_eq_mult)
  also have "\<dots> \<longleftrightarrow> bit k n" using t k(3) by simp
  finally have b: "t AND push_bit n 1 \<noteq> 0 \<longleftrightarrow> bit k n" .
  have "(if bit k n then t OR NOT (mask (n + 1)) else t) = word_of_int k"
  proof (rule bit_word_eqI)
    fix j :: nat
    assume j: "j < LENGTH(32)"
    have "j = 0 \<or> j \<in> {1..n} \<or> n < j" by auto
    then show "bit (if bit k n then t OR NOT (mask (n + 1)) else t) j = bit (word_of_int k :: u32) j"
      using offset_bits(1) [OF k(1)] offset_bits(2) [OF k(1), of j] k(2) j t [of j]
      by (auto simp: bit_or_iff bit_not_iff bit_mask_iff bit_word_of_int_iff)
  qed
  then show ?thesis using b offset_bits(3) [OF k(1)] k(2) by (simp add: sign_extend_def)
qed

section \<open>Formats\<close>

text \<open>
  The RISC-V formats the decoder reads, written by the instruction set manual: the major opcode in
  the low bits, then registers, minor opcode and the offset scattered over the rest.
\<close>

definition enc_jal :: "5 word \<Rightarrow> int \<Rightarrow> u32" where
  "enc_jal r k = 0x6f OR push_bit 7 (ucast r) OR scatter jal_bits (word_of_int k)"

definition enc_branch :: "u32 \<Rightarrow> 5 word \<Rightarrow> 5 word \<Rightarrow> int \<Rightarrow> u32" where
  "enc_branch f3 r1 r2 k = 0x63 OR push_bit 12 f3 OR push_bit 15 (ucast r1) OR push_bit 20 (ucast r2) OR
     scatter br_bits (word_of_int k)"

definition enc_jalr :: "5 word \<Rightarrow> 5 word \<Rightarrow> int \<Rightarrow> u32" where
  "enc_jalr r r1 k = 0x67 OR push_bit 7 (ucast r) OR push_bit 15 (ucast r1) OR push_bit 20 (take_bit 12 (word_of_int k))"

definition enc_cj :: "u32 \<Rightarrow> int \<Rightarrow> u32" where
  "enc_cj f3 k = 1 OR push_bit 13 f3 OR scatter cj_bits (word_of_int k)"

definition enc_cb :: "u32 \<Rightarrow> 3 word \<Rightarrow> int \<Rightarrow> u32" where
  "enc_cb f3 r k = 1 OR push_bit 13 f3 OR push_bit 7 (ucast r) OR scatter cb_bits (word_of_int k)"

lemma and_masks:
  "(x :: u32) AND 3 = take_bit 2 x" "x AND 0x1f = take_bit 5 x" "x AND 0x7f = take_bit 7 x" "x AND 7 = take_bit 3 x"
  by (simp_all add: take_bit_eq_mask mask_eq_exp_minus_1)

lemma bit_const_high: "bit (numeral w :: u32) j \<Longrightarrow> take_bit n (numeral w :: u32) = numeral w \<Longrightarrow> j < n"
  by (metis bit_take_bit_iff)

text \<open>The offset field of a format is read back, whatever the other fields hold.\<close>

lemma offset_read:
  assumes k: "offset_ok n k" "n < 31" "0 < n" and d: "distinct (map fst ps)"
    and x: "\<forall>s \<in> fst ` set ps. s < 32 \<and> \<not> bit x s" and r: "snd ` set ps = {1..n}"
  shows "sign_extend n (MOVE_BITS (x OR scatter ps (word_of_int k)) ps) = k"
proof (rule sign_extend_offset [OF k])
  fix j
  show "bit (MOVE_BITS (x OR scatter ps (word_of_int k)) ps) j \<longleftrightarrow> j \<in> {1..n} \<and> bit k j"
    using MOVE_BITS_scatter [OF d x, of "word_of_int k" j] r k(2)
    by (auto simp: bit_word_of_int_iff)
qed

text \<open>The destination bits of each format.\<close>

lemma upt_dests: "{1..n} = set [1..<Suc n]"
  by auto

lemma format_dests:
  "snd ` set jal_bits = {1..20}" "snd ` set br_bits = {1..12}" "snd ` set cj_bits = {1..11}" "snd ` set cb_bits = {1..8}"
  unfolding upt_dests jal_bits_def br_bits_def cj_bits_def cb_bits_def
  by (auto simp: upt_rec)

lemma jal_fields:
  assumes "offset_ok 20 k"
  shows "take_bit 7 (enc_jal r k) = 0x6f" and "reg_field 7 5 (enc_jal r k) = REG r"
    and "sign_extend 20 (MOVE_BITS (enc_jal r k) jal_bits) = k"
proof -
  have c: "\<not> bit (0x6f :: u32) j" if "7 \<le> j" for j using that bit_const_high [of _ j 7] by fastforce
  have rb: "\<not> bit r j" if "5 \<le> j" for j using that bit_imp_le_length [of r j] by auto
  have sc: "bit (scatter jal_bits i) j \<Longrightarrow> 12 \<le> j" for i j by (auto simp: bit_scatter jal_bits_def)
  show "take_bit 7 (enc_jal r k) = 0x6f"
    by (rule bit_word_eqI) (use c sc in \<open>force simp: enc_jal_def bit_take_bit_iff bit_or_iff bit_push_bit_iff\<close>)
  have "ucast (take_bit 5 (drop_bit 7 (enc_jal r k))) = r"
    by (rule bit_word_eqI)
      (use c sc in \<open>force simp: enc_jal_def bit_take_bit_iff bit_drop_bit_eq bit_or_iff bit_push_bit_iff bit_ucast_iff\<close>)
  then show "reg_field 7 5 (enc_jal r k) = REG r" by (simp add: reg_field_def)
  have "sign_extend 20 (MOVE_BITS ((0x6f OR push_bit 7 (ucast r)) OR scatter jal_bits (word_of_int k)) jal_bits) = k"
  proof (rule offset_read [OF assms])
    show "\<forall>s \<in> fst ` set jal_bits. s < 32 \<and> \<not> bit (0x6f OR push_bit 7 (ucast r) :: u32) s"
      using c rb by (auto simp: jal_bits_def bit_or_iff bit_push_bit_iff bit_ucast_iff)
  qed (simp_all add: format_dests, simp add: jal_bits_def)
  then show "sign_extend 20 (MOVE_BITS (enc_jal r k) jal_bits) = k" by (simp add: enc_jal_def or.assoc)
qed

lemma branch_fields:
  assumes "offset_ok 12 k" and "take_bit 3 f3 = f3"
  shows "take_bit 7 (enc_branch f3 r1 r2 k) = 0x63" and "reg_field 15 5 (enc_branch f3 r1 r2 k) = REG r1"
    and "funct3 (enc_branch f3 r1 r2 k) = f3"
    and "sign_extend 12 (MOVE_BITS (enc_branch f3 r1 r2 k) br_bits) = k"
proof -
  have c: "\<not> bit (0x63 :: u32) j" if "7 \<le> j" for j using that bit_const_high [of _ j 7] by fastforce
  have rb: "bit r j \<Longrightarrow> j < 5" for r :: "5 word" and j using bit_imp_le_length [of r j] by auto
  have fb: "bit f3 j \<Longrightarrow> j < 3" for j using assms(2) by (metis bit_take_bit_iff)
  have sc: "bit (scatter br_bits i) j \<Longrightarrow> 7 \<le> j \<and> j \<le> 11 \<or> 25 \<le> j" for i j
    by (auto simp: bit_scatter br_bits_def)
  let ?x = "0x63 OR push_bit 12 f3 OR push_bit 15 (ucast r1) OR push_bit 20 (ucast r2) :: u32"
  have e: "enc_branch f3 r1 r2 k = ?x OR scatter br_bits (word_of_int k)" by (simp add: enc_branch_def or.assoc)
  show "take_bit 7 (enc_branch f3 r1 r2 k) = 0x63"
    by (rule bit_word_eqI)
      (use c sc in \<open>force simp: enc_branch_def bit_take_bit_iff bit_or_iff bit_push_bit_iff\<close>)
  have "ucast (take_bit 5 (drop_bit 15 (enc_branch f3 r1 r2 k))) = r1"
  proof (rule bit_word_eqI)
    fix j :: nat
    assume "j < LENGTH(5)"
    then show "bit (ucast (take_bit 5 (drop_bit 15 (enc_branch f3 r1 r2 k))) :: 5 word) j = bit r1 j"
      using c [of "15 + j"] sc [of "word_of_int k" "15 + j"] fb [of "15 + j - 12"]
      by (auto simp: enc_branch_def bit_take_bit_iff bit_drop_bit_eq bit_or_iff bit_push_bit_iff bit_ucast_iff)
  qed
  then show "reg_field 15 5 (enc_branch f3 r1 r2 k) = REG r1" by (simp add: reg_field_def)
  show "funct3 (enc_branch f3 r1 r2 k) = f3"
    unfolding funct3_def and_masks
  proof (rule bit_word_eqI)
    fix j :: nat
    assume "j < LENGTH(32)"
    then show "bit (take_bit 3 (drop_bit 12 (enc_branch f3 r1 r2 k))) j = bit f3 j"
      using c [of "12 + j"] sc [of "word_of_int k" "12 + j"] fb [of j]
      by (auto simp: enc_branch_def bit_take_bit_iff bit_drop_bit_eq bit_or_iff bit_push_bit_iff bit_ucast_iff)
  qed
  show "sign_extend 12 (MOVE_BITS (enc_branch f3 r1 r2 k) br_bits) = k"
    unfolding e
  proof (rule offset_read [OF assms(1)])
    have "\<not> bit ?x s" if "7 \<le> s" "s \<le> 11 \<or> 25 \<le> s" for s
      using that c [of s] fb [of "s - 12"] rb [of r1 "s - 15"] rb [of r2 "s - 20"]
      by (auto simp: bit_or_iff bit_push_bit_iff bit_ucast_iff)
    then show "\<forall>s \<in> fst ` set br_bits. s < 32 \<and> \<not> bit ?x s"
      by (simp add: br_bits_def)
  qed (simp_all add: format_dests, simp add: br_bits_def)
qed

lemma jalr_fields:
  assumes "- (2 ^ 11) \<le> k" and "k < 2 ^ 11"
  shows "take_bit 7 (enc_jalr r r1 k) = 0x67" and "reg_field 7 5 (enc_jalr r r1 k) = REG r"
    and "reg_field 15 5 (enc_jalr r r1 k) = REG r1" and "take_bit 3 (drop_bit 12 (enc_jalr r r1 k)) = 0"
    and "sign_extend 11 (drop_bit 20 (enc_jalr r r1 k)) = k"
proof -
  have c: "\<not> bit (0x67 :: u32) j" if "7 \<le> j" for j using that bit_const_high [of _ j 7] by fastforce
  have rb: "bit r j \<Longrightarrow> j < 5" for r :: "5 word" and j using bit_imp_le_length [of r j] by auto
  note bits = enc_jalr_def bit_take_bit_iff bit_drop_bit_eq bit_or_iff bit_push_bit_iff bit_ucast_iff
  show "take_bit 7 (enc_jalr r r1 k) = 0x67"
    by (rule bit_word_eqI) (use c in \<open>force simp: bits\<close>)
  have "ucast (take_bit 5 (drop_bit 7 (enc_jalr r r1 k))) = r"
    by (rule bit_word_eqI) (use c in \<open>force simp: bits\<close>)
  then show "reg_field 7 5 (enc_jalr r r1 k) = REG r" by (simp add: reg_field_def)
  have "ucast (take_bit 5 (drop_bit 15 (enc_jalr r r1 k))) = r1"
  proof (rule bit_word_eqI)
    fix j :: nat
    assume "j < LENGTH(5)"
    then show "bit (ucast (take_bit 5 (drop_bit 15 (enc_jalr r r1 k))) :: 5 word) j = bit r1 j"
      using c [of "15 + j"] rb [of r "15 + j - 7"] by (auto simp: bits)
  qed
  then show "reg_field 15 5 (enc_jalr r r1 k) = REG r1" by (simp add: reg_field_def)
  show "take_bit 3 (drop_bit 12 (enc_jalr r r1 k)) = 0"
  proof (rule bit_word_eqI)
    fix j :: nat
    show "bit (take_bit 3 (drop_bit 12 (enc_jalr r r1 k))) j = bit (0 :: u32) j"
      using c [of "12 + j"] rb [of r "12 + j - 7"] by (auto simp: bits)
  qed
  have d: "drop_bit 20 (enc_jalr r r1 k) = take_bit 12 (word_of_int k)"
  proof (rule bit_word_eqI)
    fix j :: nat
    assume "j < LENGTH(32)"
    then show "bit (drop_bit 20 (enc_jalr r r1 k)) j = bit (take_bit 12 (word_of_int k) :: u32) j"
      using c [of "20 + j"] rb [of r "20 + j - 7"] rb [of r1 "20 + j - 15"] by (auto simp: bits)
  qed
  show "sign_extend 11 (drop_bit 20 (enc_jalr r r1 k)) = k"
    unfolding d by (rule sign_extend_low [OF assms])
qed

lemma cj_fields:
  assumes "offset_ok 11 k" and "take_bit 3 f3 = f3"
  shows "take_bit 2 (enc_cj f3 k) = 1" and "drop_bit 13 (enc_cj f3 k) = f3"
    and "sign_extend 11 (MOVE_BITS (enc_cj f3 k) cj_bits) = k"
proof -
  have sc: "bit (scatter cj_bits i) j \<Longrightarrow> 2 \<le> j \<and> j \<le> 12" for i j
    by (auto simp: bit_scatter cj_bits_def)
  note bits = enc_cj_def bit_take_bit_iff bit_drop_bit_eq bit_or_iff bit_push_bit_iff bit_1_iff
  show "take_bit 2 (enc_cj f3 k) = 1"
    by (rule bit_word_eqI) (use sc in \<open>force simp: bits\<close>)
  show "drop_bit 13 (enc_cj f3 k) = f3"
  proof (rule bit_word_eqI)
    fix j :: nat
    assume "j < LENGTH(32)"
    moreover have "bit f3 j \<Longrightarrow> j < 3" using assms(2) by (metis bit_take_bit_iff)
    ultimately show "bit (drop_bit 13 (enc_cj f3 k)) j = bit f3 j"
      using sc [of "word_of_int k" "13 + j"] by (auto simp: bits)
  qed
  have "sign_extend 11 (MOVE_BITS ((1 OR push_bit 13 f3) OR scatter cj_bits (word_of_int k)) cj_bits) = k"
  proof (rule offset_read [OF assms(1)])
    show "\<forall>s \<in> fst ` set cj_bits. s < 32 \<and> \<not> bit (1 OR push_bit 13 f3 :: u32) s"
      by (simp add: cj_bits_def bit_or_iff bit_push_bit_iff bit_1_iff)
  qed (simp_all add: format_dests, simp add: cj_bits_def)
  then show "sign_extend 11 (MOVE_BITS (enc_cj f3 k) cj_bits) = k" by (simp add: enc_cj_def or.assoc)
qed

lemma cb_fields:
  assumes "offset_ok 8 k" and "take_bit 3 f3 = f3"
  shows "take_bit 2 (enc_cb f3 r k) = 1" and "drop_bit 13 (enc_cb f3 r k) = f3"
    and "take_bit 3 (drop_bit 7 (enc_cb f3 r k)) = ucast r"
    and "sign_extend 8 (MOVE_BITS (enc_cb f3 r k) cb_bits) = k"
proof -
  have sc: "bit (scatter cb_bits i) j \<Longrightarrow> 2 \<le> j \<and> j \<le> 6 \<or> 10 \<le> j \<and> j \<le> 12" for i j
    by (auto simp: bit_scatter cb_bits_def)
  have rb: "bit r j \<Longrightarrow> j < 3" for j using bit_imp_le_length [of r j] by auto
  note bits = enc_cb_def bit_take_bit_iff bit_drop_bit_eq bit_or_iff bit_push_bit_iff bit_1_iff bit_ucast_iff
  show "take_bit 2 (enc_cb f3 r k) = 1"
    by (rule bit_word_eqI) (use sc in \<open>force simp: bits\<close>)
  show "drop_bit 13 (enc_cb f3 r k) = f3"
  proof (rule bit_word_eqI)
    fix j :: nat
    assume "j < LENGTH(32)"
    moreover have "bit f3 j \<Longrightarrow> j < 3" using assms(2) by (metis bit_take_bit_iff)
    ultimately show "bit (drop_bit 13 (enc_cb f3 r k)) j = bit f3 j"
      using sc [of "word_of_int k" "13 + j"] rb [of "13 + j - 7"] by (auto simp: bits)
  qed
  show "take_bit 3 (drop_bit 7 (enc_cb f3 r k)) = ucast r"
  proof (rule bit_word_eqI)
    fix j :: nat
    assume "j < LENGTH(32)"
    then show "bit (take_bit 3 (drop_bit 7 (enc_cb f3 r k))) j = bit (ucast r :: u32) j"
      using sc [of "word_of_int k" "7 + j"] rb [of j] by (auto simp: bits)
  qed
  have "sign_extend 8 (MOVE_BITS ((1 OR push_bit 13 f3 OR push_bit 7 (ucast r)) OR scatter cb_bits (word_of_int k)) cb_bits) = k"
  proof (rule offset_read [OF assms(1)])
    have "\<not> bit r 4" "\<not> bit r 5" "\<not> bit r 3" using rb [of 4] rb [of 5] rb [of 3] by auto
    then show "\<forall>s \<in> fst ` set cb_bits. s < 32 \<and> \<not> bit (1 OR push_bit 13 f3 OR push_bit 7 (ucast r) :: u32) s"
      by (simp add: cb_bits_def bit_or_iff bit_push_bit_iff bit_1_iff bit_ucast_iff)
  qed (simp_all add: format_dests, simp add: cb_bits_def)
  then show "sign_extend 8 (MOVE_BITS (enc_cb f3 r k) cb_bits) = k" by (simp add: enc_cb_def or.assoc)
qed

section \<open>Properties\<close>

text \<open>The opcode decides the low bits the dispatch looks at.\<close>

lemma low_bits:
  "take_bit 7 x = c \<Longrightarrow> x AND 3 = take_bit 2 c" "take_bit 7 x = c \<Longrightarrow> x AND 0x1f = take_bit 5 c"
  "take_bit 7 x = c \<Longrightarrow> x AND 0x7f = (c :: u32)"
  by (auto simp: and_masks)

text \<open>
  A \<^verbatim>\<open>jal\<close> with any destination register and any offset the format can hold (even, 21 bits
  signed) is decoded to exactly that register and offset, on both architectures.
\<close>

theorem decode_jal_roundtrip:
  assumes "offset_ok 20 k" and "archSize = 32 \<or> archSize = 64"
  shows "decodeInstruction (enc_jal r k) archSize d =
    (0, d\<lparr>inst_size := 32, inst_type := INST_JAL, is_branch := True, immediate := k,
          rd := REG r, rs1 := REG_unknown\<rparr>)"
  using assms(2) low_bits [OF jal_fields(1) [OF assms(1), of r]] jal_fields(2,3) [OF assms(1), of r]
  by (auto simp: decodeInstruction_def decodeRV64Instruction_def decodeRV32Instruction_def)

theorem decode_jal_roundtrip_witness:
  "decodeInstruction (enc_jal 1 (-2048)) 64 undefined =
    (0, undefined\<lparr>inst_size := 32, inst_type := INST_JAL, is_branch := True, immediate := -2048,
          rd := REG 1, rs1 := REG_unknown\<rparr>)"
  using decode_jal_roundtrip [of "-2048" 64 1 undefined] by (simp add: offset_ok_def)

text \<open>
  A conditional branch with any registers and any offset the format can hold (even, 13 bits
  signed) is decoded to its kind, its first register and exactly that offset.
\<close>

theorem decode_branch_roundtrip:
  assumes "offset_ok 12 k" and "branch_type f3 = Some ty" and "archSize = 32 \<or> archSize = 64"
  shows "decodeInstruction (enc_branch f3 r1 r2 k) archSize d =
    (0, d\<lparr>inst_size := 32, inst_type := ty, is_branch := True, immediate := k,
          rd := REG_unknown, rs1 := REG r1\<rparr>)"
proof -
  have "take_bit 3 f3 = f3" using assms(2) by (auto simp: branch_type_def split: if_splits)
  note f = branch_fields [OF assms(1) this, of r1 r2]
  show ?thesis
    using assms(2,3) low_bits [OF f(1)] f(2-4)
    by (auto simp: decodeInstruction_def decodeRV64Instruction_def decodeRV32Instruction_def)
qed

theorem decode_branch_roundtrip_witness:
  "decodeInstruction (enc_branch 5 10 11 4094) 32 undefined =
    (0, undefined\<lparr>inst_size := 32, inst_type := INST_BGE, is_branch := True, immediate := 4094,
          rd := REG_unknown, rs1 := REG 10\<rparr>)"
  using decode_branch_roundtrip [of 4094 5 INST_BGE 32 10 11 undefined]
  by (simp add: offset_ok_def branch_type_def)

text \<open>
  A \<^verbatim>\<open>jalr\<close> with any registers and any offset of 12 bits signed is decoded to exactly these.
\<close>

theorem decode_jalr_roundtrip:
  assumes "- (2 ^ 11) \<le> k" and "k < 2 ^ 11" and "archSize = 32 \<or> archSize = 64"
  shows "decodeInstruction (enc_jalr r r1 k) archSize d =
    (0, d\<lparr>inst_size := 32, inst_type := INST_JALR, is_branch := True, immediate := k,
          rd := REG r, rs1 := REG r1\<rparr>)"
proof -
  note f = jalr_fields [OF assms(1,2), of r r1]
  have m: "(0x7000 :: u32) = push_bit 12 (mask 3)" by (simp add: mask_eq_exp_minus_1)
  have "enc_jalr r r1 k AND push_bit 12 (mask 3) = push_bit 12 (take_bit 3 (drop_bit 12 (enc_jalr r r1 k)))"
    by (rule bit_word_eqI) (auto simp: bit_and_iff bit_push_bit_iff bit_mask_iff bit_take_bit_iff bit_drop_bit_eq)
  then have "enc_jalr r r1 k AND 0x7000 = 0" using f(4) m by simp
  then show ?thesis
    using assms(3) low_bits [OF f(1)] f(2,3,5)
    by (auto simp: decodeInstruction_def decodeRV64Instruction_def decodeRV32Instruction_def)
qed

theorem decode_jalr_roundtrip_witness:
  "decodeInstruction (enc_jalr 0 1 (-1)) 32 undefined =
    (0, undefined\<lparr>inst_size := 32, inst_type := INST_JALR, is_branch := True, immediate := -1,
          rd := REG 0, rs1 := REG 1\<rparr>)"
  using decode_jalr_roundtrip [of "-1" 32 0 1 undefined] by simp

text \<open>
  A compressed jump with any offset the format can hold (even, 12 bits signed) is decoded to that
  offset: \<^verbatim>\<open>c.j\<close> on both architectures, \<^verbatim>\<open>c.jal\<close> on the 32-bit one; on the 64-bit one its code is no
  jump.
\<close>

theorem decode_cj_roundtrip:
  assumes "offset_ok 11 k"
  shows "decodeInstruction (enc_cj 5 k) 32 d = (0, d\<lparr>inst_size := 16, inst_type := INST_C_J, is_branch := True,
      immediate := k, rs1 := REG_unknown, rd := REG 0\<rparr>) \<and>
    decodeInstruction (enc_cj 5 k) 64 d = decodeInstruction (enc_cj 5 k) 32 d \<and>
    decodeInstruction (enc_cj 1 k) 32 d = (0, d\<lparr>inst_size := 16, inst_type := INST_C_JAL, is_branch := True,
      immediate := k, rs1 := REG_unknown, rd := REG 1\<rparr>) \<and>
    decodeInstruction (enc_cj 1 k) 64 d = (0, no_cflow 16 INST_UNKNOWN d)"
  using cj_fields [OF assms, of 5] cj_fields [OF assms, of 1]
  by (simp add: decodeInstruction_def decodeRV32Q1Instruction_def decodeRV64Q1Instruction_def c_jump_def and_masks)

theorem decode_cj_roundtrip_witness:
  "decodeInstruction (enc_cj 1 (-2048)) 32 undefined =
    (0, undefined\<lparr>inst_size := 16, inst_type := INST_C_JAL, is_branch := True,
      immediate := -2048, rs1 := REG_unknown, rd := REG 1\<rparr>)"
  using decode_cj_roundtrip [of "-2048" undefined] by (simp add: offset_ok_def)

text \<open>
  A compressed branch is decoded to its kind and its exact offset, but its register is wrong: the
  format numbers the registers 8 to 15 with three bits, and the decoder takes the low two of them
  as the register number, so it never reports the register the instruction tests.
\<close>

theorem decode_cb_register:
  assumes "offset_ok 8 k" and "(f3, ty) \<in> {(6, INST_C_BEQZ), (7, INST_C_BNEZ)}" and "archSize = 32 \<or> archSize = 64"
  shows "\<exists>d'. decodeInstruction (enc_cb f3 r k) archSize d = (0, d') \<and> inst_size d' = 16 \<and> inst_type d' = ty \<and>
     is_branch d' \<and> immediate d' = k \<and> rs1 d' = REG (take_bit 2 (ucast r)) \<and> rs1 d' \<noteq> REG (8 + ucast r)"
proof -
  have t: "take_bit 3 f3 = f3" using assms(2) by auto
  note f = cb_fields [OF assms(1) t, of r]
  have e: "take_bit 2 (drop_bit 7 (enc_cb f3 r k)) = take_bit 2 (ucast r)"
    using arg_cong [OF f(3), of "take_bit 2"] by simp
  have "reg_field 7 2 (enc_cb f3 r k) = REG (take_bit 2 (ucast r))"
    unfolding reg_field_def e by (auto intro!: bit_word_eqI simp: bit_take_bit_iff bit_ucast_iff)
  moreover have "take_bit 2 (ucast r) \<noteq> (8 + ucast r :: 5 word)"
  proof -
    have "unat r < 8" using unsigned_less [of r] by simp
    moreover from this have "unat (ucast r :: 5 word) = unat r"
      by (simp add: unsigned_ucast_eq take_bit_word_eq_self take_bit_nat_eq_self)
    ultimately have "unat (8 + ucast r :: 5 word) = 8 + unat r"
      by (simp add: unat_word_ariths)
    moreover have "unat (take_bit 2 (ucast r) :: 5 word) < 4"
      by (simp add: unsigned_take_bit_eq take_bit_nat_less_exp [of 2, simplified])
    ultimately show ?thesis by auto
  qed
  moreover have "decodeInstruction (enc_cb f3 r k) archSize d = (0, c_branch ty (enc_cb f3 r k) d)"
  proof -
    define x where "x = enc_cb f3 r k"
    have "x AND 3 = 1" "drop_bit 13 x = f3" using f(1,2) by (simp_all add: x_def and_masks)
    then have "decodeInstruction x archSize d = (0, c_branch ty x d)"
      using assms(2,3) by (elim disjE; simp add: decodeInstruction_def decodeRV32Q1Instruction_def decodeRV64Q1Instruction_def)
        auto
    then show ?thesis by (simp add: x_def)
  qed
  ultimately show ?thesis using f(4) by (simp add: c_branch_def)
qed

theorem decode_cb_register_witness:
  "\<exists>d'. decodeInstruction (enc_cb 6 5 16) 32 undefined = (0, d') \<and> immediate d' = 16 \<and> rs1 d' = REG 1 \<and> rs1 d' \<noteq> REG 13"
proof -
  have "take_bit 2 (ucast (5 :: 3 word)) = (1 :: 5 word)" "8 + ucast (5 :: 3 word) = (13 :: 5 word)" by simp_all
  then show ?thesis using decode_cb_register [of 16 6 INST_C_BEQZ 32 5 undefined] by (auto simp: offset_ok_def)
qed

text \<open>Whatever the bits, sign extension stays within the range of the format.\<close>

lemma sign_extend_range:
  assumes n: "n < 31" and t: "\<And>j. bit t j \<Longrightarrow> j \<le> n"
  shows "- (2 ^ n) \<le> sign_extend n t \<and> sign_extend n t < 2 ^ n" and "odd (sign_extend n t) \<longleftrightarrow> bit t 0"
proof -
  define w where "w = (if t AND push_bit n 1 \<noteq> 0 then t OR NOT (mask (n + 1)) else t)"
  have c: "t AND push_bit n 1 \<noteq> 0 \<longleftrightarrow> bit t n"
    using and_exp_eq_0_iff_not_bit [of t n] by (simp add: push_bit_eq_mult)
  have w: "w = (if bit t n then t OR NOT (mask (n + 1)) else t)" unfolding w_def c ..
  have b: "bit w j \<longleftrightarrow> j < 32 \<and> (if j \<le> n then bit t j else bit t n)" for j
    using t [of j] n bit_imp_le_length [of t j] by (auto simp: w bit_or_iff bit_not_iff bit_mask_iff)
  have "signed_take_bit n (sint w) = sint w"
    by (rule bit_eqI) (use n in \<open>auto simp: bit_signed_take_bit_iff bit_sint_iff b min_def\<close>)
  then show "- (2 ^ n) \<le> sign_extend n t \<and> sign_extend n t < 2 ^ n"
    using signed_take_bit_int_greater_eq_minus_exp [of n "sint w"] signed_take_bit_int_less_exp [of n "sint w"]
    by (simp add: sign_extend_def w_def)
  have "odd (sint w) \<longleftrightarrow> bit w 0" by (simp add: bit_0 [symmetric] bit_sint_iff)
  then show "odd (sign_extend n t) \<longleftrightarrow> bit t 0"
    unfolding sign_extend_def w_def [symmetric] by (simp add: b)
qed

lemma format_offset:
  assumes "snd ` set ps = {1..n}" and "0 < n" and "n < 31"
  shows "offset_ok n (sign_extend n (MOVE_BITS inst ps))"
proof -
  have b: "bit (MOVE_BITS inst ps) j \<Longrightarrow> j \<in> {1..n}" for j
    using assms(1) by (force simp: bit_MOVE_BITS)
  have "\<not> bit (MOVE_BITS inst ps) 0" using b [of 0] by auto
  then show ?thesis
    using sign_extend_range [OF assms(3), of "MOVE_BITS inst ps"] b assms(2) by (auto simp: offset_ok_def)
qed

text \<open>The offsets each kind of instruction can have.\<close>

definition imm_ok :: "InstType \<Rightarrow> int \<Rightarrow> bool" where
  "imm_ok ty k \<longleftrightarrow>
     (if ty = INST_JAL then offset_ok 20 k
      else if ty \<in> {INST_BEQ, INST_BNE, INST_BLT, INST_BGE, INST_BLTU, INST_BGEU} then offset_ok 12 k
      else if ty = INST_C_J \<or> ty = INST_C_JAL then offset_ok 11 k
      else if ty = INST_C_BEQZ \<or> ty = INST_C_BNEZ then offset_ok 8 k
      else if ty = INST_JALR then - (2 ^ 11) \<le> k \<and> k < 2 ^ 11
      else k = 0)"

lemma imm_ok_formats:
  "offset_ok 20 (sign_extend 20 (MOVE_BITS inst jal_bits))" "offset_ok 12 (sign_extend 12 (MOVE_BITS inst br_bits))"
  "offset_ok 11 (sign_extend 11 (MOVE_BITS inst cj_bits))" "offset_ok 8 (sign_extend 8 (MOVE_BITS inst cb_bits))"
  by (rule format_offset, simp_all add: format_dests)+

lemma jalr_range: "- (2 ^ 11) \<le> sign_extend 11 (drop_bit 20 inst) \<and> sign_extend 11 (drop_bit 20 inst) < 2 ^ 11"
  by (rule sign_extend_range(1)) (auto simp: bit_drop_bit_eq dest: bit_imp_le_length)

definition decoded_ok :: "int \<Rightarrow> Decoded \<Rightarrow> bool" where
  "decoded_ok n d \<longleftrightarrow> inst_size d = n \<and> (is_branch d \<longrightarrow> imm_ok (inst_type d) (immediate d))"

lemma decoded_no_cflow: "decoded_ok n (no_cflow n ty d)"
  by (simp add: decoded_ok_def no_cflow_def)

lemma decoded_sys: "ty \<in> {INST_URET, INST_SRET, INST_MRET, INST_ECALL, INST_EBREAK} \<Longrightarrow> decoded_ok 32 (sys_inst ty d)"
  by (auto simp: decoded_ok_def sys_inst_def imm_ok_def)

lemma branch_type_kinds: "branch_type f = Some ty \<Longrightarrow> ty \<in> {INST_BEQ, INST_BNE, INST_BLT, INST_BGE, INST_BLTU, INST_BGEU}"
  by (auto simp: branch_type_def split: if_splits)

lemma decoded_formats:
  "inst_size d = 32 \<Longrightarrow> inst_type d = INST_JAL \<Longrightarrow> immediate d = sign_extend 20 (MOVE_BITS inst jal_bits) \<Longrightarrow> decoded_ok 32 d"
  "inst_size d = 32 \<Longrightarrow> inst_type d = INST_JALR \<Longrightarrow> immediate d = sign_extend 11 (drop_bit 20 inst) \<Longrightarrow> decoded_ok 32 d"
  "inst_size d = 32 \<Longrightarrow> branch_type f = Some (inst_type d) \<Longrightarrow> immediate d = sign_extend 12 (MOVE_BITS inst br_bits) \<Longrightarrow> decoded_ok 32 d"
  using imm_ok_formats [of inst] jalr_range [of inst] branch_type_kinds [of f "inst_type d"]
  by (auto simp: decoded_ok_def imm_ok_def)

lemma decode32_ok: "\<not> inst AND 0x1f = 0x1f \<Longrightarrow> \<exists>d'. decodeRV32Instruction inst d = (0, d') \<and> decoded_ok 32 d'"
  unfolding decodeRV32Instruction_def Let_def
  by (auto simp: decoded_no_cflow decoded_sys intro: decoded_formats split: option.split)

text \<open>What a decoding function must achieve.\<close>

definition decodes_to :: "int \<Rightarrow> nat \<times> Decoded \<Rightarrow> bool" where
  "decodes_to n r \<longleftrightarrow> fst r = 0 \<and> decoded_ok n (snd r)"

lemma decodeQ0_ok: "inst AND 3 = 0 \<Longrightarrow> decodes_to 16 (decodeQ0 inst d)"
  by (simp add: decodeQ0_def decodes_to_def decoded_ok_def)

lemma decodeQ1_ok:
  "decodes_to 16 (decodeRV32Q1Instruction inst d) \<and> decodes_to 16 (decodeRV64Q1Instruction inst d)"
  using imm_ok_formats [of inst]
  by (simp add: decodeRV32Q1Instruction_def decodeRV64Q1Instruction_def decoded_no_cflow decodes_to_def)
    (simp add: decoded_ok_def imm_ok_def c_jump_def c_branch_def)

lemma decodeQ2_ok: "e \<in> {INST_EBREAK, INST_C_EBREAK} \<Longrightarrow> decodes_to 16 (decodeQ2 e inst d)"
  by (auto simp: decodeQ2_def Let_def decoded_ok_def imm_ok_def decodes_to_def)

lemma quadrants: "(inst :: u32) AND 3 = 0 \<or> inst AND 3 = 1 \<or> inst AND 3 = 2 \<or> inst AND 3 = 3"
proof -
  have "inst AND 3 < 4" by (simp add: and_masks take_bit_eq_mod word_mod_less_divisor)
  then have "unat (inst AND 3) < 4" by (simp add: word_less_nat_alt)
  then have "unat (inst AND 3) \<in> {unat (0 :: u32), unat (1 :: u32), unat (2 :: u32), unat (3 :: u32)}" by auto
  then show ?thesis by (auto simp: word_unat_eq_iff)
qed

lemma decode_compressed_ok:
  assumes "archSize = 32 \<or> archSize = 64" and "inst AND 3 \<noteq> 3"
  shows "decodes_to 16 (decodeInstruction inst archSize d)"
  using assms quadrants [of inst] decodeQ0_ok [of inst d] decodeQ1_ok [of inst d]
    decodeQ2_ok [of INST_EBREAK inst d] decodeQ2_ok [of INST_C_EBREAK inst d]
  by (auto simp: decodeInstruction_def decodeRV32Q0Instruction_def decodeRV64Q0Instruction_def
      decodeRV32Q2Instruction_def decodeRV64Q2Instruction_def)

lemma decode_long:
  "archSize = 32 \<or> archSize = 64 \<Longrightarrow> inst AND 3 = 3 \<Longrightarrow>
   decodeInstruction inst archSize d = decodeRV32Instruction inst d"
  by (auto simp: decodeInstruction_def decodeRV64Instruction_def)

text \<open>
  C19. For every instruction word, whatever its bits, and for both architectures: the decoder
  succeeds exactly when \<^verbatim>\<open>decodeInstructionSize\<close> does and agrees with it on the size; and the
  offset of an instruction it calls a branch is one its format can hold, so it is even and bounded
  for every direct jump and branch and zero for the others but \<^verbatim>\<open>jalr\<close>.
\<close>

theorem decode_size_and_offset:
  assumes "archSize = 32 \<or> archSize = 64"
  shows "case decodeInstructionSize inst of
      Inl e \<Rightarrow> fst (decodeInstruction inst archSize d) = 1
    | Inr n \<Rightarrow> \<exists>d'. decodeInstruction inst archSize d = (0, d') \<and> inst_size d' = n \<and>
        (is_branch d' \<longrightarrow> imm_ok (inst_type d') (immediate d'))"
proof (cases "inst AND 3 = 3")
  case False
  then have "decodeInstructionSize inst = Inr 16"
    using quadrants [of inst] by (auto simp: decodeInstructionSize_def)
  moreover obtain d' where "decodeInstruction inst archSize d = (0, d')" "decoded_ok 16 d'"
    using decode_compressed_ok [OF assms False, of d]
    by (cases "decodeInstruction inst archSize d") (auto simp: decodes_to_def)
  ultimately show ?thesis by (simp add: decoded_ok_def)
next
  case True
  show ?thesis
  proof (cases "inst AND 0x1f = 0x1f")
    case long: True
    then show ?thesis
      using True assms by (simp add: decodeInstructionSize_def decode_long decodeRV32Instruction_def)
  next
    case False
    then show ?thesis
      using True decode32_ok [OF False, of d] assms by (auto simp: decodeInstructionSize_def decode_long decoded_ok_def)
  qed
qed

theorem decode_size_and_offset_witness:
  "\<exists>d'. decodeInstruction 0xfe0008e3 64 undefined = (0, d') \<and> inst_size d' = 32"
  using decode_size_and_offset [of 64 "0xfe0008e3" undefined] by (auto simp: decodeInstructionSize_def)

end
