(* ===== verification/Code_Memory.thy ===== *)
theory Code_Memory
  imports Disasm
begin

text \<open>
  Where the decoder finds the instructions of the traced program: the code sections of an ELF
  file (\<^verbatim>\<open>class Section\<close>, \<^verbatim>\<open>ElfReader::getInstructionByAddress\<close>, and the two fetch routines of
  \<^verbatim>\<open>class Disassembler\<close>) and the pages of kernel memory (\<^verbatim>\<open>class KMem\<close>), all in src/dqr.cpp.

  A fetch through the index of an array that is outside it is undefined behaviour. The fields
  that hold the status of the last call are left out: they are read only after construction, and
  each call returns its status. What \<^verbatim>\<open>objdump\<close> yields for a page of kernel memory is the argument
  \<open>od\<close> of the functions that run it: a return code and the new list of sections.
\<close>

section \<open>Sections\<close>

type_synonym u16 = "16 word"

record Section =
  startAddr :: ADDRESS
  endAddr :: ADDRESS
  vmaOffset :: ADDRESS
  code :: "u16 list"

fun getSectionByAddress :: "'a Section_scheme list \<Rightarrow> ADDRESS \<Rightarrow> 'a Section_scheme option" where
  "getSectionByAddress [] addr = None"
| "getSectionByAddress (sp # next) addr =
     (if addr \<ge> startAddr sp + vmaOffset sp \<and> addr \<le> endAddr sp + vmaOffset sp then Some sp
      else getSectionByAddress next addr)"

text \<open>\<^verbatim>\<open>sp->code[index]\<close>; the index is computed in 64 bits and stored in an \<^verbatim>\<open>int\<close>.\<close>

definition code_at :: "'a Section_scheme \<Rightarrow> int \<Rightarrow> u16 outcome" where
  "code_at sp index =
     (if 0 \<le> index \<and> index < int (length (code sp)) then Inr (code sp ! nat index) else Inl UB)"

definition code_index :: "'a Section_scheme \<Rightarrow> ADDRESS \<Rightarrow> int" where
  "code_index sp addr = int_of_u64 (((addr - vmaOffset sp) - startAddr sp) div 2)"

text \<open>\<^verbatim>\<open>inst | (((uint32_t)sp->code[index+1]) << 16)\<close>.\<close>

definition with_upper :: "u32 \<Rightarrow> u16 \<Rightarrow> u32" where
  "with_upper inst upper = inst OR push_bit 16 (ucast upper)"

section \<open>The instructions of an ELF file\<close>

record ElfReader =
  elf_archSize :: int
  elf_bitsPerAddress :: int
  codeSectionLst :: "Section list"

definition ElfReader_getInstructionByAddress :: "ElfReader \<Rightarrow> ADDRESS \<Rightarrow> u32 outcome" where
  "ElfReader_getInstructionByAddress elf addr =
     (if codeSectionLst elf = [] then Inl (Rc DQERR_ERR)
      else case getSectionByAddress (codeSectionLst elf) addr of
        None \<Rightarrow> Inl (Rc DQERR_ERR)
      | Some sp \<Rightarrow>
          if addr < startAddr sp + vmaOffset sp \<or> addr > endAddr sp + vmaOffset sp then
            Inl (Rc DQERR_ERR)
          else (case code_at sp (code_index sp addr) of
            Inl e \<Rightarrow> Inl e
          | Inr half \<Rightarrow>
              (let inst = ucast half in
               if inst AND 3 \<noteq> 3 then Inr inst
               else if inst AND 0x1f = 0x1f then Inl (Rc DQERR_ERR)
               else (case code_at sp (code_index sp addr + 1) of
                 Inl e \<Rightarrow> Inl e
               | Inr upper \<Rightarrow> Inr (with_upper inst upper)))))"

text \<open>
  \<^verbatim>\<open>Disassembler::getInstruction\<close>, up to the symbol lookup: the instruction and its size. Its upper
  half is shifted as an \<^verbatim>\<open>int\<close>, which has the same bits.
\<close>

definition Disassembler_getInstruction :: "'a Section_scheme list \<Rightarrow> ADDRESS \<Rightarrow> (u32 \<times> int) outcome" where
  "Disassembler_getInstruction sectionLst addr =
     (if sectionLst = [] then Inl (Rc DQERR_ERR)
      else case getSectionByAddress sectionLst addr of
        None \<Rightarrow> Inl (Rc DQERR_ERR)
      | Some sp \<Rightarrow>
          (case code_at sp (code_index sp addr) of
             Inl e \<Rightarrow> Inl e
           | Inr half \<Rightarrow>
               (case decodeInstructionSize (ucast half) of
                  Inl e \<Rightarrow> Inl e
                | Inr sz \<Rightarrow>
                    if sz > 16 then
                      (case code_at sp (code_index sp addr + 1) of
                        Inl e \<Rightarrow> Inl e
                      | Inr upper \<Rightarrow> Inr (with_upper (ucast half) upper, sz))
                    else Inr (ucast half, sz))))"

text \<open>
  The second fetch routine of the disassembler keeps the section and the index of the last
  address it was asked for.
\<close>

record Disassembler =
  sectionLst :: "Section list"
  cachedAddr :: ADDRESS
  cachedSecPtr :: "Section option"
  cachedIndex :: int

definition Disassembler_new :: "Section list \<Rightarrow> Disassembler" where
  "Disassembler_new sp =
     \<lparr>sectionLst = sp, cachedAddr = 0, cachedSecPtr = None, cachedIndex = -1\<rparr>"

definition cacheSrcInfo :: "ADDRESS \<Rightarrow> Disassembler \<Rightarrow> DQErr \<times> Disassembler" where
  "cacheSrcInfo addr d =
     (if sectionLst d = [] then (DQERR_ERR, d)
      else case getSectionByAddress (sectionLst d) addr of
        None \<Rightarrow> (DQERR_ERR, d)
      | Some sp \<Rightarrow> (DQERR_OK, d\<lparr>cachedAddr := addr, cachedSecPtr := Some sp,
                               cachedIndex := code_index sp addr\<rparr>))"

definition lookupInstructionByAddress ::
  "ADDRESS \<Rightarrow> Disassembler \<Rightarrow> (u32 \<times> int) outcome \<times> Disassembler" where
  "lookupInstructionByAddress addr d =
     (if sectionLst d = [] then (Inl (Rc DQERR_ERR), d)
      else let (rc, d1) = (if addr \<noteq> cachedAddr d then cacheSrcInfo addr d else (DQERR_OK, d)) in
        if rc \<noteq> DQERR_OK then (Inl (Rc DQERR_ERR), d1)
        else (case cachedSecPtr d1 of
          None \<Rightarrow> (Inl (Rc DQERR_ERR), d1)
        | Some sp \<Rightarrow>
            (case code_at sp (cachedIndex d1) of
               Inl e \<Rightarrow> Inl e
             | Inr half \<Rightarrow>
                 (case decodeInstructionSize (ucast half) of
                    Inl e \<Rightarrow> Inl (Rc DQERR_ERR)
                  | Inr sz \<Rightarrow>
                      if sz = 16 then Inr (ucast half, sz)
                      else (case code_at sp (cachedIndex d1 + 1) of
                        Inl e \<Rightarrow> Inl e
                      | Inr upper \<Rightarrow> Inr (with_upper (ucast half) upper, sz))), d1)))"

section \<open>Kernel memory\<close>

record KMem =
  kStart :: ADDRESS
  k_sectionLst :: "Section list"
  cachedSection :: "Section option"

definition KMem_new :: "ADDRESS \<Rightarrow> KMem" where
  "KMem_new start = \<lparr>kStart = start, k_sectionLst = [], cachedSection = None\<rparr>"

definition k_covers :: "ADDRESS \<Rightarrow> Section \<Rightarrow> bool" where
  "k_covers addr sp \<longleftrightarrow> addr \<ge> startAddr sp + vmaOffset sp \<and> addr < endAddr sp + vmaOffset sp"

definition findSection :: "ADDRESS \<Rightarrow> KMem \<Rightarrow> Section option \<times> KMem" where
  "findSection addr k =
     (case cachedSection k of
        Some sp \<Rightarrow>
          if k_covers addr sp then (Some sp, k)
          else (case find (k_covers addr) (k_sectionLst k) of
                  None \<Rightarrow> (None, k) | Some sp2 \<Rightarrow> (Some sp2, k\<lparr>cachedSection := Some sp2\<rparr>))
      | None \<Rightarrow>
          (case find (k_covers addr) (k_sectionLst k) of
             None \<Rightarrow> (None, k) | Some sp2 \<Rightarrow> (Some sp2, k\<lparr>cachedSection := Some sp2\<rparr>)))"

text \<open>What \<^verbatim>\<open>objdump\<close> makes of the page at an address, given the sections so far.\<close>

type_synonym objdump = "ADDRESS \<Rightarrow> Section list \<Rightarrow> DQErr \<times> Section list"

definition find_or_dump :: "objdump \<Rightarrow> ADDRESS \<Rightarrow> KMem \<Rightarrow> Section outcome \<times> KMem" where
  "find_or_dump od addr k =
     (case findSection addr k of
        (Some sp, k1) \<Rightarrow> (Inr sp, k1)
      | (None, k1) \<Rightarrow>
          (let (rc, sl) = od (addr AND NOT (mask 12)) (k_sectionLst k1);
               k2 = k1\<lparr>k_sectionLst := sl\<rparr> in
           if rc \<noteq> DQERR_OK then (Inl (Rc DQERR_ERR), k2)
           else case findSection addr k2 of
             (None, k3) \<Rightarrow> (Inl (Rc DQERR_ERR), k3)
           | (Some sp, k3) \<Rightarrow> (Inr sp, k3)))"

definition k_fetch :: "Section \<Rightarrow> ADDRESS \<Rightarrow> u32 outcome" where
  "k_fetch sp addr =
     (if addr < startAddr sp + vmaOffset sp \<or> addr \<ge> endAddr sp + vmaOffset sp then
        Inl (Rc DQERR_ERR)
      else case code_at sp (code_index sp addr) of
        Inl e \<Rightarrow> Inl e
      | Inr half \<Rightarrow>
          (case decodeInstructionSize (ucast half) of
             Inl e \<Rightarrow> Inl (Rc DQERR_ERR)
           | Inr sz \<Rightarrow>
               if sz = 32 then
                 (case code_at sp (code_index sp addr + 1) of
                   Inl e \<Rightarrow> Inl e
                 | Inr upper \<Rightarrow> Inr (with_upper (ucast half) upper))
               else Inr (ucast half)))"

definition KMem_getInstructionByAddress :: "objdump \<Rightarrow> ADDRESS \<Rightarrow> KMem \<Rightarrow> u32 outcome \<times> KMem" where
  "KMem_getInstructionByAddress od addr k =
     (case find_or_dump od addr k of
        (Inl e, k1) \<Rightarrow> (Inl e, k1)
      | (Inr sp, k1) \<Rightarrow> (k_fetch sp addr, k1))"

section \<open>Fetching from a section\<close>

text \<open>The half words of an instruction in memory, and of a program.\<close>

definition halves :: "u32 \<Rightarrow> u16 list" where
  "halves inst = (if inst AND 3 \<noteq> 3 then [ucast inst] else [ucast inst, ucast (drop_bit 16 inst)])"

definition inst_ok :: "u32 \<Rightarrow> bool" where
  "inst_ok inst \<longleftrightarrow> (if inst AND 3 \<noteq> 3 then inst < 2 ^ 16 else inst AND 0x1f \<noteq> 0x1f)"

definition program_code :: "u32 list \<Rightarrow> u16 list" where
  "program_code is = concat (map halves is)"

text \<open>The section that holds a program, with the spare half word the reader appends.\<close>

definition program_section :: "ADDRESS \<Rightarrow> ADDRESS \<Rightarrow> u32 list \<Rightarrow> Section" where
  "program_section start vma is =
     \<lparr>startAddr = start, endAddr = start + word_of_nat (2 * length (program_code is)) - 1,
      vmaOffset = vma, code = program_code is @ [0]\<rparr>"

text \<open>The address of instruction \<open>k\<close> of a program.\<close>

definition program_addr :: "ADDRESS \<Rightarrow> u32 list \<Rightarrow> nat \<Rightarrow> ADDRESS" where
  "program_addr start is k = start + word_of_nat (2 * length (program_code (take k is)))"

lemma bit_ucast_u16: "bit (ucast (ucast (x :: u32) :: u16) :: u32) n \<longleftrightarrow> n < 16 \<and> bit x n"
  by (auto simp: bit_ucast_iff)

lemma ucast_low:
  "(ucast (ucast (x :: u32) :: u16) :: u32) AND 3 = x AND 3"
  "(ucast (ucast (x :: u32) :: u16) :: u32) AND 0x1f = x AND 0x1f"
proof -
  have m: "(3 :: u32) = mask 2" "(0x1f :: u32) = mask 5" by (simp_all add: mask_eq_exp_minus_1)
  show "(ucast (ucast (x :: u32) :: u16) :: u32) AND 3 = x AND 3"
    unfolding m by (rule bit_word_eqI) (auto simp: bit_and_iff bit_mask_iff bit_ucast_u16)
  show "(ucast (ucast (x :: u32) :: u16) :: u32) AND 0x1f = x AND 0x1f"
    unfolding m by (rule bit_word_eqI) (auto simp: bit_and_iff bit_mask_iff bit_ucast_u16)
qed

lemma ucast_short:
  assumes "x < (2 ^ 16 :: u32)"
  shows "ucast (ucast x :: u16) = x"
proof -
  have "take_bit 16 x = x" using assms by (simp add: take_bit_eq_mod word_mod_less_divisor mod_word_less)
  then have "bit x n \<Longrightarrow> n < 16" for n using bit_take_bit_iff [of 16 x n] by simp
  then show ?thesis by (intro bit_word_eqI) (auto simp: bit_ucast_u16)
qed

lemma with_upper_halves: "with_upper (ucast (ucast (x :: u32) :: u16)) (ucast (drop_bit 16 x)) = x"
  by (rule bit_word_eqI)
    (auto simp: with_upper_def bit_or_iff bit_push_bit_iff bit_ucast_iff bit_drop_bit_eq bit_ucast_u16)

lemma code_index_offset:
  assumes "n < 2 ^ 30"
  shows "code_index sp (startAddr sp + vmaOffset sp + word_of_nat (2 * n)) = int n"
proof -
  have u: "unat (word_of_nat (2 * n) :: u64) = 2 * n"
    using assms by (simp add: unsigned_of_nat take_bit_nat_eq_self del: of_nat_mult)
  have "unat ((word_of_nat (2 * n) :: u64) div 2) = n"
    unfolding unat_div u by simp
  then have d: "(word_of_nat (2 * n) :: u64) div 2 = word_of_nat n"
    using assms by (simp add: word_unat_eq_iff unsigned_of_nat take_bit_nat_eq_self del: of_nat_mult)
  have "uint (word_of_nat n :: u64) = int n"
    using assms by (simp add: unsigned_of_nat take_bit_nat_eq_self uint_nat)
  moreover from this have "(word_of_nat n :: u64) < 2 ^ 31"
    using assms by (simp add: word_less_def)
  ultimately show ?thesis by (simp add: code_index_def d int_of_u64_small del: of_nat_mult)
qed

lemma program_code_nth:
  assumes "k < length is"
  defines "n \<equiv> length (program_code (take k is))"
  shows "drop n (program_code is) = halves (is ! k) @ program_code (drop (Suc k) is)"
proof -
  have "program_code is = program_code (take k is) @ program_code (drop k is)"
    unfolding program_code_def by (metis append_take_drop_id concat_append map_append)
  moreover have "drop k is = is ! k # drop (Suc k) is"
    using assms by (simp add: Cons_nth_drop_Suc)
  ultimately show ?thesis by (simp add: n_def program_code_def)
qed

lemma halves_in_code:
  assumes "k < length is" and "halves (is ! k) = hs" and "j < length hs"
  defines "n \<equiv> length (program_code (take k is))"
  shows "n + j < length (program_code is)" and "program_code is ! (n + j) = hs ! j"
proof -
  note d = program_code_nth [OF assms(1), folded n_def]
  have l: "length (drop n (program_code is)) = length (program_code is) - n" by simp
  show "n + j < length (program_code is)" using d assms(2,3) l by simp
  then have "program_code is ! (n + j) = drop n (program_code is) ! j" by simp
  then show "program_code is ! (n + j) = hs ! j" using d assms(2,3) by (simp add: nth_append)
qed

text \<open>Every address of a program is inside its section.\<close>

lemma program_in_section:
  fixes start vma :: ADDRESS
  assumes "n < len" and "unat (start + vma) + 2 * len < 2 ^ 64"
  shows "start + vma \<le> start + vma + word_of_nat (2 * n)"
    and "start + vma + word_of_nat (2 * n) \<le> start + word_of_nat (2 * len) - 1 + vma"
proof -
  define b where "b = start + vma"
  have l: "unat b + 2 * len < 2 ^ 64" using assms(2) by (simp add: b_def)
  have u: "unat (word_of_nat m :: u64) = m" if "m \<le> 2 * len" for m
    using that l by (simp add: unsigned_of_nat take_bit_nat_eq_self)
  have a: "unat (b + word_of_nat m) = unat b + m" if "m \<le> 2 * len" for m
    using that l u [OF that] by (simp add: unat_word_ariths)
  have "start + word_of_nat (2 * len) - 1 + vma = b + word_of_nat (2 * len - 1)"
    using assms(1) by (simp add: b_def algebra_simps)
  moreover have "unat (b + word_of_nat (2 * n)) \<le> unat (b + word_of_nat (2 * len - 1))"
    using assms(1) by (subst a, simp, subst a, simp, linarith)
  ultimately show "start + vma + word_of_nat (2 * n) \<le> start + word_of_nat (2 * len) - 1 + vma"
    unfolding b_def [symmetric] by (simp only: word_le_nat_alt)
  show "start + vma \<le> start + vma + word_of_nat (2 * n)"
    unfolding b_def [symmetric] using assms(1) a [of "2 * n"] by (simp add: word_le_nat_alt)
qed

lemma fetch_program:
  assumes "k < length is" and "inst_ok (is ! k)"
    and "unat (start + vma) + 2 * length (program_code is) < 2 ^ 64" and "length (program_code is) < 2 ^ 30"
    and "codeSectionLst elf = pre @ program_section start vma is # post"
    and "getSectionByAddress pre (program_addr (start + vma) is k) = None"
  shows "ElfReader_getInstructionByAddress elf (program_addr (start + vma) is k) = Inr (is ! k)"
proof -
  let ?sp = "program_section start vma is" and ?n = "length (program_code (take k is))"
  let ?a = "program_addr (start + vma) is k"
  have c: "halves (is ! k) ! 0 = ucast (is ! k)" "0 < length (halves (is ! k))"
    by (simp_all add: halves_def)
  note h0 = halves_in_code [OF assms(1) refl c(2)]
  have n: "?n < length (program_code is)" using h0(1) by simp
  note r = program_in_section [OF n assms(3)]
  have sec: "getSectionByAddress (codeSectionLst elf) ?a = Some ?sp"
  proof -
    have "getSectionByAddress (xs @ ys) a = (case getSectionByAddress xs a of None \<Rightarrow> getSectionByAddress ys a | Some s \<Rightarrow> Some s)"
      for xs ys :: "Section list" and a :: ADDRESS by (induction xs) auto
    then show ?thesis
      unfolding assms(5) using assms(6) r by (simp add: program_section_def program_addr_def del: of_nat_mult)
  qed
  have ix: "code_index ?sp ?a = int ?n"
    using code_index_offset [of ?n ?sp] n assms(4) by (simp add: program_addr_def program_section_def del: of_nat_mult)
  have at0: "code_at ?sp (int ?n) = Inr (ucast (is ! k))"
    using h0 c by (simp add: code_at_def program_section_def nth_append)
  have at1: "code_at ?sp (int ?n + 1) = Inr (ucast (drop_bit 16 (is ! k)))" if l: "is ! k AND 3 = 3"
  proof -
    have "halves (is ! k) = [ucast (is ! k), ucast (drop_bit 16 (is ! k))]" using l by (simp add: halves_def)
    note h1 = halves_in_code [OF assms(1) this, of 1]
    show ?thesis using h1 by (simp add: code_at_def program_section_def nth_append nat_add_distrib)
  qed
  have nil: "codeSectionLst elf \<noteq> []" using assms(5) by simp
  have guard: "\<not> (?a < startAddr ?sp + vmaOffset ?sp \<or> ?a > endAddr ?sp + vmaOffset ?sp)"
    using r by (simp add: program_section_def program_addr_def not_less del: of_nat_mult)
  show ?thesis
  proof (cases "is ! k AND 3 = 3")
    case True
    then show ?thesis
      using assms(2) nil guard at1 by (simp add: ElfReader_getInstructionByAddress_def sec ix at0 Let_def
          ucast_low inst_ok_def with_upper_halves)
  next
    case False
    then show ?thesis
      using assms(2) nil guard by (simp add: ElfReader_getInstructionByAddress_def sec ix at0 Let_def
          ucast_low inst_ok_def ucast_short)
  qed
qed

section \<open>The fetch routines agree\<close>

text \<open>A run of lookups on one disassembler.\<close>

fun lookups :: "ADDRESS list \<Rightarrow> Disassembler \<Rightarrow> (u32 \<times> int) outcome list" where
  "lookups [] d = []"
| "lookups (a # as) d = (let (r, d1) = lookupInstructionByAddress a d in r # lookups as d1)"

definition cache_inv :: "Disassembler \<Rightarrow> bool" where
  "cache_inv d \<longleftrightarrow> (case cachedSecPtr d of
      None \<Rightarrow> cachedAddr d = 0
    | Some sp \<Rightarrow> getSectionByAddress (sectionLst d) (cachedAddr d) = Some sp \<and>
        cachedIndex d = code_index sp (cachedAddr d))"

lemma decodeInstructionSize_cases:
  "decodeInstructionSize inst =
     (if inst AND 3 \<noteq> 3 then Inr 16 else if inst AND 0x1f = 0x1f then Inl (Rc DQERR_ERR) else Inr 32)"
  using quadrants [of inst] by (auto simp: decodeInstructionSize_def)

text \<open>After the cache step the cache holds the section of the address, or there is none.\<close>

lemma cache_step:
  assumes "cache_inv d" and "a \<noteq> 0 \<or> cachedSecPtr d \<noteq> None" and "sectionLst d \<noteq> []"
  defines "r \<equiv> (if a \<noteq> cachedAddr d then cacheSrcInfo a d else (DQERR_OK, d))"
  shows "case getSectionByAddress (sectionLst d) a of
      None \<Rightarrow> r = (DQERR_ERR, d)
    | Some sp \<Rightarrow> r = (DQERR_OK, d\<lparr>cachedAddr := a, cachedSecPtr := Some sp, cachedIndex := code_index sp a\<rparr>)"
proof (cases "a = cachedAddr d")
  case True
  with assms(1,2) show ?thesis
    by (cases "cachedSecPtr d") (auto simp: r_def cache_inv_def)
next
  case False
  with assms(3) show ?thesis by (simp add: r_def cacheSrcInfo_def split: option.split)
qed

lemma lookup_fetches:
  assumes "cache_inv d" and "a \<noteq> 0 \<or> cachedSecPtr d \<noteq> None"
  shows "fst (lookupInstructionByAddress a d) = Disassembler_getInstruction (sectionLst d) a"
    and "cache_inv (snd (lookupInstructionByAddress a d))"
    and "sectionLst (snd (lookupInstructionByAddress a d)) = sectionLst d"
    and "cachedSecPtr (snd (lookupInstructionByAddress a d)) = None \<longleftrightarrow>
      cachedSecPtr d = None \<and> getSectionByAddress (sectionLst d) a = None"
proof -
  have "fst (lookupInstructionByAddress a d) = Disassembler_getInstruction (sectionLst d) a \<and>
    cache_inv (snd (lookupInstructionByAddress a d)) \<and> sectionLst (snd (lookupInstructionByAddress a d)) = sectionLst d \<and>
    (cachedSecPtr (snd (lookupInstructionByAddress a d)) = None \<longleftrightarrow>
      cachedSecPtr d = None \<and> getSectionByAddress (sectionLst d) a = None)"
  proof (cases "sectionLst d = []")
    case True
    with assms(1) show ?thesis by (simp add: lookupInstructionByAddress_def Disassembler_getInstruction_def)
  next
    case False
    note c = cache_step [OF assms False]
    show ?thesis
    proof (cases "getSectionByAddress (sectionLst d) a")
      case None
      with c False assms(1) show ?thesis
        by (simp add: lookupInstructionByAddress_def Disassembler_getInstruction_def)
    next
      case (Some sp)
      with c False show ?thesis
        by (cases "code_at sp (code_index sp a)")
          (simp_all add: lookupInstructionByAddress_def Disassembler_getInstruction_def decodeInstructionSize_cases cache_inv_def)
    qed
  qed
  then show "fst (lookupInstructionByAddress a d) = Disassembler_getInstruction (sectionLst d) a"
    and "cache_inv (snd (lookupInstructionByAddress a d))"
    and "sectionLst (snd (lookupInstructionByAddress a d)) = sectionLst d"
    and "cachedSecPtr (snd (lookupInstructionByAddress a d)) = None \<longleftrightarrow>
      cachedSecPtr d = None \<and> getSectionByAddress (sectionLst d) a = None" by blast+
qed

text \<open>The tag of the empty cache is the address 0, so that a lookup of this address takes it for a hit.\<close>

lemma lookup_empty:
  "cache_inv d \<Longrightarrow> cachedSecPtr d = None \<Longrightarrow> lookupInstructionByAddress 0 d = (Inl (Rc DQERR_ERR), d)"
  by (simp add: lookupInstructionByAddress_def cache_inv_def)

text \<open>No address of the list, apart from 0, is in a section: the cache stays empty.\<close>

definition all_miss :: "Section list \<Rightarrow> ADDRESS list \<Rightarrow> bool" where
  "all_miss sl as \<longleftrightarrow> list_all (\<lambda>a. a = 0 \<or> getSectionByAddress sl a = None) as"

lemma lookups_fetch:
  "cache_inv d \<Longrightarrow> lookups as d = map (\<lambda>i.
      if as ! i = 0 \<and> cachedSecPtr d = None \<and> all_miss (sectionLst d) (take i as) then Inl (Rc DQERR_ERR)
      else Disassembler_getInstruction (sectionLst d) (as ! i)) [0..<length as]"
proof (induction as arbitrary: d)
  case Nil
  then show ?case by simp
next
  case (Cons a as)
  let ?d = "snd (lookupInstructionByAddress a d)"
  have split: "[0..<length (a # as)] = 0 # map Suc [0..<length as]" by (simp add: map_Suc_upt upt_conv_Cons del: upt_Suc)
  have l: "lookups (a # as) d = fst (lookupInstructionByAddress a d) # lookups as ?d" by (simp add: Let_def split_def)
  show ?case
  proof (cases "a = 0 \<and> cachedSecPtr d = None")
    case True
    then show ?thesis
      unfolding split l using lookup_empty [OF Cons.prems] Cons.IH [OF Cons.prems] by (simp add: all_miss_def)
  next
    case False
    then have n: "a \<noteq> 0 \<or> cachedSecPtr d \<noteq> None" by blast
    note f = lookup_fetches [OF Cons.prems n]
    show ?thesis
      unfolding split l using f(1,3,4) Cons.IH [OF f(2)] n by (auto simp: all_miss_def)
  qed
qed

lemma getSectionByAddress_range:
  "getSectionByAddress sl a = Some sp \<Longrightarrow> \<not> a < startAddr sp + vmaOffset sp \<and> \<not> a > endAddr sp + vmaOffset sp"
  by (induction sl) (auto split: if_splits)

lemma elf_fetch_is_getInstruction:
  "ElfReader_getInstructionByAddress elf a = map_sum id fst (Disassembler_getInstruction (codeSectionLst elf) a)"
  by (auto simp: ElfReader_getInstructionByAddress_def Disassembler_getInstruction_def Let_def
      decodeInstructionSize_cases dest: getSectionByAddress_range split: option.split sum.split)

section \<open>Pages of kernel memory\<close>

lemma page_covers:
  fixes p a :: ADDRESS
  assumes "p AND mask 12 = 0" and "p \<noteq> NOT (mask 12)"
  shows "p \<le> a \<and> a < p + 4096 \<longleftrightarrow> a AND NOT (mask 12) = p"
proof -
  have "unat p mod 4096 = 0" using arg_cong [OF assms(1), of unat] by (simp add: unat_and_mask)
  then obtain k where k: "unat p = 4096 * k" by (auto simp: mod_eq_0_iff_dvd dvd_def)
  have "k \<noteq> 2 ^ 52 - 1"
  proof
    assume "k = 2 ^ 52 - 1"
    then have "p = NOT (mask 12)" using k by (simp add: word_unat_eq_iff mask_eq_exp_minus_1)
    with assms(2) show False by simp
  qed
  moreover have "unat p < 2 ^ 64" using unsigned_less [of p] by simp
  ultimately have "k < 2 ^ 52 - 1" using k by simp
  then have u: "unat (p + 4096) = 4096 * k + 4096" using k by (simp add: unat_word_ariths)
  have "a AND NOT (mask 12) = p \<longleftrightarrow> unat a div 4096 = k"
    by (simp add: word_unat_eq_iff unat_and_not_mask k)
  moreover have "p \<le> a \<and> a < p + 4096 \<longleftrightarrow> 4096 * k \<le> unat a \<and> unat a < 4096 * k + 4096"
    by (simp add: word_le_nat_alt word_less_nat_alt u k)
  moreover have "4096 * k \<le> unat a \<and> unat a < 4096 * k + 4096 \<longleftrightarrow> unat a div 4096 = k"
    by (auto simp: div_nat_eqI)
  ultimately show ?thesis by simp
qed

text \<open>
  The section of a page whose half words are \<open>pg p\<close>, and what is asked of \<^verbatim>\<open>objdump\<close>: it adds the
  section of the page it is run on.
\<close>

definition page_section :: "(ADDRESS \<Rightarrow> u16 list) \<Rightarrow> ADDRESS \<Rightarrow> Section" where
  "page_section pg p = \<lparr>startAddr = p, endAddr = p + 4096, vmaOffset = 0, code = pg p\<rparr>"

definition dumps_pages :: "objdump \<Rightarrow> (ADDRESS \<Rightarrow> u16 list) \<Rightarrow> bool" where
  "dumps_pages od pg \<longleftrightarrow>
     (\<forall>p sl. \<exists>sl'. od p sl = (DQERR_OK, sl') \<and> set sl' = insert (page_section pg p) (set sl))"

definition page_of :: "ADDRESS \<Rightarrow> ADDRESS" where
  "page_of a = a AND NOT (mask 12)"

text \<open>The last page is not reachable: its end is the address 0.\<close>

definition k_inv :: "(ADDRESS \<Rightarrow> u16 list) \<Rightarrow> KMem \<Rightarrow> bool" where
  "k_inv pg k \<longleftrightarrow> (\<forall>sp \<in> set (k_sectionLst k). \<exists>p. p AND mask 12 = 0 \<and> p \<noteq> NOT (mask 12) \<and> sp = page_section pg p) \<and>
     (\<forall>sp. cachedSection k = Some sp \<longrightarrow> sp \<in> set (k_sectionLst k))"

fun kmem_fetches :: "objdump \<Rightarrow> ADDRESS list \<Rightarrow> KMem \<Rightarrow> u32 outcome list" where
  "kmem_fetches od [] k = []"
| "kmem_fetches od (a # as) k = (let (r, k1) = KMem_getInstructionByAddress od a k in r # kmem_fetches od as k1)"

lemma page_section_covers:
  assumes "p AND mask 12 = 0" and "p \<noteq> NOT (mask 12)"
  shows "k_covers a (page_section pg p) \<longleftrightarrow> page_of a = p"
  using page_covers [OF assms, of a] by (simp add: k_covers_def page_section_def page_of_def)

lemma page_of_aligned: "page_of a AND mask 12 = 0"
  by (rule bit_word_eqI) (auto simp: page_of_def bit_and_iff bit_not_iff)

lemma k_inv_covers:
  "k_inv pg k \<Longrightarrow> sp \<in> set (k_sectionLst k) \<Longrightarrow> k_covers a sp \<Longrightarrow> sp = page_section pg (page_of a)"
  by (auto simp: k_inv_def page_section_covers)

lemma find_page:
  assumes "k_inv pg k"
  shows "find (k_covers a) (k_sectionLst k) =
    (if page_section pg (page_of a) \<in> set (k_sectionLst k) then Some (page_section pg (page_of a)) else None)"
proof (cases "find (k_covers a) (k_sectionLst k)")
  case None
  then have n: "\<forall>sp \<in> set (k_sectionLst k). \<not> k_covers a sp" by (auto simp: find_None_iff)
  have "page_section pg (page_of a) \<notin> set (k_sectionLst k)"
  proof
    assume m: "page_section pg (page_of a) \<in> set (k_sectionLst k)"
    then obtain p where p: "p AND mask 12 = 0" "p \<noteq> NOT (mask 12)" "page_section pg (page_of a) = page_section pg p"
      using assms unfolding k_inv_def by blast
    then have "p = page_of a" by (simp add: page_section_def)
    with p(1,2) have "k_covers a (page_section pg (page_of a))" by (simp add: page_section_covers)
    with n m show False by blast
  qed
  with None show ?thesis by simp
next
  case (Some sp)
  then have "sp \<in> set (k_sectionLst k)" "k_covers a sp" by (auto simp: find_Some_iff)
  with Some show ?thesis using k_inv_covers [OF assms] by auto
qed

lemma findSection_page:
  assumes "k_inv pg k"
  shows "fst (findSection a k) =
      (if page_section pg (page_of a) \<in> set (k_sectionLst k) then Some (page_section pg (page_of a)) else None)"
    and "k_inv pg (snd (findSection a k))" and "k_sectionLst (snd (findSection a k)) = k_sectionLst k"
proof -
  have c: "sp = page_section pg (page_of a) \<and> sp \<in> set (k_sectionLst k)" if "cachedSection k = Some sp" "k_covers a sp" for sp
    using that assms k_inv_covers [OF assms, of sp a] by (auto simp: k_inv_def)
  show "fst (findSection a k) =
      (if page_section pg (page_of a) \<in> set (k_sectionLst k) then Some (page_section pg (page_of a)) else None)"
    using c by (auto simp: findSection_def find_page [OF assms] split: option.split)
  show "k_inv pg (snd (findSection a k))"
    using assms by (auto simp: findSection_def find_page [OF assms] k_inv_def split: option.split)
  show "k_sectionLst (snd (findSection a k)) = k_sectionLst k"
    by (auto simp: findSection_def split: option.split)
qed

lemma kmem_fetch:
  assumes "dumps_pages od pg" and "k_inv pg k" and "page_of a \<noteq> NOT (mask 12)"
  shows "fst (KMem_getInstructionByAddress od a k) = k_fetch (page_section pg (page_of a)) a"
    and "k_inv pg (snd (KMem_getInstructionByAddress od a k))"
proof -
  let ?S = "page_section pg (page_of a)"
  obtain r k1 where f: "findSection a k = (r, k1)" by fastforce
  have k1: "k_inv pg k1" "k_sectionLst k1 = k_sectionLst k" "r = (if ?S \<in> set (k_sectionLst k) then Some ?S else None)"
    using findSection_page [OF assms(2), of a] f by auto
  obtain sl where sl: "od (page_of a) (k_sectionLst k1) = (DQERR_OK, sl)" "set sl = insert ?S (set (k_sectionLst k1))"
    using assms(1) unfolding dumps_pages_def by blast
  let ?k2 = "k1\<lparr>k_sectionLst := sl\<rparr>"
  have k2: "k_inv pg ?k2"
    using k1(1) sl(2) assms(3) page_of_aligned [of a] unfolding k_inv_def by auto
  obtain r3 k3 where f3: "findSection a ?k2 = (r3, k3)" by fastforce
  have k3: "k_inv pg k3" "r3 = Some ?S"
    using findSection_page [OF k2, of a] f3 sl(2) by auto
  have "\<exists>k'. KMem_getInstructionByAddress od a k = (k_fetch ?S a, k') \<and> k_inv pg k'"
    using f f3 k1 k3 sl(1)
    by (auto simp: KMem_getInstructionByAddress_def find_or_dump_def page_of_def)
  then show "fst (KMem_getInstructionByAddress od a k) = k_fetch ?S a"
    and "k_inv pg (snd (KMem_getInstructionByAddress od a k))" by auto
qed

lemma kmem_fetches_pages:
  "dumps_pages od pg \<Longrightarrow> k_inv pg k \<Longrightarrow> \<forall>a \<in> set as. page_of a \<noteq> NOT (mask 12) \<Longrightarrow>
   kmem_fetches od as k = map (\<lambda>a. k_fetch (page_section pg (page_of a)) a) as"
proof (induction as arbitrary: k)
  case Nil
  then show ?case by simp
next
  case (Cons a as)
  then show ?case
    using kmem_fetch [of od pg k a] by (simp add: split_def)
qed

section \<open>Properties\<close>

text \<open>
  C20. Fetching finds the program that was loaded: for a program of 16- and 32-bit instructions laid
  out in a code section at any address and with any load offset, the ELF reader returns at the
  address of each instruction exactly that instruction, whatever other sections there are, with no
  access outside the code array. The section must not wrap around the address space and no
  earlier section of the list may cover the address.
\<close>

theorem elf_fetch_program:
  assumes "k < length is" and "inst_ok (is ! k)"
    and "unat (start + vma) + 2 * length (program_code is) < 2 ^ 64" and "length (program_code is) < 2 ^ 30"
    and "codeSectionLst elf = pre @ program_section start vma is # post"
    and "getSectionByAddress pre (program_addr (start + vma) is k) = None"
  shows "ElfReader_getInstructionByAddress elf (program_addr (start + vma) is k) = Inr (is ! k)"
  using assms by (rule fetch_program)

theorem elf_fetch_program_witness:
  "ElfReader_getInstructionByAddress
     \<lparr>elf_archSize = 32, elf_bitsPerAddress = 32, codeSectionLst = [program_section 0x1000 0x40000 [0x1, 0x008000ef, 0x9002]]\<rparr>
     0x41002 = Inr 0x008000ef"
  using elf_fetch_program [of 1 "[0x1, 0x008000ef, 0x9002]" "0x1000" "0x40000"
      "\<lparr>elf_archSize = 32, elf_bitsPerAddress = 32, codeSectionLst = [program_section 0x1000 0x40000 [0x1, 0x008000ef, 0x9002]]\<rparr>" "[]" "[]"]
  by (simp add: inst_ok_def program_code_def halves_def program_addr_def)



text \<open>
  C30. The page cache of kernel memory cannot be observed: when \<^verbatim>\<open>objdump\<close> adds the section of the page
  it is run on, any sequence of fetches, with the pages loaded on demand and the last section kept,
  returns for each address what a fetch from its page returns. The last page of the address space
  is left out: its end address wraps to 0 and no address is found in it.
\<close>

theorem kmem_fetch_stateless:
  assumes "dumps_pages od pg" and "\<forall>a \<in> set as. page_of a \<noteq> NOT (mask 12)"
  shows "kmem_fetches od as (KMem_new start) = map (\<lambda>a. k_fetch (page_section pg (page_of a)) a) as"
  by (rule kmem_fetches_pages) (use assms in \<open>simp_all add: k_inv_def KMem_new_def\<close>)

theorem kmem_fetch_stateless_witness:
  "kmem_fetches (\<lambda>p sl. (DQERR_OK, page_section (\<lambda>_. replicate 2049 1) p # sl))
     [0xffffffff80000004, 0xffffffff80001002, 0xffffffff80000004] (KMem_new 0xffffffff80000000) = [Inr 1, Inr 1, Inr 1]"
proof -
  have "k_fetch (page_section (\<lambda>_. replicate 2049 1) 0xffffffff80000000) 0xffffffff80000004 = Inr 1"
    "k_fetch (page_section (\<lambda>_. replicate 2049 1) 0xffffffff80001000) 0xffffffff80001002 = Inr 1"
    by code_simp+
  moreover have "page_of 0xffffffff80000004 = 0xffffffff80000000" "page_of 0xffffffff80001002 = 0xffffffff80001000"
    "NOT (mask 12) = (0xfffffffffffff000 :: u64)"
    by code_simp+
  ultimately show ?thesis
    using kmem_fetch_stateless [of "\<lambda>p sl. (DQERR_OK, page_section (\<lambda>_. replicate 2049 1) p # sl)" "\<lambda>_. replicate 2049 1"
        "[0xffffffff80000004, 0xffffffff80001002, 0xffffffff80000004]" "0xffffffff80000000"]
    by (simp add: dumps_pages_def)
qed

end
