(* ===== verification/Trace_State.thy ===== *)
theory Trace_State
  imports Analytics Code_Memory
begin

text \<open>
  The state of \<^verbatim>\<open>class Trace\<close> (include/dqr.hpp) and its helpers that reconstruct times and addresses
  (src/trace.cpp): \<^verbatim>\<open>processTS\<close>, \<^verbatim>\<open>computeAddress\<close>, \<^verbatim>\<open>signExtendAddr\<close>, \<^verbatim>\<open>getInstructionByAddress\<close>,
  \<^verbatim>\<open>getCRBRFlags\<close>, the two \<^verbatim>\<open>nextAddr\<close> and \<^verbatim>\<open>nextCAAddr\<close>.

  The per-core arrays are functions of the core number. An ELF reader or disassembler pointer is
  an option; following a null pointer is undefined behaviour. \<open>Env\<close> holds what the code reaches
  outside the modelled classes: what \<^verbatim>\<open>objdump\<close> returns for a page, whether the converter object
  of a process can be created, what the performance converter answers to the calls made to it so
  far, and what uninitialised local variables hold. The calls that only write converted traces
  to files are collected in the field \<open>events\<close>.
\<close>

section \<open>State\<close>

record process =
  proc_pid :: int
  has_elfName :: bool
  elfReader :: "ElfReader option"
  disassembler :: "Disassembler option"
  has_eventConverter :: bool
  has_ctf :: bool
  has_perfConverter :: bool

datatype state =
    TRACE_STATE_SYNCCATE
  | TRACE_STATE_GETFIRSTSYNCMSG
  | TRACE_STATE_RETIREMESSAGE
  | TRACE_STATE_GETNEXTMSG
  | TRACE_STATE_GETNEXTINSTRUCTION
  | TRACE_STATE_DONE
  | TRACE_STATE_ERROR

text \<open>
  What the converters are told: process index, core, time, pid and the arguments of the call.
\<close>

datatype Event =
    emitExtTrigEvent nat u8 TIMESTAMP int u8 ADDRESS ADDRESS
  | emitWatchpoint nat u8 TIMESTAMP int u8 ADDRESS ADDRESS
  | emitCallRet nat u8 TIMESTAMP int u8 ADDRESS ADDRESS crflags
  | emitException nat u8 TIMESTAMP int u8 ADDRESS ADDRESS
  | emitInterrupt nat u8 TIMESTAMP int u8 ADDRESS ADDRESS
  | emitContext nat u8 TIMESTAMP int u8 ADDRESS u32 u8
  | emitPeriodic nat u8 TIMESTAMP int u8 ADDRESS
  | emitControl nat u8 TIMESTAMP int u8 ADDRESS ADDRESS
  | addCall nat u8 ADDRESS ADDRESS TIMESTAMP
  | addRet nat u8 ADDRESS ADDRESS TIMESTAMP
  | processITCPerf nat u8 TIMESTAMP u32 u32

record Env =
  objdump_page :: objdump
  evc_status :: "nat \<Rightarrow> DQErr"
  perf_answer :: "Event list \<Rightarrow> DQErr \<times> bool"
  locals :: Decoded

record Trace =
  tr_status :: DQErr
  tolerateErrors :: bool
  tolerantError :: bool
  traceType :: TraceType
  linuxTrace :: bool
  processes :: "process list"
  pidList :: "int list"
  kMem :: "KMem option"
  tr_currentAddress :: "nat \<Rightarrow> ADDRESS"
  lastFaddr :: "nat \<Rightarrow> ADDRESS"
  lastTime :: "nat \<Rightarrow> TIMESTAMP"
  counts :: Count
  tr_state :: "nat \<Rightarrow> state"
  readNewTraceMessage :: bool
  currentCore :: nat
  eventConvert :: bool
  prevMsgWasSync :: "nat \<Rightarrow> bool"
  currentPid :: "nat \<Rightarrow> int"
  currentPrv :: "nat \<Rightarrow> u8"
  currentProcessIndex :: "nat \<Rightarrow> int"
  currentDisassembler :: "nat \<Rightarrow> Disassembler option"
  currentElfReader :: "nat \<Rightarrow> ElfReader option"
  enterISR :: "nat \<Rightarrow> crflags"
  eventFilterMask :: u32
  tsSize :: int
  bitsPerAddress :: int
  tr_analytics :: Analytics
  tr_nm :: NexusMessage
  events :: "Event list"

section \<open>Settings\<close>

definition setTraceType :: "TraceType \<Rightarrow> Trace \<Rightarrow> DQErr \<times> Trace" where
  "setTraceType tType t =
     (if tType \<in> {TRACETYPE_BTM, TRACETYPE_HTM, TRACETYPE_HTMNOOPT, TRACETYPE_EVENT, TRACETYPE_PATH}
      then (DQERR_OK, t\<lparr>traceType := tType\<rparr>) else (DQERR_ERR, t))"

definition setTSSize :: "int \<Rightarrow> Trace \<Rightarrow> DQErr \<times> Trace" where
  "setTSSize sz t = (DQERR_OK, t\<lparr>tsSize := sz\<rparr>)"

definition elf_of :: "ElfReader option \<Rightarrow> ElfReader outcome" where
  "elf_of p = (case p of None \<Rightarrow> Inl UB | Some e \<Rightarrow> Inr e)"

definition proc_lookup :: "int \<Rightarrow> Trace \<Rightarrow> (ElfReader \<Rightarrow> int) \<Rightarrow> int outcome" where
  "proc_lookup pd t f =
     (case processes t of
        [] \<Rightarrow> Inr 0
      | p0 # ps \<Rightarrow>
          if pd = -1 then map_sum id f (elf_of (elfReader p0))
          else (case find (\<lambda>p. proc_pid p = pd) (p0 # ps) of
                  None \<Rightarrow> Inr 0 | Some p \<Rightarrow> map_sum id f (elf_of (elfReader p))))"

definition getArchSize :: "int \<Rightarrow> Trace \<Rightarrow> int outcome" where
  "getArchSize pd t = proc_lookup pd t elf_archSize"

definition getAddressSize :: "int \<Rightarrow> Trace \<Rightarrow> int outcome" where
  "getAddressSize pd t = proc_lookup pd t elf_bitsPerAddress"

section \<open>Timestamps\<close>

text \<open>\<^verbatim>\<open>((TIMESTAMP)1) << n\<close>: undefined when the width is negative or at least 64.\<close>

definition shl1 :: "int \<Rightarrow> u64 outcome" where
  "shl1 n = (if n < 0 \<or> n \<ge> 64 then Inl UB else Inr (push_bit (nat n) 1))"

definition processTS :: "int \<Rightarrow> tsType \<Rightarrow> TIMESTAMP \<Rightarrow> TIMESTAMP \<Rightarrow> TIMESTAMP outcome" where
  "processTS sz tstype lastTs newTs =
     (let first = (if tstype = TS_full then map_sum id (\<lambda>w. newTs + (lastTs AND NOT (w - 1))) (shl1 sz)
                   else if lastTs \<noteq> 0 then Inr (lastTs XOR newTs)
                   else Inr 0)
      in case first of
           Inl e \<Rightarrow> Inl e
         | Inr ts \<Rightarrow> if ts < lastTs then map_sum id (\<lambda>w. ts + w) (shl1 sz) else Inr ts)"

section \<open>Addresses\<close>

definition computeAddress :: "Trace \<Rightarrow> ADDRESS \<times> Trace" where
  "computeAddress t =
     (let core = currentCore t; nm = tr_nm t; old = tr_currentAddress t core;
          new = (case tcode nm of
              TCODE_INDIRECT_BRANCH \<Rightarrow> old XOR push_bit 1 (indirectBranch_u_addr nm)
            | TCODE_SYNC \<Rightarrow> push_bit 1 (sync_f_addr nm)
            | TCODE_DIRECT_BRANCH_WS \<Rightarrow> push_bit 1 (directBranchWS_f_addr nm)
            | TCODE_INDIRECT_BRANCH_WS \<Rightarrow> push_bit 1 (indirectBranchWS_f_addr nm)
            | TCODE_INDIRECTBRANCHHISTORY \<Rightarrow> old XOR push_bit 1 (indirectHistory_u_addr nm)
            | TCODE_INDIRECTBRANCHHISTORY_WS \<Rightarrow> push_bit 1 (indirectHistoryWS_f_addr nm)
            | _ \<Rightarrow> old)
      in (new, t\<lparr>tr_currentAddress := (tr_currentAddress t)(core := new)\<rparr>))"

definition signExtendAddr :: "int \<Rightarrow> ADDRESS \<Rightarrow> ADDRESS outcome" where
  "signExtendAddr sz addr =
     (if sz - 1 < 0 \<or> sz - 1 \<ge> 64 then Inl UB
      else if addr AND push_bit (nat (sz - 1)) 1 \<noteq> 0 then Inr (addr OR push_bit (nat (sz - 1)) (-1))
      else Inr addr)"

section \<open>Instructions\<close>

definition getInstructionByAddress :: "Env \<Rightarrow> ADDRESS \<Rightarrow> Trace \<Rightarrow> u32 outcome \<times> Trace" where
  "getInstructionByAddress E addr t =
     (let from_elf = (case currentElfReader t (currentCore t) of
            None \<Rightarrow> (Inl UB, t)
          | Some elf \<Rightarrow> (ElfReader_getInstructionByAddress elf addr, t)) in
      case kMem t of
        None \<Rightarrow> from_elf
      | Some k \<Rightarrow>
          if addr \<ge> kStart k then
            (let (r, k1) = KMem_getInstructionByAddress (objdump_page E) addr k in (r, t\<lparr>kMem := Some k1\<rparr>))
          else from_elf)"

definition Trace_decodeInstruction :: "Env \<Rightarrow> u32 \<Rightarrow> Trace \<Rightarrow> (nat \<times> Decoded) outcome" where
  "Trace_decodeInstruction E inst t =
     (if currentDisassembler t (currentCore t) = None then Inl UB
      else case getArchSize (-1) t of
        Inl e \<Rightarrow> Inl e
      | Inr archSize \<Rightarrow> Inr (decodeInstruction inst archSize (locals E)))"

text \<open>
  Fetch and decode: both stages of an operation that decodes one instruction. The result is the
  instruction and its decoding, or which of the two stages failed.
\<close>

datatype fetched = Fetched u32 Decoded | Fetch_failed DQErr | Decode_failed

definition fetch :: "Env \<Rightarrow> ADDRESS \<Rightarrow> Trace \<Rightarrow> (fetched \<times> Trace) outcome" where
  "fetch E addr t =
     (case getInstructionByAddress E addr t of
        (Inl UB, t1) \<Rightarrow> Inl UB
      | (Inl (Rc e), t1) \<Rightarrow> Inr (Fetch_failed e, t1)
      | (Inr inst, t1) \<Rightarrow>
          (case Trace_decodeInstruction E inst t1 of
             Inl e \<Rightarrow> Inl e
           | Inr (rc, d) \<Rightarrow> Inr (if rc \<noteq> 0 then Decode_failed else Fetched inst d, t1)))"

definition is_link :: "Reg \<Rightarrow> bool" where
  "is_link r \<longleftrightarrow> r = REG 1 \<or> r = REG 5"

definition cond_branch :: "InstType \<Rightarrow> bool" where
  "cond_branch ty \<longleftrightarrow> ty \<in> {INST_BEQ, INST_BNE, INST_BLT, INST_BGE, INST_BLTU, INST_BGEU, INST_C_BEQZ, INST_C_BNEZ}"

text \<open>Call, swap or return of a \<^verbatim>\<open>jalr\<close>, by its registers.\<close>

definition jalr_flag :: "Decoded \<Rightarrow> crflags" where
  "jalr_flag d =
     (if is_link (rd d) then
        (if \<not> is_link (rs1 d) then isCall else if rd d \<noteq> rs1 d then isSwap else isCall)
      else if is_link (rs1 d) then isReturn else isNone)"

definition cr_br_of :: "Decoded \<Rightarrow> crflags \<times> BranchFlags" where
  "cr_br_of d = (case inst_type d of
      INST_JALR \<Rightarrow> (jalr_flag d, BRFLAG_none)
    | INST_JAL \<Rightarrow> (if is_link (rd d) then isCall else isNone, BRFLAG_none)
    | INST_C_JAL \<Rightarrow> (if is_link (rd d) then isCall else isNone, BRFLAG_none)
    | INST_C_JR \<Rightarrow> (if is_link (rs1 d) then isReturn else isNone, BRFLAG_none)
    | INST_EBREAK \<Rightarrow> (isException, BRFLAG_none)
    | INST_ECALL \<Rightarrow> (isException, BRFLAG_none)
    | INST_MRET \<Rightarrow> (isExceptionReturn, BRFLAG_none)
    | INST_SRET \<Rightarrow> (isExceptionReturn, BRFLAG_none)
    | INST_URET \<Rightarrow> (isExceptionReturn, BRFLAG_none)
    | _ \<Rightarrow> (isNone, if cond_branch (inst_type d) then BRFLAG_taken else BRFLAG_none))"

definition getCRBRFlags ::
  "Env \<Rightarrow> ICTReason \<Rightarrow> ADDRESS \<Rightarrow> Trace \<Rightarrow> (DQErr \<times> crflags \<times> BranchFlags \<times> Trace) outcome" where
  "getCRBRFlags E cksrc addr t = (case cksrc of
      ICT_CONTROL \<Rightarrow> Inr (DQERR_OK, isNone, BRFLAG_none, t)
    | ICT_EXT_TRIG \<Rightarrow> Inr (DQERR_OK, isNone, BRFLAG_none, t)
    | ICT_WATCHPOINT \<Rightarrow> Inr (DQERR_OK, isNone, BRFLAG_none, t)
    | ICT_PC_SAMPLE \<Rightarrow> Inr (DQERR_OK, isNone, BRFLAG_none, t)
    | ICT_INFERABLECALL \<Rightarrow> (case fetch E addr t of
          Inl e \<Rightarrow> Inl e
        | Inr (Fetch_failed e, t1) \<Rightarrow> Inr (e, isNone, BRFLAG_none, t1\<lparr>tr_status := e\<rparr>)
        | Inr (Decode_failed, t1) \<Rightarrow> Inr (DQERR_ERR, isNone, BRFLAG_none, t1\<lparr>tr_status := DQERR_ERR\<rparr>)
        | Inr (Fetched inst d, t1) \<Rightarrow> (let (cr, br) = cr_br_of d in Inr (DQERR_OK, cr, br, t1)))
    | ICT_EXCEPTION \<Rightarrow> Inr (DQERR_OK, isException, BRFLAG_none, t)
    | ICT_INTERRUPT \<Rightarrow> Inr (DQERR_OK, isInterrupt, BRFLAG_none, t)
    | ICT_CONTEXT \<Rightarrow> Inr (DQERR_OK, isSwap, BRFLAG_none, t)
    | _ \<Rightarrow> Inr (DQERR_ERR, isNone, BRFLAG_none, t\<lparr>tr_status := DQERR_ERR\<rparr>))"

text \<open>
  The three-argument \<^verbatim>\<open>nextAddr\<close>: target and kind of a call or return. \<open>None\<close> is the default case of
  the switch, an instruction that is neither. On an error the callers do not look at the target
  and the flags.
\<close>

definition call_target :: "ADDRESS \<Rightarrow> Decoded \<Rightarrow> (ADDRESS \<times> crflags) option" where
  "call_target addr d = (case inst_type d of
      INST_JALR \<Rightarrow> Some (0, jalr_flag d)
    | INST_JAL \<Rightarrow> Some (addr + word_of_int (immediate d), if is_link (rd d) then isCall else isNone)
    | INST_C_JAL \<Rightarrow> Some (addr + word_of_int (immediate d), if is_link (rd d) then isCall else isNone)
    | INST_C_JR \<Rightarrow> Some (0, if is_link (rs1 d) then isReturn else isNone)
    | INST_C_JALR \<Rightarrow> Some (0, if rs1 d = REG 5 then isSwap else isCall)
    | INST_EBREAK \<Rightarrow> Some (0, isException)
    | INST_ECALL \<Rightarrow> Some (0, isException)
    | INST_MRET \<Rightarrow> Some (0, isExceptionReturn)
    | INST_SRET \<Rightarrow> Some (0, isExceptionReturn)
    | INST_URET \<Rightarrow> Some (0, isExceptionReturn)
    | _ \<Rightarrow> None)"

definition nextAddr_call :: "Env \<Rightarrow> ADDRESS \<Rightarrow> Trace \<Rightarrow> (DQErr \<times> ADDRESS \<times> crflags \<times> Trace) outcome" where
  "nextAddr_call E addr t = (case fetch E addr t of
      Inl e \<Rightarrow> Inl e
    | Inr (Fetch_failed e, t1) \<Rightarrow> Inr (e, 0, isNone, t1\<lparr>tr_status := e\<rparr>)
    | Inr (Decode_failed, t1) \<Rightarrow> Inr (DQERR_ERR, 0, isNone, t1\<lparr>tr_status := DQERR_ERR\<rparr>)
    | Inr (Fetched inst d, t1) \<Rightarrow> (case call_target addr d of
          None \<Rightarrow> Inr (DQERR_ERR, 0, isNone, t1\<lparr>tr_status := DQERR_ERR\<rparr>)
        | Some (next, cr) \<Rightarrow> Inr (DQERR_OK, next, cr, t1)))"

section \<open>Reconstructed times\<close>

lemma shl1_width: "w < 64 \<Longrightarrow> shl1 (int w) = Inr (2 ^ w)"
  by (simp add: shl1_def push_bit_eq_mult)

text \<open>A time put together from the high part of the last one and the low part of the new one.\<close>

definition splice :: "nat \<Rightarrow> TIMESTAMP \<Rightarrow> TIMESTAMP \<Rightarrow> TIMESTAMP" where
  "splice w t t' = (t' AND mask w) + (t AND NOT (mask w))"

lemma xor_splice: "t XOR ((t XOR t') AND mask w) = splice w t t'"
proof -
  have "splice w t t' = (t' AND mask w) OR (t AND NOT (mask w))"
    unfolding splice_def by (rule disjunctive_add) (auto simp: bit_and_iff bit_not_iff)
  then show ?thesis
    by (auto intro!: bit_word_eqI simp: bit_and_iff bit_or_iff bit_xor_iff bit_not_iff)
qed

lemma splice_wrap:
  assumes "w < 64" and "t \<le> t'" and "unat t' < unat t + 2 ^ w"
  shows "(if splice w t t' < t then splice w t t' + 2 ^ w else splice w t t') = t'"
proof -
  define a b W where "a = unat t" and "b = unat t'" and "W = (2 :: nat) ^ w"
  have W: "0 < W" by (simp add: W_def)
  have ab: "a \<le> b" "b < a + W" using assms(2,3) by (simp_all add: a_def b_def W_def word_le_nat_alt)
  have b64: "b < 2 ^ 64" unfolding b_def using unsigned_less [of t'] by simp
  have q: "b div W = a div W \<or> b div W = a div W + 1"
  proof -
    have "a div W \<le> b div W" using ab(1) by (rule div_le_mono)
    moreover have "b div W \<le> (a + W) div W" using ab(2) by (intro div_le_mono) simp
    moreover have "(a + W) div W = a div W + 1" using W by (intro div_add_self2) simp
    ultimately show ?thesis by linarith
  qed
  have s: "a div W * W + b mod W = (if b div W = a div W then b else b - W)"
  proof (cases "b div W = a div W")
    case True
    then show ?thesis by (metis div_mult_mod_eq)
  next
    case False
    then have "b div W = a div W + 1" using q by simp
    then have "b = (a div W + 1) * W + b mod W" by (metis div_mult_mod_eq)
    then have "a div W * W + b mod W = b - W" unfolding distrib_right by linarith
    with False show ?thesis by simp
  qed
  then have l: "b mod W + a div W * W < 2 ^ 64" using b64 by (auto split: if_splits)
  have "unat (splice w t t') = (b mod W + a div W * W) mod 2 ^ 64"
    by (simp add: splice_def unat_word_ariths(1) unat_and_mask unat_and_not_mask a_def b_def W_def)
  also have "\<dots> = a div W * W + b mod W" unfolding mod_less [OF l] by (rule add.commute)
  finally have u: "unat (splice w t t') = (if b div W = a div W then b else b - W)" using s by simp
  show ?thesis
  proof (cases "b div W = a div W")
    case True
    then have e: "splice w t t' = t'" using u by (simp add: word_unat_eq_iff b_def)
    moreover have "\<not> t' < t" using assms(2) by (simp add: not_less)
    ultimately show ?thesis by simp
  next
    case False
    then have "unat (splice w t t') = b - W" using u by simp
    moreover have le: "W \<le> b" using False q W by (metis add_gr_0 div_greater_zero_iff zero_less_one)
    ultimately have "splice w t t' < t" using ab by (simp add: word_less_nat_alt a_def)
    moreover have "splice w t t' + 2 ^ w = t'"
    proof -
      have "unat (word_of_nat (2 ^ w) :: u64) = W"
        using assms(1) unfolding W_def by (simp only: unsigned_of_nat of_nat_id) simp
      then have "unat (2 ^ w :: u64) = W" by simp
      then show ?thesis using le b64 \<open>unat (splice w t t') = b - W\<close>
        by (simp add: word_unat_eq_iff unat_word_ariths b_def)
    qed
    ultimately show ?thesis by simp
  qed
qed

section \<open>Reconstructed addresses\<close>

text \<open>Virtual addresses: even, and from bit \<open>b\<close> on a copy of bit \<open>b\<close>.\<close>

definition canonical :: "nat \<Rightarrow> ADDRESS \<Rightarrow> bool" where
  "canonical b a \<longleftrightarrow> \<not> bit a 0 \<and> (\<forall>i < 64. b \<le> i \<longrightarrow> bit a i = bit a b)"

lemma canonical_xor: "canonical b a \<Longrightarrow> canonical b a' \<Longrightarrow> canonical b (a XOR a')"
  unfolding canonical_def bit_xor_iff by metis

lemma signExtendAddr_canonical:
  assumes "0 < b" and "b \<le> 64" and "canonical b a"
  shows "map_sum id (push_bit 1) (signExtendAddr (int b) (take_bit b (drop_bit 1 a))) = Inr a"
proof -
  let ?x = "take_bit b (drop_bit 1 a)"
  have n: "nat (int b - 1) = b - 1" by simp
  have c: "?x AND push_bit (b - 1) 1 \<noteq> 0 \<longleftrightarrow> bit a b"
    using and_exp_eq_0_iff_not_bit [of ?x "b - 1"] assms(1)
    by (simp add: push_bit_eq_mult bit_take_bit_iff bit_drop_bit_eq)
  have h: "bit a (Suc i) = bit a b" if "Suc i < 64" "b \<le> Suc i" for i
    using assms(3) that unfolding canonical_def by blast
  have "push_bit 1 (if bit a b then ?x OR push_bit (b - 1) (-1) else ?x) = a"
  proof (rule bit_word_eqI)
    fix j :: nat
    assume j: "j < LENGTH(64)"
    show "bit (push_bit 1 (if bit a b then ?x OR push_bit (b - 1) (-1) else ?x)) j = bit a j"
    proof (cases j)
      case 0
      then show ?thesis using assms(3) unfolding canonical_def bit_push_bit_iff by simp
    next
      case (Suc i)
      show ?thesis
      proof (cases "Suc i < b")
        case True
        then show ?thesis using Suc j unfolding bit_push_bit_iff
          by (auto simp: bit_push_bit_iff bit_or_iff bit_take_bit_iff bit_drop_bit_eq bit_not_iff bit_mask_iff)
      next
        case False
        then have "bit a (Suc i) = bit a b" using h [of i] Suc j by simp
        moreover have "i < b \<Longrightarrow> Suc i = b" using False by simp
        ultimately show ?thesis using Suc j False assms(1) unfolding bit_push_bit_iff
          by (cases "bit a b") (auto simp: bit_push_bit_iff bit_or_iff bit_take_bit_iff bit_drop_bit_eq bit_not_iff bit_mask_iff)
      qed
    qed
  qed
  moreover have "signExtendAddr (int b) ?x = Inr (if bit a b then ?x OR push_bit (b - 1) (-1) else ?x)"
  proof -
    have "\<not> (int b - 1 < 0 \<or> int b - 1 \<ge> 64)" using assms(1,2) by simp
    then show ?thesis unfolding signExtendAddr_def n c by (cases "bit a b") (simp_all only: if_False if_True)
  qed
  ultimately show ?thesis by (simp only: map_sum.simps)
qed

section \<open>Properties\<close>

text \<open>
  C17. Timestamps are reconstructed exactly. Let the counter of the trace hardware have \<open>w\<close> bits, let
  \<open>t\<close> be the time of the last message and \<open>t'\<close> the time of the next, less than one turn of the
  counter later. From the full timestamp, the counter value itself, and from the relative one,
  the exclusive or of the two counter values, \<^verbatim>\<open>processTS\<close> returns \<open>t'\<close>, also when the counter wraps in
  between; a relative timestamp before any full one leaves the time at 0.
\<close>

theorem processTS_tracks:
  assumes "w < 64" and "t \<le> t'" and "unat t' < unat t + 2 ^ w"
  shows "processTS (int w) TS_full t (t' AND mask w) = Inr t' \<and>
    processTS (int w) TS_rel t ((t XOR t') AND mask w) = Inr (if t = 0 then 0 else t')"
proof -
  have m: "2 ^ w - 1 = (mask w :: u64)" by (simp add: mask_eq_exp_minus_1)
  have f: "processTS (int w) TS_full t (t' AND mask w) =
      Inr (if splice w t t' < t then splice w t t' + 2 ^ w else splice w t t')"
    by (simp add: processTS_def shl1_width [OF assms(1)] m splice_def)
  have r: "t \<noteq> 0 \<Longrightarrow> processTS (int w) TS_rel t ((t XOR t') AND mask w) =
      Inr (if splice w t t' < t then splice w t t' + 2 ^ w else splice w t t')"
    by (simp add: processTS_def shl1_width [OF assms(1)] xor_splice)
  have z: "processTS (int w) TS_rel 0 x = Inr 0" for x by (simp add: processTS_def)
  show ?thesis using f r z unfolding splice_wrap [OF assms] by auto
qed

theorem processTS_tracks_witness:
  "processTS 8 TS_full 0x1fe (0x203 AND mask 8) = Inr 0x203 \<and>
   processTS 8 TS_rel 0x1fe ((0x1fe XOR 0x203) AND mask 8) = Inr 0x203"
  using processTS_tracks [of 8 "0x1fe" "0x203"] by simp

text \<open>
  C31. Virtual addresses are reconstructed exactly. Messages carry the low \<^verbatim>\<open>bitsPerAddress\<close> bits of half
  an address, or of half the exclusive or of two addresses. For canonical even addresses, those
  whose high bits repeat their sign, sign extension followed by the shift of the decoder gives
  the address of a synchronising message, and for an indirect branch the exclusive or with the
  last address gives the new one.
\<close>

theorem virtual_addresses_restored:
  assumes "0 < b" and "b \<le> 64" and "canonical b a" and "canonical b a'"
  shows "map_sum id (push_bit 1) (signExtendAddr (int b) (take_bit b (drop_bit 1 a))) = Inr a \<and>
    map_sum id (\<lambda>u. a XOR push_bit 1 u) (signExtendAddr (int b) (take_bit b (drop_bit 1 (a XOR a')))) = Inr a'"
proof -
  note f = signExtendAddr_canonical [OF assms(1,2)]
  obtain u where u: "signExtendAddr (int b) (take_bit b (drop_bit 1 (a XOR a'))) = Inr u" "push_bit 1 u = a XOR a'"
    using f [OF canonical_xor [OF assms(3,4)]]
    by (cases "signExtendAddr (int b) (take_bit b (drop_bit 1 (a XOR a')))") auto
  have "a XOR (a XOR a') = a'" by (simp add: xor.assoc [symmetric])
  then show ?thesis using f [OF assms(3)] u by simp
qed

theorem virtual_addresses_restored_witness:
  "map_sum id (\<lambda>u. 0xffffffc080001000 XOR push_bit 1 u)
     (signExtendAddr 39 (take_bit 39 (drop_bit 1 (0xffffffc080001000 XOR 0x10004)))) = Inr 0x10004"
proof -
  have "\<forall>i \<in> set [0..<64]. 39 \<le> i \<longrightarrow> bit (0x10004 :: u64) i = bit (0x10004 :: u64) 39"
    "\<forall>i \<in> set [0..<64]. 39 \<le> i \<longrightarrow> bit (0xffffffc080001000 :: u64) i = bit (0xffffffc080001000 :: u64) 39"
    by code_simp+
  then have "canonical 39 0x10004" "canonical 39 0xffffffc080001000"
    unfolding canonical_def by simp_all
  then show ?thesis
    using virtual_addresses_restored [of 39 "0xffffffc080001000" "0x10004"] by simp
qed

end
