(* ===== verification/Trace_Next.thy ===== *)
theory Trace_Next
  imports Trace_State
begin

text \<open>
  Running one instruction (src/trace.cpp): \<^verbatim>\<open>Trace::nextAddr\<close> finds the address that follows an
  instruction from its decoding, the return stack and the branch counts, and consumes the counts;
  \<^verbatim>\<open>Trace::nextCAAddr\<close> is the simpler variant that synchronises with a cycle accurate trace.

  \<^verbatim>\<open>consumeICnt(core,0)\<close> reads the instruction count without changing it. The record \<open>Next\<close> holds the
  reference parameters of \<^verbatim>\<open>nextAddr\<close>.
\<close>

section \<open>The next address\<close>

record Next =
  nx_pc :: ADDRESS
  crFlag :: crflags
  brFlag :: BranchFlags

text \<open>\<^verbatim>\<open>addr + inst_size/8\<close> and \<^verbatim>\<open>addr + immediate\<close>.\<close>

definition after :: "ADDRESS \<Rightarrow> Decoded \<Rightarrow> ADDRESS" where
  "after addr d = addr + word_of_int (inst_size d div 8)"

definition target :: "ADDRESS \<Rightarrow> Decoded \<Rightarrow> ADDRESS" where
  "target addr d = addr + word_of_int (immediate d)"

definition icnt_left :: "nat \<Rightarrow> Trace \<Rightarrow> int" where
  "icnt_left core t = fst (consumeICnt core 0 (counts t))"

definition push_addr :: "nat \<Rightarrow> ADDRESS \<Rightarrow> Trace \<Rightarrow> Trace" where
  "push_addr core a t = t\<lparr>counts := snd (Count_push core a (counts t))\<rparr>"

definition pop_addr :: "nat \<Rightarrow> Trace \<Rightarrow> ADDRESS \<times> Trace" where
  "pop_addr core t = (let (a, c) = Count_pop core (counts t) in (a, t\<lparr>counts := c\<rparr>))"

text \<open>The stack operations of a \<^verbatim>\<open>jalr\<close>; the flag it sets is \<open>jalr_flag\<close>.\<close>

definition jalr_stack :: "nat \<Rightarrow> ADDRESS \<Rightarrow> Decoded \<Rightarrow> Trace \<Rightarrow> ADDRESS \<times> Trace" where
  "jalr_stack core addr d t =
     (if is_link (rd d) then
        (if \<not> is_link (rs1 d) then (-1, push_addr core (after addr d) t)
         else if rd d \<noteq> rs1 d then
           (let (pc, t1) = pop_addr core t in (pc, push_addr core (after addr d) t1))
         else (-1, push_addr core (after addr d) t))
      else if is_link (rs1 d) then pop_addr core t
      else (-1, t))"

text \<open>
  The end of the three cases of indirect jumps: with flags in \<open>flags\<close> and counts left a branch trace
  turns out to be a history trace; then the address is kept, or dropped, by the trace type.
\<close>

definition indirect_type :: "crflags \<Rightarrow> nat \<Rightarrow> crflags \<Rightarrow> Decoded \<Rightarrow> Trace \<Rightarrow> Trace" where
  "indirect_type flags core cr d t =
     (if traceType t = TRACETYPE_BTM \<and> cr AND flags \<noteq> 0 \<and> icnt_left core t > inst_size d div 16
      then t\<lparr>traceType := TRACETYPE_HTM\<rparr> else t)"

definition indirect_pc :: "nat \<Rightarrow> ADDRESS \<Rightarrow> ADDRESS \<Rightarrow> Decoded \<Rightarrow> Trace \<Rightarrow> ADDRESS" where
  "indirect_pc core addr pc d t =
     (if traceType t = TRACETYPE_HTMNOOPT then -1
      else if traceType t = TRACETYPE_BTM then
        (if icnt_left core t > inst_size d div 16 then after addr d else -1)
      else pc)"

definition indirect :: "crflags \<Rightarrow> nat \<Rightarrow> ADDRESS \<Rightarrow> crflags \<Rightarrow> Decoded \<Rightarrow> ADDRESS \<times> Trace \<Rightarrow> Next \<times> Trace" where
  "indirect flags core addr cr d r =
     (let t1 = indirect_type flags core cr d (snd r) in
      (\<lparr>nx_pc = indirect_pc core addr (fst r) d t1, crFlag = cr, brFlag = BRFLAG_none\<rparr>, t1))"

text \<open>
  A conditional branch with no history, taken or not-taken count: only the full address of an
  indirect history message that ends at this instruction tells where it went.
\<close>

definition branch_by_faddr :: "nat \<Rightarrow> ADDRESS \<Rightarrow> Decoded \<Rightarrow> NexusMessage \<Rightarrow> Trace \<Rightarrow> ADDRESS \<times> BranchFlags" where
  "branch_by_faddr core addr d nm t =
     (if icnt_left core t = inst_size d div 16 \<and> tcode nm = TCODE_INDIRECTBRANCHHISTORY_WS then
        (if target addr d = after addr d then (after addr d, BRFLAG_notTaken)
         else let nxtAddr = push_bit 1 (indirectHistoryWS_f_addr nm) in
           if nxtAddr = target addr d then (nxtAddr, BRFLAG_taken)
           else if nxtAddr = after addr d then (nxtAddr, BRFLAG_notTaken)
           else (nxtAddr, BRFLAG_unknown))
      else (-1, BRFLAG_unknown))"

definition follow :: "ADDRESS \<Rightarrow> Decoded \<Rightarrow> bool \<Rightarrow> ADDRESS \<times> BranchFlags" where
  "follow addr d taken = (if taken then (target addr d, BRFLAG_taken) else (after addr d, BRFLAG_notTaken))"

text \<open>
  The conditional branches. The return code is an error or the address and flag; the code sets the
  status on some of the errors only.
\<close>

definition branch_htm ::
  "nat \<Rightarrow> ADDRESS \<Rightarrow> Decoded \<Rightarrow> NexusMessage \<Rightarrow> Trace \<Rightarrow> ((DQErr + ADDRESS \<times> BranchFlags) \<times> Trace) outcome" where
  "branch_htm core addr d nm t = (case getCurrentCountType core (counts t) of
      COUNTTYPE_none \<Rightarrow> Inr (Inl DQERR_ERR, t)
    | COUNTTYPE_i_cnt \<Rightarrow> Inr (Inr (branch_by_faddr core addr d nm t), t)
    | COUNTTYPE_history \<Rightarrow> (case consumeHistory core False (counts t) of
          Inl e \<Rightarrow> Inl e
        | Inr (rc, isTaken, c) \<Rightarrow>
            (let t1 = t\<lparr>counts := c\<rparr> in
             Inr (if rc \<noteq> 0 then (Inl DQERR_ERR, t1\<lparr>tr_status := DQERR_ERR\<rparr>) else (Inr (follow addr d isTaken), t1))))
    | COUNTTYPE_taken \<Rightarrow>
        (let (rc, c) = consumeTakenCount core (counts t); t1 = t\<lparr>counts := c\<rparr> in
         Inr (if rc \<noteq> 0 then (Inl DQERR_ERR, t1\<lparr>tr_status := DQERR_ERR\<rparr>) else (Inr (follow addr d True), t1)))
    | COUNTTYPE_notTaken \<Rightarrow>
        (let (rc, c) = consumeNotTakenCount core (counts t); t1 = t\<lparr>counts := c\<rparr> in
         Inr (if rc \<noteq> 0 then (Inl DQERR_ERR, t1\<lparr>tr_status := DQERR_ERR\<rparr>) else (Inr (follow addr d False), t1))))"

definition branch_btm :: "nat \<Rightarrow> ADDRESS \<Rightarrow> Decoded \<Rightarrow> NexusMessage \<Rightarrow> Trace \<Rightarrow> ADDRESS \<times> BranchFlags" where
  "branch_btm core addr d nm t =
     (if icnt_left core t > inst_size d div 16 then follow addr d False
      else follow addr d (tcode nm = TCODE_DIRECT_BRANCH \<or> tcode nm = TCODE_DIRECT_BRANCH_WS))"

definition branch ::
  "nat \<Rightarrow> ADDRESS \<Rightarrow> Decoded \<Rightarrow> NexusMessage \<Rightarrow> Trace \<Rightarrow> ((DQErr + ADDRESS \<times> BranchFlags) \<times> Trace) outcome" where
  "branch core addr d nm t =
     (if traceType t \<in> {TRACETYPE_HTM, TRACETYPE_HTMNOOPT, TRACETYPE_EVENT} then branch_htm core addr d nm t
      else if traceType t = TRACETYPE_BTM then Inr (Inr (branch_btm core addr d nm t), t)
      else Inr (Inl DQERR_ERR, t))"

text \<open>The switch on the kind of instruction.\<close>

definition next_switch ::
  "nat \<Rightarrow> ADDRESS \<Rightarrow> Decoded \<Rightarrow> NexusMessage \<Rightarrow> Next \<Rightarrow> Trace \<Rightarrow> (DQErr \<times> Next \<times> Trace) outcome" where
  "next_switch core addr d nm nx t =
     (let go = (\<lambda>pc cr t. Inr (DQERR_OK, \<lparr>nx_pc = pc, crFlag = cr, brFlag = BRFLAG_none\<rparr>, t));
          go2 = (\<lambda>(nx, t). Inr (DQERR_OK, nx, t)) in
      if cond_branch (inst_type d) then
        (case branch core addr d nm t of
           Inl e \<Rightarrow> Inl e
         | Inr (Inl rc, t1) \<Rightarrow> Inr (rc, nx\<lparr>crFlag := isNone, brFlag := BRFLAG_none\<rparr>, t1)
         | Inr (Inr (pc, br), t1) \<Rightarrow> Inr (DQERR_OK, \<lparr>nx_pc = pc, crFlag = isNone, brFlag = br\<rparr>, t1))
      else case inst_type d of
        INST_JAL \<Rightarrow>
          (if is_link (rd d) then go (target addr d) isCall (push_addr core (after addr d) t)
           else go (target addr d) isNone t)
      | INST_JALR \<Rightarrow> go2 (indirect (isReturn OR isSwap) core addr (jalr_flag d) d (jalr_stack core addr d t))
      | INST_C_J \<Rightarrow> go (target addr d) isNone t
      | INST_C_JAL \<Rightarrow>
          (if is_link (rd d) then go (target addr d) isCall (push_addr core (after addr d) t)
           else go (target addr d) isNone t)
      | INST_C_JR \<Rightarrow>
          (if is_link (rs1 d) then go2 (indirect isReturn core addr isReturn d (pop_addr core t))
           else go2 (indirect isReturn core addr isNone d (-1, t)))
      | INST_C_JALR \<Rightarrow>
          (if rs1 d = REG 5 then
             (let (pc, t1) = pop_addr core t in
              go2 (indirect isSwap core addr isSwap d (pc, push_addr core (after addr d) t1)))
           else go2 (indirect isSwap core addr isCall d (-1, push_addr core (after addr d) t)))
      | INST_EBREAK \<Rightarrow> go (-1) isException t
      | INST_ECALL \<Rightarrow> go (-1) isException t
      | INST_MRET \<Rightarrow> go (-1) isExceptionReturn t
      | INST_SRET \<Rightarrow> go (-1) isExceptionReturn t
      | INST_URET \<Rightarrow> go (-1) isExceptionReturn t
      | _ \<Rightarrow> go (after addr d) isNone t)"

text \<open>The instruction count is consumed unless the branch is to be tried again.\<close>

definition consume_size :: "nat \<Rightarrow> Decoded \<Rightarrow> Trace \<Rightarrow> Trace" where
  "consume_size core d t = t\<lparr>counts := snd (consumeICnt core (inst_size d div 16) (counts t))\<rparr>"

definition nextAddr ::
  "Env \<Rightarrow> nat \<Rightarrow> ADDRESS \<Rightarrow> NexusMessage \<Rightarrow> Next \<Rightarrow> Trace \<Rightarrow> (DQErr \<times> Next \<times> Trace) outcome" where
  "nextAddr E core addr nm nx t = (case fetch E addr t of
      Inl e \<Rightarrow> Inl e
    | Inr (Fetch_failed e, t1) \<Rightarrow> Inr (e, nx, t1\<lparr>tr_status := e\<rparr>)
    | Inr (Decode_failed, t1) \<Rightarrow>
        Inr (DQERR_ERR, nx\<lparr>crFlag := isNone, brFlag := BRFLAG_none\<rparr>, t1\<lparr>tr_status := DQERR_ERR\<rparr>)
    | Inr (Fetched inst d, t1) \<Rightarrow>
        (case next_switch core addr d nm nx (t1\<lparr>tr_status := DQERR_OK\<rparr>) of
           Inl e \<Rightarrow> Inl e
         | Inr (rc, nx1, t2) \<Rightarrow>
             if rc \<noteq> DQERR_OK then Inr (rc, nx1, t2)
             else Inr (DQERR_OK, nx1, if brFlag nx1 \<noteq> BRFLAG_unknown then consume_size core d t2 else t2)))"

section \<open>Synchronising with a cycle accurate trace\<close>

text \<open>The next address and the saved return address; -1 is no address.\<close>

definition ca_switch :: "ADDRESS \<Rightarrow> ADDRESS \<Rightarrow> Decoded \<Rightarrow> ADDRESS \<times> ADDRESS" where
  "ca_switch addr saved d = (case inst_type d of
      INST_JAL \<Rightarrow> (target addr d, if is_link (rd d) then after addr d else saved)
    | INST_JALR \<Rightarrow>
        (if is_link (rd d) then
           (if \<not> is_link (rs1 d) then (-1, after addr d)
            else if rd d \<noteq> rs1 d then (saved, -1)
            else (-1, after addr d))
         else if is_link (rs1 d) then (saved, -1)
         else (-1, saved))
    | INST_C_J \<Rightarrow> (target addr d, saved)
    | INST_C_JAL \<Rightarrow> (target addr d, if is_link (rd d) then after addr d else saved)
    | INST_C_JR \<Rightarrow> (if is_link (rs1 d) then (saved, -1) else (-1, saved))
    | INST_C_JALR \<Rightarrow> (if rs1 d = REG 5 then (saved, addr) else (-1, after addr d))
    | INST_EBREAK \<Rightarrow> (-1, saved)
    | INST_ECALL \<Rightarrow> (-1, saved)
    | INST_MRET \<Rightarrow> (-1, saved)
    | INST_SRET \<Rightarrow> (-1, saved)
    | INST_URET \<Rightarrow> (-1, saved)
    | _ \<Rightarrow> if cond_branch (inst_type d) then (if after addr d = target addr d then (target addr d, saved) else (-1, saved))
           else (after addr d, saved))"

definition nextCAAddr :: "Env \<Rightarrow> ADDRESS \<Rightarrow> ADDRESS \<Rightarrow> Trace \<Rightarrow> (DQErr \<times> ADDRESS \<times> ADDRESS \<times> Trace) outcome" where
  "nextCAAddr E addr saved t = (case currentElfReader t (currentCore t) of
      None \<Rightarrow> Inl UB
    | Some elf \<Rightarrow> (case ElfReader_getInstructionByAddress elf addr of
          Inl UB \<Rightarrow> Inl UB
        | Inl (Rc e) \<Rightarrow> Inr (e, addr, saved, t\<lparr>tr_status := e\<rparr>)
        | Inr inst \<Rightarrow> (case Trace_decodeInstruction E inst t of
              Inl e \<Rightarrow> Inl e
            | Inr (rc, d) \<Rightarrow>
                if rc \<noteq> 0 then Inr (DQERR_ERR, addr, saved, t\<lparr>tr_status := DQERR_ERR\<rparr>)
                else (let (a, s) = ca_switch addr saved d in
                      Inr (if a = -1 then DQERR_ERR else DQERR_OK, a, s, t\<lparr>tr_status := DQERR_OK\<rparr>)))))"

end
