(* ===== verification/Trace_Path.thy ===== *)
theory Trace_Path
  imports Trace_Next
begin

text \<open>
  What \<^verbatim>\<open>nextAddr\<close> is for: following the program along the path the processor took. The path is given
  by a small machine, a step relation on an address and a stack of return addresses, whose
  labels are the outcomes of the conditional branches. The decoder is run beside it with the
  counts of one message, and shown to visit the same addresses.
\<close>

section \<open>The machine\<close>

text \<open>Instructions that do not change the flow, direct jumps, returns and swaps, and the rest.\<close>

definition plain :: "Decoded \<Rightarrow> bool" where
  "plain d \<longleftrightarrow> \<not> cond_branch (inst_type d) \<and>
     inst_type d \<notin> {INST_JAL, INST_JALR, INST_C_J, INST_C_JAL, INST_C_JR, INST_C_JALR,
       INST_EBREAK, INST_ECALL, INST_MRET, INST_SRET, INST_URET}"

definition direct_jump :: "Decoded \<Rightarrow> bool" where
  "direct_jump d \<longleftrightarrow> inst_type d \<in> {INST_JAL, INST_C_J, INST_C_JAL}"

definition direct_call :: "Decoded \<Rightarrow> bool" where
  "direct_call d \<longleftrightarrow> inst_type d \<in> {INST_JAL, INST_C_JAL} \<and> is_link (rd d)"

definition is_return :: "Decoded \<Rightarrow> bool" where
  "is_return d \<longleftrightarrow> inst_type d = INST_JALR \<and> \<not> is_link (rd d) \<and> is_link (rs1 d) \<or>
     inst_type d = INST_C_JR \<and> is_link (rs1 d)"

definition is_coswap :: "Decoded \<Rightarrow> bool" where
  "is_coswap d \<longleftrightarrow> inst_type d = INST_JALR \<and> is_link (rd d) \<and> is_link (rs1 d) \<and> rd d \<noteq> rs1 d \<or>
     inst_type d = INST_C_JALR \<and> rs1 d = REG 5"

text \<open>Where the processor goes cannot be told from the program: the trace must say.\<close>

definition indirect_call :: "Decoded \<Rightarrow> bool" where
  "indirect_call d \<longleftrightarrow> inst_type d = INST_JALR \<and> is_link (rd d) \<and> \<not> is_coswap d \<or>
     inst_type d = INST_C_JALR \<and> rs1 d \<noteq> REG 5"

definition uninferable :: "Decoded \<Rightarrow> bool" where
  "uninferable d \<longleftrightarrow> indirect_call d \<or> inst_type d = INST_JALR \<and> \<not> is_link (rd d) \<and> \<not> is_link (rs1 d) \<or>
     inst_type d = INST_C_JR \<and> \<not> is_link (rs1 d) \<or>
     inst_type d \<in> {INST_EBREAK, INST_ECALL, INST_MRET, INST_SRET, INST_URET}"

lemmas flow_defs = plain_def direct_jump_def direct_call_def is_return_def is_coswap_def
  indirect_call_def uninferable_def

inductive mstep ::
  "(ADDRESS \<Rightarrow> Decoded) \<Rightarrow> nat \<Rightarrow> ADDRESS \<times> ADDRESS list \<Rightarrow> bool list \<Rightarrow> ADDRESS \<times> ADDRESS list \<Rightarrow> bool"
  for prog cap where
  seq: "plain (prog a) \<Longrightarrow> mstep prog cap (a, s) [] (after a (prog a), s)"
| br: "cond_branch (inst_type (prog a)) \<Longrightarrow> mstep prog cap (a, s) [b] (fst (follow a (prog a) b), s)"
| jump: "direct_jump (prog a) \<Longrightarrow> \<not> direct_call (prog a) \<Longrightarrow> mstep prog cap (a, s) [] (target a (prog a), s)"
| call: "direct_call (prog a) \<Longrightarrow> length s < cap \<Longrightarrow>
    mstep prog cap (a, s) [] (target a (prog a), after a (prog a) # s)"
| ret: "is_return (prog a) \<Longrightarrow> mstep prog cap (a, r # s) [] (r, s)"
| swap: "is_coswap (prog a) \<Longrightarrow> mstep prog cap (a, r # s) [] (r, after a (prog a) # s)"

text \<open>A run: the addresses visited, the outcomes of its branches and its length in half words.\<close>

inductive mrun ::
  "(ADDRESS \<Rightarrow> Decoded) \<Rightarrow> nat \<Rightarrow> ADDRESS \<times> ADDRESS list \<Rightarrow> ADDRESS list \<Rightarrow> bool list \<Rightarrow> int \<Rightarrow>
     ADDRESS \<times> ADDRESS list \<Rightarrow> bool"
  for prog cap where
  stop: "mrun prog cap s [] [] 0 s"
| step: "mstep prog cap (a, stk) l s1 \<Longrightarrow> mrun prog cap s1 as bs n s2 \<Longrightarrow>
    mrun prog cap (a, stk) (a # as) (l @ bs) (inst_size (prog a) div 16 + n) s2"

section \<open>The decoder beside it\<close>

text \<open>Iterating \<^verbatim>\<open>nextAddr\<close>: the addresses visited, the last next address and the state.\<close>

fun walk :: "Env \<Rightarrow> nat \<Rightarrow> NexusMessage \<Rightarrow> nat \<Rightarrow> ADDRESS \<Rightarrow> Trace \<Rightarrow> (ADDRESS list \<times> ADDRESS \<times> Trace) outcome" where
  "walk E core nm 0 a t = Inr ([], a, t)"
| "walk E core nm (Suc n) a t =
     (case nextAddr E core a nm \<lparr>nx_pc = 0, crFlag = isNone, brFlag = BRFLAG_none\<rparr> t of
        Inl e \<Rightarrow> Inl e
      | Inr (rc, nx, t1) \<Rightarrow>
          if rc \<noteq> DQERR_OK then Inl (Rc rc)
          else (case walk E core nm n (nx_pc nx) t1 of
                  Inl e \<Rightarrow> Inl e | Inr (as, a', t2) \<Rightarrow> Inr (a # as, a', t2)))"

text \<open>The core has a disassembler, and the ELF file the decoder reads holds an instruction that decodes to \<open>prog x\<close> at \<open>x\<close>.\<close>

definition holds_code :: "Env \<Rightarrow> Trace \<Rightarrow> (ADDRESS \<Rightarrow> Decoded) \<Rightarrow> ADDRESS \<Rightarrow> bool" where
  "holds_code E t prog x \<longleftrightarrow> kMem t = None \<and> currentDisassembler t (currentCore t) \<noteq> None \<and>
     (case currentElfReader t (currentCore t) of
        None \<Rightarrow> False
      | Some elf \<Rightarrow> (case (getArchSize (-1) t, ElfReader_getInstructionByAddress elf x) of
          (Inr arch, Inr inst) \<Rightarrow> decodeInstruction inst arch (locals E) = (0, prog x)
        | _ \<Rightarrow> False))"

text \<open>
  The counts of a core while a message is followed: \<open>k\<close> half words and the low \<open>n\<close> bits of the
  history are left, and the return stack holds \<open>stk\<close>.
\<close>

definition following :: "nat \<Rightarrow> int \<Rightarrow> u64 \<Rightarrow> nat \<Rightarrow> nat \<Rightarrow> ADDRESS list \<Rightarrow> Count \<Rightarrow> bool" where
  "following core k h n cap stk c \<longleftrightarrow>
     i_cnt c core = k \<and> history c core = h \<and> histBit c core = int n - 1 \<and>
     takenCount c core = 0 \<and> notTakenCount c core = 0 \<and>
     AddrStack_inv (stack c core) \<and> AddrStack_items (stack c core) = stk \<and> stackSize (stack c core) = cap"

lemma decode_sizes:
  assumes "decodeInstruction inst arch d = (0, d')"
  shows "inst_size d' = 16 \<or> inst_size d' = 32"
proof -
  have a: "arch = 32 \<or> arch = 64" using assms by (auto simp: decodeInstruction_def split: if_splits)
  show ?thesis
  proof (cases "inst AND 3 = 3")
    case False
    then show ?thesis using decode_compressed_ok [OF a False, of d] assms by (simp add: decodes_to_def decoded_ok_def)
  next
    case True
    then have e: "decodeRV32Instruction inst d = (0, d')" using assms decode_long [OF a] by simp
    then have "\<not> inst AND 0x1f = 0x1f" by (auto simp: decodeRV32Instruction_def)
    from decode32_ok [OF this, of d] e show ?thesis by (auto simp: decoded_ok_def)
  qed
qed

lemma holds_code_update [simp]:
  "holds_code E (t\<lparr>counts := c\<rparr>) prog x = holds_code E t prog x"
  "holds_code E (t\<lparr>tr_status := s\<rparr>) prog x = holds_code E t prog x"
  by (cases "currentElfReader t (currentCore t)"; simp add: holds_code_def getArchSize_def proc_lookup_def)+

lemma fetch_holds:
  assumes "holds_code E t prog x"
  shows "\<exists>inst. fetch E x t = Inr (Fetched inst (prog x), t)" and "inst_size (prog x) = 16 \<or> inst_size (prog x) = 32"
proof -
  obtain elf arch inst where e: "kMem t = None" "currentElfReader t (currentCore t) = Some elf"
    "getArchSize (-1) t = Inr arch" "ElfReader_getInstructionByAddress elf x = Inr inst"
    "decodeInstruction inst arch (locals E) = (0, prog x)" "currentDisassembler t (currentCore t) \<noteq> None"
    using assms unfolding holds_code_def by (auto split: option.splits sum.splits)
  then show "\<exists>inst. fetch E x t = Inr (Fetched inst (prog x), t)"
    by (simp add: fetch_def getInstructionByAddress_def Trace_decodeInstruction_def)
  show "inst_size (prog x) = 16 \<or> inst_size (prog x) = 32" using decode_sizes [OF e(5)] .
qed

lemma nextAddr_holds:
  assumes "holds_code E t prog a"
  shows "nextAddr E core a nm nx t =
    (case next_switch core a (prog a) nm nx (t\<lparr>tr_status := DQERR_OK\<rparr>) of
       Inl e \<Rightarrow> Inl e
     | Inr (rc, nx1, t2) \<Rightarrow>
         if rc \<noteq> DQERR_OK then Inr (rc, nx1, t2)
         else Inr (DQERR_OK, nx1, if brFlag nx1 \<noteq> BRFLAG_unknown then consume_size core (prog a) t2 else t2))"
  using fetch_holds(1) [OF assms] by (auto simp: nextAddr_def)

section \<open>Counts during a run\<close>

lemma following_consume:
  assumes "following core k h n cap stk c" and "0 \<le> m" and "m \<le> k" and "k < 2 ^ 31"
  shows "following core (k - m) h n cap stk (snd (consumeICnt core m c))"
  using assms s32_id [of "k - m"] by (simp add: following_def consumeICnt_def Let_def)

lemma following_push:
  assumes "following core k h n cap stk c" and "length stk < cap"
  shows "following core k h n cap (a # stk) (snd (Count_push core a c))"
  using assms ras.push_room [of "stack c core" a] ras.invar_push [of "stack c core" a] ras.capacity_push [of "stack c core" a]
  by (simp add: following_def Count_push_def split_def)

lemma following_pop:
  assumes "following core k h n cap (r # stk) c"
  shows "fst (Count_pop core c) = r" and "following core k h n cap stk (snd (Count_pop core c))"
  using assms ras.pop_item [of "stack c core" r stk] ras.invar_pop [of "stack c core"] ras.capacity_pop [of "stack c core"]
  by (simp_all add: following_def Count_pop_def split_def)

lemma following_history:
  assumes "following core k h (Suc n) cap stk c" and "n \<le> 30"
  shows "consumeHistory core False c = Inr (0, bit h n, c\<lparr>histBit := (histBit c)(core := int n - 1)\<rparr>)"
    and "following core k h n cap stk (c\<lparr>histBit := (histBit c)(core := int n - 1)\<rparr>)"
  using assms consumeHistory_bit [of c core n False] by (simp_all add: following_def)

section \<open>One step\<close>

lemma indirect_htm:
  assumes "traceType (snd r) = TRACETYPE_HTM"
  shows "indirect flags core addr cr d r = (\<lparr>nx_pc = fst r, crFlag = cr, brFlag = BRFLAG_none\<rparr>, snd r)"
  using assms by (simp add: indirect_def indirect_type_def indirect_pc_def Let_def)

lemma follow_flag: "snd (follow a d b) \<noteq> BRFLAG_unknown"
  by (simp add: follow_def)

text \<open>What a step of the decoder must achieve: the address, and the counts with the new stack.\<close>

definition switch_ok ::
  "nat \<Rightarrow> ADDRESS \<Rightarrow> int \<Rightarrow> u64 \<Rightarrow> nat \<Rightarrow> nat \<Rightarrow> ADDRESS list \<Rightarrow> Trace \<Rightarrow> (DQErr \<times> Next \<times> Trace) outcome \<Rightarrow> bool" where
  "switch_ok core a' k h n cap stk' t r \<longleftrightarrow>
     (\<exists>nx c. r = Inr (DQERR_OK, nx, t\<lparr>counts := c\<rparr>) \<and> nx_pc nx = a' \<and> brFlag nx \<noteq> BRFLAG_unknown \<and>
        following core k h n cap stk' c)"

lemma switch_okI:
  "r = Inr (DQERR_OK, nx, t\<lparr>counts := c\<rparr>) \<Longrightarrow> nx_pc nx = a' \<Longrightarrow> brFlag nx \<noteq> BRFLAG_unknown \<Longrightarrow>
   following core k h n cap stk' c \<Longrightarrow> switch_ok core a' k h n cap stk' t r"
  unfolding switch_ok_def by blast

lemma switch_plain:
  assumes "plain d" and "following core k h n cap stk (counts t)"
  shows "switch_ok core (after a d) k h n cap stk t (next_switch core a d nm nx t)"
  by (rule switch_okI [where c = "counts t"])
    (use assms in \<open>auto simp: plain_def next_switch_def Let_def split: InstType.split\<close>)

lemma switch_jump:
  assumes "direct_jump d" and "\<not> direct_call d" and "following core k h n cap stk (counts t)"
  shows "switch_ok core (target a d) k h n cap stk t (next_switch core a d nm nx t)"
  by (rule switch_okI [where c = "counts t"])
    (use assms in \<open>auto simp: flow_defs next_switch_def Let_def cond_branch_def\<close>)

lemma switch_call:
  assumes "direct_call d" and "length stk < cap" and "following core k h n cap stk (counts t)"
  shows "switch_ok core (target a d) k h n cap (after a d # stk) t (next_switch core a d nm nx t)"
  by (rule switch_okI [where c = "snd (Count_push core (after a d) (counts t))"])
    (use assms in \<open>auto simp: flow_defs next_switch_def Let_def cond_branch_def push_addr_def following_push\<close>)

lemma switch_return:
  assumes "is_return d" and "traceType t = TRACETYPE_HTM" and "following core k h n cap (r # stk) (counts t)"
  shows "switch_ok core r k h n cap stk t (next_switch core a d nm nx t)"
  by (rule switch_okI [where c = "snd (Count_pop core (counts t))" and nx = "\<lparr>nx_pc = r, crFlag = isReturn, brFlag = BRFLAG_none\<rparr>"])
    (use assms following_pop [OF assms(3)] in \<open>auto simp: flow_defs next_switch_def Let_def cond_branch_def
        pop_addr_def split_def jalr_stack_def jalr_flag_def indirect_htm\<close>)

lemma switch_swap:
  assumes "is_coswap d" and "traceType t = TRACETYPE_HTM" and "following core k h n cap (r # stk) (counts t)"
    and "length stk < cap"
  shows "switch_ok core r k h n cap (after a d # stk) t (next_switch core a d nm nx t)"
  by (rule switch_okI [where c = "snd (Count_push core (after a d) (snd (Count_pop core (counts t))))"
        and nx = "\<lparr>nx_pc = r, crFlag = isSwap, brFlag = BRFLAG_none\<rparr>"])
    (use assms following_pop [OF assms(3)] in \<open>auto simp: flow_defs next_switch_def Let_def cond_branch_def
        pop_addr_def push_addr_def split_def jalr_stack_def jalr_flag_def indirect_htm following_push\<close>)

lemma switch_branch:
  assumes "cond_branch (inst_type d)" and "traceType t = TRACETYPE_HTM"
    and "following core k h (Suc n) cap stk (counts t)" and "n \<le> 30"
  shows "switch_ok core (fst (follow a d (bit h n))) k h n cap stk t (next_switch core a d nm nx t)"
proof (rule switch_okI)
  let ?c = "(counts t)\<lparr>histBit := (histBit (counts t))(core := int n - 1)\<rparr>"
  have "getCurrentCountType core (counts t) = COUNTTYPE_history"
    using assms(3) by (simp add: following_def getCurrentCountType_def)
  then have "branch core a d nm t = Inr (Inr (follow a d (bit h n)), t\<lparr>counts := ?c\<rparr>)"
    using assms(2) following_history(1) [OF assms(3,4)] by (simp add: branch_def branch_htm_def Let_def)
  then show "next_switch core a d nm nx t =
      Inr (DQERR_OK, \<lparr>nx_pc = fst (follow a d (bit h n)), crFlag = isNone, brFlag = snd (follow a d (bit h n))\<rparr>, t\<lparr>counts := ?c\<rparr>)"
    using assms(1) by (simp add: next_switch_def split_def)
  show "following core k h n cap stk ?c" using following_history(2) [OF assms(3,4)] .
qed (simp_all add: follow_flag)

lemma following_stack: "following core k h n cap stk c \<Longrightarrow> length stk \<le> cap"
  using ras.bounded [of "stack c core"] by (auto simp: following_def)

text \<open>A step of the machine is a step of the decoder.\<close>

lemma switch_mstep:
  assumes "mstep prog cap (a, stk) l (a', stk')" and "traceType t = TRACETYPE_HTM"
    and "following core k h (length l + n) cap stk (counts t)" and "length l + n \<le> 31"
    and "l \<noteq> [] \<Longrightarrow> l = [bit h n]"
  shows "switch_ok core a' k h n cap stk' t (next_switch core a (prog a) nm nx t)"
  using assms(1)
proof cases
  case (br b)
  then show ?thesis using assms(2-5) switch_branch [of "prog a" t core k h n cap stk a nm nx] by simp
next
  case (swap s)
  then show ?thesis
    using assms(2,3) following_stack [OF assms(3)] switch_swap [of "prog a" t core k h n cap a' s a nm nx] by simp
qed (use assms(2,3) switch_plain switch_jump switch_call switch_return in simp_all)

definition same_but_counts :: "Trace \<Rightarrow> Trace \<Rightarrow> bool" where
  "same_but_counts t t' \<longleftrightarrow> (\<exists>s c. t' = t\<lparr>tr_status := s, counts := c\<rparr>)"

lemma same_but_counts_trans: "same_but_counts t t1 \<Longrightarrow> same_but_counts t1 t2 \<Longrightarrow> same_but_counts t t2"
  unfolding same_but_counts_def by fastforce

lemma same_but_counts_refl: "same_but_counts t t"
  unfolding same_but_counts_def by (rule exI [of _ "tr_status t"], rule exI [of _ "counts t"], cases t) simp

lemma same_but_countsI: "same_but_counts t (t\<lparr>tr_status := s, counts := c\<rparr>)"
  unfolding same_but_counts_def by blast

lemma same_but_countsD:
  "same_but_counts t t' \<Longrightarrow> traceType t' = traceType t"
  "same_but_counts t t' \<Longrightarrow> holds_code E t' prog x = holds_code E t prog x"
  by (auto simp: same_but_counts_def)

lemma next_step:
  assumes "switch_ok core a' k h n cap stk' (t\<lparr>tr_status := DQERR_OK\<rparr>)
      (next_switch core a (prog a) nm nx (t\<lparr>tr_status := DQERR_OK\<rparr>))"
    and "holds_code E t prog a" and "inst_size (prog a) div 16 \<le> k" and "k < 2 ^ 31"
  shows "\<exists>nx' t'. nextAddr E core a nm nx t = Inr (DQERR_OK, nx', t') \<and> nx_pc nx' = a' \<and> same_but_counts t t' \<and>
     following core (k - inst_size (prog a) div 16) h n cap stk' (counts t')"
proof -
  obtain nx' c where s: "next_switch core a (prog a) nm nx (t\<lparr>tr_status := DQERR_OK\<rparr>) =
      Inr (DQERR_OK, nx', t\<lparr>tr_status := DQERR_OK, counts := c\<rparr>)" "nx_pc nx' = a'" "brFlag nx' \<noteq> BRFLAG_unknown"
      "following core k h n cap stk' c"
    using assms(1) unfolding switch_ok_def by auto
  have z: "0 \<le> inst_size (prog a) div 16" using fetch_holds(2) [OF assms(2)] by auto
  show ?thesis
    using s following_consume [OF s(4) z assms(3,4)]
    by (intro exI [of _ nx'] exI [of _ "t\<lparr>tr_status := DQERR_OK, counts := snd (consumeICnt core (inst_size (prog a) div 16) c)\<rparr>"])
      (simp add: nextAddr_holds [OF assms(2)] consume_size_def same_but_countsI)
qed

lemma mrun_nonneg:
  "mrun prog cap s as bs m s' \<Longrightarrow> \<forall>x \<in> set as. holds_code E t prog x \<Longrightarrow> 0 \<le> m"
proof (induction rule: mrun.induct)
  case (step a stk l s1 as bs n s2)
  then show ?case using fetch_holds(2) [of E t prog a] by auto
qed simp

lemma hist_tail:
  assumes "l @ bs = map (bit h) (rev [0..<length l + length bs])" and "length l \<le> 1"
  shows "bs = map (bit h) (rev [0..<length bs])" and "l \<noteq> [] \<Longrightarrow> l = [bit h (length bs)]"
  using assms by (cases l; simp)+

lemma mstep_label: "mstep prog cap s l s' \<Longrightarrow> length l \<le> 1"
  by (erule mstep.cases) auto

section \<open>Runs\<close>

text \<open>
  What a kind of trace must promise: a relation between the outcomes and half words still to come,
  the machine's stack and the decoder's state, that every step over an allowed instruction keeps
  while the decoder goes where the machine goes. Then runs are followed.
\<close>

abbreviation next0 :: Next where
  "next0 \<equiv> \<lparr>nx_pc = 0, crFlag = isNone, brFlag = BRFLAG_none\<rparr>"

locale path_follower =
  fixes sim :: "nat \<Rightarrow> nat \<Rightarrow> bool list \<Rightarrow> int \<Rightarrow> ADDRESS list \<Rightarrow> Trace \<Rightarrow> bool"
    and allowed :: "Decoded \<Rightarrow> bool"
  assumes follow_step: "sim core cap (l @ bs) k stk t \<Longrightarrow> mstep prog cap (a, stk) l (a', stk') \<Longrightarrow> allowed (prog a) \<Longrightarrow>
      holds_code E t prog a \<Longrightarrow> inst_size (prog a) div 16 < k \<Longrightarrow>
      \<exists>nx t'. nextAddr E core a nm next0 t = Inr (DQERR_OK, nx, t') \<and> nx_pc nx = a' \<and> same_but_counts t t' \<and>
        sim core cap bs (k - inst_size (prog a) div 16) stk' t'"
begin

lemma follow_run:
  assumes "mrun prog cap s as bs m s'"
  shows "sim core cap bs k (snd s) t \<Longrightarrow> m < k \<Longrightarrow> \<forall>x \<in> set as. allowed (prog x) \<and> holds_code E t prog x \<Longrightarrow>
    \<exists>t'. walk E core nm (length as) (fst s) t = Inr (as, fst s', t') \<and> same_but_counts t t' \<and>
      sim core cap [] (k - m) (snd s') t'"
  using assms
proof (induction arbitrary: t k rule: mrun.induct)
  case (stop s)
  then show ?case by (simp add: same_but_counts_refl)
next
  case (step a stk l s1 as bs n s2)
  obtain a1 stk1 where s1: "s1 = (a1, stk1)" by fastforce
  let ?z = "inst_size (prog a) div 16"
  have h: "allowed (prog a)" "holds_code E t prog a" "\<forall>x \<in> set as. allowed (prog x) \<and> holds_code E t prog x"
    using step.prems(3) by simp_all
  have n: "0 \<le> n" using mrun_nonneg [OF step.hyps(2), of E t] h(3) by simp
  obtain nx t' where t': "nextAddr E core a nm next0 t = Inr (DQERR_OK, nx, t')" "nx_pc nx = a1" "same_but_counts t t'"
    "sim core cap bs (k - ?z) stk1 t'"
    using follow_step [OF _ step.hyps(1) [unfolded s1] h(1,2), of core bs k nm] step.prems(1,2) n by auto
  have "\<exists>t''. walk E core nm (length as) (fst s1) t' = Inr (as, fst s2, t'') \<and> same_but_counts t' t'' \<and>
      sim core cap [] ((k - ?z) - n) (snd s2) t''"
    by (rule step.IH) (use step.prems t'(4) h(3) s1 same_but_countsD(2) [OF t'(3)] in auto)
  then obtain t'' where "walk E core nm (length as) a1 t' = Inr (as, fst s2, t'')" "same_but_counts t' t''"
    "sim core cap [] ((k - ?z) - n) (snd s2) t''" using s1 by auto
  then show ?case
    using t' same_but_counts_trans [OF t'(3)] by (intro exI [of _ t'']) (simp add: algebra_simps)
qed

end

text \<open>History traces: the outcomes to come are the low bits of the history.\<close>

definition htm_sim :: "nat \<Rightarrow> nat \<Rightarrow> bool list \<Rightarrow> int \<Rightarrow> ADDRESS list \<Rightarrow> Trace \<Rightarrow> bool" where
  "htm_sim core cap bs k stk t \<longleftrightarrow> traceType t = TRACETYPE_HTM \<and> k < 2 ^ 31 \<and> length bs \<le> 31 \<and>
     bs = map (bit (history (counts t) core)) (rev [0..<length bs]) \<and>
     following core k (history (counts t) core) (length bs) cap stk (counts t)"

lemma htm_step:
  assumes "htm_sim core cap (l @ bs) k stk t" and "mstep prog cap (a, stk) l (a', stk')"
    and "holds_code E t prog a" and "inst_size (prog a) div 16 < k"
  shows "\<exists>nx t'. nextAddr E core a nm next0 t = Inr (DQERR_OK, nx, t') \<and> nx_pc nx = a' \<and> same_but_counts t t' \<and>
     htm_sim core cap bs (k - inst_size (prog a) div 16) stk' t'"
proof -
  let ?h = "history (counts t) core" and ?z = "inst_size (prog a) div 16"
  have s: "traceType t = TRACETYPE_HTM" "k < 2 ^ 31" "length l + length bs \<le> 31"
    "l @ bs = map (bit ?h) (rev [0..<length l + length bs])"
    "following core k ?h (length l + length bs) cap stk (counts t)"
    using assms(1) by (simp_all add: htm_sim_def)
  note tl = hist_tail [OF s(4) mstep_label [OF assms(2)]]
  have z: "0 \<le> ?z" using fetch_holds(2) [OF assms(3)] by auto
  have "switch_ok core a' k ?h (length bs) cap stk' (t\<lparr>tr_status := DQERR_OK\<rparr>)
      (next_switch core a (prog a) nm next0 (t\<lparr>tr_status := DQERR_OK\<rparr>))"
    by (rule switch_mstep [OF assms(2)]) (use s tl(2) in simp_all)
  from next_step [OF this assms(3) _ s(2)] assms(4) obtain nx t' where t':
    "nextAddr E core a nm next0 t = Inr (DQERR_OK, nx, t')" "nx_pc nx = a'" "same_but_counts t t'"
    "following core (k - ?z) ?h (length bs) cap stk' (counts t')" by auto
  moreover have "history (counts t') core = ?h" using t'(4) by (simp add: following_def)
  ultimately show ?thesis
    using s tl(1) z same_but_countsD(1) [OF t'(3)] by (auto simp: htm_sim_def)
qed

interpretation htm: path_follower htm_sim "\<lambda>_. True"
  by unfold_locales (rule htm_step)

text \<open>
  Branch traces: while counts are left no conditional branch is taken, and a return is not
  followed without a message.
\<close>

definition btm_sim :: "nat \<Rightarrow> nat \<Rightarrow> bool list \<Rightarrow> int \<Rightarrow> ADDRESS list \<Rightarrow> Trace \<Rightarrow> bool" where
  "btm_sim core cap bs k stk t \<longleftrightarrow> traceType t = TRACETYPE_BTM \<and> k < 2 ^ 31 \<and> (\<forall>b \<in> set bs. \<not> b) \<and>
     following core k (history (counts t) core) 0 cap stk (counts t)"

definition btm_allowed :: "Decoded \<Rightarrow> bool" where
  "btm_allowed d \<longleftrightarrow> \<not> is_return d \<and> \<not> is_coswap d"

lemma icnt_left_following:
  "following core k h n cap stk (counts t) \<Longrightarrow> 0 \<le> k \<Longrightarrow> k < 2 ^ 31 \<Longrightarrow> icnt_left core t = k"
  using s32_id [of k] by (simp add: icnt_left_def consumeICnt_def following_def Let_def)

lemma switch_btm_branch:
  assumes "cond_branch (inst_type d)" and "traceType t = TRACETYPE_BTM"
    and "following core k h n cap stk (counts t)" and "0 \<le> k" and "k < 2 ^ 31"
    and "tk \<longleftrightarrow> k \<le> inst_size d div 16 \<and> (tcode nm = TCODE_DIRECT_BRANCH \<or> tcode nm = TCODE_DIRECT_BRANCH_WS)"
  shows "switch_ok core (fst (follow a d tk)) k h n cap stk t (next_switch core a d nm nx t)"
proof (rule switch_okI)
  have "branch core a d nm t = Inr (Inr (follow a d tk), t)"
    using assms(2,6) icnt_left_following [OF assms(3-5)] by (auto simp: branch_def branch_btm_def)
  then show "next_switch core a d nm nx t = Inr (DQERR_OK,
      \<lparr>nx_pc = fst (follow a d tk), crFlag = isNone, brFlag = snd (follow a d tk)\<rparr>, t\<lparr>counts := counts t\<rparr>)"
    using assms(1) by (simp add: next_switch_def split_def)
qed (simp_all add: follow_flag assms(3))

lemma btm_step:
  assumes "btm_sim core cap (l @ bs) k stk t" and "mstep prog cap (a, stk) l (a', stk')" and "btm_allowed (prog a)"
    and "holds_code E t prog a" and "inst_size (prog a) div 16 < k"
  shows "\<exists>nx t'. nextAddr E core a nm next0 t = Inr (DQERR_OK, nx, t') \<and> nx_pc nx = a' \<and> same_but_counts t t' \<and>
     btm_sim core cap bs (k - inst_size (prog a) div 16) stk' t'"
proof -
  let ?h = "history (counts t) core" and ?z = "inst_size (prog a) div 16" and ?t = "t\<lparr>tr_status := DQERR_OK\<rparr>"
  have s: "traceType ?t = TRACETYPE_BTM" "k < 2 ^ 31" "\<forall>b \<in> set l. \<not> b" "\<forall>b \<in> set bs. \<not> b"
    "following core k ?h 0 cap stk (counts ?t)"
    using assms(1) by (auto simp: btm_sim_def)
  have z: "0 \<le> ?z" using fetch_holds(2) [OF assms(4)] by auto
  have "switch_ok core a' k ?h 0 cap stk' ?t (next_switch core a (prog a) nm next0 ?t)"
    using assms(2)
  proof cases
    case (br b)
    then show ?thesis
      using s z assms(5) switch_btm_branch [of "prog a" ?t core k ?h 0 cap stk False nm a next0] by auto
  qed (use s assms(3) switch_plain switch_jump switch_call in \<open>simp_all add: btm_allowed_def\<close>)
  from next_step [OF this assms(4) _ s(2)] assms(5) obtain nx t' where t':
    "nextAddr E core a nm next0 t = Inr (DQERR_OK, nx, t')" "nx_pc nx = a'" "same_but_counts t t'"
    "following core (k - ?z) ?h 0 cap stk' (counts t')" by auto
  moreover have "history (counts t') core = ?h" using t'(4) by (simp add: following_def)
  ultimately show ?thesis
    using s z same_but_countsD(1) [OF t'(3)] by (auto simp: btm_sim_def)
qed

interpretation btm: path_follower btm_sim btm_allowed
  by unfold_locales (rule btm_step)

section \<open>The end of a message\<close>

definition after_jump :: "ADDRESS \<Rightarrow> Decoded \<Rightarrow> ADDRESS list \<Rightarrow> ADDRESS list" where
  "after_jump a d stk = (if indirect_call d then after a d # stk else stk)"

lemma uninferable_kinds:
  assumes "uninferable d" and "\<not> indirect_call d"
  obtains (jalr) "inst_type d = INST_JALR" "\<not> is_link (rd d)" "\<not> is_link (rs1 d)"
  | (c_jr) "inst_type d = INST_C_JR" "\<not> is_link (rs1 d)"
  | (exc) "inst_type d = INST_EBREAK \<or> inst_type d = INST_ECALL"
  | (xret) "inst_type d = INST_MRET \<or> inst_type d = INST_SRET \<or> inst_type d = INST_URET"
  using assms unfolding uninferable_def by blast

lemma indirect_call_kinds:
  assumes "indirect_call d"
  obtains (jalr) "inst_type d = INST_JALR" "is_link (rd d)" "is_link (rs1 d) \<Longrightarrow> rd d = rs1 d"
  | (c_jalr) "inst_type d = INST_C_JALR" "rs1 d \<noteq> REG 5"
  using assms unfolding indirect_call_def is_coswap_def by blast

lemma switch_indirect_call:
  assumes "indirect_call d" and "traceType t = TRACETYPE_HTM" and "following core k h n cap stk (counts t)"
    and "length stk < cap"
  shows "switch_ok core (-1) k h n cap (after a d # stk) t (next_switch core a d nm nx t)"
proof -
  let ?n = "\<lparr>nx_pc = -1, crFlag = isCall, brFlag = BRFLAG_none\<rparr>" and ?t = "push_addr core (after a d) t"
  have h: "traceType ?t = TRACETYPE_HTM" using assms(2) by (simp add: push_addr_def)
  have "next_switch core a d nm nx t = Inr (DQERR_OK, ?n, ?t)"
    using assms(1) by (cases rule: indirect_call_kinds)
      (auto simp: next_switch_def cond_branch_def jalr_stack_def jalr_flag_def indirect_htm h)
  then show ?thesis
    using following_push [OF assms(3,4), of "after a d"] unfolding push_addr_def by (intro switch_okI [where nx = ?n]) simp_all
qed

lemma switch_uninferable:
  assumes "uninferable d" and "traceType t = TRACETYPE_HTM" and "following core k h n cap stk (counts t)"
    and "indirect_call d \<Longrightarrow> length stk < cap"
  shows "switch_ok core (-1) k h n cap (after_jump a d stk) t (next_switch core a d nm nx t)"
proof (cases "indirect_call d")
  case True
  then show ?thesis using switch_indirect_call [OF True assms(2,3)] assms(4) by (simp add: after_jump_def)
next
  case False
  have "\<exists>cr. next_switch core a d nm nx t = Inr (DQERR_OK, \<lparr>nx_pc = -1, crFlag = cr, brFlag = BRFLAG_none\<rparr>, t)"
    using assms(1) False by (cases rule: uninferable_kinds)
      (auto simp: next_switch_def cond_branch_def jalr_stack_def indirect_htm assms(2))
  then show ?thesis
    using assms(3) False unfolding switch_ok_def after_jump_def by (auto intro!: exI [of _ "counts t"])
qed

text \<open>No count is pending on a core, and its return stack holds \<open>stk\<close>.\<close>

definition idle :: "nat \<Rightarrow> nat \<Rightarrow> ADDRESS list \<Rightarrow> Count \<Rightarrow> bool" where
  "idle core cap stk c \<longleftrightarrow> i_cnt c core = 0 \<and> histBit c core = -1 \<and> takenCount c core = 0 \<and> notTakenCount c core = 0 \<and>
     AddrStack_inv (stack c core) \<and> AddrStack_items (stack c core) = stk \<and> stackSize (stack c core) = cap"

lemma idle_type: "idle core cap stk c \<Longrightarrow> getCurrentCountType core c = COUNTTYPE_none"
  by (simp add: idle_def getCurrentCountType_def)

lemma following_idle: "following core 0 h 0 cap stk c \<Longrightarrow> idle core cap stk c"
  by (simp add: idle_def following_def no_branch_counts_def)

lemma setCounts_history:
  assumes "setCounts_tmp nm = Inr (k, hist_pack bs, 0, 0)" and "core = unat (coreId nm)"
    and "idle core cap stk c" and "0 \<le> k" and "k < 2 ^ 31" and "length bs < 64"
  shows "\<exists>c'. setCounts nm c = (DQERR_OK, c') \<and> following core k (hist_pack bs) (length bs) cap stk c'"
proof -
  let ?c1 = "c\<lparr>i_cnt := (i_cnt c)(core := k)\<rparr>"
  have i: "set_unless_zero (k = 0) (setICnt core k) (DQERR_OK, c) = (DQERR_OK, ?c1)"
    using assms(3-5) s32_id [of k] by (cases c) (auto simp: set_unless_zero_def setICnt_def idle_def fun_upd_idem)
  have "no_branch_counts core ?c1" using assms(3) by (simp add: idle_def no_branch_counts_def)
  note h = setHistory_pack [OF this assms(6)]
  show ?thesis
    using assms(3) h hist_pack_nonzero [OF assms(6)]
    by (simp add: setCounts_def assms(1) assms(2) [symmetric] Let_def i)
      (simp add: set_unless_zero_def following_def idle_def no_branch_counts_def)
qed

lemma walk_snoc:
  assumes "walk E core nm n a t = Inr (as, a', t')"
    and "nextAddr E core a' nm \<lparr>nx_pc = 0, crFlag = isNone, brFlag = BRFLAG_none\<rparr> t' = Inr (DQERR_OK, nx, t'')"
  shows "walk E core nm (Suc n) a t = Inr (as @ [a'], nx_pc nx, t'')"
  using assms
proof (induction n arbitrary: a t as)
  case 0
  then show ?case by simp
next
  case (Suc n)
  obtain nx1 t1 as1 where w: "nextAddr E core a nm \<lparr>nx_pc = 0, crFlag = isNone, brFlag = BRFLAG_none\<rparr> t = Inr (DQERR_OK, nx1, t1)"
    "walk E core nm n (nx_pc nx1) t1 = Inr (as1, a', t')" "as = a # as1"
    using Suc.prems(1) by (auto split: sum.splits if_splits)
  have "walk E core nm (Suc n) (nx_pc nx1) t1 = Inr (as1 @ [a'], nx_pc nx, t'')"
    by (rule Suc.IH [OF w(2) Suc.prems(2)])
  then show ?case using w(1,3) by (simp only: walk.simps(2) [of E core nm "Suc n" a t]) simp
qed

lemma setCounts_direct:
  assumes "tcode nm = TCODE_DIRECT_BRANCH" and "idle (unat (coreId nm)) cap stk c"
    and "0 \<le> directBranch_i_cnt nm" and "directBranch_i_cnt nm < 2 ^ 31"
  shows "\<exists>c'. setCounts nm c = (DQERR_OK, c') \<and>
     following (unat (coreId nm)) (directBranch_i_cnt nm) (history c' (unat (coreId nm))) 0 cap stk c'"
  using assms s32_id [of "directBranch_i_cnt nm"]
  by (simp add: setCounts_def setCounts_tmp_def set_unless_zero_def setICnt_def following_def idle_def no_branch_counts_def Let_def)

section \<open>An example\<close>

text \<open>A program of four instructions in an ELF file: a branch over a word, and a jump to a register.\<close>

definition ex_elf :: ElfReader where
  "ex_elf = \<lparr>elf_archSize = 32, elf_bitsPerAddress = 32,
     codeSectionLst = [program_section 0x1000 0 [0x00000463, 0x00000013, 0x0001, 0x8782]]\<rparr>"

definition ex_env :: Env where
  "ex_env = \<lparr>objdump_page = (\<lambda>p sl. (DQERR_ERR, sl)), evc_status = (\<lambda>_. DQERR_OK), perf_answer = (\<lambda>_. (DQERR_OK, False)),
     locals = \<lparr>inst_size = 0, inst_type = INST_UNKNOWN, rs1 = REG_unknown, rd = REG_unknown, immediate = 0, is_branch = False\<rparr>\<rparr>"

definition ex_prog :: "ADDRESS \<Rightarrow> Decoded" where
  "ex_prog x = (case ElfReader_getInstructionByAddress ex_elf x of
     Inl e \<Rightarrow> locals ex_env | Inr inst \<Rightarrow> snd (decodeInstruction inst 32 (locals ex_env)))"

definition ex_trace :: "TraceType \<Rightarrow> Trace" where
  "ex_trace ty = undefined\<lparr>traceType := ty, kMem := None, currentCore := 0,
     counts := Count_new (\<lambda>_. AddrStack_new (replicate 4 0)), currentElfReader := (\<lambda>_. Some ex_elf),
     currentDisassembler := (\<lambda>_. Some (Disassembler_new [])),
     processes := [\<lparr>proc_pid = -1, has_elfName = True, elfReader = Some ex_elf, disassembler = None,
       has_eventConverter = False, has_ctf = False, has_perfConverter = False\<rparr>]\<rparr>"

lemma ex_code:
  "ElfReader_getInstructionByAddress ex_elf 0x1000 = Inr 0x00000463"
  "ElfReader_getInstructionByAddress ex_elf 0x1008 = Inr 0x0001"
  "ElfReader_getInstructionByAddress ex_elf 0x100a = Inr 0x8782"
  by code_simp+

lemma ex_decode:
  "decodeInstruction 0x00000463 32 (locals ex_env) = (0, \<lparr>inst_size = 32, inst_type = INST_BEQ, rs1 = REG 0,
     rd = REG_unknown, immediate = 8, is_branch = True\<rparr>)"
  "decodeInstruction 0x0001 32 (locals ex_env) = (0, \<lparr>inst_size = 16, inst_type = INST_UNKNOWN, rs1 = REG_unknown,
     rd = REG_unknown, immediate = 0, is_branch = False\<rparr>)"
  "decodeInstruction 0x8782 32 (locals ex_env) = (0, \<lparr>inst_size = 16, inst_type = INST_C_JR, rs1 = REG 15,
     rd = REG 0, immediate = 0, is_branch = True\<rparr>)"
  by code_simp+

lemma ex_holds: "x \<in> {0x1000, 0x1008, 0x100a} \<Longrightarrow> holds_code ex_env (ex_trace ty) ex_prog x"
  by (auto simp: holds_code_def ex_trace_def getArchSize_def proc_lookup_def elf_of_def ex_prog_def ex_code ex_decode)
    (simp_all add: ex_elf_def ex_decode)

lemma ex_progs:
  "ex_prog 0x1000 = \<lparr>inst_size = 32, inst_type = INST_BEQ, rs1 = REG 0, rd = REG_unknown, immediate = 8, is_branch = True\<rparr>"
  "ex_prog 0x1008 = \<lparr>inst_size = 16, inst_type = INST_UNKNOWN, rs1 = REG_unknown, rd = REG_unknown, immediate = 0, is_branch = False\<rparr>"
  "ex_prog 0x100a = \<lparr>inst_size = 16, inst_type = INST_C_JR, rs1 = REG 15, rd = REG 0, immediate = 0, is_branch = True\<rparr>"
  by (simp_all add: ex_prog_def ex_code ex_decode)

lemma ex_run: "mrun ex_prog 4 (0x1000, []) [0x1000, 0x1008] [True] 3 (0x100a, [])"
proof -
  have b: "mstep ex_prog 4 (0x1000, []) [True] (0x1008, [])"
    using mstep.br [of ex_prog "0x1000" 4 "[]" True] by (simp add: ex_progs cond_branch_def follow_def target_def)
  have s: "mstep ex_prog 4 (0x1008, []) [] (0x100a, [])"
    using mstep.seq [of ex_prog "0x1008" 4 "[]"] by (simp add: ex_progs plain_def cond_branch_def after_def)
  show ?thesis
    using mrun.step [OF b mrun.step [OF s mrun.stop]] by (simp add: ex_progs)
qed
lemma ex_idle: "idle 0 4 [] (counts (ex_trace ty))"
  by (simp add: ex_trace_def idle_def no_branch_counts_def Count_new_def AddrStack_inv_new AddrStack_items_def AddrStack_new_def)
    (simp add: AddrStack_inv_def)

definition ex_history :: "bool list \<Rightarrow> int \<Rightarrow> NexusMessage" where
  "ex_history bs k = undefined\<lparr>tcode := TCODE_INDIRECTBRANCHHISTORY, coreId := 0, indirectHistory_history := hist_pack bs,
     indirectHistory_i_cnt := k\<rparr>"

definition ex_direct :: "int \<Rightarrow> NexusMessage" where
  "ex_direct k = undefined\<lparr>tcode := TCODE_DIRECT_BRANCH, coreId := 0, directBranch_i_cnt := k\<rparr>"

section \<open>Properties\<close>

text \<open>
  C1. History traces are followed along the path the processor took. Let the machine run from \<open>a\<close> with
  return stack \<open>stk\<close> through \<open>as\<close>, its conditional branches having the outcomes \<open>bs\<close> (at most 31), to an
  instruction at \<open>a'\<close> whose target only the trace knows, calls never deeper than the stack has room
  for. An indirect branch history message carries the packed outcomes and the length of the run.
  On a core with no pending counts, setting the counts from the message succeeds, and iterating
  \<^verbatim>\<open>nextAddr\<close> visits exactly these addresses, without error or undefined behaviour, ends with the
  unknown address, and leaves every count exhausted and the return stack as the machine has it.
\<close>

theorem htm_path_followed:
  assumes "mrun prog cap (a, stk) as bs m (a', stk')" and "uninferable (prog a')"
    and "indirect_call (prog a') \<longrightarrow> length stk' < cap" and "length bs \<le> 31"
    and "tcode nm = TCODE_INDIRECTBRANCHHISTORY" and "indirectHistory_history nm = hist_pack bs"
    and "indirectHistory_i_cnt nm = m + inst_size (prog a') div 16" and "indirectHistory_i_cnt nm < 2 ^ 31"
    and "traceType t = TRACETYPE_HTM" and "idle (unat (coreId nm)) cap stk (counts t)"
    and "\<forall>x \<in> set (as @ [a']). holds_code E t prog x"
  shows "\<exists>c t'. setCounts nm (counts t) = (DQERR_OK, c) \<and>
     walk E (unat (coreId nm)) nm (Suc (length as)) a (t\<lparr>counts := c\<rparr>) = Inr (as @ [a'], -1, t') \<and>
     idle (unat (coreId nm)) cap (after_jump a' (prog a') stk') (counts t') \<and>
     getCurrentCountType (unat (coreId nm)) (counts t') = COUNTTYPE_none"
proof -
  let ?core = "unat (coreId nm)" and ?z = "inst_size (prog a') div 16" and ?k = "indirectHistory_i_cnt nm" and ?h = "hist_pack bs"
  have hc: "\<forall>x \<in> set as. holds_code E t prog x" "holds_code E t prog a'" using assms(11) by simp_all
  have z: "0 < ?z" using fetch_holds(2) [OF hc(2)] by auto
  have m: "0 \<le> m" using mrun_nonneg [OF assms(1) hc(1)] .
  have "setCounts_tmp nm = Inr (?k, ?h, 0, 0)" using assms(5,6) by (simp add: setCounts_tmp_def)
  from setCounts_history [OF this refl assms(10) _ assms(8)] m z assms(4,7)
  obtain c where c: "setCounts nm (counts t) = (DQERR_OK, c)" "following ?core ?k ?h (length bs) cap stk c" by auto
  have bits: "bs = map (bit ?h) (rev [0..<length bs])" using map_bit_hist_pack [of bs] assms(4) by simp
  have "history c ?core = ?h" using c(2) by (simp add: following_def)
  then have sim: "htm_sim ?core cap bs ?k (snd (a, stk)) (t\<lparr>counts := c\<rparr>)"
    using c(2) bits assms(4,8,9) by (simp add: htm_sim_def)
  obtain t1 where w: "walk E ?core nm (length as) a (t\<lparr>counts := c\<rparr>) = Inr (as, a', t1)" "same_but_counts (t\<lparr>counts := c\<rparr>) t1"
    "htm_sim ?core cap [] (?k - m) stk' t1"
    using htm.follow_run [OF assms(1) sim, of E nm] assms(7) hc(1) z by auto
  have t1: "holds_code E t1 prog a'" using same_but_countsD(2) [OF w(2)] hc(2) by simp
  have "switch_ok ?core (-1) (?k - m) (history (counts t1) ?core) 0 cap (after_jump a' (prog a') stk') (t1\<lparr>tr_status := DQERR_OK\<rparr>)
      (next_switch ?core a' (prog a') nm next0 (t1\<lparr>tr_status := DQERR_OK\<rparr>))"
    by (rule switch_uninferable) (use assms(2,3) w(3) in \<open>simp_all add: htm_sim_def\<close>)
  from next_step [OF this t1] assms(7,8) m obtain nx' t2 where n:
    "nextAddr E ?core a' nm next0 t1 = Inr (DQERR_OK, nx', t2)" "nx_pc nx' = -1"
    "following ?core (?k - m - ?z) (history (counts t1) ?core) 0 cap (after_jump a' (prog a') stk') (counts t2)" by auto
  have "idle ?core cap (after_jump a' (prog a') stk') (counts t2)" using following_idle n(3) assms(7) by simp
  then show ?thesis using c(1) walk_snoc [OF w(1) n(1)] n(2) idle_type by fastforce
qed

theorem htm_path_followed_witness:
  "\<exists>c t'. walk ex_env 0 (ex_history [True] 4) 3 0x1000 (ex_trace TRACETYPE_HTM\<lparr>counts := c\<rparr>) =
     Inr ([0x1000, 0x1008, 0x100a], -1, t') \<and> getCurrentCountType 0 (counts t') = COUNTTYPE_none"
proof -
  have p: "uninferable (ex_prog 0x100a)" "\<not> indirect_call (ex_prog 0x100a)" "inst_size (ex_prog 0x100a) = 16"
    by (simp_all add: ex_progs flow_defs is_link_def)
  show ?thesis
    using htm_path_followed [OF ex_run p(1), of "ex_history [True] 4" "ex_trace TRACETYPE_HTM" ex_env] p ex_holds ex_idle
    by (auto simp: ex_history_def ex_trace_def numeral_3_eq_3)
qed

text \<open>
  C6. Branch traces are followed along the path the processor took. Let the machine run from \<open>a\<close>
  through \<open>as\<close> taking no conditional branch and no return, to a conditional branch at \<open>a'\<close> that is taken;
  the direct branch message carries the length of the run. On a core with no pending counts
  iterating \<^verbatim>\<open>nextAddr\<close> visits exactly these addresses, ends at the branch target, and leaves every
  count exhausted and the return stack as the machine has it.
\<close>

theorem btm_path_followed:
  assumes "mrun prog cap (a, stk) as bs m (a', stk')" and "\<forall>b \<in> set bs. \<not> b"
    and "\<forall>x \<in> set as. \<not> is_return (prog x) \<and> \<not> is_coswap (prog x)" and "cond_branch (inst_type (prog a'))"
    and "tcode nm = TCODE_DIRECT_BRANCH" and "directBranch_i_cnt nm = m + inst_size (prog a') div 16"
    and "directBranch_i_cnt nm < 2 ^ 31" and "traceType t = TRACETYPE_BTM"
    and "idle (unat (coreId nm)) cap stk (counts t)" and "\<forall>x \<in> set (as @ [a']). holds_code E t prog x"
  shows "\<exists>c t'. setCounts nm (counts t) = (DQERR_OK, c) \<and>
     walk E (unat (coreId nm)) nm (Suc (length as)) a (t\<lparr>counts := c\<rparr>) = Inr (as @ [a'], target a' (prog a'), t') \<and>
     idle (unat (coreId nm)) cap stk' (counts t') \<and>
     getCurrentCountType (unat (coreId nm)) (counts t') = COUNTTYPE_none"
proof -
  let ?core = "unat (coreId nm)" and ?z = "inst_size (prog a') div 16" and ?k = "directBranch_i_cnt nm"
  have hc: "\<forall>x \<in> set as. btm_allowed (prog x) \<and> holds_code E t prog x" "holds_code E t prog a'"
    using assms(3,10) by (simp_all add: btm_allowed_def)
  have z: "0 < ?z" using fetch_holds(2) [OF hc(2)] by auto
  have m: "0 \<le> m" using mrun_nonneg [OF assms(1)] hc(1) by blast
  obtain c where c: "setCounts nm (counts t) = (DQERR_OK, c)" "following ?core ?k (history c ?core) 0 cap stk c"
    using setCounts_direct [OF assms(5) assms(9) _ assms(7)] m z assms(6) by auto
  have sim: "btm_sim ?core cap bs ?k (snd (a, stk)) (t\<lparr>counts := c\<rparr>)"
    using c(2) assms(2,7,8) by (simp add: btm_sim_def)
  obtain t1 where w: "walk E ?core nm (length as) a (t\<lparr>counts := c\<rparr>) = Inr (as, a', t1)" "same_but_counts (t\<lparr>counts := c\<rparr>) t1"
    "btm_sim ?core cap [] (?k - m) stk' t1"
    using btm.follow_run [OF assms(1) sim, of E nm] assms(6) hc(1) z by auto
  have t1: "holds_code E t1 prog a'" using same_but_countsD(2) [OF w(2)] hc(2) by simp
  let ?t = "t1\<lparr>tr_status := DQERR_OK\<rparr>"
  have "switch_ok ?core (fst (follow a' (prog a') True)) (?k - m) (history (counts t1) ?core) 0 cap stk' ?t
      (next_switch ?core a' (prog a') nm next0 ?t)"
    by (rule switch_btm_branch) (use assms(4-7) w(3) m z in \<open>simp_all add: btm_sim_def\<close>)
  from next_step [OF this t1] assms(6,7) m obtain nx' t2 where n:
    "nextAddr E ?core a' nm next0 t1 = Inr (DQERR_OK, nx', t2)" "nx_pc nx' = target a' (prog a')"
    "following ?core (?k - m - ?z) (history (counts t1) ?core) 0 cap stk' (counts t2)" by (auto simp: follow_def)
  have "idle ?core cap stk' (counts t2)" using following_idle n(3) assms(6) by simp
  then show ?thesis using c(1) walk_snoc [OF w(1) n(1)] n(2) idle_type by fastforce
qed

theorem btm_path_followed_witness:
  "\<exists>c t'. walk ex_env 0 (ex_direct 2) 1 0x1000 (ex_trace TRACETYPE_BTM\<lparr>counts := c\<rparr>) = Inr ([0x1000], 0x1008, t')"
proof -
  have "mrun ex_prog 4 (0x1000, []) [] [] 0 (0x1000, [])" by (rule mrun.stop)
  moreover have "cond_branch (inst_type (ex_prog 0x1000))" "target 0x1000 (ex_prog 0x1000) = 0x1008" "inst_size (ex_prog 0x1000) = 32"
    by (simp_all add: ex_progs cond_branch_def target_def)
  ultimately show ?thesis
    using btm_path_followed [of ex_prog 4 "0x1000" "[]" "[]" "[]" 0 "0x1000" "[]" "ex_direct 2" "ex_trace TRACETYPE_BTM" ex_env]
      ex_holds ex_idle by (auto simp: ex_direct_def ex_trace_def)
qed

end
