(* ===== verification/Ca_Trace.thy ===== *)
theory Ca_Trace
  imports Dqr_Types
begin

text \<open>
  \<^verbatim>\<open>class CATrace\<close> (src/trace.cpp, include/dqr.hpp): the reader of cycle accurate traces. A trace is a file of
  records of 32 words. A word has 30 bits of data; the two bits above are part of the start address of
  the record. In an instruction trace each bit says whether a pipe finished an instruction, in a vector
  trace each six bits are the events of a cycle and go through a ring of items. The length of the list
  \<open>caTraceQ\<close> is \<^verbatim>\<open>traceQSize\<close>; no ring (a null pointer) is the empty list. The host is little endian.
\<close>

datatype CATraceType = CATRACE_NONE | CATRACE_INSTRUCTION | CATRACE_VECTOR

datatype CAVectorTraceFlags =
    CAVFLAG_V0 | CAVFLAG_V1 | CAVFLAG_VISTART | CAVFLAG_VIARITH | CAVFLAG_VISTORE | CAVFLAG_VILOAD

fun cav_val :: "CAVectorTraceFlags \<Rightarrow> u8" where
  "cav_val CAVFLAG_V0 = 0x20"
| "cav_val CAVFLAG_V1 = 0x10"
| "cav_val CAVFLAG_VISTART = 0x08"
| "cav_val CAVFLAG_VIARITH = 0x04"
| "cav_val CAVFLAG_VISTORE = 0x02"
| "cav_val CAVFLAG_VILOAD = 0x01"

datatype CATraceFlags =
    CAFLAG_NONE | CAFLAG_PIPE0 | CAFLAG_PIPE1 | CAFLAG_SCALER | CAFLAG_VSTART | CAFLAG_VSTORE | CAFLAG_VLOAD | CAFLAG_VARITH

fun caf_val :: "CATraceFlags \<Rightarrow> u32" where
  "caf_val CAFLAG_NONE = 0x00"
| "caf_val CAFLAG_PIPE0 = 0x01"
| "caf_val CAFLAG_PIPE1 = 0x02"
| "caf_val CAFLAG_SCALER = 0x04"
| "caf_val CAFLAG_VSTART = 0x08"
| "caf_val CAFLAG_VSTORE = 0x10"
| "caf_val CAFLAG_VLOAD = 0x20"
| "caf_val CAFLAG_VARITH = 0x40"

section \<open>Records\<close>

record CATraceRec =
  car_offset :: nat
  car_address :: ADDRESS
  car_data :: "u32 list"

definition CATraceRec_new :: "u32 list \<Rightarrow> CATraceRec" where
  "CATraceRec_new mem = \<lparr>car_offset = 0, car_address = 0, car_data = mem\<rparr>"

text \<open>
  The search for a word with data. The index is compared with \<^verbatim>\<open><=\<close>, so the search also reads the word
  behind the array; \<open>past\<close> is what it finds there.
\<close>

function vec_index :: "u32 \<Rightarrow> u32 list \<Rightarrow> nat \<Rightarrow> nat" where
  "vec_index past ds i =
     (if i \<le> length ds \<and> (if i < length ds then ds ! i else past) AND 0x3fffffff = 0 then vec_index past ds (i + 1) else i)"
  by pat_completeness auto

termination
  by (relation "measure (\<lambda>(_, ds, i). Suc (length ds) - i)") auto

declare vec_index.simps [simp del]

definition rec_consumeCAVector :: "u32 \<Rightarrow> CATraceRec \<Rightarrow> (u32 \<times> u32) option \<times> CATraceRec" where
  "rec_consumeCAVector past r =
     (let i = vec_index past (car_data r) (car_offset r) in
      if i \<ge> length (car_data r) then (None, r)
      else (Some (car_data r ! i, of_nat (i * 5)), r\<lparr>car_offset := i + 1\<rparr>))"

text \<open>The next set bit below \<open>k\<close> in a word, and in the words from \<open>di\<close> on; \<open>off\<close> moves along.\<close>

fun bit_below :: "u32 \<Rightarrow> nat \<Rightarrow> nat \<Rightarrow> nat option \<times> nat" where
  "bit_below d 0 off = (None, off)"
| "bit_below d (Suc b) off = (if bit d b then (Some b, off) else bit_below d b (off + 1))"

function next_bit :: "u32 list \<Rightarrow> nat \<Rightarrow> nat \<Rightarrow> nat \<Rightarrow> nat option \<times> nat" where
  "next_bit ds di k off =
     (case bit_below (ds ! di) k off of
        (Some b, off1) \<Rightarrow> (Some b, off1)
      | (None, off1) \<Rightarrow> if di + 1 \<ge> length ds then (None, off1) else next_bit ds (di + 1) 30 off1)"
  by pat_completeness auto

termination
  by (relation "measure (\<lambda>(ds, di, _, _). length ds - di)") auto

declare next_bit.simps [simp del]

definition rec_consumeCAInstruction :: "CATraceRec \<Rightarrow> (u32 \<times> u32) option \<times> CATraceRec" where
  "rec_consumeCAInstruction r =
     (if car_offset r \<ge> 30 * 32 then (None, r)
      else (case next_bit (car_data r) (car_offset r div 30) (30 - car_offset r mod 30) (car_offset r) of
          (None, off) \<Rightarrow> (None, r\<lparr>car_offset := off\<rparr>)
        | (Some b, off) \<Rightarrow> (Some (if odd b then caf_val CAFLAG_PIPE0 else caf_val CAFLAG_PIPE1, of_nat (off div 2)),
            r\<lparr>car_offset := off + 1\<rparr>)))"

section \<open>The trace\<close>

record CATraceQItem =
  q_cycle :: u32
  q_record :: u8
  q_qDepth :: u8
  q_arithInProcess :: u8
  q_loadInProcess :: u8
  q_storeInProcess :: u8

record CATrace =
  ca_status :: DQErr
  caType :: CATraceType
  caBufferSize :: int
  caBuffer :: "u8 list"
  caBufferIndex :: int
  blockRecNum :: int
  startAddr :: ADDRESS
  catr :: CATraceRec
  traceQOut :: nat
  traceQIn :: nat
  caTraceQ :: "CATraceQItem list"

definition read_word :: "u8 list \<Rightarrow> int \<Rightarrow> u32 outcome" where
  "read_word buf i =
     (if i < 0 \<or> i + 4 > int (length buf) then Inl UB
      else Inr (horner_sum unsigned (2 ^ 8) (take 4 (drop (nat i) buf))))"

text \<open>The search for the first record; the variable \<open>d\<close> is the word before.\<close>

function first_word :: "u8 list \<Rightarrow> int \<Rightarrow> int \<Rightarrow> u32 \<Rightarrow> (u32 option \<times> int) outcome" where
  "first_word buf sz i d =
     (case read_word buf i of
        Inl e \<Rightarrow> Inl e
      | Inr d1 \<Rightarrow>
          if i + 4 > sz - 4 then Inr (None, i + 4)
          else if drop_bit 30 d1 \<noteq> 3 \<and> drop_bit 30 d \<noteq> 0 then first_word buf sz (i + 4) d1
          else Inr (Some d1, i + 4))"
  by pat_completeness auto

termination
  by (relation "measure (\<lambda>(_, sz, i, _). nat (sz - i))") auto

declare first_word.simps [simp del]

fun read_words :: "u8 list \<Rightarrow> nat \<Rightarrow> int \<Rightarrow> u32 list outcome" where
  "read_words buf 0 i = Inr []"
| "read_words buf (Suc n) i =
     (case read_word buf i of Inl e \<Rightarrow> Inl e | Inr d \<Rightarrow> map_sum id (Cons d) (read_words buf n (i + 4)))"

fun address_bits :: "nat \<Rightarrow> u32 list \<Rightarrow> ADDRESS" where
  "address_bits i [] = 0"
| "address_bits i (d # ds) = push_bit (2 * i) (ucast (drop_bit 30 d)) OR address_bits (i + 1) ds"

definition load_rec :: "bool \<Rightarrow> u32 \<Rightarrow> u32 list \<Rightarrow> CATrace \<Rightarrow> CATrace" where
  "load_rec firstRecord d ds c =
     c\<lparr>caBufferIndex := caBufferIndex c + 4 * 31,
       blockRecNum := (if firstRecord then 0 else blockRecNum c + 1),
       catr := \<lparr>car_offset = 0, car_address = address_bits 0 ds,
         car_data = (if firstRecord then (d AND 0x3fffffff) OR 0x20000000 else d AND 0x3fffffff)
           # List.map (\<lambda>d. d AND 0x3fffffff) ds\<rparr>\<rparr>"

definition parseNextCATraceRec :: "CATrace \<Rightarrow> (DQErr \<times> CATrace) outcome" where
  "parseNextCATraceRec c =
     (if ca_status c \<noteq> DQERR_OK then Inr (ca_status c, c)
      else if caBufferIndex c > caBufferSize c - 4 then Inr (DQERR_EOF, c\<lparr>ca_status := DQERR_EOF\<rparr>)
      else let firstRecord = (caBufferIndex c = 0) in
        (case (if firstRecord then first_word (caBuffer c) (caBufferSize c) 0 0
               else map_sum id (\<lambda>d. (Some d, caBufferIndex c + 4)) (read_word (caBuffer c) (caBufferIndex c))) of
           Inl e \<Rightarrow> Inl e
         | Inr (None, i) \<Rightarrow> Inr (DQERR_EOF, c\<lparr>caBufferIndex := i, ca_status := DQERR_EOF\<rparr>)
         | Inr (Some d, i) \<Rightarrow>
             if i > caBufferSize c - 4 * 31 then Inr (DQERR_EOF, c\<lparr>caBufferIndex := i\<rparr>)
             else map_sum id (\<lambda>ds. (DQERR_OK, load_rec firstRecord d ds (c\<lparr>caBufferIndex := i\<rparr>)))
               (read_words (caBuffer c) 31 i)))"

text \<open>
  The constructor. \<open>mem\<close> is the content of the fields before, \<open>junk\<close> that of the ring, which is not
  initialised either. A file is its bytes, or \<open>None\<close> if it cannot be opened.
\<close>

definition start_rec :: "CATrace \<Rightarrow> CATrace outcome" where
  "start_rec c = map_sum id (\<lambda>(rc, c1). c1\<lparr>ca_status := rc, startAddr := car_address (catr c1)\<rparr>) (parseNextCATraceRec c)"

definition CATrace_new :: "CATrace \<Rightarrow> CATraceQItem list \<Rightarrow> (string \<Rightarrow> u8 list option) \<Rightarrow> string option \<Rightarrow> CATraceType \<Rightarrow> CATrace outcome" where
  "CATrace_new mem junk files caf_name catype =
     (let c = mem\<lparr>caBufferSize := 0, caBuffer := [], caBufferIndex := 0, blockRecNum := 0, ca_status := DQERR_OK,
          catr := CATraceRec_new (car_data (catr mem))\<rparr> in
      case caf_name of
        None \<Rightarrow> Inr (c\<lparr>ca_status := DQERR_ERR\<rparr>)
      | Some name \<Rightarrow> (case files name of
            None \<Rightarrow> Inr (c\<lparr>ca_status := DQERR_OPEN\<rparr>)
          | Some bs \<Rightarrow>
              let c1 = c\<lparr>caBufferSize := s32 (int (length bs)), caBuffer := bs, traceQOut := 0, traceQIn := 0, caType := catype\<rparr> in
              (case catype of
                 CATRACE_VECTOR \<Rightarrow> start_rec (c1\<lparr>caTraceQ := take 512 junk\<rparr>)
               | CATRACE_INSTRUCTION \<Rightarrow> start_rec (c1\<lparr>caTraceQ := []\<rparr>)
               | CATRACE_NONE \<Rightarrow> Inr (c1\<lparr>caTraceQ := [], ca_status := DQERR_ERR\<rparr>))))"

definition rewind :: "CATrace \<Rightarrow> (DQErr \<times> CATrace) outcome" where
  "rewind c = map_sum id (\<lambda>c1. (ca_status c1, c1\<lparr>traceQOut := 0, traceQIn := 0\<rparr>))
     (start_rec (c\<lparr>caBufferIndex := 0, catr := (catr c)\<lparr>car_offset := 0, car_address := 0\<rparr>\<rparr>))"

definition getCATraceStartAddr :: "CATrace \<Rightarrow> ADDRESS" where
  "getCATraceStartAddr c = startAddr c"

section \<open>Instruction traces\<close>

text \<open>What a record still has to give decreases with every event, and with every record that is loaded.\<close>

definition ca_work :: "CATrace \<Rightarrow> nat" where
  "ca_work c = nat (caBufferSize c - caBufferIndex c) + (Suc (length (car_data (catr c))) - car_offset (catr c))"

lemma load_rec_index [simp]:
  "caBufferIndex (load_rec f d ds c) = caBufferIndex c + 124" "caBufferSize (load_rec f d ds c) = caBufferSize c"
  "car_offset (catr (load_rec f d ds c)) = 0"
  by (simp_all add: load_rec_def)

lemma first_word_index: "first_word buf sz i d = Inr (x, j) \<Longrightarrow> i + 4 \<le> j"
proof (induction buf sz i d rule: first_word.induct)
  case (1 buf sz i d)
  then show ?case by (subst (asm) (2) first_word.simps) (fastforce split: sum.splits if_splits)
qed

lemma read_words_length: "read_words buf n i = Inr ds \<Longrightarrow> length ds = n"
  by (induction n arbitrary: i ds) (auto simp: map_sum_def split: sum.splits)

lemma parse_loads:
  assumes "parseNextCATraceRec c = Inr (DQERR_OK, c1)"
  shows "caBufferSize c1 = caBufferSize c \<and> caBufferIndex c + 128 \<le> caBufferIndex c1 \<and> caBufferIndex c1 \<le> caBufferSize c1 \<and>
    car_offset (catr c1) = 0 \<and> length (car_data (catr c1)) = 32"
proof -
  define f where "f = (caBufferIndex c = 0)"
  let ?w = "if f then first_word (caBuffer c) (caBufferSize c) 0 0
    else map_sum id (\<lambda>d. (Some d, caBufferIndex c + 4)) (read_word (caBuffer c) (caBufferIndex c))"
  obtain d i ds where w: "?w = Inr (Some d, i)" "\<not> i > caBufferSize c - 124" "c1 = load_rec f d ds (c\<lparr>caBufferIndex := i\<rparr>)"
      "read_words (caBuffer c) 31 i = Inr ds"
    using assms unfolding parseNextCATraceRec_def f_def [symmetric] Let_def
    by (fastforce simp: map_sum_def split: sum.splits option.splits if_splits)
  then have "caBufferIndex c + 4 \<le> i"
    using first_word_index [of "caBuffer c" "caBufferSize c" 0 0 "Some d" i]
    by (cases f) (auto simp: f_def map_sum_def split: sum.splits)
  moreover have "length (car_data (catr c1)) = 32" using w(3) read_words_length [OF w(4)] by (simp add: load_rec_def)
  ultimately show ?thesis using w by simp
qed

text \<open>An event is consumed from the record that is loaded, and records are loaded until there is one.\<close>

function reload_until :: "(CATraceRec \<Rightarrow> (u32 \<times> u32) option \<times> CATraceRec) \<Rightarrow> CATrace \<Rightarrow> (DQErr \<times> (u32 \<times> u32) option \<times> CATrace) outcome" where
  "reload_until f c =
     (case f (catr c) of
        (Some e, r) \<Rightarrow> Inr (DQERR_OK, Some e, c\<lparr>catr := r\<rparr>)
      | (None, r) \<Rightarrow>
          (case parseNextCATraceRec (c\<lparr>catr := r\<rparr>) of
             Inl e \<Rightarrow> Inl e
           | Inr (rc, c1) \<Rightarrow> if rc \<noteq> DQERR_OK then Inr (rc, None, c1\<lparr>ca_status := rc\<rparr>) else reload_until f c1))"
  by pat_completeness auto

termination
  by (relation "measure (\<lambda>(_, c). nat (caBufferSize c - caBufferIndex c))") (auto dest!: parse_loads)

declare reload_until.simps [simp del]

text \<open>The cycle counts from the start of the trace; the product is an \<^verbatim>\<open>int\<close>.\<close>

definition add_base :: "int \<Rightarrow> int \<Rightarrow> u32 \<Rightarrow> u32 outcome" where
  "add_base block n cycles = (if block * n \<noteq> s32 (block * n) then Inl UB else Inr (cycles + word_of_int (block * n)))"

definition consumeCAInstruction :: "CATrace \<Rightarrow> (DQErr \<times> (u32 \<times> u32) option \<times> CATrace) outcome" where
  "consumeCAInstruction c =
     (case reload_until rec_consumeCAInstruction c of
        Inl e \<Rightarrow> Inl e
      | Inr (rc, None, c1) \<Rightarrow> Inr (rc, None, c1)
      | Inr (rc, Some (pipe, cycles), c1) \<Rightarrow>
          map_sum id (\<lambda>cycles. (rc, Some (pipe, cycles), c1)) (add_base (blockRecNum c1) (15 * 32) cycles))"

section \<open>The ring of vector events\<close>

definition ring_next :: "'a list \<Rightarrow> nat \<Rightarrow> nat" where
  "ring_next q i = (if i + 1 \<ge> length q then 0 else i + 1)"

definition ring_dist :: "'a list \<Rightarrow> nat \<Rightarrow> nat \<Rightarrow> nat" where
  "ring_dist q i j = (if i \<le> j then j - i else length q - i + j)"

lemma ring_dist_next: "i \<noteq> j \<Longrightarrow> i < length q \<Longrightarrow> j < length q \<Longrightarrow> ring_dist q i j = Suc (ring_dist q (ring_next q i) j)"
  by (auto simp: ring_dist_def ring_next_def)

text \<open>
  Items from \<open>i\<close> up to, and without, \<open>j\<close> are looked at until one is found; \<open>j\<close> is the answer if there is
  none. A position outside the ring would be an access out of bounds.
\<close>

function find_item :: "('a \<Rightarrow> bool) \<Rightarrow> 'a list \<Rightarrow> nat \<Rightarrow> nat \<Rightarrow> nat outcome" where
  "find_item P q i j =
     (if i = j then Inr j
      else if i \<ge> length q \<or> j \<ge> length q then Inl UB
      else if P (q ! i) then Inr i
      else find_item P q (ring_next q i) j)"
  by pat_completeness auto

termination
  by (relation "measure (\<lambda>(_, q, i, j). ring_dist q i j)") (auto simp: ring_dist_next)

declare find_item.simps [simp del]

definition empty_item :: "CATraceQItem \<Rightarrow> bool" where
  "empty_item x \<longleftrightarrow> q_record x = 0"

definition clear_item :: "CATraceQItem \<Rightarrow> CATraceQItem" where
  "clear_item x = x\<lparr>q_record := 0, q_qDepth := 0, q_arithInProcess := 0, q_loadInProcess := 0, q_storeInProcess := 0\<rparr>"

lemma ring_next_less: "i < length q \<Longrightarrow> ring_next q i < length q"
  by (auto simp: ring_next_def)

lemma find_item_props:
  "find_item P q i j = Inr k \<Longrightarrow> i \<noteq> j \<Longrightarrow> i < length q \<and> j < length q \<and> k < length q \<and>
     ring_dist q k j \<le> ring_dist q i j \<and> (k \<noteq> i \<longrightarrow> ring_dist q k j < ring_dist q i j \<and> \<not> P (q ! i)) \<and> (k \<noteq> j \<longrightarrow> P (q ! k))"
proof (induction P q i j rule: find_item.induct)
  case (1 P q i j)
  have d: "ring_dist q i j = Suc (ring_dist q (ring_next q i) j)" if "i < length q" "j < length q"
    using ring_dist_next [OF 1(3) that] .
  show ?case using 1 d by (cases "ring_next q i = j") (auto simp: find_item.simps [of P q i j] find_item.simps [of P q j j] split: if_splits)
qed

text \<open>Records are moved down over empty ones. The state is the ring and the two positions.\<close>

function pack_loop :: "nat \<Rightarrow> nat \<Rightarrow> CATraceQItem list \<Rightarrow> nat \<Rightarrow> (nat \<times> CATraceQItem list) outcome" where
  "pack_loop qin src q dst =
     (if dst = qin \<or> src = qin then Inr (dst, q)
      else case find_item empty_item q dst qin of
        Inl e \<Rightarrow> Inl e
      | Inr d \<Rightarrow>
          if d = qin then Inr (d, q)
          else (case find_item (\<lambda>x. \<not> empty_item x) q (ring_next q d) qin of
              Inl e \<Rightarrow> Inl e
            | Inr s \<Rightarrow> if s = qin then Inr (d, q)
                else pack_loop qin s (q[d := q ! s, s := clear_item (q ! s)]) d))"
  by pat_completeness auto

termination
proof (relation "measure (\<lambda>(qin, src, q, dst). 2 * ring_dist q dst qin + (if dst < length q \<and> empty_item (q ! dst) then 1 else 0))", goal_cases)
  case 1
  then show ?case by simp
next
  case (2 qin src q dst d s)
  then have d: "d < length q" "ring_dist q d qin \<le> ring_dist q dst qin" "d \<noteq> dst \<longrightarrow> ring_dist q d qin < ring_dist q dst qin" "empty_item (q ! d)"
    using find_item_props [of empty_item q dst qin d] by auto
  have s: "\<not> empty_item (q ! s)"
    using 2 find_item_props [of "\<lambda>x. \<not> empty_item x" q "ring_next q d" qin s] by (cases "ring_next q d = qin") (auto simp: find_item.simps)
  then have ne: "s \<noteq> d" using d(4) by auto
  let ?q = "q[d := q ! s, s := clear_item (q ! s)]"
  have "?q ! d = q ! s" "ring_dist ?q d qin = ring_dist q d qin" "length ?q = length q"
    using ne d(1) by (simp_all add: ring_dist_def)
  then show ?case using d s by (cases "d = dst") auto
qed

declare pack_loop.simps [simp del]

definition packQ :: "CATrace \<Rightarrow> CATrace outcome" where
  "packQ c = map_sum id (\<lambda>(d, q). c\<lparr>caTraceQ := q, traceQIn := (if d \<noteq> traceQIn c then ring_next q d else traceQIn c)\<rparr>)
     (pack_loop (traceQIn c) (traceQOut c) (caTraceQ c) (traceQOut c))"

definition roomQ :: "CATrace \<Rightarrow> int" where
  "roomQ c =
     (if traceQIn c = traceQOut c then int (length (caTraceQ c)) - 1
      else if traceQIn c < traceQOut c then int (traceQOut c) - int (traceQIn c) - 1
      else int (length (caTraceQ c)) - int (traceQIn c) + int (traceQOut c) - 1)"

text \<open>Up to five events are added, those that are not empty; \<open>n\<close> of the five are left.\<close>

fun add_events :: "nat \<Rightarrow> u32 \<Rightarrow> u32 \<Rightarrow> CATraceQItem list \<times> nat \<Rightarrow> (CATraceQItem list \<times> nat) outcome" where
  "add_events 0 d t s = Inr s"
| "add_events (Suc n) d t (q, i) =
     (let rec = ucast (drop_bit (6 * n) d) AND 0x3f in
      if rec = 0 then add_events n d (t + 1) (q, i)
      else if i \<ge> length q then Inl UB
      else add_events n d (t + 1)
        (q[i := \<lparr>q_cycle = t, q_record = rec, q_qDepth = 0, q_arithInProcess = 0, q_loadInProcess = 0, q_storeInProcess = 0\<rparr>],
         ring_next q i))"

definition add_five :: "u32 \<Rightarrow> u32 \<Rightarrow> CATrace \<Rightarrow> (DQErr \<times> CATrace) outcome" where
  "add_five d t c = map_sum id (\<lambda>(q, i). (DQERR_OK, c\<lparr>caTraceQ := q, traceQIn := i\<rparr>)) (add_events 5 d t (caTraceQ c, traceQIn c))"

definition addQ :: "u32 \<Rightarrow> u32 \<Rightarrow> CATrace \<Rightarrow> (DQErr \<times> CATrace) outcome" where
  "addQ d t c =
     (if roomQ c < 5 then
        (case packQ c of
           Inl e \<Rightarrow> Inl e
         | Inr c1 \<Rightarrow> if roomQ c1 < 5 then Inr (DQERR_ERR, c1) else add_five d t c1)
      else add_five d t c)"

section \<open>Vector traces\<close>

text \<open>The new events start where the ring ends before they are added.\<close>

definition parseNextVectorRecord :: "u32 \<Rightarrow> CATrace \<Rightarrow> (DQErr \<times> nat option \<times> CATrace) outcome" where
  "parseNextVectorRecord past c =
     (case reload_until (rec_consumeCAVector past) c of
        Inl e \<Rightarrow> Inl e
      | Inr (rc, None, c1) \<Rightarrow> Inr (rc, None, c1)
      | Inr (rc, Some (record, cycles), c1) \<Rightarrow>
          (case add_base (blockRecNum c1) (5 * 32) cycles of
             Inl e \<Rightarrow> Inl e
           | Inr t \<Rightarrow> map_sum id (\<lambda>(rc, c2). (rc, Some (traceQIn c1), c2\<lparr>ca_status := rc\<rparr>)) (addQ record t c1)))"

lemma addQ_work: "addQ d t c = Inr (rc, c1) \<Longrightarrow> ca_work c1 = ca_work c"
  by (auto simp: addQ_def packQ_def add_five_def ca_work_def map_sum_def split: sum.splits if_splits prod.splits)

lemma rec_vector_offset:
  "rec_consumeCAVector past r = (Some e, r1) \<Longrightarrow> car_offset r < car_offset r1 \<and> car_offset r1 \<le> length (car_data r)"
proof -
  have "i \<le> vec_index past ds i" for ds i
    by (induction past ds i rule: vec_index.induct) (subst vec_index.simps, auto)
  then show "rec_consumeCAVector past r = (Some e, r1) \<Longrightarrow> ?thesis"
    by (auto simp: rec_consumeCAVector_def Let_def le_imp_less_Suc split: if_splits)
qed

lemma reload_until_rc: "reload_until f c = Inr (rc, x, c1) \<Longrightarrow> x = None \<longleftrightarrow> rc \<noteq> DQERR_OK"
proof (induction f c rule: reload_until.induct)
  case (1 f c)
  obtain y r where y: "f (catr c) = (y, r)" by fastforce
  show ?case
  proof (cases y)
    case None
    then obtain rc' c2 where p: "parseNextCATraceRec (c\<lparr>catr := r\<rparr>) = Inr (rc', c2)"
      using 1(2) y by (subst (asm) reload_until.simps) (auto split: sum.splits)
    show ?thesis using 1(1) [OF y [symmetric] None p] 1(2) y None p
      by (cases "rc' = DQERR_OK") (subst (asm) reload_until.simps; auto)+
  qed (use 1(2) y in \<open>subst (asm) reload_until.simps; auto\<close>)
qed

lemma parse_vector_work:
  assumes "parseNextVectorRecord past c = Inr (DQERR_OK, st, c1)"
  shows "ca_work c1 < ca_work c"
proof -
  have loop: "reload_until (rec_consumeCAVector past) c = Inr (rc, Some e, c1) \<Longrightarrow> ca_work c1 < ca_work c" for rc e c1
  proof (induction "rec_consumeCAVector past" c rule: reload_until.induct)
    case (1 c)
    obtain x r where x: "rec_consumeCAVector past (catr c) = (x, r)" by fastforce
    show ?case
    proof (cases x)
      case (Some y)
      then have "c1 = c\<lparr>catr := r\<rparr>" using 1(2) x by (subst (asm) reload_until.simps) simp
      then show ?thesis using rec_vector_offset [of past "catr c" y r] x Some
        by (auto simp: ca_work_def rec_consumeCAVector_def Let_def split: if_splits)
    next
      case None
      obtain rc' c2 where p: "parseNextCATraceRec (c\<lparr>catr := r\<rparr>) = Inr (rc', c2)"
        using 1(2) x None by (subst (asm) reload_until.simps) (auto split: sum.splits)
      have ok: "rc' = DQERR_OK" using 1(2) x None p by (subst (asm) reload_until.simps) (auto split: if_splits)
      then have "reload_until (rec_consumeCAVector past) c2 = Inr (rc, Some e, c1)"
        using 1(2) x None p by (subst (asm) reload_until.simps) simp
      then have "ca_work c1 < ca_work c2" using 1(1) x None p ok by simp
      moreover have "ca_work c2 \<le> ca_work c" using parse_loads [of "c\<lparr>catr := r\<rparr>" c2] p ok by (auto simp: ca_work_def)
      ultimately show ?thesis by simp
    qed
  qed
  show ?thesis
  proof (cases "reload_until (rec_consumeCAVector past) c")
    case (Inr p)
    obtain rc x c2 where p: "p = (rc, x, c2)" by (cases p) auto
    have inner: "ca_work c2 < ca_work c \<Longrightarrow> ca_work c1 < ca_work c"  if "x \<noteq> None"
      using assms Inr p that
      by (auto simp: parseNextVectorRecord_def map_sum_def ca_work_def dest!: addQ_work split: sum.splits)
    have "x = None \<Longrightarrow> rc \<noteq> DQERR_OK" using reload_until_rc Inr p by blast
    then show ?thesis using loop [of rc _ c2] Inr p inner assms by (cases x) (auto simp: parseNextVectorRecord_def)
  qed (use assms in \<open>simp add: parseNextVectorRecord_def\<close>)
qed

text \<open>A pipe finished an instruction in the item: pipe 0 before pipe 1.\<close>

definition has_pipe :: "CATraceQItem \<Rightarrow> bool" where
  "has_pipe x \<longleftrightarrow> q_record x AND cav_val CAVFLAG_V0 \<noteq> 0 \<or> q_record x AND cav_val CAVFLAG_V1 \<noteq> 0"

definition take_pipe :: "nat \<Rightarrow> CATrace \<Rightarrow> (u32 \<times> u32) \<times> CATrace" where
  "take_pipe i c =
     (let x = caTraceQ c ! i;
          (flag, caf) = (if q_record x AND cav_val CAVFLAG_V0 \<noteq> 0 then (CAVFLAG_V0, CAFLAG_PIPE0) else (CAVFLAG_V1, CAFLAG_PIPE1)) in
      ((caf_val caf, q_cycle x), c\<lparr>caTraceQ := (caTraceQ c)[i := x\<lparr>q_record := q_record x AND NOT (cav_val flag)\<rparr>]\<rparr>))"

text \<open>The result: error code, pipe and cycle, the position \<^verbatim>\<open>QStart\<close>, and the trace.\<close>

type_synonym pipe_result = "(DQErr \<times> (u32 \<times> u32) option \<times> nat \<times> CATrace) outcome"

function pipe_loop :: "u32 \<Rightarrow> CATrace \<Rightarrow> nat \<Rightarrow> pipe_result" where
  "pipe_loop past c qs =
     (case parseNextVectorRecord past c of
        Inl e \<Rightarrow> Inl e
      | Inr (rc, st, c1) \<Rightarrow>
          let qs1 = (case st of None \<Rightarrow> qs | Some k \<Rightarrow> k) in
          if rc \<noteq> DQERR_OK then Inr (rc, None, qs1, c1\<lparr>ca_status := rc\<rparr>)
          else (case find_item has_pipe (caTraceQ c1) qs1 (traceQIn c1) of
              Inl e \<Rightarrow> Inl e
            | Inr k \<Rightarrow>
                if k = traceQIn c1 then pipe_loop past c1 k
                else (case take_pipe k c1 of (e, c2) \<Rightarrow> Inr (DQERR_OK, Some e, k, c2))))"
  by pat_completeness auto

termination
  by (relation "measure (\<lambda>(_, c, _). ca_work c)") (auto dest: parse_vector_work)

declare pipe_loop.simps [simp del]

definition consumeCAPipe :: "u32 \<Rightarrow> nat \<Rightarrow> CATrace \<Rightarrow> pipe_result" where
  "consumeCAPipe past qs c =
     (if caTraceQ c = [] then Inr (DQERR_ERR, None, qs, c)
      else (case find_item has_pipe (caTraceQ c) qs (traceQIn c) of
          Inl e \<Rightarrow> Inl e
        | Inr k \<Rightarrow>
            if k = traceQIn c then pipe_loop past c k
            else (case take_pipe k c of (e, c1) \<Rightarrow> Inr (DQERR_OK, Some e, k, c1))))"

text \<open>
  Vector events. Every item that is passed counts the event, the one where it is found included; the
  counters wrap. Other types are refused by the code and are never asked for.
\<close>

fun count_event :: "CAVectorTraceFlags \<Rightarrow> CATraceQItem \<Rightarrow> CATraceQItem" where
  "count_event CAVFLAG_VISTART x = x\<lparr>q_qDepth := q_qDepth x + 1\<rparr>"
| "count_event CAVFLAG_VIARITH x = x\<lparr>q_arithInProcess := q_arithInProcess x + 1\<rparr>"
| "count_event CAVFLAG_VISTORE x = x\<lparr>q_storeInProcess := q_storeInProcess x + 1\<rparr>"
| "count_event CAVFLAG_VILOAD x = x\<lparr>q_loadInProcess := q_loadInProcess x + 1\<rparr>"
| "count_event t x = x"

function vec_scan :: "CAVectorTraceFlags \<Rightarrow> CATraceQItem list \<Rightarrow> nat \<Rightarrow> nat \<Rightarrow> (nat option \<times> CATraceQItem list) outcome" where
  "vec_scan t q i j =
     (if i = j then Inr (None, q)
      else if i \<ge> length q \<or> j \<ge> length q then Inl UB
      else if t = CAVFLAG_V0 \<or> t = CAVFLAG_V1 then Inl (Rc DQERR_ERR)
      else let x = count_event t (q ! i) in
        if q_record x AND cav_val t \<noteq> 0 then Inr (Some i, q[i := x\<lparr>q_record := q_record x AND NOT (cav_val t)\<rparr>])
        else vec_scan t (q[i := x]) (ring_next q i) j)"
  by pat_completeness auto

termination
proof (relation "measure (\<lambda>(_, q, i, j). ring_dist q i j)", goal_cases)
  case (2 t q i j)
  have "ring_dist (q[i := x]) a b = ring_dist q a b" for x a b by (simp add: ring_dist_def)
  then show ?case using 2 by (simp add: ring_dist_next)
qed simp

declare vec_scan.simps [simp del]

text \<open>The four numbers: depth of the queue, arithmetic, load and store instructions in process.\<close>

type_synonym info = "u8 \<times> u8 \<times> u8 \<times> u8"

definition info_of :: "CATraceQItem \<Rightarrow> info" where
  "info_of x = (q_qDepth x, q_arithInProcess x, q_loadInProcess x, q_storeInProcess x)"

type_synonym vector_result = "(DQErr \<times> (u32 \<times> info) option \<times> nat \<times> CATrace) outcome"

definition found_event :: "CAVectorTraceFlags \<Rightarrow> CATraceQItem \<Rightarrow> nat \<Rightarrow> CATrace \<Rightarrow> (DQErr \<times> (u32 \<times> info) option \<times> nat \<times> CATrace)" where
  "found_event t x0 k c = (DQERR_OK, Some (q_cycle (caTraceQ c ! k), info_of (count_event t x0)), ring_next (caTraceQ c) k, c)"

function vector_loop :: "u32 \<Rightarrow> CAVectorTraceFlags \<Rightarrow> CATraceQItem \<Rightarrow> CATrace \<Rightarrow> nat \<Rightarrow> vector_result" where
  "vector_loop past t x0 c qs =
     (case parseNextVectorRecord past c of
        Inl e \<Rightarrow> Inl e
      | Inr (rc, st, c1) \<Rightarrow>
          let qs1 = (case st of None \<Rightarrow> qs | Some k \<Rightarrow> k) in
          if rc \<noteq> DQERR_OK then Inr (rc, None, qs1, c1\<lparr>ca_status := rc\<rparr>)
          else (case vec_scan t (caTraceQ c1) qs1 (traceQIn c1) of
              Inl e \<Rightarrow> Inl e
            | Inr (None, q) \<Rightarrow> vector_loop past t x0 (c1\<lparr>caTraceQ := q\<rparr>) (traceQIn c1)
            | Inr (Some k, q) \<Rightarrow> Inr (found_event t x0 k (c1\<lparr>caTraceQ := q\<rparr>))))"
  by pat_completeness auto

termination
  by (relation "measure (\<lambda>(_, _, _, c, _). ca_work c)") (auto simp: ca_work_def dest!: parse_vector_work)

declare vector_loop.simps [simp del]

definition consumeCAVector :: "u32 \<Rightarrow> CAVectorTraceFlags \<Rightarrow> nat \<Rightarrow> CATrace \<Rightarrow> vector_result" where
  "consumeCAVector past t qs c =
     (if caTraceQ c = [] then Inr (DQERR_ERR, None, qs, c)
      else case (if qs = traceQIn c then parseNextVectorRecord past c else Inr (DQERR_OK, Some qs, c)) of
        Inl e \<Rightarrow> Inl e
      | Inr (rc, st, c1) \<Rightarrow>
          let qs1 = (case st of None \<Rightarrow> qs | Some k \<Rightarrow> k) in
          if rc \<noteq> DQERR_OK then Inr (rc, None, qs1, c1\<lparr>ca_status := rc\<rparr>)
          else if qs1 \<ge> length (caTraceQ c1) then Inl UB
          else let x0 = caTraceQ c1 ! qs1 in
            (case vec_scan t (caTraceQ c1) qs1 (traceQIn c1) of
               Inl e \<Rightarrow> Inl e
             | Inr (None, q) \<Rightarrow> vector_loop past t x0 (c1\<lparr>caTraceQ := q\<rparr>) (traceQIn c1)
             | Inr (Some k, q) \<Rightarrow> Inr (found_event t x0 k (c1\<lparr>caTraceQ := q\<rparr>))))"

section \<open>Consuming an instruction\<close>

text \<open>The variables that \<^verbatim>\<open>consume\<close> sets through references.\<close>

record CAOut =
  caFlags :: u32
  pipeCycles :: u32
  viStartCycles :: u32
  viFinishCycles :: u32
  qDepth :: u8
  arithDepth :: u8
  loadDepth :: u8
  storeDepth :: u8

text \<open>One call after another; the first that fails sets the status and ends the whole.\<close>

type_synonym ca_state = "CAOut \<times> nat \<times> CATrace"

definition ca_then :: "(DQErr \<times> ca_state) outcome \<Rightarrow> (ca_state \<Rightarrow> (DQErr \<times> ca_state) outcome) \<Rightarrow> (DQErr \<times> ca_state) outcome" where
  "ca_then x f = (case x of Inl e \<Rightarrow> Inl e | Inr (rc, s) \<Rightarrow> if rc \<noteq> DQERR_OK then x else f s)"

definition ca_pipe :: "u32 \<Rightarrow> ca_state \<Rightarrow> (DQErr \<times> ca_state) outcome" where
  "ca_pipe past = (\<lambda>(out, qs, c). map_sum id (\<lambda>(rc, e, qs1, c1).
     (case e of
        None \<Rightarrow> (rc, out, qs1, c1\<lparr>ca_status := rc\<rparr>)
      | Some (pipe, cycles) \<Rightarrow> (rc, out\<lparr>caFlags := pipe, pipeCycles := cycles\<rparr>, qs1, c1))) (consumeCAPipe past qs c))"

definition ca_vec :: "u32 \<Rightarrow> CAVectorTraceFlags \<Rightarrow> (u32 \<Rightarrow> info \<Rightarrow> CAOut \<Rightarrow> CAOut) \<Rightarrow> ca_state \<Rightarrow> (DQErr \<times> ca_state) outcome" where
  "ca_vec past t assign = (\<lambda>(out, qs, c). map_sum id (\<lambda>(rc, e, qs1, c1).
     (case e of
        None \<Rightarrow> (rc, out, qs1, c1\<lparr>ca_status := rc\<rparr>)
      | Some (cycles, i) \<Rightarrow> (rc, assign cycles i out, qs1, c1))) (consumeCAVector past t qs c))"

definition set_start :: "u32 \<Rightarrow> info \<Rightarrow> CAOut \<Rightarrow> CAOut" where
  "set_start cycles i out = out\<lparr>viStartCycles := cycles, qDepth := fst i\<rparr>"

definition set_finish :: "u32 \<Rightarrow> info \<Rightarrow> CAOut \<Rightarrow> CAOut" where
  "set_finish cycles i out = (case i of (_, a, l, s) \<Rightarrow> out\<lparr>viFinishCycles := cycles, arithDepth := a, loadDepth := l, storeDepth := s\<rparr>)"

definition set_cycles :: "u32 \<Rightarrow> info \<Rightarrow> CAOut \<Rightarrow> CAOut" where
  "set_cycles cycles i out = out\<lparr>viFinishCycles := cycles\<rparr>"

definition ca_flags :: "CATraceFlags list \<Rightarrow> ca_state \<Rightarrow> (DQErr \<times> ca_state) outcome" where
  "ca_flags fs = (\<lambda>(out, qs, c). Inr (DQERR_OK, out\<lparr>caFlags := foldl (OR) (caFlags out) (map caf_val fs)\<rparr>, qs, c))"

definition ca_events :: "u32 \<Rightarrow> InstType \<Rightarrow> ca_state \<Rightarrow> (DQErr \<times> ca_state) outcome" where
  "ca_events past iType s =
     (let start = ca_vec past CAVFLAG_VISTART set_start s in
      case iType of
        INST_VECT_ARITH \<Rightarrow> ca_then (ca_then start (ca_vec past CAVFLAG_VIARITH set_finish)) (ca_flags [CAFLAG_VSTART, CAFLAG_VARITH])
      | INST_VECT_LOAD \<Rightarrow> ca_then (ca_then start (ca_vec past CAVFLAG_VILOAD set_finish)) (ca_flags [CAFLAG_VSTART, CAFLAG_VLOAD])
      | INST_VECT_STORE \<Rightarrow> ca_then (ca_then start (ca_vec past CAVFLAG_VISTORE set_finish)) (ca_flags [CAFLAG_VSTART, CAFLAG_VSTORE])
      | INST_VECT_AMO \<Rightarrow> ca_then (ca_then start (ca_vec past CAVFLAG_VILOAD set_finish)) (ca_flags [CAFLAG_VSTART, CAFLAG_VLOAD])
      | INST_VECT_AMO_WW \<Rightarrow>
          ca_then (ca_then (ca_then start (ca_vec past CAVFLAG_VILOAD set_finish)) (ca_vec past CAVFLAG_VISTORE set_cycles))
            (ca_flags [CAFLAG_VSTART, CAFLAG_VLOAD, CAFLAG_VSTORE])
      | _ \<Rightarrow> Inr (DQERR_OK, s))"

text \<open>Items at the front of the ring that have become empty are dropped.\<close>

definition drop_empty :: "ca_state \<Rightarrow> (DQErr \<times> ca_state) outcome" where
  "drop_empty = (\<lambda>(out, qs, c). map_sum id (\<lambda>k. (DQERR_OK, out, qs, c\<lparr>traceQOut := k\<rparr>))
     (find_item (\<lambda>x. \<not> empty_item x) (caTraceQ c) (traceQOut c) (traceQIn c)))"

definition consume :: "u32 \<Rightarrow> InstType \<Rightarrow> CAOut \<Rightarrow> CATrace \<Rightarrow> (DQErr \<times> CAOut \<times> CATrace) outcome" where
  "consume past iType out c =
     (if ca_status c \<noteq> DQERR_OK then Inr (ca_status c, out, c)
      else case caType c of
        CATRACE_NONE \<Rightarrow> Inr (DQERR_ERR, out, c)
      | CATRACE_INSTRUCTION \<Rightarrow>
          map_sum id (\<lambda>(rc, e, c1). (case e of
               None \<Rightarrow> (rc, out, c1\<lparr>ca_status := rc\<rparr>)
             | Some (pipe, cycles) \<Rightarrow> (rc, out\<lparr>caFlags := pipe, pipeCycles := cycles, qDepth := 0, arithDepth := 0,
                 loadDepth := 0, storeDepth := 0\<rparr>, c1))) (consumeCAInstruction c)
      | CATRACE_VECTOR \<Rightarrow>
          map_sum id (\<lambda>(rc, out1, _, c1). (rc, out1, c1))
            (ca_then (ca_then (ca_pipe past (out, traceQOut c, c)) (ca_events past iType)) drop_empty))"

end
