(* ===== verification/Trace_Msg.thy ===== *)
theory Trace_Msg
  imports Trace_Next
begin

text \<open>
  Retiring a trace message (src/trace.cpp): \<^verbatim>\<open>Trace::processTraceMessage\<close> brings the program counter,
  the last full address and the time of a core up to date, \<^verbatim>\<open>Trace::processPidPriv\<close> switches
  processes, \<^verbatim>\<open>Trace::resetTrace\<close> starts over.

  Every call passes \<^verbatim>\<open>this->nm\<close>, \<^verbatim>\<open>currentAddress[currentCore]\<close>, \<^verbatim>\<open>lastFaddr[currentCore]\<close> and
  \<^verbatim>\<open>lastTime[currentCore]\<close> as the reference parameters \<^verbatim>\<open>nm\<close>, \<^verbatim>\<open>pc\<close>, \<^verbatim>\<open>faddr\<close> and \<^verbatim>\<open>ts\<close>, so the model
  reads and writes these fields; the parameter \<^verbatim>\<open>consumed\<close> is a result. A \<open>step\<close> returns a code and
  the new state, or undefined behaviour; \<open>and_then\<close> stops at the first code that is not OK.
\<close>

section \<open>Steps\<close>

type_synonym step = "Trace \<Rightarrow> (DQErr \<times> Trace) outcome"

definition act :: "(Trace \<Rightarrow> Trace) \<Rightarrow> step" where
  "act f t = Inr (DQERR_OK, f t)"

definition give_up :: "DQErr \<Rightarrow> step" where
  "give_up rc t = Inr (rc, t)"

definition and_then :: "step \<Rightarrow> step \<Rightarrow> step" where
  "and_then f g t = (case f t of
      Inl e \<Rightarrow> Inl e
    | Inr (rc, t1) \<Rightarrow> if rc = DQERR_OK then g t1 else Inr (rc, t1))"

definition guarded :: "(Trace \<Rightarrow> bool) \<Rightarrow> step \<Rightarrow> step" where
  "guarded b f t = (if b t then f t else Inr (DQERR_OK, t))"

text \<open>The reference parameters.\<close>

definition pc_of :: "Trace \<Rightarrow> ADDRESS" where "pc_of t = tr_currentAddress t (currentCore t)"
definition faddr_of :: "Trace \<Rightarrow> ADDRESS" where "faddr_of t = lastFaddr t (currentCore t)"
definition ts_of :: "Trace \<Rightarrow> TIMESTAMP" where "ts_of t = lastTime t (currentCore t)"

definition set_pc :: "ADDRESS \<Rightarrow> Trace \<Rightarrow> Trace" where
  "set_pc a t = t\<lparr>tr_currentAddress := (tr_currentAddress t)(currentCore t := a)\<rparr>"

definition set_faddr :: "ADDRESS \<Rightarrow> Trace \<Rightarrow> Trace" where
  "set_faddr a t = t\<lparr>lastFaddr := (lastFaddr t)(currentCore t := a)\<rparr>"

definition set_ts :: "TIMESTAMP \<Rightarrow> Trace \<Rightarrow> Trace" where
  "set_ts x t = t\<lparr>lastTime := (lastTime t)(currentCore t := x)\<rparr>"

definition msg_core :: "Trace \<Rightarrow> nat" where "msg_core t = unat (coreId (tr_nm t))"

definition set_sync :: "bool \<Rightarrow> Trace \<Rightarrow> Trace" where
  "set_sync b t = t\<lparr>prevMsgWasSync := (prevMsgWasSync t)(msg_core t := b)\<rparr>"

definition set_prv :: "u8 \<Rightarrow> Trace \<Rightarrow> Trace" where
  "set_prv p t = t\<lparr>currentPrv := (currentPrv t)(msg_core t := p)\<rparr>"

definition new_time :: "tsType \<Rightarrow> step" where
  "new_time ty t =
     (if haveTimestamp (tr_nm t) then
        map_sum id (\<lambda>x. (DQERR_OK, set_ts x t)) (processTS (tsSize t) ty (ts_of t) (timestamp (tr_nm t)))
      else Inr (DQERR_OK, t))"

definition xor_faddr :: "ADDRESS \<Rightarrow> Trace \<Rightarrow> Trace" where
  "xor_faddr u t = (if faddr_of t \<noteq> 0 then set_faddr (faddr_of t XOR push_bit 1 u) t else t)"

definition pc_from_faddr :: "Trace \<Rightarrow> Trace" where
  "pc_from_faddr t = set_pc (faddr_of t) t"

section \<open>Processes\<close>

fun index_of :: "('a \<Rightarrow> bool) \<Rightarrow> 'a list \<Rightarrow> int option" where
  "index_of P [] = None"
| "index_of P (x # xs) = (if P x then Some 0 else map_option (\<lambda>i. i + 1) (index_of P xs))"

text \<open>The process to decode for a pid, -1 when there is none.\<close>

definition process_index :: "int \<Rightarrow> Trace \<Rightarrow> int outcome" where
  "process_index pd t =
     (if pidList t \<noteq> [] \<and> pd \<notin> set (pidList t) then Inr (-1)
      else case processes t of
        [] \<Rightarrow> Inl UB
      | p0 # ps \<Rightarrow>
          if proc_pid p0 = -1 then Inr 0
          else Inr (case index_of (\<lambda>p. proc_pid p = pd) (p0 # ps) of None \<Rightarrow> -1 | Some i \<Rightarrow> i))"

definition processPidPriv :: "nat \<Rightarrow> int \<Rightarrow> u8 \<Rightarrow> u8 \<Rightarrow> Trace \<Rightarrow> (int \<times> Trace) outcome" where
  "processPidPriv core pd v pv t =
     (let t1 = t\<lparr>currentPid := (currentPid t)(core := pd), currentPrv := (currentPrv t)(core := push_bit 4 v OR pv)\<rparr> in
      map_sum id (\<lambda>i. (i, t1\<lparr>
          currentProcessIndex := (currentProcessIndex t)(core := i),
          currentDisassembler := (currentDisassembler t)(core := if i \<ge> 0 then disassembler (processes t ! nat i) else None),
          currentElfReader := (currentElfReader t)(core := if i \<ge> 0 then elfReader (processes t ! nat i) else None)\<rparr>))
        (process_index pd t))"

section \<open>Converters\<close>

definition update_process :: "nat \<Rightarrow> (process \<Rightarrow> process) \<Rightarrow> Trace \<Rightarrow> Trace" where
  "update_process i f t = t\<lparr>processes := (processes t)[i := f (processes t ! i)]\<rparr>"

definition enableEventConverter :: "Env \<Rightarrow> int \<Rightarrow> step" where
  "enableEventConverter E pIndex t =
     (if pIndex < 0 then Inr (DQERR_ERR, t)
      else if nat pIndex \<ge> length (processes t) then Inl UB
      else let t1 = update_process (nat pIndex) (has_eventConverter_update (\<lambda>_. False)) t in
        if \<not> has_elfName (processes t ! nat pIndex) then Inr (DQERR_ERR, t1)
        else let rc = evc_status E (nat pIndex) in
          Inr (rc, (update_process (nat pIndex) (has_eventConverter_update (\<lambda>_. True)) t1)\<lparr>tr_status := rc\<rparr>))"

definition tell :: "(Trace \<Rightarrow> Event) \<Rightarrow> Trace \<Rightarrow> Trace" where
  "tell ev t = t\<lparr>events := events t @ [ev t]\<rparr>"

text \<open>
  The block that stands in most cases: make sure the process has an event converter, then call it.
\<close>

definition need_converter :: "Env \<Rightarrow> int \<Rightarrow> step" where
  "need_converter E pIndex t =
     (if has_eventConverter (processes t ! nat pIndex) then Inr (DQERR_OK, t)
      else case enableEventConverter E pIndex t of
        Inl e \<Rightarrow> Inl e
      | Inr (rc, t1) \<Rightarrow> Inr (if rc \<noteq> DQERR_OK then DQERR_ERR else DQERR_OK, t1))"

definition emit :: "Env \<Rightarrow> int \<Rightarrow> (Trace \<Rightarrow> Event) \<Rightarrow> step" where
  "emit E pIndex ev =
     guarded (\<lambda>t. pIndex \<ge> 0 \<and> eventConvert t) (and_then (need_converter E pIndex) (act (tell ev)))"

section \<open>In-circuit trace messages\<close>

text \<open>
  The two message kinds have the same cases. With synchronisation the message holds the full
  address, otherwise the exclusive or with the last one.
\<close>

definition ict_faddr :: "bool \<Rightarrow> Trace \<Rightarrow> Trace" where
  "ict_faddr ws t =
     (let u = ict_ckdata0 (tr_nm t) in if ws then set_faddr (push_bit 1 u) t else xor_faddr u t)"

definition ict_trigger ::
  "(nat \<Rightarrow> u8 \<Rightarrow> TIMESTAMP \<Rightarrow> int \<Rightarrow> u8 \<Rightarrow> ADDRESS \<Rightarrow> ADDRESS \<Rightarrow> Event) \<Rightarrow> bool \<Rightarrow> Env \<Rightarrow> bool \<Rightarrow> int \<Rightarrow> int \<Rightarrow> step" where
  "ict_trigger kind data1 E ws pIndex pd t =
     (let nm = tr_nm t; ev = (\<lambda>d t. kind (nat pIndex) (coreId nm) (ts_of t) pd (ict_ckdf nm) (faddr_of t) d) in
      if ict_ckdf nm = 0 then and_then (act (ict_faddr ws)) (emit E pIndex (ev 0)) t
      else if ict_ckdf nm = 1 then
        and_then (act (\<lambda>t. pc_from_faddr (ict_faddr ws t)))
          (emit E pIndex (ev (if data1 then ict_ckdata1 nm else 0))) t
      else Inr (DQERR_ERR, t))"

definition ict_extTrig :: "Env \<Rightarrow> bool \<Rightarrow> int \<Rightarrow> int \<Rightarrow> step" where
  "ict_extTrig = ict_trigger emitExtTrigEvent True"

text \<open>Without synchronisation the watchpoint number of an event trace is not passed on.\<close>

definition ict_watchpoint :: "Env \<Rightarrow> bool \<Rightarrow> int \<Rightarrow> int \<Rightarrow> step" where
  "ict_watchpoint E ws = ict_trigger emitWatchpoint ws E ws"

text \<open>Calls and returns of a history trace: the target is computed and stored in the message.\<close>

definition ict_call_htm :: "Env \<Rightarrow> bool \<Rightarrow> int \<Rightarrow> int \<Rightarrow> step" where
  "ict_call_htm E ws pIndex pd =
     and_then (act (\<lambda>t. pc_from_faddr (ict_faddr ws t)))
       (guarded (\<lambda>t. pIndex \<ge> 0 \<and> (eventConvert t \<or> has_ctf (processes t ! nat pIndex)))
         (\<lambda>t. case nextAddr_call E (pc_of t) t of
            Inl e \<Rightarrow> Inl e
          | Inr (rc, nextPC, crFlags, t1) \<Rightarrow>
              if rc \<noteq> DQERR_OK then Inr (DQERR_ERR, t1)
              else and_then (act (\<lambda>t. t\<lparr>tr_nm := (tr_nm t)\<lparr>ict_ckdata1 := nextPC\<rparr>\<rparr>))
                (and_then (guarded (\<lambda>t. has_ctf (processes t ! nat pIndex))
                    (act (tell (\<lambda>t. addCall (nat pIndex) (coreId (tr_nm t)) (pc_of t) nextPC (ts_of t)))))
                  (emit E pIndex (\<lambda>t. emitCallRet (nat pIndex) (coreId (tr_nm t)) (ts_of t) pd (ict_ckdf (tr_nm t))
                      (pc_of t) (if ws then faddr_of t else nextPC) isCall))) t1))"

text \<open>Calls and returns of an event trace: the message has both addresses.\<close>

definition ict_call_addrs :: "bool \<Rightarrow> Trace \<Rightarrow> Trace" where
  "ict_call_addrs ws t =
     (let d0 = push_bit 1 (ict_ckdata0 (tr_nm t)); d1 = push_bit 1 (ict_ckdata1 (tr_nm t)) in
      if ws then set_faddr (d0 XOR d1) (set_pc d0 t)
      else if faddr_of t \<noteq> 0 then
        (let p = faddr_of t XOR d0 in set_faddr (p XOR d1) (set_pc p t))
      else set_pc 0 t)"

definition ctf_call :: "int \<Rightarrow> crflags \<Rightarrow> step" where
  "ctf_call pIndex crFlags =
     (if crFlags AND isCall \<noteq> 0 then
        act (tell (\<lambda>t. addCall (nat pIndex) (coreId (tr_nm t)) (pc_of t) (faddr_of t) (ts_of t)))
      else if crFlags AND isReturn \<noteq> 0 \<or> crFlags AND isExceptionReturn \<noteq> 0 then
        act (tell (\<lambda>t. addRet (nat pIndex) (coreId (tr_nm t)) (pc_of t) (faddr_of t) (ts_of t)))
      else give_up DQERR_ERR)"

text \<open>
  With synchronisation the event converter is called only for a process that also has a CTF
  converter; without it, the event converter is created and called in any case.
\<close>

definition ict_call_event :: "Env \<Rightarrow> bool \<Rightarrow> int \<Rightarrow> int \<Rightarrow> step" where
  "ict_call_event E ws pIndex pd =
     and_then (act (ict_call_addrs ws))
       (guarded (\<lambda>t. pIndex \<ge> 0 \<and> (eventConvert t \<or> has_ctf (processes t ! nat pIndex)))
         (\<lambda>t. case nextAddr_call E (pc_of t) t of
            Inl e \<Rightarrow> Inl e
          | Inr (rc, nextPC, crFlags, t1) \<Rightarrow>
              if rc \<noteq> DQERR_OK then Inr (DQERR_ERR, t1)
              else let ev = (\<lambda>t. emitCallRet (nat pIndex) (coreId (tr_nm t)) (ts_of t) pd (ict_ckdf (tr_nm t))
                     (pc_of t) (faddr_of t) crFlags) in
                if ws then
                  guarded (\<lambda>t. has_ctf (processes t ! nat pIndex)) (and_then (ctf_call pIndex crFlags) (emit E pIndex ev)) t1
                else and_then (guarded (\<lambda>t. has_ctf (processes t ! nat pIndex)) (ctf_call pIndex crFlags))
                       (and_then (need_converter E pIndex) (act (tell ev))) t1))"

definition ict_inferableCall :: "Env \<Rightarrow> bool \<Rightarrow> int \<Rightarrow> int \<Rightarrow> step" where
  "ict_inferableCall E ws pIndex pd t =
     (if ict_ckdf (tr_nm t) = 0 then ict_call_htm E ws pIndex pd t
      else if ict_ckdf (tr_nm t) = 1 then ict_call_event E ws pIndex pd t
      else Inr (DQERR_ERR, t))"

text \<open>The address update of the other kinds, for the one value of \<^verbatim>\<open>ckdf\<close> they allow.\<close>

definition ict_move :: "bool \<Rightarrow> u8 \<Rightarrow> step" where
  "ict_move ws ckdf t =
     (if ict_ckdf (tr_nm t) = ckdf then Inr (DQERR_OK, pc_from_faddr (ict_faddr ws t)) else Inr (DQERR_ERR, t))"

definition ict_trap ::
  "(nat \<Rightarrow> u8 \<Rightarrow> TIMESTAMP \<Rightarrow> int \<Rightarrow> u8 \<Rightarrow> ADDRESS \<Rightarrow> ADDRESS \<Rightarrow> Event) \<Rightarrow> Env \<Rightarrow> bool \<Rightarrow> int \<Rightarrow> int \<Rightarrow> step" where
  "ict_trap kind E ws pIndex pd =
     and_then (ict_move ws 1) (emit E pIndex (\<lambda>t. kind (nat pIndex) (coreId (tr_nm t)) (ts_of t) pd
       (ict_ckdf (tr_nm t)) (pc_of t) (ict_ckdata1 (tr_nm t))))"

definition ict_exception :: "Env \<Rightarrow> bool \<Rightarrow> int \<Rightarrow> int \<Rightarrow> step" where
  "ict_exception = ict_trap emitException"

definition ict_interrupt :: "Env \<Rightarrow> bool \<Rightarrow> int \<Rightarrow> int \<Rightarrow> step" where
  "ict_interrupt = ict_trap emitInterrupt"

definition ict_periodic :: "Env \<Rightarrow> bool \<Rightarrow> int \<Rightarrow> int \<Rightarrow> step" where
  "ict_periodic E ws pIndex pd =
     and_then (ict_move ws 0) (emit E pIndex (\<lambda>t. emitPeriodic (nat pIndex) (coreId (tr_nm t)) (ts_of t) pd
       (ict_ckdf (tr_nm t)) (pc_of t)))"

text \<open>A context message may switch processes; the event goes to the process switched to.\<close>

definition ict_context :: "Env \<Rightarrow> bool \<Rightarrow> int \<Rightarrow> int \<Rightarrow> step" where
  "ict_context E ws pIndex pd =
     and_then (ict_move ws 1) (\<lambda>t.
       let d = ict_ckdata1 (tr_nm t); tag = (ucast (d AND 3) :: u8); newPid = (ucast (drop_bit 2 d) :: u32);
           ev = (\<lambda>i t. emitContext (nat i) (coreId (tr_nm t)) (ts_of t) pd (ict_ckdf (tr_nm t)) (pc_of t) newPid tag) in
       if tag = 2 then
         (case processPidPriv (msg_core t) (sint newPid) 0xf 0xf t of
            Inl e \<Rightarrow> Inl e | Inr (i, t1) \<Rightarrow> emit E i (ev i) t1)
       else emit E pIndex (ev pIndex) (if tag = 0 \<or> tag = 3 then set_prv (-1) t else t))"

text \<open>
  Control messages: without synchronisation and without address, the event goes only to a
  converter that exists.
\<close>

definition ict_control :: "Env \<Rightarrow> bool \<Rightarrow> int \<Rightarrow> int \<Rightarrow> step" where
  "ict_control E ws pIndex pd t =
     (let ev = (\<lambda>d a t. emitControl (nat pIndex) (coreId (tr_nm t)) (ts_of t) pd (ict_ckdf (tr_nm t)) (d (tr_nm t)) (a t)) in
      if ict_ckdf (tr_nm t) = 0 then
        (if ws then emit E pIndex (ev ict_ckdata0 (\<lambda>_. 0)) t
         else guarded (\<lambda>t. pIndex \<ge> 0 \<and> has_eventConverter (processes t ! nat pIndex)) (act (tell (ev ict_ckdata0 (\<lambda>_. 0)))) t)
      else and_then (ict_move ws 1) (emit E pIndex (ev ict_ckdata1 pc_of)) t)"

definition ict_switch :: "Env \<Rightarrow> bool \<Rightarrow> int \<Rightarrow> int \<Rightarrow> step" where
  "ict_switch E ws pIndex pd t = (case ict_cksrc (tr_nm t) of
      ICT_EXT_TRIG \<Rightarrow> ict_extTrig E ws pIndex pd t
    | ICT_WATCHPOINT \<Rightarrow> ict_watchpoint E ws pIndex pd t
    | ICT_INFERABLECALL \<Rightarrow> ict_inferableCall E ws pIndex pd t
    | ICT_EXCEPTION \<Rightarrow> ict_exception E ws pIndex pd t
    | ICT_INTERRUPT \<Rightarrow> ict_interrupt E ws pIndex pd t
    | ICT_CONTEXT \<Rightarrow> ict_context E ws pIndex pd t
    | ICT_PC_SAMPLE \<Rightarrow> ict_periodic E ws pIndex pd t
    | ICT_CONTROL \<Rightarrow> ict_control E ws pIndex pd t
    | _ \<Rightarrow> Inr (DQERR_ERR, t))"

definition process_ict :: "Env \<Rightarrow> int \<Rightarrow> int \<Rightarrow> step" where
  "process_ict E pIndex pd = and_then (new_time TS_rel) (and_then (act (set_sync False)) (ict_switch E False pIndex pd))"

definition process_ictWS :: "Env \<Rightarrow> int \<Rightarrow> int \<Rightarrow> step" where
  "process_ictWS E pIndex pd = and_then (new_time TS_full) (and_then (act (set_sync True)) (ict_switch E True pIndex pd))"

section \<open>The message\<close>

text \<open>What is left of the counts of the current core, for the messages that must not meet any.\<close>

definition counts_of :: "Trace \<Rightarrow> CountType" where
  "counts_of t = getCurrentCountType (currentCore t) (counts t)"

definition reset_core :: "nat \<Rightarrow> Trace \<Rightarrow> Trace" where
  "reset_core core t = t\<lparr>counts := resetCounts core (resetStack core (counts t))\<rparr>"

text \<open>The messages with synchronisation.\<close>

definition sync_msg :: "ADDRESS \<Rightarrow> step" where
  "sync_msg f_addr t =
     (if counts_of t \<noteq> COUNTTYPE_none then Inr (DQERR_ERR, t)
      else and_then (new_time TS_full)
        (act (\<lambda>t. set_sync True (reset_core (msg_core t) (pc_from_faddr (set_faddr (push_bit 1 f_addr) t))))) t)"

definition branch_counts_left :: "Trace \<Rightarrow> bool" where
  "branch_counts_left t \<longleftrightarrow> counts_of t \<in> {COUNTTYPE_history, COUNTTYPE_taken, COUNTTYPE_notTaken}"

definition rel_msg :: "(Trace \<Rightarrow> Trace) \<Rightarrow> step" where
  "rel_msg f = and_then (new_time TS_rel) (act (\<lambda>t. set_sync False (f t)))"

definition indirect_msg :: "ADDRESS \<Rightarrow> step" where
  "indirect_msg u_addr = rel_msg (\<lambda>t. pc_from_faddr (xor_faddr u_addr t))"

definition ownership_msg :: "step" where
  "ownership_msg = and_then (new_time TS_rel) (\<lambda>t.
     let nm = tr_nm t; p = push_bit 4 (ownership_v nm) OR ownership_prv nm in
     if ownership_tag nm = 0 then Inr (DQERR_OK, set_prv p t)
     else if ownership_tag nm = 2 then
       map_sum id (\<lambda>(i, t1). (DQERR_OK, t1))
         (processPidPriv (msg_core t) (ownership_pid nm) (ownership_v nm) (ownership_prv nm) t)
     else if ownership_tag nm = 3 then Inr (DQERR_OK, set_prv p t)
     else Inr (DQERR_ERR, t))"

definition data_msg :: "Env \<Rightarrow> int \<Rightarrow> Trace \<Rightarrow> (DQErr \<times> bool \<times> Trace) outcome" where
  "data_msg E pIndex t = (case new_time TS_rel t of
      Inl e \<Rightarrow> Inl e
    | Inr (rc, t1) \<Rightarrow>
        if pIndex \<ge> 0 \<and> has_perfConverter (processes t1 ! nat pIndex) then
          (let nm = tr_nm t1;
               t2 = tell (\<lambda>t. processITCPerf (nat pIndex) (coreId nm) (ts_of t) (dataAcquisition_idTag nm) (dataAcquisition_data nm)) t1;
               (rc2, consumed) = perf_answer E (events t2)
           in Inr (rc2, consumed, t2))
        else Inr (DQERR_OK, False, t1))"

definition process_switch :: "Env \<Rightarrow> int \<Rightarrow> int \<Rightarrow> step" where
  "process_switch E pIndex pd t = (let nm = tr_nm t in case tcode nm of
      TCODE_ERROR \<Rightarrow> rel_msg (\<lambda>t. set_pc 0 (set_faddr 0 t)) t
    | TCODE_OWNERSHIP_TRACE \<Rightarrow> ownership_msg t
    | TCODE_RESOURCEFULL \<Rightarrow>
        (if resourceFull_rCode nm \<noteq> 0 \<and> branch_counts_left t then Inr (DQERR_ERR, t) else rel_msg id t)
    | TCODE_DIRECT_BRANCH \<Rightarrow> rel_msg id t
    | TCODE_CORRELATION \<Rightarrow> rel_msg id t
    | TCODE_INDIRECT_BRANCH \<Rightarrow> indirect_msg (indirectBranch_u_addr nm) t
    | TCODE_SYNC \<Rightarrow> sync_msg (sync_f_addr nm) t
    | TCODE_DIRECT_BRANCH_WS \<Rightarrow> sync_msg (directBranchWS_f_addr nm) t
    | TCODE_INDIRECT_BRANCH_WS \<Rightarrow> sync_msg (indirectBranchWS_f_addr nm) t
    | TCODE_INDIRECTBRANCHHISTORY \<Rightarrow>
        (if branch_counts_left t then Inr (DQERR_ERR, t) else indirect_msg (indirectHistory_u_addr nm) t)
    | TCODE_INDIRECTBRANCHHISTORY_WS \<Rightarrow> sync_msg (indirectHistoryWS_f_addr nm) t
    | TCODE_INCIRCUITTRACE \<Rightarrow> process_ict E pIndex pd t
    | TCODE_INCIRCUITTRACE_WS \<Rightarrow> process_ictWS E pIndex pd t
    | _ \<Rightarrow> Inr (DQERR_ERR, t))"

text \<open>The return code, \<^verbatim>\<open>consumed\<close> and the new state.\<close>

definition processTraceMessage :: "Env \<Rightarrow> Trace \<Rightarrow> (DQErr \<times> bool \<times> Trace) outcome" where
  "processTraceMessage E t =
     (let pIndex = currentProcessIndex t (msg_core t) in
      if msg_core t \<ge> DQR_MAXCORES \<or> pIndex \<ge> 0 \<and> nat pIndex \<ge> length (processes t) then Inl UB
      else let pd = (if pIndex \<ge> 0 then proc_pid (processes t ! nat pIndex) else -1) in
        if tcode (tr_nm t) = TCODE_DATA_ACQUISITION then data_msg E pIndex t
        else map_sum id (\<lambda>(rc, t1). (rc, False, t1)) (process_switch E pIndex pd t))"

section \<open>Starting over\<close>

definition prv_unknown :: u8 where "prv_unknown = 0xff"

text \<open>
  One core, or with a negative argument all cores. The first process is the one of a bare metal
  trace when its pid is -1. Starting over on all cores resets their counts but not their stacks.
\<close>

definition reset_one :: "nat \<Rightarrow> process \<Rightarrow> Trace \<Rightarrow> Trace" where
  "reset_one core p0 t =
     (let t1 = t\<lparr>lastTime := (lastTime t)(core := 0), lastFaddr := (lastFaddr t)(core := 0),
          tr_currentAddress := (tr_currentAddress t)(core := 0),
          counts := resetStack core (resetCounts core (counts t)),
          tr_state := (tr_state t)(core := TRACE_STATE_GETFIRSTSYNCMSG),
          prevMsgWasSync := (prevMsgWasSync t)(core := False),
          currentElfReader := (currentElfReader t)(core := elfReader p0),
          currentDisassembler := (currentDisassembler t)(core := disassembler p0)\<rparr> in
      if proc_pid p0 = -1 then
        t1\<lparr>currentPid := (currentPid t)(core := 0), currentProcessIndex := (currentProcessIndex t)(core := 0)\<rparr>
      else
        t1\<lparr>currentPrv := (currentPrv t)(core := prv_unknown), currentPid := (currentPid t)(core := -1),
           currentProcessIndex := (currentProcessIndex t)(core := -1)\<rparr>)"

definition reset_all :: "process \<Rightarrow> Trace \<Rightarrow> Trace" where
  "reset_all p0 t =
     (let t1 = t\<lparr>lastTime := (\<lambda>_. 0), lastFaddr := (\<lambda>_. 0), tr_currentAddress := (\<lambda>_. 0),
          counts := fold resetCounts [0..<DQR_MAXCORES] (counts t),
          tr_state := (\<lambda>_. TRACE_STATE_GETFIRSTSYNCMSG), prevMsgWasSync := (\<lambda>_. False),
          currentElfReader := (\<lambda>_. elfReader p0), currentDisassembler := (\<lambda>_. disassembler p0),
          currentCore := 0\<rparr> in
      if proc_pid p0 = -1 then t1\<lparr>currentPid := (\<lambda>_. 0), currentProcessIndex := (\<lambda>_. 0)\<rparr>
      else t1\<lparr>currentPrv := (\<lambda>_. prv_unknown), currentPid := (\<lambda>_. -1), currentProcessIndex := (\<lambda>_. -1)\<rparr>)"

definition resetTrace :: "int \<Rightarrow> Trace \<Rightarrow> Trace outcome" where
  "resetTrace core t = (case processes t of
      [] \<Rightarrow> Inl UB
    | p0 # ps \<Rightarrow>
        if core \<ge> int DQR_MAXCORES then Inl UB
        else Inr ((if core < 0 then reset_all p0 t else reset_one (nat core) p0 t)
             \<lparr>tr_status := DQERR_OK, readNewTraceMessage := True\<rparr>))"

end
