(* ===== verification/Itc_Print.thy ===== *)
theory Itc_Print
  imports Nexus
begin

text \<open>
  \<^verbatim>\<open>class ITCPrint\<close> (include/trace.hpp, src/dqr.cpp): the texts that the traced program writes to
  instrumentation channels. Per core there is a ring buffer of zero-terminated messages, and a circular
  list of \<^verbatim>\<open>TsList\<close> records, newest first, with the times of the messages. The records are linked by
  pointers and go through a free list that all cores share, so the model has a store: a pointer is
  \<open>Some p\<close> with \<open>p\<close> an address of \<open>heap\<close>, or \<open>None\<close>, and following the latter is undefined behaviour.
\<close>

section \<open>State\<close>

record TsList =
  ts_next :: "nat option"
  ts_prev :: "nat option"
  terminated :: bool
  startTime :: TIMESTAMP
  endTime :: TIMESTAMP
  ts_message :: "nat option"

definition TsList_new :: TsList where
  "TsList_new = \<lparr>ts_next = None, ts_prev = None, terminated = False, startTime = 0, endTime = 0, ts_message = None\<rparr>"

record nlStrings =
  nf :: int
  signedMask :: u32
  format :: "u8 list option"

record ITCPrint =
  numCores :: nat
  buffSize :: nat
  printChannel :: int
  itcOptFlags :: u32
  nlsStrings :: "nlStrings list option"
  pbuff :: "nat \<Rightarrow> u8 list"
  numMsgs :: "nat \<Rightarrow> nat"
  pbi :: "nat \<Rightarrow> nat"
  pbo :: "nat \<Rightarrow> nat"
  freeList :: "nat option"
  tsList :: "nat \<Rightarrow> nat option"
  heap :: "nat \<Rightarrow> TsList"
  heap_top :: nat

definition ITC_OPT_PRINT :: u32 where "ITC_OPT_PRINT = 1"
definition ITC_OPT_NLS :: u32 where "ITC_OPT_NLS = 2"

text \<open>The constructor; \<open>bufs\<close> is what the new buffers hold.\<close>

definition ITCPrint_new :: "u32 \<Rightarrow> int \<Rightarrow> int \<Rightarrow> int \<Rightarrow> nlStrings list option \<Rightarrow> (nat \<Rightarrow> u8 list) \<Rightarrow> ITCPrint" where
  "ITCPrint_new opts cores sz channel nls bufs =
     (let bad = cores \<le> 0 \<or> sz \<le> 0 in
      \<lparr>numCores = (if bad then 1 else nat cores), buffSize = (if bad then 1024 else nat sz), printChannel = channel,
       itcOptFlags = opts, nlsStrings = nls, pbuff = bufs, numMsgs = (\<lambda>_. 0), pbi = (\<lambda>_. 0), pbo = (\<lambda>_. 0),
       freeList = None, tsList = (\<lambda>_. None), heap = (\<lambda>_. TsList_new), heap_top = 0\<rparr>)"

section \<open>The ring buffer\<close>

definition roomInITCPrintQ :: "nat \<Rightarrow> ITCPrint \<Rightarrow> int" where
  "roomInITCPrintQ core q =
     (if core \<ge> numCores q then 0
      else if pbi q core > pbo q core then int (buffSize q) - int (pbi q core) + int (pbo q core) - 1
      else if pbi q core < pbo q core then int (pbo q core) - int (pbi q core) - 1
      else int (buffSize q) - 1)"

definition wrap :: "ITCPrint \<Rightarrow> nat \<Rightarrow> nat" where
  "wrap q i = (if i + 1 \<ge> buffSize q then 0 else i + 1)"

definition write_at :: "nat \<Rightarrow> u8 \<Rightarrow> ITCPrint \<Rightarrow> ITCPrint" where
  "write_at core b q = q\<lparr>pbuff := (pbuff q)(core := (pbuff q core)[pbi q core := b])\<rparr>"

definition put :: "nat \<Rightarrow> u8 \<Rightarrow> ITCPrint \<Rightarrow> ITCPrint" where
  "put core b q = write_at core b q\<lparr>pbi := (pbi q)(core := wrap q (pbi q core))\<rparr>"

definition take_char :: "nat \<Rightarrow> ITCPrint \<Rightarrow> u8" where
  "take_char core q = pbuff q core ! pbo q core"

definition skip :: "nat \<Rightarrow> ITCPrint \<Rightarrow> ITCPrint" where
  "skip core q = q\<lparr>pbo := (pbo q)(core := wrap q (pbo q core))\<rparr>"

definition count_msg :: "nat \<Rightarrow> ITCPrint \<Rightarrow> ITCPrint" where
  "count_msg core q = q\<lparr>numMsgs := (numMsgs q)(core := numMsgs q core + 1)\<rparr>"

section \<open>The list of times\<close>

definition upd :: "nat \<Rightarrow> (TsList \<Rightarrow> TsList) \<Rightarrow> ITCPrint \<Rightarrow> ITCPrint" where
  "upd p f q = q\<lparr>heap := (heap q)(p := f (heap q p))\<rparr>"

text \<open>A record from the free list, or a new one.\<close>

definition new_ts :: "ITCPrint \<Rightarrow> nat \<times> ITCPrint" where
  "new_ts q = (case freeList q of
      Some w \<Rightarrow> (w, upd w (\<lambda>r. r\<lparr>terminated := False, ts_message := None\<rparr>) (q\<lparr>freeList := ts_next (heap q w)\<rparr>))
    | None \<Rightarrow> (heap_top q, upd (heap_top q) (\<lambda>_. TsList_new) (q\<lparr>heap_top := heap_top q + 1\<rparr>)))"

text \<open>Putting a record in front of the list of a core, write by write; \<open>tlp\<close> is the head.\<close>

definition link :: "nat option \<Rightarrow> nat \<Rightarrow> ITCPrint \<Rightarrow> ITCPrint outcome" where
  "link tlp w q = (case tlp of
      None \<Rightarrow> Inr (upd w (\<lambda>r. r\<lparr>ts_next := Some w, ts_prev := Some w\<rparr>) q)
    | Some h \<Rightarrow>
        (let q1 = upd w (\<lambda>r. r\<lparr>ts_next := Some h\<rparr>) q;
             q2 = upd w (\<lambda>r. r\<lparr>ts_prev := ts_prev (heap q1 h)\<rparr>) q1;
             q3 = upd h (\<lambda>r. r\<lparr>ts_prev := Some w\<rparr>) q2 in
         case ts_prev (heap q3 w) of None \<Rightarrow> Inl UB | Some p \<Rightarrow> Inr (upd p (\<lambda>r. r\<lparr>ts_next := Some w\<rparr>) q3)))"

definition set_head :: "nat \<Rightarrow> nat option \<Rightarrow> ITCPrint \<Rightarrow> ITCPrint" where
  "set_head core p q = q\<lparr>tsList := (tsList q)(core := p)\<rparr>"

text \<open>Taking the record \<open>tsl\<close> out of the list with head \<open>h\<close> and putting it on the free list.\<close>

definition unlink :: "nat \<Rightarrow> nat \<Rightarrow> nat \<Rightarrow> ITCPrint \<Rightarrow> ITCPrint" where
  "unlink core h tsl q =
     (let q1 = (if ts_next (heap q tsl) = Some tsl then set_head core None q
                else let q0 = upd h (\<lambda>r. r\<lparr>ts_prev := ts_prev (heap q tsl)\<rparr>) q in
                  if ts_next (heap q0 h) = Some tsl then upd h (\<lambda>r. r\<lparr>ts_next := ts_next (heap q0 tsl)\<rparr>) q0 else q0)
      in (upd tsl (\<lambda>r. r\<lparr>ts_next := freeList q1, ts_prev := None\<rparr>) q1)\<lparr>freeList := Some tsl\<rparr>)"

definition consumeTerminatedTsList :: "nat \<Rightarrow> ITCPrint \<Rightarrow> (nat option \<times> ITCPrint) outcome" where
  "consumeTerminatedTsList core q =
     (if numMsgs q core > 0 then
        (case tsList q core of
           None \<Rightarrow> Inr (None, q)
         | Some h \<Rightarrow> (case ts_prev (heap q h) of
               None \<Rightarrow> Inl UB
             | Some tsl \<Rightarrow> if terminated (heap q tsl) then Inr (Some tsl, unlink core h tsl q) else Inr (None, q)))
      else Inr (None, q))"

definition consumeOldestTsList :: "nat \<Rightarrow> ITCPrint \<Rightarrow> (nat option \<times> ITCPrint) outcome" where
  "consumeOldestTsList core q = (case consumeTerminatedTsList core q of
      Inl e \<Rightarrow> Inl e
    | Inr (Some p, q1) \<Rightarrow> Inr (Some p, q1)
    | Inr (None, q1) \<Rightarrow> (case tsList q1 core of
          None \<Rightarrow> Inr (None, q1)
        | Some h \<Rightarrow> Inr (Some h, unlink core h h q1)))"

section \<open>Printing\<close>

text \<open>The arguments of a format string, cut from the data word.\<close>

definition nls_args :: "nlStrings \<Rightarrow> u32 \<Rightarrow> int list" where
  "nls_args s d =
     (if nf s = 1 then [uint d]
      else if nf s = 2 then
        map (\<lambda>i. let x = (ucast (drop_bit ((1 - i) * 16) d) :: 16 word) in if bit (signedMask s) i then sint x else uint x) [0, 1]
      else if nf s = 3 then
        [let x = drop_bit 21 d AND 0x7ff in if bit (signedMask s) 0 \<and> bit x 10 then sint (x OR 0xfffff800) else sint x,
         let x = drop_bit 10 d AND 0x7ff in if bit (signedMask s) 1 \<and> bit x 10 then sint (x OR 0xfffff800) else sint x,
         let x = d AND 0x3ff in if bit (signedMask s) 2 \<and> bit x 9 then sint (x OR 0xfffffc00) else sint x]
      else if nf s = 4 then
        map (\<lambda>i. let x = (ucast (drop_bit ((3 - i) * 8) d) :: u8) in if bit (signedMask s) i then sint x else uint x) [0, 1, 2, 3]
      else [])"

text \<open>
  The text of a message with a format string. What \<^verbatim>\<open>sprintf\<close> writes for a format and arguments is the
  parameter \<open>sprintf\<close>; \<open>bad\<close> is the text for a number of arguments that does not exist. The buffer
  has 256 bytes.
\<close>

record Sprintf =
  sprintf :: "u8 list \<Rightarrow> int list \<Rightarrow> u8 list"
  bad_nf :: "int \<Rightarrow> u8 list \<Rightarrow> u8 list"

definition nls_text :: "Sprintf \<Rightarrow> nlStrings \<Rightarrow> int \<Rightarrow> u8 list \<Rightarrow> u32 \<Rightarrow> u8 list outcome" where
  "nls_text F s channel fmt d =
     (let dst = (if nf s \<in> {0, 1, 2, 3, 4} then sprintf F fmt (nls_args s d) else bad_nf F channel fmt) in
      if length dst \<ge> 256 then Inl UB else Inr dst)"

fun put_text :: "nat \<Rightarrow> u8 list \<Rightarrow> int \<Rightarrow> ITCPrint \<Rightarrow> ITCPrint" where
  "put_text core [] room q = q"
| "put_text core (b # bs) room q =
     (if room \<ge> 2 then put_text core bs (room - 1) (put core b q) else put_text core bs room q)"

definition terminate :: "nat \<Rightarrow> ITCPrint \<Rightarrow> ITCPrint" where
  "terminate w = upd w (\<lambda>r. r\<lparr>terminated := True\<rparr>)"

definition nls_print :: "nat \<Rightarrow> u8 list \<Rightarrow> TIMESTAMP \<Rightarrow> ITCPrint \<Rightarrow> ITCPrint outcome" where
  "nls_print core dst tstamp q =
     (let tlp = tsList q core;
          q1 = (case tlp of
                  Some h \<Rightarrow> if \<not> terminated (heap q h) then terminate h (count_msg core (put core 0 q)) else q
                | None \<Rightarrow> q);
          (w, q2) = new_ts q1 in
      case link tlp w q2 of
        Inl e \<Rightarrow> Inl e
      | Inr q3 \<Rightarrow>
          (let q4 = set_head core (Some w)
                 (upd w (\<lambda>r. r\<lparr>startTime := tstamp, endTime := tstamp, ts_message := Some (pbi q3 core)\<rparr>) q3)
           in Inr (count_msg core (terminate w (put core 0 (put_text core dst (roomInITCPrintQ core q4) q4))))))"

text \<open>The bytes of a data word from the low end; a byte 0 or an end of line ends the message.\<close>

fun put_data :: "nat \<Rightarrow> nat \<Rightarrow> u8 list \<Rightarrow> int \<Rightarrow> ITCPrint \<Rightarrow> ITCPrint" where
  "put_data core w [] room q = q"
| "put_data core w (b # bs) room q =
     (if room \<ge> 2 then
        (let q1 = put core b q in
         if b = 0 then put_data core w bs (room - 1) (terminate w (count_msg core q1))
         else if b = 10 \<or> b = 13 then put_data core w bs (room - 2) (terminate w (count_msg core (put core 0 q1)))
         else put_data core w bs (room - 1) q1)
      else put_data core w bs room q)"

definition data_bytes :: "u32 \<Rightarrow> u8 list" where
  "data_bytes d = map (\<lambda>i. ucast (drop_bit (8 * i) d)) [0..<4]"

definition itc_print :: "nat \<Rightarrow> u32 \<Rightarrow> u32 \<Rightarrow> TIMESTAMP \<Rightarrow> ITCPrint \<Rightarrow> ITCPrint outcome" where
  "itc_print core addr data tstamp q =
     (let tlp = tsList q core;
          fresh = (case tlp of None \<Rightarrow> True | Some h \<Rightarrow> terminated (heap q h));
          start = (if fresh then
              (let (w, q1) = new_ts q in
               map_sum id (\<lambda>q2. (w, set_head core (Some w)
                   (upd w (\<lambda>r. r\<lparr>terminated := False, startTime := tstamp, ts_message := Some (pbi q2 core)\<rparr>) q2)))
                 (link tlp w q1))
            else Inr (the tlp, q))
      in map_sum id (\<lambda>(w, q3).
           let q4 = upd w (\<lambda>r. r\<lparr>endTime := tstamp\<rparr>) q3 in
           write_at core 0 (put_data core w (take (4 - unat (addr AND 3)) (data_bytes data)) (roomInITCPrintQ core q4) q4))
         start)"

definition print :: "Sprintf \<Rightarrow> nat \<Rightarrow> u32 \<Rightarrow> u32 \<Rightarrow> TIMESTAMP \<Rightarrow> ITCPrint \<Rightarrow> (bool \<times> ITCPrint) outcome" where
  "print F core addr data tstamp q =
     (let channel = uint (addr div 4);
          by_print = (if itcOptFlags q AND ITC_OPT_PRINT \<noteq> 0 then
              (if addr < word_of_int (printChannel q) * 4 \<or> addr \<ge> (word_of_int (printChannel q) + 1) * 4 then Inr (False, q)
               else map_sum id (\<lambda>q. (True, q)) (itc_print core addr data tstamp q))
            else Inr (False, q)) in
      if core \<ge> numCores q then Inr (False, q)
      else if itcOptFlags q AND ITC_OPT_NLS \<noteq> 0 \<and> addr AND 3 = 0 then
        (case nlsStrings q of
           None \<Rightarrow> by_print
         | Some nls \<Rightarrow>
             if nat channel \<ge> length nls then Inl UB
             else (case format (nls ! nat channel) of
                None \<Rightarrow> by_print
              | Some fmt \<Rightarrow> (case nls_text F (nls ! nat channel) channel fmt data of
                    Inl e \<Rightarrow> Inl e
                  | Inr dst \<Rightarrow> map_sum id (\<lambda>q. (True, q)) (nls_print core dst tstamp q))))
      else by_print)"

section \<open>Getting the messages\<close>

definition haveITCPrintMsgs :: "ITCPrint \<Rightarrow> bool" where
  "haveITCPrintMsgs q \<longleftrightarrow> (\<exists>core \<in> set [0..<numCores q]. numMsgs q core \<noteq> 0)"

text \<open>\<^verbatim>\<open>1 << core\<close> is undefined from core 31 on.\<close>

definition core_mask :: "nat list \<Rightarrow> u32 outcome" where
  "core_mask cores = (if \<exists>c \<in> set cores. c \<ge> 31 then Inl UB else Inr (fold (\<lambda>c m. m OR push_bit c 1) cores 0))"

definition getITCPrintMask :: "ITCPrint \<Rightarrow> u32 outcome" where
  "getITCPrintMask q = core_mask (filter (\<lambda>c. numMsgs q c \<noteq> 0) [0..<numCores q])"

definition getITCFlushMask :: "ITCPrint \<Rightarrow> u32 outcome" where
  "getITCFlushMask q = core_mask (filter (\<lambda>c. numMsgs q c > 0 \<or> pbo q c \<noteq> pbi q c) [0..<numCores q])"

definition haveITCPrintData :: "ITCPrint \<Rightarrow> nat list \<times> bool list" where
  "haveITCPrintData q = (map (numMsgs q) [0..<numCores q], map (\<lambda>i. pbi q i \<noteq> pbo q i) [0..<numCores q])"

text \<open>The bytes up to the next zero, at most \<open>n\<close>.\<close>

fun copy_msg :: "nat \<Rightarrow> nat \<Rightarrow> ITCPrint \<Rightarrow> u8 list \<times> ITCPrint" where
  "copy_msg core 0 q = ([], q)"
| "copy_msg core (Suc n) q =
     (if take_char core q = 0 then ([], q)
      else let (bs, q1) = copy_msg core n (skip core q) in (take_char core q # bs, q1))"

text \<open>
  A message that was got: its text and its two times; \<open>None\<close> when the function returns false. The two
  functions with a destination buffer of \<open>dstLen\<close> bytes:
\<close>

type_synonym got = "(u8 list \<times> TIMESTAMP \<times> TIMESTAMP) option"

definition getITCPrintMsg :: "nat \<Rightarrow> int \<Rightarrow> ITCPrint \<Rightarrow> (got \<times> ITCPrint) outcome" where
  "getITCPrintMsg core dstLen q =
     (if core \<ge> numCores q \<or> dstLen \<le> 0 \<or> numMsgs q core = 0 then Inr (None, q)
      else case consumeTerminatedTsList core q of
        Inl e \<Rightarrow> Inl e
      | Inr (None, q1) \<Rightarrow> Inr (None, q1)
      | Inr (Some p, q1) \<Rightarrow>
          (let (bs, q2) = copy_msg core (nat (dstLen - 1)) (q1\<lparr>numMsgs := (numMsgs q1)(core := numMsgs q1 core - 1)\<rparr>)
           in Inr (Some (bs, startTime (heap q1 p), endTime (heap q1 p)), skip core q2)))"

definition flushITCPrintMsg :: "nat \<Rightarrow> int \<Rightarrow> ITCPrint \<Rightarrow> (got \<times> ITCPrint) outcome" where
  "flushITCPrintMsg core dstLen q =
     (if core \<ge> numCores q \<or> dstLen \<le> 0 then Inr (None, q)
      else if numMsgs q core > 0 then getITCPrintMsg core dstLen q
      else if pbo q core \<noteq> pbi q core then
        (case consumeOldestTsList core q of
           Inl e \<Rightarrow> Inl e
         | Inr (None, q1) \<Rightarrow> Inr (None, q1)
         | Inr (Some p, q1) \<Rightarrow>
             if terminated (heap q1 p) then Inr (None, q1)
             else (let (bs, q2) = copy_msg core (nat (dstLen - 1)) q1 in
                   Inr (Some (bs, startTime (heap q1 p), endTime (heap q1 p)), q2)))
      else Inr (None, q))"

text \<open>
  The functions that return a string copy up to the next zero. When a whole round of the buffer
  has none, they never end: the result is \<open>None\<close>.
\<close>

definition copy_str :: "nat \<Rightarrow> ITCPrint \<Rightarrow> (u8 list \<times> ITCPrint) option" where
  "copy_str core q =
     (let (bs, q1) = copy_msg core (buffSize q) q in if take_char core q1 = 0 then Some (bs, q1) else None)"

definition getITCPrintStr :: "nat \<Rightarrow> ITCPrint \<Rightarrow> (got \<times> ITCPrint) outcome option" where
  "getITCPrintStr core q =
     (if core \<ge> numCores q \<or> numMsgs q core = 0 then Some (Inr (None, q))
      else case consumeTerminatedTsList core q of
        Inl e \<Rightarrow> Some (Inl e)
      | Inr (None, q1) \<Rightarrow> Some (Inr (None, q1))
      | Inr (Some p, q1) \<Rightarrow>
          map_option (\<lambda>(bs, q2). Inr (Some (bs, startTime (heap q1 p), endTime (heap q1 p)), skip core q2))
            (copy_str core (q1\<lparr>numMsgs := (numMsgs q1)(core := numMsgs q1 core - 1)\<rparr>)))"

definition flushITCPrintStr :: "nat \<Rightarrow> ITCPrint \<Rightarrow> (got \<times> ITCPrint) outcome option" where
  "flushITCPrintStr core q =
     (if core \<ge> numCores q then Some (Inr (None, q))
      else if numMsgs q core > 0 then getITCPrintStr core q
      else if pbo q core \<noteq> pbi q core then
        (case consumeOldestTsList core q of
           Inl e \<Rightarrow> Some (Inl e)
         | Inr (None, q1) \<Rightarrow> Some (Inr (None, q1))
         | Inr (Some p, q1) \<Rightarrow>
             if terminated (heap q1 p) then Some (Inr (None, q1))
             else map_option (\<lambda>(bs, q2). Inr (Some (bs, startTime (heap q1 p), endTime (heap q1 p)), q2)) (copy_str core q1))
      else Some (Inr (None, q)))"

section \<open>Messages with print data\<close>

definition processITCPrintData :: "Sprintf \<Rightarrow> NexusMessage \<Rightarrow> ITCPrint option \<Rightarrow> (bool \<times> ITCPrint option) outcome" where
  "processITCPrintData F nm ip = (case ip of
      None \<Rightarrow> Inr (False, None)
    | Some q \<Rightarrow> (case tcode nm of
          TCODE_DATA_ACQUISITION \<Rightarrow> map_sum id (\<lambda>(b, q). (b, Some q))
            (print F (unat (coreId nm)) (dataAcquisition_idTag nm) (dataAcquisition_data nm) (time nm) q)
        | TCODE_AUXACCESS_WRITE \<Rightarrow> map_sum id (\<lambda>(b, q). (b, Some q))
            (print F (unat (coreId nm)) (auxAccessWrite_addr nm) (auxAccessWrite_data nm) (time nm) q)
        | _ \<Rightarrow> Inr (False, Some q)))"

end
