(* ===== verification/Next_Instruction.thy ===== *)
theory Next_Instruction
  imports Ca_Trace Trace_Msg Slice_Reader Itc_Print
begin

text \<open>
  \<^verbatim>\<open>Trace::NextInstruction\<close> (src/trace.cpp): the state machine of the decoder. Every call returns the next
  instruction, the message that was retired, source information, or a combination of these.

  The state of a call is a \<open>Session\<close>: the trace, the message reader, the state of the connection, the
  print queue, the objects the results point to, and which of the three result pointers have been
  set. Which results the caller wants is \<open>Want\<close>. \<open>Extern\<close> holds what the code reaches outside the modelled
  classes: recv, the formatting of texts, the source lines of an address, the fields of the instruction
  and source objects that the modelled code does not set, the content of uninitialised local variables
  and of the word behind the data of a cycle accurate trace. \<open>ca\<close> is the cycle accurate trace, if there
  is one, with what the trace keeps of it.
\<close>

section \<open>State\<close>

record Instruction =
  in_coreId :: u8
  in_prv :: u8
  in_pid :: u32
  CRFlag :: crflags
  brFlags :: BranchFlags
  in_address :: ADDRESS
  instSize :: int
  in_instruction :: u32
  in_timestamp :: TIMESTAMP
  qDepth :: u8
  arithInProcess :: u8
  loadInProcess :: u8
  storeInProcess :: u8
  in_caFlags :: u32
  in_pipeCycles :: u32
  VIStartCycles :: u32
  VIFinishCycles :: u32

type_synonym lines = "string \<times> string \<times> string \<times> nat"

record Source =
  src_coreId :: u8
  src_prv :: u8
  src_pid :: u32
  src_lines :: lines

record Want =
  w_inst :: bool
  w_msg :: bool
  w_src :: bool

record 'net Session =
  tr :: Trace
  sfp :: "SliceFileParser option"
  net :: 'net
  itcPrint :: "ITCPrint option"
  instructionInfo :: Instruction
  sourceInfo :: Source
  messageInfo :: NexusMessage
  got_inst :: bool
  got_msg :: bool
  got_src :: bool
  caTrace :: "CATrace option"
  syncCount :: int
  caSyncAddr :: ADDRESS
  lastCycle :: "nat \<Rightarrow> TIMESTAMP"
  eCycleCount :: "nat \<Rightarrow> int"

record 'net Extern =
  x_env :: Env
  x_recv :: "'net recv"
  x_sprintf :: Sprintf
  getSrcLines :: "Disassembler \<Rightarrow> ADDRESS \<Rightarrow> DQErr \<times> lines"
  inst_object :: Instruction
  src_object :: Source
  kmem_source :: Source
  junk_addr :: ADDRESS
  junk_ca :: CAOut
  ca_past :: u32

text \<open>What a part of the code does next: return a code, or go on.\<close>

datatype ret = Return DQErr | Go

type_synonym 'net move = "'net Session \<Rightarrow> (ret \<times> 'net Session) outcome"

definition on_trace :: "(Trace \<Rightarrow> Trace) \<Rightarrow> 'net Session \<Rightarrow> 'net Session" where
  "on_trace f s = s\<lparr>tr := f (tr s)\<rparr>"

definition core :: "'net Session \<Rightarrow> nat" where
  "core s = currentCore (tr s)"

definition msg_of :: "'net Session \<Rightarrow> NexusMessage" where
  "msg_of s = tr_nm (tr s)"

definition set_status :: "DQErr \<Rightarrow> 'net Session \<Rightarrow> 'net Session" where
  "set_status e = on_trace (\<lambda>t. t\<lparr>tr_status := e\<rparr>)"

definition set_state :: "state \<Rightarrow> 'net Session \<Rightarrow> 'net Session" where
  "set_state st = on_trace (\<lambda>t. t\<lparr>tr_state := (tr_state t)(currentCore t := st)\<rparr>)"

definition want_msg :: "'net Session \<Rightarrow> 'net Session" where
  "want_msg = on_trace (\<lambda>t. t\<lparr>readNewTraceMessage := True\<rparr>)"

definition fatal :: "'net Session \<Rightarrow> (ret \<times> 'net Session) outcome" where
  "fatal s = Inr (Return DQERR_ERR, set_state TRACE_STATE_ERROR (set_status DQERR_ERR s))"

definition then_do :: "'net Session outcome \<Rightarrow> 'net move \<Rightarrow> (ret \<times> 'net Session) outcome" where
  "then_do r f = (case r of Inl e \<Rightarrow> Inl e | Inr s \<Rightarrow> f s)"

definition reset :: "int \<Rightarrow> 'net Session \<Rightarrow> 'net Session outcome" where
  "reset c s = map_sum id (\<lambda>t. s\<lparr>tr := t\<rparr>) (resetTrace c (tr s))"

section \<open>Results\<close>

text \<open>
  The block that hands out the message: the object gets the message with its process, time and
  address, and is given to the caller unless it went to the print queue.
\<close>

definition give_msg :: "'net Extern \<Rightarrow> Want \<Rightarrow> bool \<Rightarrow> ADDRESS \<Rightarrow> 'net Session \<Rightarrow> 'net Session outcome" where
  "give_msg X w consumed a s =
     (if \<not> w_msg w then Inr s
      else let t = tr s; c = core s;
             s1 = s\<lparr>messageInfo := (tr_nm t)\<lparr>pid := word_of_int (currentPid t c), prv := currentPrv t c,
                      currentAddress := a, time := lastTime t c\<rparr>\<rparr> in
        if consumed then Inr s1
        else map_sum id (\<lambda>(b, ip). (if b then s1 else s1\<lparr>got_msg := True\<rparr>)\<lparr>itcPrint := ip\<rparr>)
               (processITCPrintData (x_sprintf X) (messageInfo s1) (itcPrint s)))"

definition here :: "'net Session \<Rightarrow> ADDRESS" where
  "here s = tr_currentAddress (tr s) (core s)"

text \<open>The end of the error paths: give up, or with tolerated errors wait for synchronisation.\<close>

definition tolerate :: "int \<Rightarrow> 'net move" where
  "tolerate c s =
     (let s1 = on_trace (\<lambda>t. t\<lparr>tolerantError := True\<rparr>) s in
      if \<not> tolerateErrors (tr s) then fatal s1
      else map_sum id (\<lambda>s2. (Return DQERR_OK, s2)) (reset c s1))"

definition fail_msg :: "'net Extern \<Rightarrow> Want \<Rightarrow> bool \<Rightarrow> 'net move" where
  "fail_msg X w consumed s = then_do (give_msg X w consumed (here s) s) (\<lambda>s. tolerate (int (core s)) s)"

text \<open>\<^verbatim>\<open>Disassembler::disassemble\<close>, without the cache of earlier results, and \<^verbatim>\<open>KMem::disassemble\<close>.\<close>

definition Disassembler_disassemble ::
  "'net Extern \<Rightarrow> Disassembler \<Rightarrow> ADDRESS \<Rightarrow> (DQErr \<times> Instruction \<times> Source) outcome" where
  "Disassembler_disassemble X d addr =
     (let failed = Inr (DQERR_ERR, inst_object X, src_object X) in
      if sectionLst d = [] then failed
      else case getSectionByAddress (sectionLst d) addr of
        None \<Rightarrow> failed
      | Some sc \<Rightarrow> (case Disassembler_getInstruction (sectionLst d) addr of
            Inl UB \<Rightarrow> Inl UB
          | Inl (Rc e) \<Rightarrow> failed
          | Inr (inst, sz) \<Rightarrow> (case getSrcLines X d addr of (rc, ls) \<Rightarrow>
              if rc \<noteq> DQERR_OK then failed
              else Inr (DQERR_OK, (inst_object X)\<lparr>in_address := addr, in_instruction := inst, instSize := sz\<rparr>,
                        (src_object X)\<lparr>src_lines := ls\<rparr>))))"

definition KMem_disassemble ::
  "'net Extern \<Rightarrow> ADDRESS \<Rightarrow> KMem \<Rightarrow> (DQErr \<times> Instruction) outcome \<times> KMem" where
  "KMem_disassemble X addr k =
     (let failed = Inr (DQERR_ERR, inst_object X) in
      case find_or_dump (objdump_page (x_env X)) addr k of
        (Inl UB, k1) \<Rightarrow> (Inl UB, k1)
      | (Inl (Rc e), k1) \<Rightarrow> (failed, k1)
      | (Inr sc, k1) \<Rightarrow>
          (case code_at sc (code_index sc addr) of
             Inl e \<Rightarrow> Inl e
           | Inr half \<Rightarrow> (case decodeInstructionSize (ucast half) of
                 Inl e \<Rightarrow> failed
               | Inr sz \<Rightarrow> map_sum id (\<lambda>inst. (DQERR_OK,
                     (inst_object X)\<lparr>in_coreId := 0, CRFlag := 0, brFlags := BRFLAG_none, in_address := addr,
                       instSize := sz, in_instruction := inst, in_timestamp := 0\<rparr>))
                   (if sz > 16 then map_sum id (\<lambda>u. with_upper (ucast half) u) (code_at sc (code_index sc addr + 1))
                    else Inr (ucast half))), k1))"

definition Disassemble :: "'net Extern \<Rightarrow> ADDRESS \<Rightarrow> 'net Session \<Rightarrow> (DQErr \<times> 'net Session) outcome" where
  "Disassemble X addr s =
     (let t = tr s;
          by_core = (case currentDisassembler t (core s) of
              None \<Rightarrow> Inr (DQERR_ERR, s)
            | Some d \<Rightarrow> map_sum id (\<lambda>(rc, i, src).
                  if rc \<noteq> DQERR_OK then (DQERR_ERR, s) else (DQERR_OK, s\<lparr>instructionInfo := i, sourceInfo := src\<rparr>))
                (Disassembler_disassemble X d addr)) in
      case kMem t of
        None \<Rightarrow> by_core
      | Some k \<Rightarrow>
          if addr < kStart k then by_core
          else (case KMem_disassemble X addr k of (r, k1) \<Rightarrow>
            (let s1 = on_trace (\<lambda>t. t\<lparr>kMem := Some k1\<rparr>) s in
             map_sum id (\<lambda>(rc, i). if rc \<noteq> DQERR_OK then (DQERR_ERR, s1)
                 else (DQERR_OK, s1\<lparr>instructionInfo := i, sourceInfo := kmem_source X\<rparr>)) r)))"

definition give_src :: "'net Session \<Rightarrow> 'net Session" where
  "give_src s = s\<lparr>sourceInfo := (sourceInfo s)\<lparr>src_coreId := of_nat (core s),
       src_pid := word_of_int (currentPid (tr s) (core s)), src_prv := currentPrv (tr s) (core s)\<rparr>, got_src := True\<rparr>"

text \<open>Source information for the current address, when it is wanted and the process is known.\<close>

definition src_here :: "'net Extern \<Rightarrow> bool \<Rightarrow> 'net Session \<Rightarrow> 'net Session outcome" where
  "src_here X wanted s =
     (if wanted \<and> currentProcessIndex (tr s) (core s) \<ge> 0 then
        map_sum id (\<lambda>(rc, s1). if rc = DQERR_OK then give_src s1 else s1) (Disassemble X (here s) s)
      else Inr s)"

definition own_inst :: "u8 \<times> u8 \<times> u8 \<times> u8 \<Rightarrow> 'net Session \<Rightarrow> Instruction" where
  "own_inst qs s = (case qs of (q, a, l, st) \<Rightarrow>
     (instructionInfo s)\<lparr>qDepth := q, arithInProcess := a, loadInProcess := l, storeInProcess := st, in_coreId := of_nat (core s),
       in_pid := word_of_int (currentPid (tr s) (core s)), in_prv := currentPrv (tr s) (core s)\<rparr>)"

text \<open>Instruction and source information of an in-circuit message.\<close>

definition ict_inst :: "'net Extern \<Rightarrow> 'net Session \<Rightarrow> 'net Session outcome" where
  "ict_inst X s =
     map_sum id (\<lambda>(rc, cr, br, t).
         s\<lparr>tr := t, instructionInfo := (own_inst (0, 0, 0, 0) s)\<lparr>CRFlag := cr, brFlags := br, in_timestamp := lastTime t (currentCore t)\<rparr>,
           got_inst := True\<rparr>)
       (getCRBRFlags (x_env X) (getCKSRC (msg_of s)) (here s) (tr s))"

definition ict_info :: "'net Extern \<Rightarrow> Want \<Rightarrow> 'net Session \<Rightarrow> 'net Session outcome" where
  "ict_info X w s =
     (if currentProcessIndex (tr s) (core s) \<ge> 0 then
        (case Disassemble X (here s) s of
           Inl e \<Rightarrow> Inl e
         | Inr (rc, s1) \<Rightarrow>
             if rc \<noteq> DQERR_OK then Inr s1
             else map_sum id (\<lambda>s2. if w_src w then give_src s2 else s2) (if w_inst w then ict_inst X s1 else Inr s1))
      else Inr s)"

text \<open>Processing the message; the flag \<^verbatim>\<open>consumed\<close> goes to what follows.\<close>

definition process_msg :: "'net Extern \<Rightarrow> (DQErr \<Rightarrow> bool \<Rightarrow> 'net move) \<Rightarrow> 'net move" where
  "process_msg X f s = (case processTraceMessage (x_env X) (tr s) of
      Inl e \<Rightarrow> Inl e | Inr (rc, consumed, t) \<Rightarrow> f rc consumed (s\<lparr>tr := t\<rparr>))"

text \<open>The usual case: on an error hand out the message and fail, otherwise go on.\<close>

definition process_or_fail :: "'net Extern \<Rightarrow> Want \<Rightarrow> (bool \<Rightarrow> 'net move) \<Rightarrow> 'net move" where
  "process_or_fail X w f =
     process_msg X (\<lambda>rc consumed. if rc \<noteq> DQERR_OK then fail_msg X w consumed else f consumed)"

definition reset_counts :: "'net Session \<Rightarrow> 'net Session" where
  "reset_counts = on_trace (\<lambda>t. t\<lparr>counts := resetCounts (currentCore t) (counts t)\<rparr>)"

definition ret_status :: "'net move" where
  "ret_status s = Inr (Return (tr_status (tr s)), s)"

definition ret_ok :: "'net move" where
  "ret_ok s = Inr (Return DQERR_OK, set_status DQERR_OK s)"

section \<open>Waiting for synchronisation\<close>

definition first_tail :: "'net Extern \<Rightarrow> Want \<Rightarrow> bool \<Rightarrow> 'net move" where
  "first_tail X w consumed s = then_do (give_msg X w consumed (here (want_msg s)) (want_msg s)) ret_ok"

definition first_sync :: "'net Extern \<Rightarrow> Want \<Rightarrow> 'net move" where
  "first_sync X w = process_or_fail X w (\<lambda>consumed s.
     then_do (src_here X (w_src w) s) (\<lambda>s1. first_tail X w consumed (set_state TRACE_STATE_GETNEXTMSG (reset_counts s1))))"

definition full_from_last :: "'net Session \<Rightarrow> 'net Session" where
  "full_from_last s = (if here s = 0 then on_trace (\<lambda>t. set_pc (faddr_of t) t) s else s)"

text \<open>Kinds of in-circuit messages without an address to show.\<close>

definition no_address :: "NexusMessage \<Rightarrow> bool" where
  "no_address nm \<longleftrightarrow> getCKSRC nm \<in> {ICT_EXT_TRIG, ICT_WATCHPOINT} \<and> getCKDF nm = 0"

definition first_ict :: "'net Extern \<Rightarrow> Want \<Rightarrow> 'net move" where
  "first_ict X w = process_or_fail X w (\<lambda>consumed s.
     let s1 = full_from_last s; nm = msg_of s1 in
     if ict_cksrc nm = ICT_CONTROL \<and> ict_ckdf nm = 0 then first_tail X w consumed s1
     else then_do (if \<not> no_address nm \<and> (w_inst w \<or> w_src w) then ict_info X w s1 else Inr s1)
       (\<lambda>s2. first_tail X w consumed (set_state TRACE_STATE_GETNEXTMSG (reset_counts s2))))"

definition first_error :: "'net Extern \<Rightarrow> Want \<Rightarrow> 'net move" where
  "first_error X w = process_msg X (\<lambda>rc consumed s. then_do (give_msg X w consumed (here s) s) (\<lambda>s1.
     if rc \<noteq> DQERR_OK then tolerate (-1) s1
     else map_sum id (\<lambda>s2. (Return DQERR_OK, s2)) (reset (-1) s1)))"

definition get_first :: "'net Extern \<Rightarrow> Want \<Rightarrow> 'net move" where
  "get_first X w s = (case tcode (msg_of s) of
      TCODE_SYNC \<Rightarrow> first_sync X w s
    | TCODE_DIRECT_BRANCH_WS \<Rightarrow> first_sync X w s
    | TCODE_INDIRECT_BRANCH_WS \<Rightarrow> first_sync X w s
    | TCODE_INDIRECTBRANCHHISTORY_WS \<Rightarrow> first_sync X w s
    | TCODE_INCIRCUITTRACE_WS \<Rightarrow> first_ict X w s
    | TCODE_DATA_ACQUISITION \<Rightarrow> process_or_fail X w (first_tail X w) s
    | TCODE_OWNERSHIP_TRACE \<Rightarrow> process_or_fail X w (first_tail X w) s
    | TCODE_INCIRCUITTRACE \<Rightarrow> process_or_fail X w (first_tail X w) s
    | TCODE_DIRECT_BRANCH \<Rightarrow> process_or_fail X w (first_tail X w) s
    | TCODE_INDIRECT_BRANCH \<Rightarrow> process_or_fail X w (first_tail X w) s
    | TCODE_INDIRECTBRANCHHISTORY \<Rightarrow> process_or_fail X w (first_tail X w) s
    | TCODE_RESOURCEFULL \<Rightarrow> process_or_fail X w (first_tail X w) s
    | TCODE_CORRELATION \<Rightarrow> process_or_fail X w (first_tail X w) s
    | TCODE_ERROR \<Rightarrow> first_error X w s
    | _ \<Rightarrow> then_do (give_msg X w False 0 s) (\<lambda>s1. tolerate (int (core s1)) s1))"

section \<open>Retiring a message\<close>

definition b_type_of :: "NexusMessage \<Rightarrow> BType" where
  "b_type_of nm = (case tcode nm of
      TCODE_INDIRECT_BRANCH_WS \<Rightarrow> indirectBranchWS_b_type nm
    | TCODE_INDIRECT_BRANCH \<Rightarrow> indirectBranch_b_type nm
    | TCODE_INDIRECTBRANCHHISTORY \<Rightarrow> indirectHistory_b_type nm
    | TCODE_INDIRECTBRANCHHISTORY_WS \<Rightarrow> indirectHistoryWS_b_type nm
    | _ \<Rightarrow> BTYPE_UNDEFINED)"

definition note_exception :: "'net Session \<Rightarrow> 'net Session" where
  "note_exception s = (if b_type_of (msg_of s) = BTYPE_EXCEPTION
     then on_trace (\<lambda>t. t\<lparr>enterISR := (enterISR t)(currentCore t := isInterrupt)\<rparr>) s else s)"

definition retire_counts :: "'net Extern \<Rightarrow> Want \<Rightarrow> 'net move" where
  "retire_counts X w = process_or_fail X w (\<lambda>consumed s.
     then_do (give_msg X w consumed (here s) s) (\<lambda>s1.
       then_do (src_here X (w_src w \<and> \<not> got_src s1) s1) (\<lambda>s2.
         ret_ok (set_state TRACE_STATE_GETNEXTMSG (want_msg (note_exception s2))))))"

definition retire_correlation :: "'net Extern \<Rightarrow> Want \<Rightarrow> 'net move" where
  "retire_correlation X w = process_msg X (\<lambda>rc consumed s.
     then_do (give_msg X w consumed (lastFaddr (tr s) (core s) + word_of_int (s32 (correlation_i_cnt (msg_of s) * 2))) s) (\<lambda>s1.
       if rc \<noteq> DQERR_OK then tolerate (int (core s1)) s1
       else map_sum id (\<lambda>s2. (Return DQERR_OK, s2)) (reset (int (core s1)) s1)))"

definition retire :: "'net Extern \<Rightarrow> Want \<Rightarrow> 'net move" where
  "retire X w s = (case tcode (msg_of s) of
      TCODE_SYNC \<Rightarrow> retire_counts X w s
    | TCODE_DIRECT_BRANCH_WS \<Rightarrow> retire_counts X w s
    | TCODE_INDIRECT_BRANCH_WS \<Rightarrow> retire_counts X w s
    | TCODE_INDIRECTBRANCHHISTORY_WS \<Rightarrow> retire_counts X w s
    | TCODE_DIRECT_BRANCH \<Rightarrow> retire_counts X w s
    | TCODE_INDIRECT_BRANCH \<Rightarrow> retire_counts X w s
    | TCODE_INDIRECTBRANCHHISTORY \<Rightarrow> retire_counts X w s
    | TCODE_RESOURCEFULL \<Rightarrow> retire_counts X w s
    | TCODE_CORRELATION \<Rightarrow> retire_correlation X w s
    | _ \<Rightarrow> fatal s)"

section \<open>Taking a message\<close>

text \<open>
  A message with counts: set them, or retire the message at once when its process is not decoded.
  The errors of retiring are tolerated, but the state is reset.
\<close>

definition next_counts :: "'net Extern \<Rightarrow> Want \<Rightarrow> 'net move" where
  "next_counts X w s =
     (if currentProcessIndex (tr s) (core s) \<ge> 0 then
        (let (rc, c) = setCounts (msg_of s) (counts (tr s)); s1 = on_trace (\<lambda>t. t\<lparr>counts := c\<rparr>) s in
         if rc \<noteq> DQERR_OK then fail_msg X w False s1
         else Inr (Go, set_state TRACE_STATE_GETNEXTINSTRUCTION s1))
      else process_msg X (\<lambda>rc consumed s1. then_do (give_msg X w consumed (here s1) s1) (\<lambda>s2.
        if rc \<noteq> DQERR_OK then
          map_sum id (\<lambda>(r, s3). (r, if r = Return DQERR_OK then want_msg s3 else s3)) (tolerate (int (core s2)) s2)
        else Inr (Return DQERR_OK, want_msg s2))) s)"

definition next_ict :: "'net Extern \<Rightarrow> Want \<Rightarrow> 'net move" where
  "next_ict X w = process_or_fail X w (\<lambda>consumed s.
     let nm = msg_of s;
         (r, addr) =
           (if getCKSRC nm = ICT_CONTROL \<and> getCKDF nm = 0 then (Inr s, here s)
            else if no_address nm then (Inr s, lastFaddr (tr s) (core s))
            else if w_inst w \<or> w_src w then (ict_info X w s, here s)
            else (Inr s, junk_addr X)) in
     then_do r (\<lambda>s1. then_do (give_msg X w consumed addr s1) (\<lambda>s2. ret_status (want_msg s2))))"

definition next_error :: "'net Extern \<Rightarrow> Want \<Rightarrow> 'net move" where
  "next_error X w s =
     (case new_time TS_rel (tr s) of
        Inl e \<Rightarrow> Inl e
      | Inr (rc, t) \<Rightarrow> then_do (give_msg X w False (here (s\<lparr>tr := t\<rparr>)) (s\<lparr>tr := t\<rparr>)) (\<lambda>s1.
          then_do (reset (-1) s1) (\<lambda>s2. ret_status (want_msg s2))))"

definition next_data :: "'net Extern \<Rightarrow> Want \<Rightarrow> 'net move" where
  "next_data X w = process_or_fail X w (\<lambda>consumed s.
     then_do (give_msg X w consumed (here s) s) (\<lambda>s1. ret_status (want_msg s1)))"

text \<open>A change of process: decoding goes on only when it is known where.\<close>

definition switched :: "bool \<Rightarrow> int \<Rightarrow> 'net Session \<Rightarrow> 'net Session" where
  "switched was_sync before s =
     (let now = currentProcessIndex (tr s) (core s) in
      if before \<ge> 0 then
        (if now < 0 then set_state TRACE_STATE_GETFIRSTSYNCMSG (on_trace (reset_core (core s)) s) else s)
      else if now \<ge> 0 then (if was_sync then s else set_state TRACE_STATE_GETFIRSTSYNCMSG s)
      else set_state TRACE_STATE_GETFIRSTSYNCMSG s)"

definition next_ownership :: "'net Extern \<Rightarrow> Want \<Rightarrow> 'net move" where
  "next_ownership X w s =
     (let was_sync = prevMsgWasSync (tr s) (core s); before = currentProcessIndex (tr s) (core s) in
      process_or_fail X w (\<lambda>consumed s1.
        let tag = ownership_tag (msg_of s1);
            go_on = (\<lambda>s2. then_do (give_msg X w consumed (here s2) s2) (\<lambda>s3. ret_status (want_msg s3))) in
        if tag = 0 \<or> tag = 3 then go_on s1
        else if tag = 2 then go_on (switched was_sync before s1)
        else Inr (Return DQERR_ERR, s1)) s)"

definition get_next :: "'net Extern \<Rightarrow> Want \<Rightarrow> 'net move" where
  "get_next X w s = (case tcode (msg_of s) of
      TCODE_DIRECT_BRANCH \<Rightarrow> next_counts X w s
    | TCODE_INDIRECT_BRANCH \<Rightarrow> next_counts X w s
    | TCODE_SYNC \<Rightarrow> next_counts X w s
    | TCODE_DIRECT_BRANCH_WS \<Rightarrow> next_counts X w s
    | TCODE_INDIRECT_BRANCH_WS \<Rightarrow> next_counts X w s
    | TCODE_CORRELATION \<Rightarrow> next_counts X w s
    | TCODE_INDIRECTBRANCHHISTORY \<Rightarrow> next_counts X w s
    | TCODE_INDIRECTBRANCHHISTORY_WS \<Rightarrow> next_counts X w s
    | TCODE_RESOURCEFULL \<Rightarrow> next_counts X w s
    | TCODE_INCIRCUITTRACE \<Rightarrow> next_ict X w s
    | TCODE_INCIRCUITTRACE_WS \<Rightarrow> next_ict X w s
    | TCODE_ERROR \<Rightarrow> next_error X w s
    | TCODE_DATA_ACQUISITION \<Rightarrow> next_data X w s
    | TCODE_OWNERSHIP_TRACE \<Rightarrow> next_ownership X w s
    | _ \<Rightarrow> fatal s)"

section \<open>Synchronising with a cycle accurate trace\<close>

text \<open>The message without its process, which is not known before synchronisation.\<close>

definition give_bare :: "'net Extern \<Rightarrow> Want \<Rightarrow> bool \<Rightarrow> ADDRESS \<Rightarrow> 'net Session \<Rightarrow> 'net Session outcome" where
  "give_bare X w consumed a s =
     (if \<not> w_msg w then Inr s
      else let s1 = s\<lparr>messageInfo := (msg_of s)\<lparr>currentAddress := a, time := lastTime (tr s) (core s)\<rparr>\<rparr> in
        if consumed then Inr s1
        else map_sum id (\<lambda>(b, ip). (if b then s1 else s1\<lparr>got_msg := True\<rparr>)\<lparr>itcPrint := ip\<rparr>)
               (processITCPrintData (x_sprintf X) (messageInfo s1) (itcPrint s)))"

definition cate_give :: "'net Extern \<Rightarrow> Want \<Rightarrow> ('net Session \<Rightarrow> ADDRESS) \<Rightarrow> bool \<Rightarrow> 'net move" where
  "cate_give X w a consumed s = then_do (give_bare X w consumed (a s) s) (\<lambda>s1. ret_ok (want_msg s1))"

definition cate_process :: "'net Extern \<Rightarrow> Want \<Rightarrow> ('net Session \<Rightarrow> ADDRESS) \<Rightarrow> 'net move" where
  "cate_process X w a = process_msg X (\<lambda>rc consumed. if rc \<noteq> DQERR_OK then fatal else cate_give X w a consumed)"

definition cate_error :: "'net Extern \<Rightarrow> Want \<Rightarrow> 'net move" where
  "cate_error X w s =
     (case new_time TS_rel (tr s) of
        Inl e \<Rightarrow> Inl e
      | Inr (rc, t) \<Rightarrow> then_do (give_bare X w False (here (s\<lparr>tr := t\<rparr>)) (s\<lparr>tr := t\<rparr>)) (\<lambda>s1.
          then_do (reset (-1) s1) (\<lambda>s2. ret_ok (want_msg s2))))"

definition full_address :: "'net Session \<Rightarrow> ADDRESS" where
  "full_address s = push_bit 1 (getF_Addr (msg_of s))"

text \<open>The cycle accurate trace is run forward for at most \<open>n\<close> instructions, as long as addresses are known.\<close>

fun ca_forward :: "'net Extern \<Rightarrow> nat \<Rightarrow> ADDRESS \<Rightarrow> ADDRESS \<Rightarrow> CAOut \<Rightarrow> CATrace \<Rightarrow> 'net Session \<Rightarrow> (ret \<times> CATrace \<times> 'net Session) outcome" where
  "ca_forward X 0 teAddr saved out c s = Inr (Go, c, s)"
| "ca_forward X (Suc n) teAddr saved out c s =
     (if teAddr = caSyncAddr s then Inr (Go, c, s)
      else case nextCAAddr (x_env X) (caSyncAddr s) saved (tr s) of
        Inl e \<Rightarrow> Inl e
      | Inr (rc, a, saved1, t) \<Rightarrow>
          (let s1 = s\<lparr>tr := t, caSyncAddr := a\<rparr> in
           if rc \<noteq> DQERR_OK then Inr (Go, c, s1)
           else (case consume (ca_past X) INST_SCALER out c of
               Inl e \<Rightarrow> Inl e
             | Inr (rc, out1, c1) \<Rightarrow>
                 if rc = DQERR_EOF then Inr (Return rc, c1, set_status rc (set_state TRACE_STATE_DONE s1))
                 else if rc \<noteq> DQERR_OK then Inr (Return rc, c1, set_status rc (set_state TRACE_STATE_ERROR s1))
                 else ca_forward X n teAddr saved1 out1 c1 s1)))"

definition cate_sync :: "'net Extern \<Rightarrow> CATrace \<Rightarrow> 'net move" where
  "cate_sync X c s =
     (let teAddr = full_address s in
      case ca_forward X 30 teAddr (-1) (junk_ca X) c (s\<lparr>caSyncAddr := getCATraceStartAddr c\<rparr>) of
        Inl e \<Rightarrow> Inl e
      | Inr (Return e, c1, s1) \<Rightarrow> Inr (Return e, s1\<lparr>caTrace := Some c1\<rparr>)
      | Inr (Go, c1, s1) \<Rightarrow>
          (if teAddr = caSyncAddr s1 then Inr (Go, set_state TRACE_STATE_GETFIRSTSYNCMSG (s1\<lparr>caTrace := Some c1\<rparr>))
           else map_sum id (\<lambda>(rc, c2). (Go, set_state TRACE_STATE_GETFIRSTSYNCMSG
                  (s1\<lparr>caTrace := Some c2, syncCount := 16, caSyncAddr := getCATraceStartAddr c2\<rparr>))) (rewind c1)))"

definition cate_reason :: "'net Extern \<Rightarrow> Want \<Rightarrow> CATrace \<Rightarrow> 'net move" where
  "cate_reason X w c s = (case getSyncReason (msg_of s) of
      SYNC_EXIT_DEBUG \<Rightarrow> cate_sync X c s
    | SYNC_TRACE_ENABLE \<Rightarrow> cate_sync X c s
    | SYNC_NONE \<Rightarrow> fatal s
    | SYNC_cast v \<Rightarrow> fatal s
    | _ \<Rightarrow> cate_process X w full_address s)"

definition cate_ict :: "'net Extern \<Rightarrow> Want \<Rightarrow> CATrace \<Rightarrow> 'net move" where
  "cate_ict X w c s =
     (let nm = msg_of s in
      if getCKSRC nm \<in> {ICT_INFERABLECALL, ICT_EXT_TRIG, ICT_EXCEPTION, ICT_INTERRUPT, ICT_CONTEXT, ICT_WATCHPOINT, ICT_PC_SAMPLE}
      then cate_process X w full_address s
      else if getCKSRC nm = ICT_CONTROL then
        (if ict_ckdf nm = 1 \<and> ict_ckdata1 nm \<in> {2, 4} then cate_sync X c s
         else cate_process X w full_address s)
      else fatal s)"

definition cate_early :: "'net Extern \<Rightarrow> Want \<Rightarrow> 'net move" where
  "cate_early X w s =
     (if lastFaddr (tr s) (core s) \<noteq> 0 then cate_process X w here s else cate_give X w here False s)"

definition sync_cate :: "'net Extern \<Rightarrow> Want \<Rightarrow> 'net move" where
  "sync_cate X w s = (case caTrace s of
      None \<Rightarrow> fatal s
    | Some c \<Rightarrow> (case tcode (msg_of s) of
          TCODE_ERROR \<Rightarrow> cate_error X w s
        | TCODE_SYNC \<Rightarrow> cate_reason X w c s
        | TCODE_DIRECT_BRANCH_WS \<Rightarrow> cate_reason X w c s
        | TCODE_INDIRECT_BRANCH_WS \<Rightarrow> cate_reason X w c s
        | TCODE_INDIRECTBRANCHHISTORY_WS \<Rightarrow> cate_reason X w c s
        | TCODE_INCIRCUITTRACE_WS \<Rightarrow> cate_ict X w c s
        | TCODE_DEBUG_STATUS \<Rightarrow> fatal s
        | TCODE_DEVICE_ID \<Rightarrow> fatal s
        | TCODE_DATA_WRITE \<Rightarrow> fatal s
        | TCODE_DATA_READ \<Rightarrow> fatal s
        | TCODE_CORRECTION \<Rightarrow> fatal s
        | TCODE_DATA_WRITE_WS \<Rightarrow> fatal s
        | TCODE_DATA_READ_WS \<Rightarrow> fatal s
        | TCODE_WATCHPOINT \<Rightarrow> fatal s
        | TCODE_UNDEFINED \<Rightarrow> fatal s
        | _ \<Rightarrow> cate_early X w s))"

text \<open>
  \<^verbatim>\<open>Trace::setCATraceFile\<close>: every core has to synchronise with the cycle accurate trace.
\<close>

definition setCATraceFile :: "CATrace \<Rightarrow> CATraceQItem list \<Rightarrow> (string \<Rightarrow> u8 list option) \<Rightarrow> string option \<Rightarrow> CATraceType
    \<Rightarrow> 'net Session \<Rightarrow> (DQErr \<times> 'net Session) outcome" where
  "setCATraceFile mem junk files caf_name catype s =
     map_sum id (\<lambda>c. let s1 = s\<lparr>caTrace := Some c\<rparr> in
         if ca_status c \<noteq> DQERR_OK then (ca_status c, set_status (ca_status c) s1)
         else (tr_status (tr s), on_trace (\<lambda>t. t\<lparr>tr_state := (\<lambda>i. if i < DQR_MAXCORES then TRACE_STATE_SYNCCATE else tr_state t i)\<rparr>) s1))
       (CATrace_new mem junk files caf_name catype)"

section \<open>Running an instruction\<close>

text \<open>The results of an instruction that was run.\<close>

definition give_inst :: "crflags \<Rightarrow> BranchFlags \<Rightarrow> CAOut \<Rightarrow> u32 \<Rightarrow> 'net Session \<Rightarrow> 'net Session" where
  "give_inst cr br out prev s =
     (let t = tr s; c = core s;
          i = (own_inst (CAOut.qDepth out, arithDepth out, loadDepth out, storeDepth out) s)\<lparr>CRFlag := cr OR enterISR t c, brFlags := br\<rparr>;
          i1 = (if caTrace s \<noteq> None \<and> syncCount s = 0 then
                  i\<lparr>in_timestamp := ucast (pipeCycles out), in_pipeCycles := word_of_int (eCycleCount s c),
                    VIStartCycles := viStartCycles out - prev, VIFinishCycles := viFinishCycles out - prev - 1,
                    in_caFlags := caFlags out\<rparr>
                else i\<lparr>in_timestamp := lastTime t c\<rparr>) in
      s\<lparr>instructionInfo := i1, got_inst := True, tr := t\<lparr>enterISR := (enterISR t)(c := isNone)\<rparr>\<rparr>)"

text \<open>
  The cycles of an instruction from the cycle accurate trace, while the two traces run together. Before
  that, up to \<^verbatim>\<open>syncCount\<close> instructions are run until one is at the start of the cycle accurate trace. What
  follows gets the results, the cycle before and the session.
\<close>

definition count_cycles :: "CAOut \<Rightarrow> 'net Session \<Rightarrow> 'net Session" where
  "count_cycles out s =
     s\<lparr>eCycleCount := (eCycleCount s)(core s := sint (pipeCycles out - ucast (lastCycle s (core s)))),
       lastCycle := (lastCycle s)(core s := ucast (pipeCycles out))\<rparr>"

definition ca_cycles :: "'net Extern \<Rightarrow> InstType \<Rightarrow> (CAOut \<Rightarrow> u32 \<Rightarrow> 'net move) \<Rightarrow> 'net move" where
  "ca_cycles X iType f s = (case caTrace s of
      None \<Rightarrow> f (junk_ca X) 0 s
    | Some c \<Rightarrow>
        (let met = (caSyncAddr s = in_address (instructionInfo s));
             s1 = (if syncCount s > 0 then s\<lparr>syncCount := (if met then 0 else syncCount s - 1)\<rparr> else s) in
         if syncCount s > 0 \<and> \<not> met \<and> syncCount s1 = 0 then fatal s1
         else if syncCount s1 = 0 then
           (case consume (ca_past X) iType (junk_ca X) c of
              Inl e \<Rightarrow> Inl e
            | Inr (rc, out, c1) \<Rightarrow>
                (let s2 = set_status rc (s1\<lparr>caTrace := Some c1\<rparr>) in
                 if rc = DQERR_EOF then ret_status (set_state TRACE_STATE_DONE s2)
                 else if rc \<noteq> DQERR_OK then ret_status (set_state TRACE_STATE_ERROR s2)
                 else f out (ucast (lastCycle s2 (core s2))) (count_cycles out s2)))
         else f (junk_ca X) 0 s1))"

definition count_inst :: "Decoded \<Rightarrow> crflags \<Rightarrow> BranchFlags \<Rightarrow> 'net move" where
  "count_inst d cr br s = (case updateInstructionInfo (core s) (inst_size d) cr br (tr_analytics (tr s)) of
      Inl e \<Rightarrow> Inl e
    | Inr (rc, a) \<Rightarrow>
        (let s1 = set_status rc (on_trace (\<lambda>t. t\<lparr>tr_analytics := a\<rparr>) s) in
         if rc \<noteq> DQERR_OK then ret_status (set_state TRACE_STATE_ERROR s1)
         else if counts_of (tr s1) \<noteq> COUNTTYPE_none then ret_status s1
         else Inr (Go, set_state TRACE_STATE_RETIREMESSAGE s1)))"

definition ran :: "'net Extern \<Rightarrow> Want \<Rightarrow> Decoded \<Rightarrow> Next \<Rightarrow> 'net move" where
  "ran X w d nx s =
     (if nx_pc nx = -1 \<and> brFlag nx = BRFLAG_unknown then Inr (Go, set_state TRACE_STATE_RETIREMESSAGE s)
      else if nx_pc nx = -1 \<and> counts_of (tr s) \<noteq> COUNTTYPE_none then fail_msg X w False s
      else ca_cycles X (inst_type d) (\<lambda>out prev s1.
        let s2 = (if w_inst w then give_inst (crFlag nx) (brFlag nx) out prev s1 else s1);
            s3 = (if w_src w then give_src s2 else s2) in
        count_inst d (crFlag nx) (brFlag nx) s3) (on_trace (set_pc (nx_pc nx)) s))"

definition run_inst :: "'net Extern \<Rightarrow> Want \<Rightarrow> Decoded \<Rightarrow> 'net move" where
  "run_inst X w d s = (case Disassemble X (here s) s of
      Inl e \<Rightarrow> Inl e
    | Inr (_, s1) \<Rightarrow>
        (case nextAddr (x_env X) (core s1) (here s1) (msg_of s1) \<lparr>nx_pc = 0, crFlag = isNone, brFlag = BRFLAG_none\<rparr> (tr s1) of
           Inl e \<Rightarrow> Inl e
         | Inr (rc, nx, t) \<Rightarrow>
             if rc \<noteq> DQERR_OK then fail_msg X w False (s1\<lparr>tr := t\<lparr>tr_status := rc\<rparr>\<rparr>)
             else ran X w d nx (s1\<lparr>tr := t\<lparr>tr_status := rc\<rparr>\<rparr>)))"

definition get_instruction :: "'net Extern \<Rightarrow> Want \<Rightarrow> 'net move" where
  "get_instruction X w s =
     (if counts_of (tr s) = COUNTTYPE_none then Inr (Go, set_state TRACE_STATE_RETIREMESSAGE s)
      else if currentProcessIndex (tr s) (core s) < 0 then Inr (Return DQERR_ERR, set_state TRACE_STATE_ERROR s)
      else case fetch (x_env X) (here s) (tr s) of
        Inl e \<Rightarrow> Inl e
      | Inr (Fetch_failed e, t) \<Rightarrow> fail_msg X w False (s\<lparr>tr := t\<lparr>tr_status := e\<rparr>\<rparr>)
      | Inr (Decode_failed, t) \<Rightarrow> fail_msg X w False (s\<lparr>tr := t\<lparr>tr_status := DQERR_OK\<rparr>\<rparr>)
      | Inr (Fetched inst d, t) \<Rightarrow> run_inst X w d (s\<lparr>tr := t\<lparr>tr_status := DQERR_OK\<rparr>\<rparr>))"

text \<open>The switch on the state of the core.\<close>

definition state_switch :: "'net Extern \<Rightarrow> Want \<Rightarrow> 'net move" where
  "state_switch X w s = (case tr_state (tr s) (core s) of
      TRACE_STATE_SYNCCATE \<Rightarrow> sync_cate X w s
    | TRACE_STATE_GETFIRSTSYNCMSG \<Rightarrow> get_first X w s
    | TRACE_STATE_RETIREMESSAGE \<Rightarrow> retire X w s
    | TRACE_STATE_GETNEXTMSG \<Rightarrow> get_next X w s
    | TRACE_STATE_GETNEXTINSTRUCTION \<Rightarrow> get_instruction X w s
    | TRACE_STATE_DONE \<Rightarrow> Inr (Return DQERR_DONE, set_status DQERR_DONE s)
    | TRACE_STATE_ERROR \<Rightarrow> Inr (Return DQERR_ERR, set_status DQERR_ERR s))"

section \<open>Reading a message\<close>

text \<open>
  The inner loop reads until there is a message. On a socket it may wait forever; then the result
  is \<open>None\<close>.
\<close>

definition read_failed :: "DQErr \<Rightarrow> 'net move" where
  "read_failed rc s =
     (if rc = DQERR_EOF then Inr (Return DQERR_EOF, set_status DQERR_EOF (set_state TRACE_STATE_DONE s))
      else if rc = DQERR_BM then
        (let s1 = on_trace (\<lambda>t. t\<lparr>tolerantError := True\<rparr>) s in
         if tolerateErrors (tr s) then map_sum id (\<lambda>s2. (Go, s2)) (reset (-1) s1)
         else Inr (Return DQERR_ERR, set_state TRACE_STATE_ERROR s1))
      else fatal s)"

partial_function (option) read_msg ::
  "'net recv \<Rightarrow> SliceFileParser \<Rightarrow> 'net Session \<Rightarrow> (ret \<times> 'net Session) outcome option" where
  "read_msg recv p s =
     (case readNextTraceMsg recv p (msg_of s) (tr_analytics (tr s)) (net s) of
        None \<Rightarrow> None
      | Some (Inl e, p1, nm, a, n) \<Rightarrow> Some (Inl e)
      | Some (Inr (rc, haveMsg), p1, nm, a, n) \<Rightarrow>
          (let s1 = (on_trace (\<lambda>t. t\<lparr>tr_nm := nm, tr_analytics := a\<rparr>) s)\<lparr>sfp := Some p1, net := n\<rparr> in
           case (if rc = DQERR_OK then Inr (Go, s1) else read_failed rc s1) of
             Inl e \<Rightarrow> Some (Inl e)
           | Inr (Return e, s2) \<Rightarrow> Some (Inr (Return e, s2))
           | Inr (Go, s2) \<Rightarrow> if haveMsg then Some (Inr (Go, s2)) else read_msg recv p1 s2))"

text \<open>Sign extension of the addresses of a Linux trace; \<open>None\<close> is an unsupported message.\<close>

definition extend_ict :: "int \<Rightarrow> NexusMessage \<Rightarrow> NexusMessage outcome" where
  "extend_ict sz nm =
     (let e0 = map_sum id (\<lambda>a. nm\<lparr>ict_ckdata0 := a\<rparr>) (signExtendAddr sz (ict_ckdata0 nm)) in
      if ict_cksrc nm \<in> {ICT_EXT_TRIG, ICT_WATCHPOINT, ICT_EXCEPTION, ICT_INTERRUPT, ICT_CONTEXT, ICT_PC_SAMPLE} then e0
      else if ict_cksrc nm = ICT_INFERABLECALL then
        (if ict_ckdf nm = 1 then
           (case e0 of Inl e \<Rightarrow> Inl e
            | Inr nm1 \<Rightarrow> map_sum id (\<lambda>a. nm1\<lparr>ict_ckdata1 := a\<rparr>) (signExtendAddr sz (ict_ckdata1 nm1)))
         else e0)
      else Inr nm)"

definition extend_msg :: "int \<Rightarrow> NexusMessage \<Rightarrow> NexusMessage outcome option" where
  "extend_msg sz nm = (case tcode nm of
      TCODE_INDIRECT_BRANCH \<Rightarrow> Some (map_sum id (\<lambda>a. nm\<lparr>indirectBranch_u_addr := a\<rparr>) (signExtendAddr sz (indirectBranch_u_addr nm)))
    | TCODE_SYNC \<Rightarrow> Some (map_sum id (\<lambda>a. nm\<lparr>sync_f_addr := a\<rparr>) (signExtendAddr sz (sync_f_addr nm)))
    | TCODE_DIRECT_BRANCH_WS \<Rightarrow> Some (map_sum id (\<lambda>a. nm\<lparr>directBranchWS_f_addr := a\<rparr>) (signExtendAddr sz (directBranchWS_f_addr nm)))
    | TCODE_INDIRECT_BRANCH_WS \<Rightarrow> Some (map_sum id (\<lambda>a. nm\<lparr>indirectBranchWS_f_addr := a\<rparr>) (signExtendAddr sz (indirectBranchWS_f_addr nm)))
    | TCODE_INCIRCUITTRACE \<Rightarrow> Some (extend_ict sz nm)
    | TCODE_INCIRCUITTRACE_WS \<Rightarrow> Some (extend_ict sz nm)
    | TCODE_INDIRECTBRANCHHISTORY \<Rightarrow> Some (map_sum id (\<lambda>a. nm\<lparr>indirectHistory_u_addr := a\<rparr>) (signExtendAddr sz (indirectHistory_u_addr nm)))
    | TCODE_INDIRECTBRANCHHISTORY_WS \<Rightarrow> Some (map_sum id (\<lambda>a. nm\<lparr>indirectHistoryWS_f_addr := a\<rparr>) (signExtendAddr sz (indirectHistoryWS_f_addr nm)))
    | TCODE_DIRECT_BRANCH \<Rightarrow> Some (Inr nm)
    | TCODE_DATA_ACQUISITION \<Rightarrow> Some (Inr nm)
    | TCODE_ERROR \<Rightarrow> Some (Inr nm)
    | TCODE_CORRELATION \<Rightarrow> Some (Inr nm)
    | TCODE_OWNERSHIP_TRACE \<Rightarrow> Some (Inr nm)
    | TCODE_RESOURCEFULL \<Rightarrow> Some (Inr nm)
    | _ \<Rightarrow> None)"

definition linux_addrs :: "'net move" where
  "linux_addrs s =
     (if linuxTrace (tr s) then
        (case extend_msg (bitsPerAddress (tr s)) (msg_of s) of
           None \<Rightarrow> fatal s
         | Some (Inl e) \<Rightarrow> Inl e
         | Some (Inr nm) \<Rightarrow> Inr (Go, on_trace (\<lambda>t. t\<lparr>tr_nm := nm\<rparr>) s))
      else Inr (Go, s))"

text \<open>A branch trace that has messages of history traces is a history trace.\<close>

definition trace_kind :: "'net move" where
  "trace_kind s =
     (let to_htm = Inr (Go, on_trace (\<lambda>t. t\<lparr>traceType := TRACETYPE_HTM\<rparr>) s) in
      if traceType (tr s) = TRACETYPE_BTM then
        (if tcode (msg_of s) \<in> {TCODE_DIRECT_BRANCH, TCODE_INDIRECT_BRANCH, TCODE_DATA_ACQUISITION, TCODE_ERROR,
              TCODE_SYNC, TCODE_DIRECT_BRANCH_WS, TCODE_INDIRECT_BRANCH_WS, TCODE_INCIRCUITTRACE, TCODE_INCIRCUITTRACE_WS}
         then Inr (Go, s)
         else if tcode (msg_of s) = TCODE_CORRELATION then
           (if correlation_cdf (msg_of s) = 1 then to_htm else Inr (Go, s))
         else if tcode (msg_of s) \<in> {TCODE_OWNERSHIP_TRACE, TCODE_RESOURCEFULL, TCODE_INDIRECTBRANCHHISTORY,
              TCODE_INDIRECTBRANCHHISTORY_WS} then to_htm
         else fatal s)
      else Inr (Go, s))"

text \<open>Control messages that the caller does not want to see; \<^verbatim>\<open>CTF::et_controlIndex\<close> is bit \<open>0\<close>.\<close>

definition filtered :: "'net Session \<Rightarrow> bool" where
  "filtered s \<longleftrightarrow> tcode (msg_of s) \<in> {TCODE_INCIRCUITTRACE, TCODE_INCIRCUITTRACE_WS} \<and>
     getCKSRC (msg_of s) = ICT_CONTROL \<and> bit (eventFilterMask (tr s)) 0"

definition and_move :: "'net move \<Rightarrow> 'net move \<Rightarrow> 'net move" where
  "and_move f g s = (case f s of
      Inl e \<Rightarrow> Inl e | Inr (Return e, s1) \<Rightarrow> Inr (Return e, s1) | Inr (Go, s1) \<Rightarrow> g s1)"

text \<open>Where a new message goes: the core it names, which must be one of the \<open>DQR_MAXCORES\<close>.\<close>

definition take_msg :: "'net move" where
  "take_msg s =
     (let c = unat (coreId (msg_of s)) in
      if c \<ge> DQR_MAXCORES then Inl UB
      else and_move linux_addrs trace_kind (on_trace (\<lambda>t. t\<lparr>readNewTraceMessage := False, currentCore := c\<rparr>) s))"

section \<open>The loop\<close>

definition no_results :: Want where
  "no_results = \<lparr>w_inst = False, w_msg = False, w_src = False\<rparr>"

text \<open>One round: read a message if one is needed, then do what the state of the core asks for.\<close>

definition round :: "'net Extern \<Rightarrow> Want \<Rightarrow> SliceFileParser \<Rightarrow> 'net Session \<Rightarrow> (ret \<times> 'net Session) outcome option" where
  "round X w p s =
     (if readNewTraceMessage (tr s) then
        map_option (\<lambda>r. case r of
            Inl e \<Rightarrow> Inl e
          | Inr (Return e, s1) \<Rightarrow> Inr (Return e, s1)
          | Inr (Go, s1) \<Rightarrow>
              and_move take_msg (\<lambda>s2. state_switch X (if filtered s2 then no_results else w) s2) s1)
          (read_msg (x_recv X) p s)
      else Some (state_switch X w s))"

partial_function (option) rounds ::
  "'net Extern \<Rightarrow> Want \<Rightarrow> 'net Session \<Rightarrow> (DQErr \<times> 'net Session) outcome option" where
  "rounds X w s = (case sfp s of
      None \<Rightarrow> Some (Inl UB)
    | Some p \<Rightarrow> (case round X w p s of
          None \<Rightarrow> None
        | Some (Inl e) \<Rightarrow> Some (Inl e)
        | Some (Inr (Return e, s1)) \<Rightarrow> Some (Inr (e, s1))
        | Some (Inr (Go, s1)) \<Rightarrow> rounds X w s1))"

definition begin_call :: "'net Session \<Rightarrow> 'net Session" where
  "begin_call s = (on_trace (\<lambda>t. t\<lparr>tolerantError := False\<rparr>) s)\<lparr>got_inst := False, got_msg := False, got_src := False\<rparr>"

definition NextInstruction ::
  "'net Extern \<Rightarrow> Want \<Rightarrow> 'net Session \<Rightarrow> (DQErr \<times> 'net Session) outcome option" where
  "NextInstruction X w s =
     (if sfp s = None then Some (Inr (DQERR_ERR, set_status DQERR_ERR s))
      else if tr_status (tr s) \<noteq> DQERR_OK then Some (Inr (tr_status (tr s), s))
      else rounds X w (begin_call s))"

text \<open>The public function copies the objects and reports what there is in flags.\<close>

record Flags =
  f_error :: bool
  f_inst :: "Instruction option"
  f_msg :: "NexusMessage option"
  f_src :: "Source option"
  f_itcprint :: bool

definition NextInstruction_flags ::
  "'net Extern \<Rightarrow> Want \<Rightarrow> 'net Session \<Rightarrow> (DQErr \<times> Flags \<times> 'net Session) outcome option" where
  "NextInstruction_flags X w s0 =
     map_option (map_sum id (\<lambda>(rc, s). (rc,
       \<lparr>f_error = tolerantError (tr s),
        f_inst = (if w_inst w \<and> got_inst s then Some (instructionInfo s) else None),
        f_msg = (if w_msg w \<and> got_msg s then Some (messageInfo s) else None),
        f_src = (if w_src w \<and> got_src s then Some (sourceInfo s) else None),
        f_itcprint = (case itcPrint s of None \<Rightarrow> False | Some q \<Rightarrow> haveITCPrintMsgs q)\<rparr>, s)))
     (NextInstruction X w s0)"

end
