(* ===== verification/Trace_Safe.thy ===== *)
theory Trace_Safe
  imports Trace_Msg
begin

text \<open>
  Safety of the trace decoder: from a well-formed state no step follows a null pointer, leaves an
  array or shifts by too much, and every step keeps the state well formed. The proofs use
  pre- and postconditions of steps, with one rule per combinator.
\<close>

section \<open>Well-formed memory\<close>

text \<open>
  Every address of a section, and the half word after it, has an index in the code array: the code
  allocates one half word more than the section is long.
\<close>

definition section_ok :: "Section \<Rightarrow> bool" where
  "section_ok sc \<longleftrightarrow> (unat (endAddr sc + vmaOffset sc) - unat (startAddr sc + vmaOffset sc)) div 2 + 1 < length (code sc) \<and>
     length (code sc) \<le> 2 ^ 31"

definition elf_ok :: "ElfReader \<Rightarrow> bool" where
  "elf_ok elf \<longleftrightarrow> (\<forall>sc \<in> set (codeSectionLst elf). section_ok sc)"

definition kmem_ok :: "KMem \<Rightarrow> bool" where
  "kmem_ok k \<longleftrightarrow> (\<forall>sc \<in> set (k_sectionLst k). section_ok sc) \<and> (\<forall>sc. cachedSection k = Some sc \<longrightarrow> section_ok sc)"

definition dumps_ok :: "objdump \<Rightarrow> bool" where
  "dumps_ok od \<longleftrightarrow> (\<forall>p sl. (\<forall>sc \<in> set sl. section_ok sc) \<longrightarrow> (\<forall>sc \<in> set (snd (od p sl)). section_ok sc))"

definition no_UB :: "'a outcome \<Rightarrow> bool" where
  "no_UB r \<longleftrightarrow> r \<noteq> Inl UB"

lemma code_index_range:
  assumes "section_ok sc" and "startAddr sc + vmaOffset sc \<le> a" and "a \<le> endAddr sc + vmaOffset sc"
  shows "0 \<le> code_index sc a \<and> code_index sc a + 1 < int (length (code sc))"
proof -
  let ?s = "startAddr sc + vmaOffset sc" and ?e = "endAddr sc + vmaOffset sc"
  have "a - vmaOffset sc - startAddr sc = a - ?s" by simp
  then have u: "unat (a - vmaOffset sc - startAddr sc) = unat a - unat ?s"
    using assms(2) by (simp only: unat_sub)
  have "unat a \<le> unat ?e" using assms(3) by (simp add: word_le_nat_alt)
  then have "(unat a - unat ?s) div 2 \<le> (unat ?e - unat ?s) div 2" by (intro div_le_mono) simp
  then have n: "(unat a - unat ?s) div 2 + 1 < length (code sc)" using assms(1) by (simp add: section_ok_def)
  let ?x = "(a - vmaOffset sc - startAddr sc) div 2"
  have x: "unat ?x = (unat a - unat ?s) div 2" unfolding unat_div u by simp
  then have "unat ?x < 2 ^ 31" using n assms(1) by (simp add: section_ok_def)
  then have "?x < 2 ^ 31" by (simp add: word_less_nat_alt)
  from int_of_u64_small [OF this] have "code_index sc a = int (unat ?x)" by (simp add: code_index_def)
  then show ?thesis using n x by simp
qed

lemma code_at_ok:
  assumes "section_ok sc" and "startAddr sc + vmaOffset sc \<le> a" and "a \<le> endAddr sc + vmaOffset sc"
  shows "\<exists>h u. code_at sc (code_index sc a) = Inr h \<and> code_at sc (code_index sc a + 1) = Inr u"
  using code_index_range [OF assms] by (auto simp: code_at_def)

lemma getSectionByAddress_in: "getSectionByAddress sl a = Some sc \<Longrightarrow> sc \<in> set sl"
  by (induction sl) (auto split: if_splits)

lemma elf_fetch_ok: "elf_ok elf \<Longrightarrow> no_UB (ElfReader_getInstructionByAddress elf a)"
proof (cases "getSectionByAddress (codeSectionLst elf) a")
  case None
  then show ?thesis by (simp add: ElfReader_getInstructionByAddress_def no_UB_def)
next
  case (Some sc)
  assume "elf_ok elf"
  then have "section_ok sc" using getSectionByAddress_in [OF Some] by (auto simp: elf_ok_def)
  moreover have "startAddr sc + vmaOffset sc \<le> a" "a \<le> endAddr sc + vmaOffset sc"
    using getSectionByAddress_range [OF Some] by (auto simp: not_less)
  ultimately obtain h u where "code_at sc (code_index sc a) = Inr h" "code_at sc (code_index sc a + 1) = Inr u"
    using code_at_ok by blast
  then show ?thesis
    by (simp add: ElfReader_getInstructionByAddress_def no_UB_def Some Let_def)
qed

lemma k_fetch_ok: "section_ok sc \<Longrightarrow> no_UB (k_fetch sc a)"
proof (cases "a < startAddr sc + vmaOffset sc \<or> a \<ge> endAddr sc + vmaOffset sc")
  case True
  then show ?thesis by (simp add: k_fetch_def no_UB_def)
next
  case False
  assume "section_ok sc"
  moreover have "startAddr sc + vmaOffset sc \<le> a" "a \<le> endAddr sc + vmaOffset sc" using False by auto
  ultimately obtain h u where "code_at sc (code_index sc a) = Inr h" "code_at sc (code_index sc a + 1) = Inr u"
    using code_at_ok by blast
  then show ?thesis by (simp add: k_fetch_def no_UB_def decodeInstructionSize_cases)
qed

lemma findSection_ok:
  assumes "kmem_ok k"
  shows "kmem_ok (snd (findSection a k))" and "fst (findSection a k) = Some sc \<Longrightarrow> section_ok sc"
  using assms by (auto simp: kmem_ok_def findSection_def find_Some_iff split: option.splits if_splits)

lemma kmem_fetch_ok:
  assumes "dumps_ok od" and "kmem_ok k"
  shows "no_UB (fst (KMem_getInstructionByAddress od a k)) \<and> kmem_ok (snd (KMem_getInstructionByAddress od a k))"
proof -
  obtain r k1 where f: "findSection a k = (r, k1)" by fastforce
  have k1: "kmem_ok k1" "\<And>sc. r = Some sc \<Longrightarrow> section_ok sc" using findSection_ok [OF assms(2), of a] f by auto
  obtain rc sl where o: "od (a AND NOT (mask 12)) (k_sectionLst k1) = (rc, sl)" by fastforce
  let ?k2 = "k1\<lparr>k_sectionLst := sl\<rparr>"
  have "\<forall>sc \<in> set sl. section_ok sc" using assms(1) k1(1) o unfolding dumps_ok_def kmem_ok_def by (metis snd_conv)
  then have k2: "kmem_ok ?k2" using k1(1) by (simp add: kmem_ok_def)
  obtain r3 k3 where f3: "findSection a ?k2 = (r3, k3)" by fastforce
  have k3: "kmem_ok k3" "\<And>sc. r3 = Some sc \<Longrightarrow> section_ok sc" using findSection_ok [OF k2, of a] f3 by auto
  show ?thesis
  proof (cases r)
    case (Some sc)
    then show ?thesis using f k1 k_fetch_ok [of sc a]
      by (simp add: KMem_getInstructionByAddress_def find_or_dump_def)
  next
    case None
    then show ?thesis using f o f3 k2 k3 k_fetch_ok [of _ a]
      by (cases "rc = DQERR_OK"; cases r3) (simp_all add: KMem_getInstructionByAddress_def find_or_dump_def no_UB_def)
  qed
qed

section \<open>Well-formed states\<close>

text \<open>
  The current core exists, every process has an ELF reader and a disassembler, a core with a process has both too, the width of the timestamps
  is one of a 64-bit counter, and every core keeps the invariant of its counts.
\<close>

definition reader_ok :: "ElfReader option \<Rightarrow> bool" where
  "reader_ok r \<longleftrightarrow> (case r of None \<Rightarrow> False | Some elf \<Rightarrow> elf_ok elf)"

definition process_ok :: "process \<Rightarrow> bool" where
  "process_ok p \<longleftrightarrow> reader_ok (elfReader p) \<and> disassembler p \<noteq> None"

definition core_ok :: "nat \<Rightarrow> Trace \<Rightarrow> bool" where
  "core_ok c t \<longleftrightarrow> reader_ok (currentElfReader t c) \<and> currentDisassembler t c \<noteq> None"

definition trace_ok :: "Trace \<Rightarrow> bool" where
  "trace_ok t \<longleftrightarrow> processes t \<noteq> [] \<and> currentCore t < DQR_MAXCORES \<and> (\<forall>p \<in> set (processes t). process_ok p) \<and>
     0 \<le> tsSize t \<and> tsSize t < 64 \<and>
     (\<forall>c. currentProcessIndex t c < int (length (processes t)) \<and>
          (0 \<le> currentProcessIndex t c \<longrightarrow> core_ok c t)) \<and>
     (\<forall>c. count_inv c (counts t)) \<and>
     (\<forall>k. kMem t = Some k \<longrightarrow> kmem_ok k)"

text \<open>The message belongs to the current core; \<open>i\<close> is its process.\<close>

definition msg_ok :: "int \<Rightarrow> Trace \<Rightarrow> bool" where
  "msg_ok i t \<longleftrightarrow> trace_ok t \<and> msg_core t = currentCore t \<and> currentProcessIndex t (currentCore t) = i"

text \<open>A step that has no undefined behaviour from \<open>P\<close> and ends in \<open>Q\<close>, whatever it returns.\<close>

definition safe :: "(Trace \<Rightarrow> bool) \<Rightarrow> step \<Rightarrow> (Trace \<Rightarrow> bool) \<Rightarrow> bool" where
  "safe P f Q \<longleftrightarrow> (\<forall>t. P t \<longrightarrow> (case f t of Inl e \<Rightarrow> False | Inr (rc, t1) \<Rightarrow> Q t1))"

named_theorems safe_rules "safety of the steps of a message"

lemma safe_act [safe_rules]: "(\<And>t. P t \<Longrightarrow> Q (f t)) \<Longrightarrow> safe P (act f) Q"
  by (simp add: safe_def act_def)

lemma safe_give_up [safe_rules]: "(\<And>t. P t \<Longrightarrow> Q t) \<Longrightarrow> safe P (give_up rc) Q"
  by (simp add: safe_def give_up_def)

lemma safe_then:
  assumes "safe P f R" and "safe R g Q" and "\<And>t. R t \<Longrightarrow> Q t"
  shows "safe P (and_then f g) Q"
  unfolding safe_def
proof (intro allI impI)
  fix t
  assume "P t"
  then obtain rc t1 where "f t = Inr (rc, t1)" "R t1"
    using assms(1) unfolding safe_def by (cases "f t") fastforce+
  then show "case and_then f g t of Inl e \<Rightarrow> False | Inr (rc, t1) \<Rightarrow> Q t1"
    using assms(2,3) unfolding safe_def and_then_def by auto
qed

lemma safe_guarded [safe_rules]:
  "safe (\<lambda>t. P t \<and> b t) f Q \<Longrightarrow> (\<And>t. P t \<Longrightarrow> Q t) \<Longrightarrow> safe P (guarded b f) Q"
  by (simp add: safe_def guarded_def)

lemma safe_mono: "safe P f Q \<Longrightarrow> (\<And>t. P' t \<Longrightarrow> P t) \<Longrightarrow> (\<And>t. Q t \<Longrightarrow> Q' t) \<Longrightarrow> safe P' f Q'"
  unfolding safe_def by (fastforce split: sum.splits)

text \<open>The updates of a message keep the state well formed.\<close>

lemma msg_ok_updates:
  "msg_ok i (set_pc a t) = msg_ok i t" "msg_ok i (set_faddr a t) = msg_ok i t" "msg_ok i (set_ts x t) = msg_ok i t"
  "msg_ok i (set_sync b t) = msg_ok i t" "msg_ok i (set_prv p t) = msg_ok i t" "msg_ok i (tell ev t) = msg_ok i t"
  "msg_ok i (t\<lparr>tr_status := s\<rparr>) = msg_ok i t"
  "msg_ok i (t\<lparr>tr_nm := (tr_nm t)\<lparr>ict_ckdata1 := a\<rparr>\<rparr>) = msg_ok i t"
  by (simp_all add: msg_ok_def trace_ok_def core_ok_def msg_core_def set_pc_def set_faddr_def set_ts_def set_sync_def
      set_prv_def tell_def)

lemma msg_ok_moves:
  "msg_ok i (xor_faddr u t) = msg_ok i t" "msg_ok i (pc_from_faddr t) = msg_ok i t"
  "msg_ok i (ict_faddr ws t) = msg_ok i t" "msg_ok i (ict_call_addrs ws t) = msg_ok i t"
  by (simp_all add: xor_faddr_def pc_from_faddr_def ict_faddr_def ict_call_addrs_def Let_def msg_ok_updates)

lemma msg_ok_reset: "msg_ok i t \<Longrightarrow> msg_ok i (reset_core c t)"
  by (simp add: msg_ok_def trace_ok_def core_ok_def msg_core_def reset_core_def count_inv_reset count_inv_stack)

lemma processTS_ok: "0 \<le> n \<Longrightarrow> n < 64 \<Longrightarrow> \<exists>x. processTS n ty a b = Inr x"
  by (cases ty) (auto simp: processTS_def shl1_def)

lemma safe_time [safe_rules]: "safe (msg_ok i) (new_time ty) (msg_ok i)"
  unfolding safe_def
proof (intro allI impI)
  fix t
  assume m: "msg_ok i t"
  then obtain x where "processTS (tsSize t) ty (ts_of t) (timestamp (tr_nm t)) = Inr x"
    using processTS_ok [of "tsSize t"] unfolding msg_ok_def trace_ok_def by blast
  then show "case new_time ty t of Inl e \<Rightarrow> False | Inr (rc, t1) \<Rightarrow> msg_ok i t1"
    using m by (simp add: new_time_def msg_ok_updates)
qed

section \<open>Processes and converters\<close>

lemma index_of_range: "index_of P xs = Some i \<Longrightarrow> 0 \<le> i \<and> i < int (length xs) \<and> P (xs ! nat i)"
  by (induction xs arbitrary: i) (auto simp: nat_add_distrib split: if_splits)

lemma process_index_ok:
  assumes "processes t \<noteq> []"
  shows "\<exists>i. process_index pd t = Inr i \<and> i < int (length (processes t))"
  using assms index_of_range [of "\<lambda>p. proc_pid p = pd" "processes t"]
  by (auto simp: process_index_def split: list.split option.split)

lemma processPidPriv_ok:
  assumes "trace_ok t"
  shows "\<exists>i t1. processPidPriv c pd v pv t = Inr (i, t1) \<and> trace_ok t1 \<and> currentProcessIndex t1 c = i \<and>
     currentCore t1 = currentCore t \<and> tr_nm t1 = tr_nm t"
proof -
  obtain i where i: "process_index pd t = Inr i" "i < int (length (processes t))"
    using process_index_ok assms unfolding trace_ok_def by blast
  have "0 \<le> i \<Longrightarrow> process_ok (processes t ! nat i)"
    using assms i(2) unfolding trace_ok_def by auto
  then show ?thesis using assms i
    by (auto simp: processPidPriv_def Let_def trace_ok_def core_ok_def process_ok_def)
qed

lemma msg_ok_process:
  assumes "msg_ok i t" and "\<And>p. elfReader (f p) = elfReader p" and "\<And>p. disassembler (f p) = disassembler p"
  shows "msg_ok i (update_process j f t)"
proof -
  have "\<forall>p \<in> set ((processes t)[j := f (processes t ! j)]). process_ok p"
  proof
    fix p
    assume "p \<in> set ((processes t)[j := f (processes t ! j)])"
    then obtain k where k: "k < length (processes t)" "p = (processes t)[j := f (processes t ! j)] ! k"
      by (auto simp: in_set_conv_nth)
    then have "elfReader p = elfReader (processes t ! k)" using assms(2) by (cases "j = k") simp_all
    moreover have "disassembler p = disassembler (processes t ! k)" using k assms(3) by (cases "j = k") simp_all
    ultimately show "process_ok p" using assms(1) k(1) by (auto simp: msg_ok_def trace_ok_def core_ok_def process_ok_def)
  qed
  then show ?thesis using assms(1) by (simp add: msg_ok_def trace_ok_def core_ok_def msg_core_def update_process_def)
qed

lemma safe_enable: "safe (\<lambda>t. msg_ok i t \<and> 0 \<le> i) (enableEventConverter E i) (msg_ok i)"
  unfolding safe_def
proof (intro allI impI)
  fix t
  assume m: "msg_ok i t \<and> 0 \<le> i"
  then have "nat i < length (processes t)" by (auto simp: msg_ok_def trace_ok_def core_ok_def nat_less_iff)
  moreover have "msg_ok i (update_process j (has_eventConverter_update (\<lambda>_. b)) t')" if "msg_ok i t'" for j b t'
    by (rule msg_ok_process [OF that]) simp_all
  ultimately show "case enableEventConverter E i t of Inl e \<Rightarrow> False | Inr (rc, t1) \<Rightarrow> msg_ok i t1"
    using m by (simp add: enableEventConverter_def Let_def msg_ok_updates)
qed

lemma safe_need [safe_rules]: "safe (\<lambda>t. msg_ok i t \<and> 0 \<le> i) (need_converter E i) (msg_ok i)"
  using safe_enable [of i E] unfolding safe_def need_converter_def by (fastforce split: sum.splits prod.splits)

lemma safe_emit [safe_rules]: "safe (msg_ok i) (emit E i ev) (msg_ok i)"
  unfolding emit_def
  by (intro safe_guarded safe_then [OF safe_mono [OF safe_need]] safe_act) (auto simp: msg_ok_updates)

section \<open>Fetching and decoding\<close>

lemma getInstruction_ok:
  assumes "dumps_ok (objdump_page E)" and "trace_ok t" and "core_ok (currentCore t) t"
  shows "\<exists>r k. getInstructionByAddress E a t = (r, t\<lparr>kMem := k\<rparr>) \<and> no_UB r \<and> (\<forall>m. k = Some m \<longrightarrow> kmem_ok m)"
proof -
  obtain elf where elf: "currentElfReader t (currentCore t) = Some elf" "elf_ok elf"
    using assms(3) by (auto simp: core_ok_def reader_ok_def split: option.splits)
  have same: "\<exists>k. t = t\<lparr>kMem := k\<rparr> \<and> (\<forall>m. k = Some m \<longrightarrow> kmem_ok m)"
    using assms(2) by (intro exI [of _ "kMem t"]) (cases t, simp add: trace_ok_def core_ok_def)
  have e: "\<exists>k. (ElfReader_getInstructionByAddress elf a, t) = (ElfReader_getInstructionByAddress elf a, t\<lparr>kMem := k\<rparr>) \<and>
      no_UB (ElfReader_getInstructionByAddress elf a) \<and> (\<forall>m. k = Some m \<longrightarrow> kmem_ok m)"
    using same elf_fetch_ok [OF elf(2)] by simp
  show ?thesis
  proof (cases "\<exists>m. kMem t = Some m \<and> a \<ge> kStart m")
    case False
    then have "getInstructionByAddress E a t = (ElfReader_getInstructionByAddress elf a, t)"
      using elf(1) unfolding getInstructionByAddress_def Let_def by (cases "kMem t") auto
    then show ?thesis using e by metis
  next
    case True
    then obtain m where m: "kMem t = Some m" "a \<ge> kStart m" by blast
    then have "kmem_ok m" using assms(2) by (simp add: trace_ok_def core_ok_def)
    from kmem_fetch_ok [OF assms(1) this, of a] show ?thesis
      using m by (auto simp: getInstructionByAddress_def Let_def split_def)
  qed
qed

lemma decode_ok: "trace_ok t \<Longrightarrow> core_ok (currentCore t) t \<Longrightarrow> \<exists>r. Trace_decodeInstruction E inst t = Inr r"
  by (auto simp: trace_ok_def core_ok_def Trace_decodeInstruction_def getArchSize_def proc_lookup_def elf_of_def reader_ok_def process_ok_def
      split: list.splits option.splits)

lemma trace_ok_kMem: "trace_ok t \<Longrightarrow> (\<forall>m. k = Some m \<longrightarrow> kmem_ok m) \<Longrightarrow> trace_ok (t\<lparr>kMem := k\<rparr>)"
  by (simp add: trace_ok_def core_ok_def)

lemma fetch_ok:
  assumes "dumps_ok (objdump_page E)" and "trace_ok t" and "core_ok (currentCore t) t"
  shows "\<exists>r k. fetch E a t = Inr (r, t\<lparr>kMem := k\<rparr>) \<and> trace_ok (t\<lparr>kMem := k\<rparr>)"
proof -
  obtain r k where g: "getInstructionByAddress E a t = (r, t\<lparr>kMem := k\<rparr>)" "no_UB r" "\<forall>m. k = Some m \<longrightarrow> kmem_ok m"
    using getInstruction_ok [OF assms] by blast
  have ok: "trace_ok (t\<lparr>kMem := k\<rparr>)" by (rule trace_ok_kMem [OF assms(2) g(3)])
  show ?thesis
  proof (cases r)
    case (Inl e)
    with g(2) obtain c where "e = Rc c" by (cases e) (auto simp: no_UB_def)
    then show ?thesis using g(1) ok Inl by (intro exI [of _ "Fetch_failed c"] exI [of _ k]) (simp add: fetch_def)
  next
    case (Inr inst)
    obtain rc d where "Trace_decodeInstruction E inst (t\<lparr>kMem := k\<rparr>) = Inr (rc, d)"
      using decode_ok [OF ok] assms(3) by (fastforce simp: core_ok_def)
    then show ?thesis using g(1) ok Inr by (auto simp: fetch_def)
  qed
qed

lemma nextAddr_call_ok:
  assumes "dumps_ok (objdump_page E)" and "msg_ok i t" and "0 \<le> i"
  shows "\<exists>rc a cr t1. nextAddr_call E addr t = Inr (rc, a, cr, t1) \<and> msg_ok i t1"
proof -
  have t: "trace_ok t" "core_ok (currentCore t) t"
    using assms(2,3) unfolding msg_ok_def trace_ok_def by blast+
  obtain r k where f: "fetch E addr t = Inr (r, t\<lparr>kMem := k\<rparr>)" "trace_ok (t\<lparr>kMem := k\<rparr>)"
    using fetch_ok [OF assms(1) t] by blast
  have m: "msg_ok i (t\<lparr>kMem := k\<rparr>)" "msg_ok i (t\<lparr>kMem := k, tr_status := s\<rparr>)" for s
    using assms(2) f(2) msg_ok_updates(7) [where i = i and t = "t\<lparr>kMem := k\<rparr>" and s = s] by (simp_all add: msg_ok_def msg_core_def)
  show ?thesis
  proof (cases r)
    case (Fetched inst d)
    then show ?thesis using f(1) m by (cases "call_target addr d") (auto simp: nextAddr_call_def)
  qed (use f(1) m in \<open>auto simp: nextAddr_call_def\<close>)
qed

section \<open>In-circuit trace messages\<close>

lemmas msg_ok_simps = msg_ok_updates msg_ok_moves

lemma safe_by_call:
  assumes "dumps_ok (objdump_page E)" and "0 \<le> i"
    and "\<And>a cr. safe (msg_ok i) (g a cr) (msg_ok i)"
  shows "safe (msg_ok i) (\<lambda>t. case nextAddr_call E (pc_of t) t of
      Inl e \<Rightarrow> Inl e | Inr (rc, a, cr, t1) \<Rightarrow> if rc \<noteq> DQERR_OK then Inr (DQERR_ERR, t1) else g a cr t1) (msg_ok i)"
  unfolding safe_def
proof (intro allI impI)
  fix t
  assume "msg_ok i t"
  then obtain rc a cr t1 where "nextAddr_call E (pc_of t) t = Inr (rc, a, cr, t1)" "msg_ok i t1"
    using nextAddr_call_ok [OF assms(1) _ assms(2)] by blast
  then show "case (case nextAddr_call E (pc_of t) t of
      Inl e \<Rightarrow> Inl e | Inr (rc, a, cr, t1) \<Rightarrow> if rc \<noteq> DQERR_OK then Inr (DQERR_ERR, t1) else g a cr t1) of
      Inl e \<Rightarrow> False | Inr (rc, t1) \<Rightarrow> msg_ok i t1"
    using assms(3) [of a cr] by (simp add: safe_def)
qed

lemma safe_conj: "(b \<Longrightarrow> safe P f Q) \<Longrightarrow> safe (\<lambda>t. P t \<and> b) f Q"
  by (simp add: safe_def)

lemma safe_ctf [safe_rules]: "safe (msg_ok i) (ctf_call i cr) (msg_ok i)"
  unfolding ctf_call_def by (simp add: safe_act safe_give_up msg_ok_simps)

lemma safe_trigger: "safe (msg_ok i) (ict_trigger kind d1 E ws i pd) (msg_ok i)"
proof -
  have "safe (msg_ok i) (and_then (act f) (emit E i ev)) (msg_ok i)" if "\<And>t. msg_ok i (f t) = msg_ok i t" for f ev
    by (rule safe_then [OF safe_act safe_emit]) (simp_all add: that)
  then show ?thesis
    unfolding safe_def ict_trigger_def Let_def by (auto simp: msg_ok_simps)
qed

text \<open>The shape of both kinds of calls: move, then with a converter look at the instruction.\<close>

lemma safe_call_block:
  assumes "dumps_ok (objdump_page E)" and "\<And>t. msg_ok i (f t) = msg_ok i t"
    and "\<And>a cr. 0 \<le> i \<Longrightarrow> safe (msg_ok i) (g a cr) (msg_ok i)"
  shows "safe (msg_ok i) (and_then (act f) (guarded (\<lambda>t. i \<ge> 0 \<and> b t) (\<lambda>t. case nextAddr_call E (pc_of t) t of
      Inl e \<Rightarrow> Inl e | Inr (rc, a, cr, t1) \<Rightarrow> if rc \<noteq> DQERR_OK then Inr (DQERR_ERR, t1) else g a cr t1))) (msg_ok i)"
proof -
  let ?f = "\<lambda>t. case nextAddr_call E (pc_of t) t of
      Inl e \<Rightarrow> Inl e | Inr (rc, a, cr, t1) \<Rightarrow> if rc \<noteq> DQERR_OK then Inr (DQERR_ERR, t1) else g a cr t1"
  have "0 \<le> i \<Longrightarrow> safe (msg_ok i) ?f (msg_ok i)"
    by (rule safe_by_call [OF assms(1)]) (simp_all add: assms(3))
  then have g: "safe (\<lambda>t. msg_ok i t \<and> i \<ge> 0 \<and> b t) ?f (msg_ok i)" unfolding safe_def by blast
  show ?thesis by (rule safe_then [where R = "msg_ok i", OF safe_act safe_guarded [OF g]]) (simp_all add: assms(2))
qed

lemma safe_inferableCall: "dumps_ok (objdump_page E) \<Longrightarrow> safe (msg_ok i) (ict_inferableCall E ws i pd) (msg_ok i)"
proof -
  assume d: "dumps_ok (objdump_page E)"
  have "safe (msg_ok i) (ict_call_htm E ws i pd) (msg_ok i)"
    unfolding ict_call_htm_def
    by (rule safe_call_block [OF d], simp add: msg_ok_simps, intro safe_then safe_act safe_guarded)
      (simp_all add: msg_ok_simps safe_emit)
  moreover have "safe (msg_ok i) (ict_call_event E ws i pd) (msg_ok i)"
  proof -
    let ?ev = "\<lambda>cr t. emitCallRet (nat i) (coreId (tr_nm t)) (ts_of t) pd (ict_ckdf (tr_nm t)) (pc_of t) (faddr_of t) cr"
    have call: "safe (\<lambda>t. msg_ok i t \<and> b t) (ctf_call i cr) (msg_ok i)" for b cr
      by (rule safe_mono [OF safe_ctf]) auto
    have ws: "safe (msg_ok i) (guarded (\<lambda>t. has_ctf (processes t ! nat i)) (and_then (ctf_call i cr) (emit E i (?ev cr)))) (msg_ok i)" for cr
      by (intro safe_guarded safe_then [OF call] safe_emit) simp_all
    have nws: "safe (msg_ok i) (and_then (guarded (\<lambda>t. has_ctf (processes t ! nat i)) (ctf_call i cr))
        (and_then (need_converter E i) (act (tell (?ev cr))))) (msg_ok i)" if "0 \<le> i" for cr
      by (intro safe_guarded safe_then [OF safe_guarded [OF call]] safe_then [OF safe_mono [OF safe_need [of i E]]] safe_act)
        (simp_all add: msg_ok_simps that)
    show ?thesis
      unfolding ict_call_event_def Let_def
      by (rule safe_call_block [OF d], simp add: msg_ok_simps, cases ws) (use ws nws in simp_all)
  qed
  ultimately show ?thesis by (auto simp: safe_def ict_inferableCall_def)
qed

lemma safe_move: "safe (msg_ok i) (ict_move ws n) (msg_ok i)"
  by (simp add: safe_def ict_move_def msg_ok_simps)

lemma safe_trap: "safe (msg_ok i) (ict_trap kind E ws i pd) (msg_ok i)"
  unfolding ict_trap_def by (intro safe_then [OF safe_move safe_emit])

lemma safe_periodic: "safe (msg_ok i) (ict_periodic E ws i pd) (msg_ok i)"
  unfolding ict_periodic_def by (intro safe_then [OF safe_move safe_emit])

lemma safe_control: "safe (msg_ok i) (ict_control E ws i pd) (msg_ok i)"
proof -
  have "safe (msg_ok i) (and_then (ict_move ws 1) (emit E i ev)) (msg_ok i)" for ev
    by (intro safe_then [OF safe_move safe_emit])
  moreover have "safe (msg_ok i) (guarded b (act (tell ev))) (msg_ok i)" for b ev
    by (intro safe_guarded safe_act) (simp_all add: msg_ok_simps)
  ultimately show ?thesis
    using safe_emit [of i E] unfolding safe_def ict_control_def Let_def by simp
qed

text \<open>A message may leave the core with another process.\<close>

definition some_ok :: "Trace \<Rightarrow> bool" where
  "some_ok t \<longleftrightarrow> (\<exists>j. msg_ok j t)"

lemma safe_some: "safe P f (msg_ok i) \<Longrightarrow> safe P f some_ok"
  by (rule safe_mono [of P f "msg_ok i"]) (auto simp: some_ok_def)

lemma switch_process:
  assumes "msg_ok i t"
  shows "\<exists>j t1. processPidPriv (msg_core t) pd v pv t = Inr (j, t1) \<and> msg_ok j t1"
  using processPidPriv_ok [of t "msg_core t" pd v pv] assms by (fastforce simp: msg_ok_def msg_core_def)

lemma safe_context: "safe (msg_ok i) (ict_context E ws i pd) some_ok"
  unfolding ict_context_def
proof (rule safe_then [OF safe_move], unfold safe_def Let_def, intro allI impI)
  fix t
  assume m: "msg_ok i t"
  let ?d = "ict_ckdata1 (tr_nm t)"
  let ?tag = "ucast (?d AND 3) :: u8" and ?pid = "ucast (drop_bit 2 ?d) :: u32"
  let ?ev = "\<lambda>i t. emitContext (nat i) (coreId (tr_nm t)) (ts_of t) pd (ict_ckdf (tr_nm t)) (pc_of t) ?pid ?tag"
  have e: "case emit E j ev t1 of Inl e \<Rightarrow> False | Inr (rc, t1) \<Rightarrow> some_ok t1" if "msg_ok j t1" for j ev t1
    using that safe_some [OF safe_emit] unfolding safe_def by blast
  obtain j t1 where "processPidPriv (msg_core t) (sint ?pid) 0xf 0xf t = Inr (j, t1)" "msg_ok j t1"
    using switch_process [OF m] by blast
  then have "case (case processPidPriv (msg_core t) (sint ?pid) 0xf 0xf t of
      Inl e \<Rightarrow> Inl e | Inr (i, t1) \<Rightarrow> emit E i (?ev i) t1) of Inl e \<Rightarrow> False | Inr (rc, t1) \<Rightarrow> some_ok t1"
    using e by simp
  moreover have "case emit E i (?ev i) (if ?tag = 0 \<or> ?tag = 3 then set_prv (-1) t else t) of
      Inl e \<Rightarrow> False | Inr (rc, t1) \<Rightarrow> some_ok t1"
    by (rule e) (simp add: msg_ok_simps m)
  ultimately show "case (if ?tag = 2 then
        (case processPidPriv (msg_core t) (sint ?pid) 0xf 0xf t of
           Inl e \<Rightarrow> Inl e | Inr (i, t1) \<Rightarrow> emit E i (?ev i) t1)
      else emit E i (?ev i) (if ?tag = 0 \<or> ?tag = 3 then set_prv (-1) t else t)) of
      Inl e \<Rightarrow> False | Inr (rc, t1) \<Rightarrow> some_ok t1"
    by (simp only: if_split) blast
qed (auto simp: some_ok_def)

lemma safe_switch: "dumps_ok (objdump_page E) \<Longrightarrow> safe (msg_ok i) (ict_switch E ws i pd) some_ok"
  using safe_some [OF safe_inferableCall] safe_some [OF safe_trap] safe_some [OF safe_trigger] safe_some [OF safe_periodic]
    safe_some [OF safe_control] safe_context
  unfolding safe_def ict_switch_def ict_extTrig_def ict_watchpoint_def ict_exception_def ict_interrupt_def
  by (fastforce simp: some_ok_def split: ICTReason.split)

section \<open>The message\<close>

lemma safe_rel: "(\<And>t. msg_ok i (f t) = msg_ok i t) \<Longrightarrow> safe (msg_ok i) (rel_msg f) (msg_ok i)"
  unfolding rel_msg_def by (rule safe_then [OF safe_time safe_act]) (simp_all add: msg_ok_simps)

lemma safe_ict:
  assumes "dumps_ok (objdump_page E)"
  shows "safe (msg_ok i) (process_ict E i pd) some_ok" "safe (msg_ok i) (process_ictWS E i pd) some_ok"
proof -
  have "safe (msg_ok i) (and_then (act (set_sync b)) (ict_switch E ws i pd)) some_ok" for b ws
    by (rule safe_then [OF safe_act safe_switch [OF assms]]) (auto simp: msg_ok_simps some_ok_def)
  note r = safe_then [OF safe_time this]
  show "safe (msg_ok i) (process_ict E i pd) some_ok" "safe (msg_ok i) (process_ictWS E i pd) some_ok"
    unfolding process_ict_def process_ictWS_def by (rule r, auto simp: some_ok_def)+
qed

lemma safe_sync: "safe (msg_ok i) (sync_msg a) (msg_ok i)"
proof -
  have "safe (msg_ok i) (and_then (new_time TS_full)
        (act (\<lambda>t. set_sync True (reset_core (msg_core t) (pc_from_faddr (set_faddr (push_bit 1 a) t)))))) (msg_ok i)"
    by (rule safe_then [OF safe_time safe_act]) (simp_all add: msg_ok_simps msg_ok_reset)
  then show ?thesis unfolding safe_def sync_msg_def by simp
qed

lemma safe_indirect: "safe (msg_ok i) (indirect_msg a) (msg_ok i)"
  unfolding indirect_msg_def by (rule safe_rel) (simp add: msg_ok_simps)

lemma safe_ownership: "safe (msg_ok i) ownership_msg some_ok"
  unfolding ownership_msg_def
proof (rule safe_then [OF safe_time])
  show "safe (msg_ok i) (\<lambda>t.
     let nm = tr_nm t; p = push_bit 4 (ownership_v nm) OR ownership_prv nm in
     if ownership_tag nm = 0 then Inr (DQERR_OK, set_prv p t)
     else if ownership_tag nm = 2 then
       map_sum id (\<lambda>(i, t1). (DQERR_OK, t1))
         (processPidPriv (msg_core t) (ownership_pid nm) (ownership_v nm) (ownership_prv nm) t)
     else if ownership_tag nm = 3 then Inr (DQERR_OK, set_prv p t)
     else Inr (DQERR_ERR, t)) some_ok"
    unfolding safe_def Let_def
  proof (intro allI impI)
    fix t
    assume m: "msg_ok i t"
    obtain j t1 where "processPidPriv (msg_core t) (ownership_pid (tr_nm t)) (ownership_v (tr_nm t)) (ownership_prv (tr_nm t)) t
        = Inr (j, t1)" "msg_ok j t1"
      using switch_process [OF m] by blast
    then show "case (if ownership_tag (tr_nm t) = 0
         then Inr (DQERR_OK, set_prv (push_bit 4 (ownership_v (tr_nm t)) OR ownership_prv (tr_nm t)) t)
         else if ownership_tag (tr_nm t) = 2
         then map_sum id (\<lambda>(i, t1). (DQERR_OK, t1))
           (processPidPriv (msg_core t) (ownership_pid (tr_nm t)) (ownership_v (tr_nm t)) (ownership_prv (tr_nm t)) t)
         else if ownership_tag (tr_nm t) = 3
         then Inr (DQERR_OK, set_prv (push_bit 4 (ownership_v (tr_nm t)) OR ownership_prv (tr_nm t)) t)
         else Inr (DQERR_ERR, t)) of Inl e \<Rightarrow> False | Inr (rc, t1) \<Rightarrow> some_ok t1"
      using m by (auto simp: some_ok_def msg_ok_simps)
  qed
qed (auto simp: some_ok_def)

lemma safe_process_switch: "dumps_ok (objdump_page E) \<Longrightarrow> safe (msg_ok i) (process_switch E i pd) some_ok"
proof -
  assume d: "dumps_ok (objdump_page E)"
  have "safe (msg_ok i) (rel_msg id) some_ok" "safe (msg_ok i) (rel_msg (\<lambda>t. set_pc 0 (set_faddr 0 t))) some_ok"
    by (auto intro!: safe_some safe_rel simp: msg_ok_simps)
  with safe_ict [OF d, of i pd] safe_some [OF safe_sync [of i]] safe_some [OF safe_indirect [of i]] safe_ownership [of i]
  show ?thesis
    unfolding safe_def process_switch_def Let_def by (auto simp: some_ok_def split: TCode.split)
qed

lemma data_msg_ok:
  assumes "msg_ok i t"
  shows "\<exists>rc c t1. data_msg E j t = Inr (rc, c, t1) \<and> msg_ok i t1"
proof -
  obtain rc t1 where "new_time TS_rel t = Inr (rc, t1)" "msg_ok i t1"
    using safe_time [of i TS_rel] assms unfolding safe_def by (cases "new_time TS_rel t") fastforce+
  then show ?thesis by (auto simp: data_msg_def Let_def msg_ok_simps split: prod.split)
qed

text \<open>
  C5. No message makes the processing of trace messages read outside an array, dereference a null
  pointer or shift too far: from a well-formed state whose message belongs to the current core, it
  returns a code, and the new state is well formed and still on that core.
\<close>

theorem processTraceMessage_safe:
  assumes "dumps_ok (objdump_page E)" and "trace_ok t" and "msg_core t = currentCore t"
  shows "\<exists>rc consumed t1. processTraceMessage E t = Inr (rc, consumed, t1) \<and> trace_ok t1 \<and> msg_core t1 = currentCore t1"
proof -
  let ?i = "currentProcessIndex t (msg_core t)"
  have m: "msg_ok ?i t" using assms(2,3) by (simp add: msg_ok_def)
  have "?i < int (length (processes t))" using assms(2) by (simp add: trace_ok_def core_ok_def)
  moreover have "currentCore t < DQR_MAXCORES" using assms(2) by (simp add: trace_ok_def)
  ultimately have range: "\<not> (msg_core t \<ge> DQR_MAXCORES \<or> ?i \<ge> 0 \<and> nat ?i \<ge> length (processes t))" using assms(3) by linarith
  have "\<exists>rc c t1. processTraceMessage E t = Inr (rc, c, t1) \<and> some_ok t1"
  proof (cases "tcode (tr_nm t) = TCODE_DATA_ACQUISITION")
    case True
    then show ?thesis using range data_msg_ok [OF m, of E ?i]
      by (auto simp: processTraceMessage_def Let_def some_ok_def)
  next
    case False
    define pd where "pd = (if ?i \<ge> 0 then proc_pid (processes t ! nat ?i) else -1)"
    obtain rc t1 where "process_switch E ?i pd t = Inr (rc, t1)" "some_ok t1"
      using safe_process_switch [OF assms(1), of ?i pd] m unfolding safe_def
      by (cases "process_switch E ?i pd t") fastforce+
    then show ?thesis using False range by (auto simp: processTraceMessage_def Let_def pd_def)
  qed
  then show ?thesis by (auto simp: some_ok_def msg_ok_def)
qed

text \<open>A bare metal trace of one core that has just started, and a message that starts a trace.\<close>

definition ex_elf0 :: ElfReader where
  "ex_elf0 = \<lparr>elf_archSize = 32, elf_bitsPerAddress = 32, codeSectionLst = []\<rparr>"

definition ex_process :: process where
  "ex_process = \<lparr>proc_pid = -1, has_elfName = True, elfReader = Some ex_elf0, disassembler = Some (Disassembler_new []),
     has_eventConverter = False, has_ctf = False, has_perfConverter = False\<rparr>"

definition ex_started :: "NexusMessage \<Rightarrow> Trace" where
  "ex_started nm = undefined\<lparr>processes := [ex_process], pidList := [], currentCore := 0, kMem := None, tsSize := 40,
     currentProcessIndex := (\<lambda>_. 0), currentElfReader := (\<lambda>_. Some ex_elf0),
     currentDisassembler := (\<lambda>_. Some (Disassembler_new [])), counts := Count_new (\<lambda>_. AddrStack_new (replicate 4 0)),
     lastTime := (\<lambda>_. 0), lastFaddr := (\<lambda>_. 0), tr_currentAddress := (\<lambda>_. 0), tr_nm := nm\<rparr>"

definition ex_sync :: NexusMessage where
  "ex_sync = undefined\<lparr>tcode := TCODE_SYNC, coreId := 0, haveTimestamp := True, timestamp := 5, sync_f_addr := 0x800\<rparr>"

definition ex_env0 :: Env where
  "ex_env0 = \<lparr>objdump_page = (\<lambda>p sl. (DQERR_ERR, sl)), evc_status = (\<lambda>_. DQERR_OK), perf_answer = (\<lambda>_. (DQERR_OK, False)),
     locals = \<lparr>inst_size = 0, inst_type = INST_UNKNOWN, rs1 = REG_unknown, rd = REG_unknown, immediate = 0, is_branch = False\<rparr>\<rparr>"

lemma ex_started_ok: "trace_ok (ex_started nm)"
  by (simp add: trace_ok_def DQR_MAXCORES_def ex_started_def ex_process_def ex_elf0_def process_ok_def core_ok_def reader_ok_def elf_ok_def
      count_inv_new AddrStack_inv_new)

lemma ex_env0_ok: "dumps_ok (objdump_page ex_env0)"
  by (simp add: dumps_ok_def ex_env0_def)

theorem processTraceMessage_safe_witness:
  "\<exists>rc consumed t1. processTraceMessage ex_env0 (ex_started ex_sync) = Inr (rc, consumed, t1) \<and> trace_ok t1"
  using processTraceMessage_safe [OF ex_env0_ok ex_started_ok [of ex_sync]]
  by (fastforce simp: msg_core_def ex_started_def ex_sync_def)

end
