(* ===== verification/Trace_Restart.thy ===== *)
theory Trace_Restart
  imports Trace_Safe Trace_Path
begin

text \<open>
  How a trace starts and restarts: messages with synchronisation, the switch between processes and
  \<^verbatim>\<open>resetTrace\<close>.
\<close>

section \<open>Messages with synchronisation\<close>

text \<open>
  The four kinds of message that start a core over, and their full address. In-circuit messages with
  synchronisation are treated below.
\<close>

definition sync_target :: "NexusMessage \<Rightarrow> ADDRESS option" where
  "sync_target nm = (case tcode nm of
      TCODE_SYNC \<Rightarrow> Some (sync_f_addr nm)
    | TCODE_DIRECT_BRANCH_WS \<Rightarrow> Some (directBranchWS_f_addr nm)
    | TCODE_INDIRECT_BRANCH_WS \<Rightarrow> Some (indirectBranchWS_f_addr nm)
    | TCODE_INDIRECTBRANCHHISTORY_WS \<Rightarrow> Some (indirectHistoryWS_f_addr nm)
    | _ \<Rightarrow> None)"

text \<open>What two states agree on for a core.\<close>

definition same_core :: "nat \<Rightarrow> Trace \<Rightarrow> Trace \<Rightarrow> bool" where
  "same_core c t t' \<longleftrightarrow> tr_currentAddress t' c = tr_currentAddress t c \<and> lastFaddr t' c = lastFaddr t c \<and>
     lastTime t' c = lastTime t c \<and> prevMsgWasSync t' c = prevMsgWasSync t c \<and> tr_state t' c = tr_state t c \<and>
     i_cnt (counts t') c = i_cnt (counts t) c \<and> history (counts t') c = history (counts t) c \<and>
     histBit (counts t') c = histBit (counts t) c \<and> takenCount (counts t') c = takenCount (counts t) c \<and>
     notTakenCount (counts t') c = notTakenCount (counts t) c \<and> stack (counts t') c = stack (counts t) c \<and>
     currentPid t' c = currentPid t c \<and> currentPrv t' c = currentPrv t c \<and>
     currentProcessIndex t' c = currentProcessIndex t c \<and> currentElfReader t' c = currentElfReader t c \<and>
     currentDisassembler t' c = currentDisassembler t c"

lemma reset_core_idle:
  "AddrStack_inv (stack (counts t) c) \<Longrightarrow> idle c (stackSize (stack (counts t) c)) [] (counts (reset_core c t))"
  by (simp add: idle_def reset_core_def resetCounts_def resetStack_def AddrStack_inv_def AddrStack_items_def
      AddrStack_reset_def)

lemma reset_core_other: "c' \<noteq> c \<Longrightarrow> same_core c' t (reset_core c t)"
  by (simp add: same_core_def reset_core_def resetCounts_def resetStack_def)

lemma sync_switch:
  "sync_target (tr_nm t) = Some a \<Longrightarrow> process_switch E i pd t = sync_msg a t"
  "sync_target (tr_nm t) = Some a \<Longrightarrow> tcode (tr_nm t) \<noteq> TCODE_DATA_ACQUISITION"
  by (auto simp: sync_target_def process_switch_def split: TCode.splits)

lemma process_sync:
  assumes "sync_target (tr_nm t) = Some a" and "trace_ok t" and "msg_core t = currentCore t"
  shows "processTraceMessage E t = map_sum id (\<lambda>(rc, t1). (rc, False, t1)) (sync_msg a t)"
proof -
  have "currentProcessIndex t (msg_core t) < int (length (processes t))" using assms(2) by (simp add: trace_ok_def)
  moreover have "currentCore t < DQR_MAXCORES" using assms(2) by (simp add: trace_ok_def)
  ultimately have "(msg_core t \<ge> DQR_MAXCORES \<or> currentProcessIndex t (msg_core t) \<ge> 0 \<and> nat (currentProcessIndex t (msg_core t)) \<ge> length (processes t)) = False"
    using assms(3) by auto
  then show ?thesis using sync_switch [OF assms(1)] by (simp only: processTraceMessage_def Let_def if_False if_cancel)
qed

lemma new_time_cases:
  "trace_ok t \<Longrightarrow> \<exists>t1. new_time ty t = Inr (DQERR_OK, t1) \<and> (t1 = t \<or> (\<exists>x. t1 = set_ts x t))"
  using processTS_ok [of "tsSize t" ty "ts_of t" "timestamp (tr_nm t)"] by (fastforce simp: new_time_def trace_ok_def)

section \<open>In-circuit messages with synchronisation\<close>

text \<open>
  The fifth kind of message with synchronisation gives a full address too, but no fresh start: it
  comes between the instructions of a trace, so counts and return stack stay. Where it puts the last
  full address and the program counter, if anywhere, depends on what it reports: a control event
  without data has no address, an external trigger and a watchpoint between instructions do not say
  when the program counter gets there, a call of an event trace gives the address of the call and the
  exclusive or with its target.
\<close>

definition ictWS_faddr :: "NexusMessage \<Rightarrow> ADDRESS option" where
  "ictWS_faddr nm = (let d0 = push_bit 1 (ict_ckdata0 nm); d1 = push_bit 1 (ict_ckdata1 nm) in
     case ict_cksrc nm of
       ICT_CONTROL \<Rightarrow> (if ict_ckdf nm = 0 then None else Some d0)
     | ICT_INFERABLECALL \<Rightarrow> Some (if ict_ckdf nm = 0 then d0 else d0 XOR d1)
     | _ \<Rightarrow> Some d0)"

definition ictWS_pc :: "NexusMessage \<Rightarrow> ADDRESS option" where
  "ictWS_pc nm = (let d0 = push_bit 1 (ict_ckdata0 nm) in
     if ict_ckdf nm = 0 \<and> ict_cksrc nm \<in> {ICT_CONTROL, ICT_EXT_TRIG, ICT_WATCHPOINT} then None else Some d0)"

definition put :: "ADDRESS option \<Rightarrow> (ADDRESS \<Rightarrow> Trace \<Rightarrow> Trace) \<Rightarrow> Trace \<Rightarrow> Trace" where
  "put a f t = (case a of None \<Rightarrow> t | Some x \<Rightarrow> f x t)"

definition ictWS_moved :: "Trace \<Rightarrow> Trace" where
  "ictWS_moved t = put (ictWS_pc (tr_nm t)) set_pc (put (ictWS_faddr (tr_nm t)) set_faddr t)"

text \<open>Calling the converters and working out the target of a call leave the place of every core alone.\<close>

definition place :: "Trace \<Rightarrow> Trace" where
  "place t = t\<lparr>processes := [], events := [], tr_status := DQERR_OK, kMem := None, tr_nm := tr_nm t\<lparr>ict_ckdata1 := 0\<rparr>\<rparr>"

definition still :: "Trace_Msg.step \<Rightarrow> bool" where
  "still f \<longleftrightarrow> (\<forall>t rc t1. f t = Inr (rc, t1) \<longrightarrow> place t1 = place t)"

named_theorems still_rules "steps that leave the place of every core alone"

lemma stillD: "still f \<Longrightarrow> f t = Inr (rc, t1) \<Longrightarrow> place t1 = place t"
  by (simp add: still_def)

lemma still_act [still_rules]: "(\<And>t. place (f t) = place t) \<Longrightarrow> still (act f)"
  by (simp add: still_def act_def)

lemma still_then [still_rules]: "still f \<Longrightarrow> still g \<Longrightarrow> still (and_then f g)"
  by (auto simp: still_def and_then_def split: sum.splits if_splits)

lemma still_guarded [still_rules]: "still f \<Longrightarrow> still (guarded b f)"
  by (simp add: still_def guarded_def)

lemma place_updates [simp]:
  "place (tell ev t) = place t" "place (update_process i g t) = place t" "place (t\<lparr>tr_status := e\<rparr>) = place t"
  "place (t\<lparr>kMem := k\<rparr>) = place t" "place (t\<lparr>tr_nm := (tr_nm t)\<lparr>ict_ckdata1 := a\<rparr>\<rparr>) = place t"
  by (simp_all add: place_def tell_def update_process_def)

lemma still_need [still_rules]: "still (need_converter E i)"
  by (auto simp: still_def need_converter_def enableEventConverter_def Let_def split: if_splits sum.splits)

lemma still_emit [still_rules]: "still (emit E i ev)"
  unfolding emit_def by (intro still_rules) simp

lemma still_ctf [still_rules]: "still (ctf_call i cr)"
  by (simp add: ctf_call_def still_rules) (simp add: still_def give_up_def)

lemma kMem_same: "\<exists>k. (t :: Trace) = t\<lparr>kMem := k\<rparr>"
  by (rule exI [of _ "kMem t"]) simp

lemma fetch_frame: "fetch E a t = Inr (r, t1) \<Longrightarrow> \<exists>k. t1 = t\<lparr>kMem := k\<rparr>"
proof -
  assume f: "fetch E a t = Inr (r, t1)"
  obtain g t2 where g: "getInstructionByAddress E a t = (g, t2)" by fastforce
  have "\<exists>k. t2 = t\<lparr>kMem := k\<rparr>"
    using g kMem_same [of t] by (auto simp: getInstructionByAddress_def Let_def split: option.splits if_splits prod.splits)
  moreover have "t1 = t2" using f g by (auto simp: fetch_def split: sum.splits stop.splits)
  ultimately show ?thesis by simp
qed

lemma still_by_call [still_rules]:
  assumes "\<And>a cr. still (g a cr)"
  shows "still (\<lambda>t. case nextAddr_call E (pc_of t) t of
      Inl e \<Rightarrow> Inl e | Inr (rc, a, cr, t1) \<Rightarrow> if rc \<noteq> DQERR_OK then Inr (DQERR_ERR, t1) else g a cr t1)"
proof -
  have "place t1 = place t" if "nextAddr_call E p t = Inr (rc, a, cr, t1)" for p t rc a cr t1
    using that by (auto simp: nextAddr_call_def split: sum.splits fetched.splits option.splits dest!: fetch_frame)
  then show ?thesis using assms unfolding still_def by (fastforce split: sum.splits if_splits prod.splits)
qed

text \<open>Two states with the same counts and addresses, which differ at most in the process of a core.\<close>

definition arrives :: "Trace \<Rightarrow> Trace \<Rightarrow> bool" where
  "arrives t t1 \<longleftrightarrow> counts t1 = counts t \<and> prevMsgWasSync t1 = prevMsgWasSync t \<and> lastFaddr t1 = lastFaddr t \<and>
     tr_currentAddress t1 = tr_currentAddress t \<and> msg_core t1 = msg_core t \<and> (\<forall>c. c \<noteq> msg_core t \<longrightarrow> same_core c t t1)"

lemma arrives_refl: "arrives t t"
  by (simp add: arrives_def same_core_def)

lemma arrives_trans: "arrives t t1 \<Longrightarrow> arrives t1 t2 \<Longrightarrow> arrives t t2"
  by (simp add: arrives_def same_core_def)

lemma place_arrives:
  assumes "place t1 = place t"
  shows "arrives t t1"
proof -
  have f: "f (place t1) = f (place t)" for f :: "Trace \<Rightarrow> 'a" using assms by simp
  show ?thesis
    using f [of counts] f [of prevMsgWasSync] f [of lastFaddr] f [of tr_currentAddress] f [of lastTime] f [of tr_state]
      f [of msg_core] f [of currentPid] f [of currentPrv] f [of currentProcessIndex] f [of currentElfReader]
      f [of currentDisassembler]
    by (simp add: arrives_def same_core_def place_def msg_core_def)
qed

lemma act_arrives: "still g \<Longrightarrow> and_then (act f) g t = Inr (rc, t1) \<Longrightarrow> arrives (f t) t1"
  by (auto simp: and_then_def act_def intro!: place_arrives dest: stillD)

lemma emit_arrives: "emit E i ev t = Inr (rc, t1) \<Longrightarrow> arrives t t1"
  by (rule place_arrives) (rule stillD [OF still_emit])

text \<open>Where the message leaves the core when its cases all run, and otherwise.\<close>

definition lands :: "DQErr \<Rightarrow> Trace \<Rightarrow> Trace \<Rightarrow> bool" where
  "lands rc t t1 \<longleftrightarrow> arrives (ictWS_moved t) t1 \<or> rc \<noteq> DQERR_OK \<and> arrives t t1"

lemma moved_simps:
  "pc_from_faddr (set_faddr a t) = set_pc a (set_faddr a t)"
  "ict_faddr True t = set_faddr (push_bit 1 (ict_ckdata0 (tr_nm t))) t"
  "ict_call_addrs True t = set_pc (push_bit 1 (ict_ckdata0 (tr_nm t)))
     (set_faddr (push_bit 1 (ict_ckdata0 (tr_nm t)) XOR push_bit 1 (ict_ckdata1 (tr_nm t))) t)"
  by (simp_all add: pc_from_faddr_def ict_faddr_def ict_call_addrs_def Let_def set_pc_def set_faddr_def faddr_of_def)

lemmas landing = lands_def ictWS_moved_def ictWS_faddr_def ictWS_pc_def put_def Let_def moved_simps

lemma move_lands:
  assumes "\<And>t rc t1. g t = Inr (rc, t1) \<Longrightarrow> arrives t t1" and "and_then (ict_move True n) g t = Inr (rc, t1)"
    and "ict_ckdf (tr_nm t) = n \<Longrightarrow> ictWS_moved t = pc_from_faddr (ict_faddr True t)"
  shows "lands rc t t1"
  using assms arrives_refl by (auto simp: and_then_def ict_move_def lands_def split: if_splits)

lemma trigger_lands:
  assumes "ict_trigger kind d E True i pd t = Inr (rc, t1)" and "ict_cksrc (tr_nm t) \<in> {ICT_EXT_TRIG, ICT_WATCHPOINT}"
  shows "lands rc t t1"
  using assms arrives_refl
  by (auto simp: ict_trigger_def landing dest!: act_arrives [OF still_emit] split: if_splits)

lemma call_lands:
  assumes "ict_inferableCall E True i pd t = Inr (rc, t1)" and "ict_cksrc (tr_nm t) = ICT_INFERABLECALL"
  shows "lands rc t t1"
proof -
  have "arrives (pc_from_faddr (ict_faddr True t)) t1" if "ict_call_htm E True i pd t = Inr (rc, t1)"
    using that unfolding ict_call_htm_def by (elim act_arrives [rotated]) (intro still_rules; simp)
  moreover have "arrives (ict_call_addrs True t) t1" if "ict_call_event E True i pd t = Inr (rc, t1)"
    using that unfolding ict_call_event_def Let_def if_True by (elim act_arrives [rotated]) (intro still_rules)
  ultimately show ?thesis
    using assms arrives_refl by (auto simp: ict_inferableCall_def landing split: if_splits)
qed

lemma context_lands:
  assumes "ict_context E True i pd t = Inr (rc, t1)" and "ict_cksrc (tr_nm t) = ICT_CONTEXT"
  shows "lands rc t t1"
proof (rule move_lands [OF _ assms(1) [unfolded ict_context_def]], goal_cases)
  case (1 t rc t1)
  have "arrives t t2" if "processPidPriv (msg_core t) p v pv t = Inr (j, t2)" for p v pv j t2
    using that by (auto simp: processPidPriv_def arrives_def same_core_def msg_core_def Let_def map_sum_def split: sum.splits)
  moreover have "arrives t (set_prv p t)" for p
    by (simp add: set_prv_def arrives_def same_core_def msg_core_def)
  ultimately show ?case
    using 1 by (simp add: Let_def split: if_splits sum.splits prod.splits) (blast dest: emit_arrives intro: arrives_trans)+
next
  case 2
  then show ?case using assms(2) by (simp add: landing)
qed

lemma control_lands:
  assumes "ict_control E True i pd t = Inr (rc, t1)" and "ict_cksrc (tr_nm t) = ICT_CONTROL"
  shows "lands rc t t1"
proof (cases "ict_ckdf (tr_nm t) = 0")
  case True
  then show ?thesis using assms by (auto simp: ict_control_def Let_def landing dest: emit_arrives)
next
  case False
  have m: "and_then (ict_move True 1) (emit E i (\<lambda>t. emitControl (nat i) (coreId (tr_nm t)) (ts_of t) pd
      (ict_ckdf (tr_nm t)) (ict_ckdata1 (tr_nm t)) (pc_of t))) t = Inr (rc, t1)"
    using assms(1) False by (simp add: ict_control_def)
  show ?thesis
    by (rule move_lands [OF emit_arrives m]) (use assms(2) in \<open>simp_all add: landing\<close>)
qed

lemma move_rest:
  "ict_cksrc (tr_nm t) \<in> {ICT_EXCEPTION, ICT_INTERRUPT, ICT_PC_SAMPLE} \<Longrightarrow>
   and_then (ict_move True n) (emit E i ev) t = Inr (rc, t1) \<Longrightarrow> lands rc t t1"
  by (erule move_lands [OF emit_arrives, rotated]) (auto simp: landing)

lemma switch_lands: "ict_switch E True i pd t = Inr (rc, t1) \<Longrightarrow> lands rc t t1"
  using trigger_lands [of _ _ E i pd t rc t1] call_lands [of E i pd t rc t1] context_lands [of E i pd t rc t1]
    control_lands [of E i pd t rc t1] move_rest [of t] arrives_refl [of t]
  by (cases "ict_cksrc (tr_nm t)")
    (simp_all add: ict_switch_def ict_extTrig_def ict_watchpoint_def ict_exception_def ict_interrupt_def ict_trap_def
      ict_periodic_def, auto simp: lands_def)

lemma sync_restart:
  assumes "sync_target (tr_nm t) = Some a" and "trace_ok t" and "msg_core t = currentCore t"
    and "getCurrentCountType (currentCore t) (counts t) = COUNTTYPE_none"
  shows "\<exists>t1. processTraceMessage E t = Inr (DQERR_OK, False, t1) \<and>
     tr_currentAddress t1 (currentCore t) = push_bit 1 a \<and> lastFaddr t1 (currentCore t) = push_bit 1 a \<and>
     prevMsgWasSync t1 (currentCore t) \<and>
     idle (currentCore t) (stackSize (stack (counts t) (currentCore t))) [] (counts t1) \<and>
     (\<forall>c. c \<noteq> currentCore t \<longrightarrow> same_core c t t1)"
proof -
  let ?c = "currentCore t"
  have m: "msg_ok (currentProcessIndex t ?c) t" using assms(2,3) by (simp add: msg_ok_def)
  obtain t0 where n: "new_time TS_full t = Inr (DQERR_OK, t0)" "t0 = t \<or> (\<exists>x. t0 = set_ts x t)"
    using new_time_cases [OF assms(2)] by blast
  have f: "currentCore t0 = ?c" "msg_core t0 = ?c" "counts t0 = counts t" "c \<noteq> ?c \<Longrightarrow> same_core c t t0" for c
    using n(2) assms(3) by (auto simp: set_ts_def msg_core_def same_core_def)
  let ?t2 = "pc_from_faddr (set_faddr (push_bit 1 a) t0)"
  let ?t3 = "set_sync True (reset_core ?c ?t2)"
  have p: "counts ?t2 = counts t" "currentCore ?t2 = ?c" "msg_core ?t2 = ?c" "c \<noteq> ?c \<Longrightarrow> same_core c t ?t2"
    "tr_currentAddress ?t2 ?c = push_bit 1 a" "lastFaddr ?t2 ?c = push_bit 1 a" for c
    using f by (auto simp: pc_from_faddr_def set_pc_def set_faddr_def faddr_of_def msg_core_def same_core_def)
  have "AddrStack_inv (stack (counts ?t2) ?c)" using assms(2) p(1) by (simp add: trace_ok_def count_inv_def)
  from reset_core_idle [OF this] have i: "idle ?c (stackSize (stack (counts t) ?c)) [] (counts ?t3)"
    using p(1) by (simp add: set_sync_def)
  have "same_core c t ?t3" if "c \<noteq> ?c" for c
    using reset_core_other [OF that, of ?t2] p(3,4) that by (simp add: same_core_def set_sync_def reset_core_def msg_core_def)
  moreover have "processTraceMessage E t = Inr (DQERR_OK, False, ?t3)"
    using process_sync [OF assms(1-3)] n(1) f p assms(4)
    by (simp add: sync_msg_def counts_of_def and_then_def act_def msg_core_def)
  moreover have "prevMsgWasSync ?t3 ?c" "tr_currentAddress ?t3 ?c = push_bit 1 a" "lastFaddr ?t3 ?c = push_bit 1 a"
    using p by (simp_all add: set_sync_def reset_core_def msg_core_def)
  ultimately show ?thesis using i by blast
qed

lemma sync_refused:
  assumes "sync_target (tr_nm t) = Some a" and "trace_ok t" and "msg_core t = currentCore t"
    and "getCurrentCountType (currentCore t) (counts t) \<noteq> COUNTTYPE_none"
  shows "processTraceMessage E t = Inr (DQERR_ERR, False, t)"
  using process_sync [OF assms(1-3)] assms(4) by (simp add: sync_msg_def counts_of_def)

text \<open>An in-circuit message with synchronisation, without the converters' events.\<close>

lemma ictWS_effect:
  assumes "tcode (tr_nm t) = TCODE_INCIRCUITTRACE_WS" and "trace_ok t" and "msg_core t = currentCore t"
    and "processTraceMessage E t = Inr (rc, consumed, t1)"
  shows "counts t1 = counts t \<and> prevMsgWasSync t1 (currentCore t) \<and> (\<forall>c. c \<noteq> currentCore t \<longrightarrow> same_core c t t1) \<and>
    (rc = DQERR_OK \<longrightarrow>
      lastFaddr t1 (currentCore t) = (case ictWS_faddr (tr_nm t) of None \<Rightarrow> lastFaddr t (currentCore t) | Some a \<Rightarrow> a) \<and>
      tr_currentAddress t1 (currentCore t) =
        (case ictWS_pc (tr_nm t) of None \<Rightarrow> tr_currentAddress t (currentCore t) | Some a \<Rightarrow> a))"
proof -
  let ?c = "currentCore t"
  obtain t0 where n: "new_time TS_full t = Inr (DQERR_OK, t0)" "t0 = t \<or> (\<exists>x. t0 = set_ts x t)"
    using new_time_cases [OF assms(2)] by blast
  let ?t0 = "set_sync True t0"
  obtain i pd where "ict_switch E True i pd ?t0 = Inr (rc, t1)"
    using assms(4,1) n(1)
    by (auto simp: processTraceMessage_def Let_def process_switch_def process_ictWS_def and_then_def act_def map_sum_def
        split: if_splits sum.splits)
  then have l: "lands rc ?t0 t1" by (rule switch_lands)
  have f: "counts ?t0 = counts t" "prevMsgWasSync ?t0 ?c" "msg_core ?t0 = ?c" "currentCore ?t0 = ?c" "tr_nm ?t0 = tr_nm t"
    "lastFaddr ?t0 = lastFaddr t" "tr_currentAddress ?t0 = tr_currentAddress t" "c \<noteq> ?c \<Longrightarrow> same_core c t ?t0" for c
    using n(2) assms(3) by (auto simp: set_ts_def set_sync_def msg_core_def same_core_def)
  let ?m = "ictWS_moved ?t0"
  have m: "counts ?m = counts t" "prevMsgWasSync ?m ?c" "msg_core ?m = ?c" "c \<noteq> ?c \<Longrightarrow> same_core c t ?m"
    "lastFaddr ?m ?c = (case ictWS_faddr (tr_nm t) of None \<Rightarrow> lastFaddr t ?c | Some a \<Rightarrow> a)"
    "tr_currentAddress ?m ?c = (case ictWS_pc (tr_nm t) of None \<Rightarrow> tr_currentAddress t ?c | Some a \<Rightarrow> a)" for c
    using f by (auto simp: ictWS_moved_def put_def set_pc_def set_faddr_def msg_core_def same_core_def split: option.split)
  have o: "\<forall>c. c \<noteq> ?c \<longrightarrow> same_core c t t1"
    if "arrives u t1" "msg_core u = ?c" "\<And>c. c \<noteq> ?c \<Longrightarrow> same_core c t u" for u
    using that unfolding arrives_def same_core_def by metis
  from l consider "arrives ?m t1" | "rc \<noteq> DQERR_OK" "arrives ?t0 t1" unfolding lands_def by blast
  then show ?thesis
  proof cases
    case 1
    then show ?thesis using o [OF 1 m(3,4)] m by (simp add: arrives_def)
  next
    case 2
    then show ?thesis using o [OF 2(2) f(3,8)] f by (simp add: arrives_def)
  qed
qed

text \<open>
  C9. What the five kinds of message with synchronisation do to their core. A synchronisation message or
  a branch with synchronisation (direct, indirect or with history) starts the core over: with no counts
  pending it sets the program counter and the last full address to the address of the message, shifted
  by one, marks the core as synchronised, clears its counts and empties its return stack; with counts
  pending it is refused and nothing changes. An in-circuit message with synchronisation marks the core
  as synchronised and, when it is accepted, puts the addresses where the reported event says, but keeps
  all counts and return stacks. No message changes another core.
\<close>

theorem sync_restarts_core:
  assumes "trace_ok t" and "msg_core t = currentCore t"
  shows "(case sync_target (tr_nm t) of
      Some a \<Rightarrow>
        if getCurrentCountType (currentCore t) (counts t) = COUNTTYPE_none then
          \<exists>t1. processTraceMessage E t = Inr (DQERR_OK, False, t1) \<and>
            tr_currentAddress t1 (currentCore t) = push_bit 1 a \<and> lastFaddr t1 (currentCore t) = push_bit 1 a \<and>
            prevMsgWasSync t1 (currentCore t) \<and>
            idle (currentCore t) (stackSize (stack (counts t) (currentCore t))) [] (counts t1) \<and>
            (\<forall>c. c \<noteq> currentCore t \<longrightarrow> same_core c t t1)
        else processTraceMessage E t = Inr (DQERR_ERR, False, t)
    | None \<Rightarrow>
        tcode (tr_nm t) = TCODE_INCIRCUITTRACE_WS \<longrightarrow>
        (\<forall>rc consumed t1. processTraceMessage E t = Inr (rc, consumed, t1) \<longrightarrow>
          counts t1 = counts t \<and> prevMsgWasSync t1 (currentCore t) \<and>
          (\<forall>c. c \<noteq> currentCore t \<longrightarrow> same_core c t t1) \<and>
          (rc = DQERR_OK \<longrightarrow>
            lastFaddr t1 (currentCore t) =
              (case ictWS_faddr (tr_nm t) of None \<Rightarrow> lastFaddr t (currentCore t) | Some a \<Rightarrow> a) \<and>
            tr_currentAddress t1 (currentCore t) =
              (case ictWS_pc (tr_nm t) of None \<Rightarrow> tr_currentAddress t (currentCore t) | Some a \<Rightarrow> a))))"
  using sync_restart [OF _ assms] sync_refused [OF _ assms] ictWS_effect [OF _ assms]
  by (simp split: option.split)

text \<open>
  The hypotheses hold for a synchronisation message, for the same message met with counts, and for an
  in-circuit message that reports an exception.
\<close>

theorem sync_restarts_core_witness:
  "(\<exists>t1. processTraceMessage ex_env0 (ex_started ex_sync) = Inr (DQERR_OK, False, t1) \<and>
     tr_currentAddress t1 0 = 0x1000 \<and> idle 0 4 [] (counts t1)) \<and>
   (let t = ex_started ex_sync\<lparr>counts := snd (setICnt 0 3 (counts (ex_started ex_sync)))\<rparr> in
     processTraceMessage ex_env0 t = Inr (DQERR_ERR, False, t)) \<and>
   (let t = ex_started (ex_sync\<lparr>tcode := TCODE_INCIRCUITTRACE_WS, haveTimestamp := False, ict_cksrc := ICT_EXCEPTION, ict_ckdf := 1, ict_ckdata0 := 0x800\<rparr>)
        \<lparr>eventConvert := False\<rparr> in
     \<exists>t1. processTraceMessage ex_env0 t = Inr (DQERR_OK, False, t1) \<and> prevMsgWasSync t1 0 \<and> tr_currentAddress t1 0 = 0x1000 \<and>
       counts t1 = counts t)"
proof -
  have f: "currentCore (ex_started nm) = 0" "msg_core (ex_started nm) = unat (coreId nm)" "tr_nm (ex_started nm) = nm" for nm
    by (simp_all add: ex_started_def msg_core_def)
  have s: "sync_target ex_sync = Some 0x800" "coreId ex_sync = 0" by (simp_all add: sync_target_def ex_sync_def)
  have 1: "getCurrentCountType 0 (counts (ex_started ex_sync)) = COUNTTYPE_none" "stackSize (stack (counts (ex_started ex_sync)) 0) = 4"
    by (simp_all add: ex_started_def getCurrentCountType_def Count_new_def AddrStack_new_def)
  let ?t = "ex_started ex_sync\<lparr>counts := snd (setICnt 0 3 (counts (ex_started ex_sync)))\<rparr>"
  have o: "trace_ok ?t"
    using ex_started_ok [of ex_sync] count_inv_setICnt by (simp add: trace_ok_def core_ok_def)
  have 2: "getCurrentCountType 0 (counts ?t) \<noteq> COUNTTYPE_none" "msg_core ?t = 0" "currentCore ?t = 0" "tr_nm ?t = ex_sync"
    by (simp_all add: ex_started_def ex_sync_def getCurrentCountType_def Count_new_def setICnt_def s32_id msg_core_def)
  let ?nm = "ex_sync\<lparr>tcode := TCODE_INCIRCUITTRACE_WS, haveTimestamp := False, ict_cksrc := ICT_EXCEPTION, ict_ckdf := 1, ict_ckdata0 := 0x800\<rparr>"
  let ?u = "ex_started ?nm\<lparr>eventConvert := False\<rparr>"
  have ou: "trace_ok ?u" using ex_started_ok [of ?nm] by (simp add: trace_ok_def core_ok_def)
  have 3: "sync_target (tr_nm ?u) = None" "tcode (tr_nm ?u) = TCODE_INCIRCUITTRACE_WS" "msg_core ?u = 0" "currentCore ?u = 0"
    "ictWS_pc (tr_nm ?u) = Some 0x1000"
    using s(2) by (simp_all add: f sync_target_def msg_core_def ictWS_pc_def push_bit_eq_mult ex_started_def)
  have "\<exists>t1. processTraceMessage ex_env0 ?u = Inr (DQERR_OK, False, t1)"
    using s(2) by (simp add: processTraceMessage_def msg_core_def f process_switch_def process_ictWS_def and_then_def
        new_time_def processTS_def ex_started_def ex_process_def DQR_MAXCORES_def ex_sync_def act_def set_sync_def set_ts_def
        ict_switch_def ict_exception_def ict_trap_def ict_move_def emit_def guarded_def Let_def ict_faddr_def set_faddr_def
        pc_from_faddr_def set_pc_def)
  then obtain t1 where t1: "processTraceMessage ex_env0 ?u = Inr (DQERR_OK, False, t1)" by blast
  have "prevMsgWasSync t1 0 \<and> tr_currentAddress t1 0 = 0x1000 \<and> counts t1 = counts ?u"
  proof -
    define u where "u = ?u"
    note h = t1 [folded u_def] 3 [folded u_def] ou [folded u_def]
    from sync_restarts_core [OF h(7), of ex_env0] h(1-6) show ?thesis by (auto simp: u_def [symmetric])
  qed
  moreover have "\<exists>t1. processTraceMessage ex_env0 (ex_started ex_sync) = Inr (DQERR_OK, False, t1) \<and>
     tr_currentAddress t1 0 = 0x1000 \<and> idle 0 4 [] (counts t1)"
    using sync_restarts_core [OF ex_started_ok, of ex_sync ex_env0] f s 1 by (fastforce simp: push_bit_eq_mult)
  moreover have "processTraceMessage ex_env0 ?t = Inr (DQERR_ERR, False, ?t)"
    using sync_restarts_core [OF o, of ex_env0] 2 s(1) by simp
  ultimately show ?thesis using t1 unfolding Let_def by blast
qed

section \<open>Processes\<close>

lemma index_of_None: "index_of P xs = None \<longleftrightarrow> (\<forall>x \<in> set xs. \<not> P x)"
  by (induction xs) auto

lemma index_of_first: "index_of P xs = Some i \<Longrightarrow> \<forall>j < nat i. \<not> P (xs ! j)"
proof (induction xs arbitrary: i)
  case (Cons x xs)
  then show ?case
    using index_of_range [of P xs "i - 1"] by (auto simp: nth_Cons nat_add_distrib split: if_splits nat.splits)
qed simp

text \<open>
  C28. A change of process is followed: the core gets the pid and the privilege; its process is the only
  one of a bare metal trace, and otherwise the first one with that pid, provided the pid passes the
  filter; its ELF reader and disassembler are those of that process. With no such process the core
  has neither. No other core changes.
\<close>

theorem processPidPriv_selects:
  assumes "trace_ok t" and "pidList t \<noteq> [] \<longrightarrow> pd \<in> set (pidList t)"
  shows "\<exists>i t1. processPidPriv core pd v pv t = Inr (i, t1) \<and> trace_ok t1 \<and> currentPid t1 core = pd \<and>
     currentPrv t1 core = push_bit 4 v OR pv \<and> currentProcessIndex t1 core = i \<and>
     (if proc_pid (hd (processes t)) = -1 then i = 0
      else if \<exists>p \<in> set (processes t). proc_pid p = pd then
        0 \<le> i \<and> nat i < length (processes t) \<and> proc_pid (processes t ! nat i) = pd \<and>
        (\<forall>j < nat i. proc_pid (processes t ! j) \<noteq> pd)
      else i = -1) \<and>
     currentElfReader t1 core = (if i = -1 then None else elfReader (processes t ! nat i)) \<and>
     currentDisassembler t1 core = (if i = -1 then None else disassembler (processes t ! nat i)) \<and>
     (\<forall>c. c \<noteq> core \<longrightarrow> same_core c t t1)"
proof -
  obtain i t1 where r: "processPidPriv core pd v pv t = Inr (i, t1)" "trace_ok t1"
    using processPidPriv_ok [OF assms(1)] by blast
  obtain p0 ps where ps: "processes t = p0 # ps" using assms(1) by (cases "processes t") (auto simp: trace_ok_def)
  have pi: "process_index pd t = Inr i" and t1: "t1 = t\<lparr>currentPid := (currentPid t)(core := pd),
      currentPrv := (currentPrv t)(core := push_bit 4 v OR pv), currentProcessIndex := (currentProcessIndex t)(core := i),
      currentDisassembler := (currentDisassembler t)(core := if i \<ge> 0 then disassembler (processes t ! nat i) else None),
      currentElfReader := (currentElfReader t)(core := if i \<ge> 0 then elfReader (processes t ! nat i) else None)\<rparr>"
    using r(1) by (cases "process_index pd t"; auto simp: processPidPriv_def Let_def)+
  have i: "if proc_pid p0 = -1 then i = 0
      else i = (case index_of (\<lambda>p. proc_pid p = pd) (p0 # ps) of None \<Rightarrow> -1 | Some i \<Rightarrow> i)"
    using pi assms(2) ps by (auto simp: process_index_def split: if_splits)
  have sel: "if proc_pid p0 = -1 then i = 0
      else if \<exists>p \<in> set (p0 # ps). proc_pid p = pd then
        0 \<le> i \<and> nat i < length (p0 # ps) \<and> proc_pid ((p0 # ps) ! nat i) = pd \<and> (\<forall>j < nat i. proc_pid ((p0 # ps) ! j) \<noteq> pd)
      else i = -1"
  proof (cases "proc_pid p0 = -1")
    case False
    then show ?thesis
    proof (cases "index_of (\<lambda>p. proc_pid p = pd) (p0 # ps)")
      case None
      then show ?thesis using i False index_of_None [of "\<lambda>p. proc_pid p = pd" "p0 # ps"] by auto
    next
      case (Some k)
      have "\<exists>p \<in> set (p0 # ps). proc_pid p = pd" using Some index_of_None [of "\<lambda>p. proc_pid p = pd" "p0 # ps"] by force
      then show ?thesis using i False Some index_of_range [OF Some] index_of_first [OF Some]
        by (simp del: index_of.simps nth_Cons_Suc add: nat_less_iff)
    qed
  qed (use i in simp)
  then have i: "i = -1 \<or> 0 \<le> i" by (auto split: if_splits)
  have "currentPid t1 core = pd" "currentPrv t1 core = push_bit 4 v OR pv" "currentProcessIndex t1 core = i"
    "\<forall>c. c \<noteq> core \<longrightarrow> same_core c t t1"
    by (simp_all add: t1 same_core_def)
  moreover have "currentElfReader t1 core = (if i = -1 then None else elfReader (processes t ! nat i))"
    "currentDisassembler t1 core = (if i = -1 then None else disassembler (processes t ! nat i))"
    using i by (auto simp: t1)
  moreover note sel [folded ps]
  moreover have "hd (processes t) = p0" using ps by simp
  ultimately show ?thesis using r by blast
qed

theorem processPidPriv_selects_witness:
  "\<exists>t1. processPidPriv 0 7 1 3 (ex_started ex_sync) = Inr (0, t1) \<and> currentPid t1 0 = 7"
proof -
  have "pidList (ex_started ex_sync) = []" "proc_pid (hd (processes (ex_started ex_sync))) = -1"
    by (simp_all add: ex_started_def ex_process_def)
  then show ?thesis using processPidPriv_selects [OF ex_started_ok [of ex_sync], of 7 0 1 3] by auto
qed

section \<open>Starting over\<close>

text \<open>A core that waits for its first message with synchronisation.\<close>

definition fresh :: "nat \<Rightarrow> Trace \<Rightarrow> bool" where
  "fresh c t \<longleftrightarrow> lastTime t c = 0 \<and> lastFaddr t c = 0 \<and> tr_currentAddress t c = 0 \<and>
     tr_state t c = TRACE_STATE_GETFIRSTSYNCMSG \<and> \<not> prevMsgWasSync t c \<and>
     getCurrentCountType c (counts t) = COUNTTYPE_none"

lemma process_known: "trace_ok t \<Longrightarrow> \<exists>p0 ps. processes t = p0 # ps \<and> process_ok p0"
  by (cases "processes t") (auto simp: trace_ok_def)

text \<open>
  C29. Starting one core over makes it wait for a message with synchronisation, with no counts and an
  empty return stack, keeps the state well formed and leaves the other cores alone.
\<close>

theorem resetTrace_core:
  assumes "trace_ok t" and "0 \<le> core" and "core < int DQR_MAXCORES"
  shows "\<exists>t1. resetTrace core t = Inr t1 \<and> trace_ok t1 \<and> fresh (nat core) t1 \<and>
     idle (nat core) (stackSize (stack (counts t) (nat core))) [] (counts t1) \<and> tr_status t1 = DQERR_OK \<and>
     readNewTraceMessage t1 \<and> (\<forall>c. c \<noteq> nat core \<longrightarrow> same_core c t t1)"
proof -
  obtain p0 ps where p: "processes t = p0 # ps" "process_ok p0" using process_known [OF assms(1)] by blast
  let ?t1 = "(reset_one (nat core) p0 t)\<lparr>tr_status := DQERR_OK, readNewTraceMessage := True\<rparr>"
  have r: "resetTrace core t = Inr ?t1" using p(1) assms(2,3) by (simp add: resetTrace_def)
  have inv: "count_inv c (resetStack (nat core) (resetCounts (nat core) (counts t)))" for c
    using assms(1) by (simp add: trace_ok_def count_inv_reset count_inv_stack)
  have "trace_ok ?t1"
    using assms(1) p inv by (simp add: trace_ok_def core_ok_def process_ok_def reset_one_def Let_def)
  moreover have "fresh (nat core) ?t1"
    by (simp add: fresh_def reset_one_def Let_def getCurrentCountType_def resetCounts_def resetStack_def)
  moreover have "AddrStack_inv (stack (counts t) (nat core))" using assms(1) by (simp add: trace_ok_def count_inv_def)
  then have "idle (nat core) (stackSize (stack (counts t) (nat core))) [] (counts ?t1)"
    by (simp add: idle_def reset_one_def Let_def resetCounts_def resetStack_def AddrStack_inv_def AddrStack_items_def
        AddrStack_reset_def)
  moreover have "same_core c t ?t1" if "c \<noteq> nat core" for c
    using that by (simp add: same_core_def reset_one_def Let_def resetCounts_def resetStack_def)
  moreover have "tr_status ?t1 = DQERR_OK" "readNewTraceMessage ?t1" by simp_all
  ultimately show ?thesis using r by blast
qed

theorem resetTrace_core_witness: "\<exists>t1. resetTrace 0 (ex_started ex_sync) = Inr t1 \<and> fresh 0 t1"
  using resetTrace_core [OF ex_started_ok [of ex_sync], of 0] by (auto simp: DQR_MAXCORES_def)

lemma resetCounts_all:
  "i_cnt (fold resetCounts cs c) k = (if k \<in> set cs then 0 else i_cnt c k)"
  "histBit (fold resetCounts cs c) k = (if k \<in> set cs then -1 else histBit c k)"
  "takenCount (fold resetCounts cs c) k = (if k \<in> set cs then 0 else takenCount c k)"
  "notTakenCount (fold resetCounts cs c) k = (if k \<in> set cs then 0 else notTakenCount c k)"
  "stack (fold resetCounts cs c) = stack c"
  by (induction cs arbitrary: c; simp add: resetCounts_def)+

text \<open>
  Starting all cores over makes every core wait for a message with synchronisation with no counts
  left, but, unlike starting one core over, keeps all return stacks.
\<close>

theorem resetTrace_all:
  assumes "trace_ok t" and "core < 0"
  shows "\<exists>t1. resetTrace core t = Inr t1 \<and> trace_ok t1 \<and> (\<forall>c < DQR_MAXCORES. fresh c t1) \<and>
     stack (counts t1) = stack (counts t) \<and> currentCore t1 = 0 \<and> tr_status t1 = DQERR_OK"
proof -
  obtain p0 ps where p: "processes t = p0 # ps" "process_ok p0" using process_known [OF assms(1)] by blast
  let ?t1 = "(reset_all p0 t)\<lparr>tr_status := DQERR_OK, readNewTraceMessage := True\<rparr>"
  have "count_inv c (fold resetCounts cs k)" if "count_inv c k" for c cs k
    using that by (induction cs arbitrary: k) (simp_all add: count_inv_reset)
  then have "trace_ok ?t1"
    using assms(1) p by (simp add: trace_ok_def core_ok_def process_ok_def reset_all_def Let_def)
  moreover have "fresh c ?t1" if "c < DQR_MAXCORES" for c
    using that by (simp add: fresh_def reset_all_def Let_def getCurrentCountType_def resetCounts_all)
  moreover have "resetTrace core t = Inr ?t1" using p(1) assms(2) by (simp add: resetTrace_def)
  moreover have "stack (counts ?t1) = stack (counts t)" "currentCore ?t1 = 0" "tr_status ?t1 = DQERR_OK"
    by (simp_all add: reset_all_def Let_def resetCounts_all)
  ultimately show ?thesis by blast
qed

theorem resetTrace_all_witness: "\<exists>t1. resetTrace (-1) (ex_started ex_sync) = Inr t1 \<and> fresh 3 t1"
proof -
  obtain t1 where "resetTrace (-1) (ex_started ex_sync) = Inr t1" "\<forall>c < DQR_MAXCORES. fresh c t1"
    using resetTrace_all [OF ex_started_ok [of ex_sync], of "-1"] by auto
  then show ?thesis by (auto simp: DQR_MAXCORES_def)
qed

end
