(* ===== verification/Next_Returns.thy ===== *)
theory Next_Returns
  imports Next_Instruction Trace_Restart
begin

text \<open>
  Whether \<^verbatim>\<open>NextInstruction\<close> returns. The outer loop goes round at most three times after a message has
  been read, so a call returns whenever reading does; the inner loop need not.
\<close>

section \<open>Parts that end the call\<close>

text \<open>A part of the code that never goes on.\<close>

definition ends :: "'net move \<Rightarrow> bool" where
  "ends f \<longleftrightarrow> (\<forall>s s1. f s \<noteq> Inr (Go, s1))"

lemma endsD: "ends f \<Longrightarrow> f s = Inr (Go, s1) \<Longrightarrow> False"
  by (simp add: ends_def)

named_theorems ends_rules "parts of the code that end the call"

lemma ends_basic [ends_rules]: "ends fatal" "ends ret_status" "ends ret_ok"
  by (auto simp: ends_def fatal_def ret_status_def ret_ok_def)

lemma ends_map: "map_sum id (\<lambda>s. (Return e, g s)) r \<noteq> Inr (Go, s1)"
  by (cases r) auto

lemma ends_tolerate [ends_rules]: "ends (tolerate c)"
  using ends_basic(1) by (auto simp: ends_def tolerate_def Let_def ends_map [where g = id, simplified])

lemma ends_then: "ends f \<Longrightarrow> then_do r f \<noteq> Inr (Go, s1)"
  by (cases r) (auto simp: ends_def then_do_def)

lemma ends_thenI: "(\<And>s. ends (f s)) \<Longrightarrow> ends (\<lambda>s. then_do (r s) (f s))"
  unfolding ends_def using ends_then unfolding ends_def by blast

lemma ends_tolerate_at [ends_rules]: "ends (\<lambda>s. tolerate (g s) s)"
  unfolding ends_def by (blast dest: endsD [OF ends_tolerate])

lemma ends_fail [ends_rules]: "ends (fail_msg X w c)"
proof -
  have "ends (\<lambda>s. then_do (give_msg X w c (here s) s) (\<lambda>s. tolerate (int (core s)) s))"
    by (intro ends_thenI ends_tolerate_at)
  then show ?thesis by (simp add: ends_def fail_msg_def)
qed

lemma ends_process: "(\<And>rc c. ends (f rc c)) \<Longrightarrow> ends (process_msg X f)"
  by (auto simp: ends_def process_msg_def split: sum.splits)

lemma ends_process_or_fail: "(\<And>c. ends (f c)) \<Longrightarrow> ends (process_or_fail X w f)"
  unfolding process_or_fail_def by (rule ends_process) (simp add: ends_fail)

lemma ends_compose: "ends f \<Longrightarrow> ends (\<lambda>s. f (g s))"
  by (simp add: ends_def)

lemma ends_first_tail [ends_rules]: "ends (first_tail X w c)"
  unfolding ends_def first_tail_def using ends_then [OF ends_basic(3)] by blast

lemma ends_cate_give [ends_rules]: "ends (cate_give X w a c)"
  unfolding ends_def cate_give_def using ends_then [OF ends_compose [OF ends_basic(3), of want_msg]] by blast

lemma ends_cate_process [ends_rules]: "ends (cate_process X w a)"
  unfolding cate_process_def by (rule ends_process) (simp add: ends_rules)

lemma ends_cate_error: "ends (cate_error X w)"
  unfolding cate_error_def ends_def
  using ends_then [OF ends_thenI [OF ends_compose [OF ends_basic(3), of want_msg], of "reset (-1)"]]
  by (auto split: sum.split)

lemma ends_cate_early: "ends (cate_early X w)"
  using ends_cate_process [of X w here] ends_cate_give [of X w here False] by (simp add: ends_def cate_early_def)

lemma ends_get_first: "ends (get_first X w)"
proof -
  have "ends (first_sync X w)" unfolding first_sync_def
    by (intro ends_process_or_fail ends_thenI ends_compose [OF ends_first_tail])
  moreover have "ends (first_ict X w)" unfolding first_ict_def
  proof (rule ends_process_or_fail, unfold ends_def Let_def, intro allI)
    fix c s s1
    show "(if ict_cksrc (msg_of (full_from_last s)) = ICT_CONTROL \<and> ict_ckdf (msg_of (full_from_last s)) = 0
        then first_tail X w c (full_from_last s)
        else then_do (if \<not> no_address (msg_of (full_from_last s)) \<and> (w_inst w \<or> w_src w)
           then ict_info X w (full_from_last s) else Inr (full_from_last s))
          (\<lambda>s2. first_tail X w c (set_state TRACE_STATE_GETNEXTMSG (reset_counts s2)))) \<noteq> Inr (Go, s1)"
      using ends_first_tail [of X w c]
        ends_then [OF ends_compose [OF ends_first_tail [of X w c], of "\<lambda>s. set_state TRACE_STATE_GETNEXTMSG (reset_counts s)"]]
      by (simp add: ends_def)
  qed
  moreover have "ends (first_error X w)" unfolding first_error_def
  proof (intro ends_process ends_thenI)
    fix rc c s
    show "ends (\<lambda>s1. if rc \<noteq> DQERR_OK then tolerate (- 1) s1 else map_sum id (\<lambda>s2. (Return DQERR_OK, s2)) (reset (- 1) s1))"
      using ends_tolerate [of "-1"] by (auto simp: ends_def ends_map [where g = id, simplified])
  qed
  moreover have "ends (process_or_fail X w (first_tail X w))" by (intro ends_process_or_fail ends_rules)
  moreover have "ends (\<lambda>s. then_do (give_msg X w False 0 s) (\<lambda>s1. tolerate (int (core s1)) s1))"
    by (rule ends_thenI) (use ends_tolerate in \<open>auto simp: ends_def\<close>)
  ultimately show ?thesis
    unfolding ends_def get_first_def by (auto split: TCode.splits)
qed

lemma ends_retire: "ends (retire X w)"
proof -
  have "ends (retire_counts X w)" unfolding retire_counts_def
    by (intro ends_process_or_fail ends_thenI ends_compose [OF ends_basic(3)])
  moreover have "ends (retire_correlation X w)" unfolding retire_correlation_def
  proof (intro ends_process ends_thenI)
    fix rc c s
    show "ends (\<lambda>s1. if rc \<noteq> DQERR_OK then tolerate (int (core s1)) s1
        else map_sum id (\<lambda>s2. (Return DQERR_OK, s2)) (reset (int (core s1)) s1))"
      using ends_tolerate by (auto simp: ends_def ends_map [where g = id, simplified])
  qed
  ultimately show ?thesis
    using ends_basic(1) unfolding ends_def retire_def by (auto split: TCode.splits)
qed

lemma ends_get_next:
  assumes "get_next X w s = Inr (Go, s1)"
  shows "tr_state (tr s1) (core s1) = TRACE_STATE_GETNEXTINSTRUCTION \<and> sfp s1 = sfp s \<and>
    readNewTraceMessage (tr s1) = readNewTraceMessage (tr s)"
proof -
  have give: "ends (\<lambda>s. then_do (give_msg X w c (a s) s) (\<lambda>s1. ret_status (want_msg s1)))" for c a
    by (intro ends_thenI ends_compose [OF ends_basic(2)])
  have "ends (next_data X w)" unfolding next_data_def by (intro ends_process_or_fail give)
  moreover have "ends (next_error X w)"
    unfolding next_error_def ends_def
    using ends_then [OF ends_thenI [OF ends_compose [OF ends_basic(2), of want_msg], of "reset (-1)"]]
    by (auto split: sum.split)
  moreover have "ends (next_ict X w)"
    unfolding next_ict_def
  proof (intro ends_process_or_fail, unfold ends_def, intro allI)
    fix c s s1
    have n: "then_do r (\<lambda>s1. then_do (give_msg X w c a s1) (\<lambda>s2. ret_status (want_msg s2))) \<noteq> Inr (Go, s1)" for r a
      using ends_then [OF give [of c "\<lambda>_. a"]] .
    show "(let nm = msg_of s; (r, addr) =
           (if getCKSRC nm = ICT_CONTROL \<and> getCKDF nm = 0 then (Inr s, here s)
            else if no_address nm then (Inr s, lastFaddr (tr s) (core s))
            else if w_inst w \<or> w_src w then (ict_info X w s, here s)
            else (Inr s, junk_addr X)) in
       then_do r (\<lambda>s1. then_do (give_msg X w c addr s1) (\<lambda>s2. ret_status (want_msg s2)))) \<noteq> Inr (Go, s1)"
      using n by (simp add: Let_def split_def)
  qed
  moreover have "next_ownership X w s \<noteq> Inr (Go, s1)"
  proof -
    have "ends (process_or_fail X w (\<lambda>consumed s1.
        let tag = ownership_tag (msg_of s1);
            go_on = (\<lambda>s2. then_do (give_msg X w consumed (here s2) s2) (\<lambda>s3. ret_status (want_msg s3))) in
        if tag = 0 \<or> tag = 3 then go_on s1
        else if tag = 2 then go_on (switched b i s1)
        else Inr (Return DQERR_ERR, s1)))" for b i
      using give [of _ here] by (intro ends_process_or_fail) (simp add: ends_def Let_def)
    then show ?thesis by (simp add: next_ownership_def Let_def ends_def)
  qed
  moreover have "next_counts X w s = Inr (Go, s1) \<Longrightarrow> ?thesis"
  proof (cases "currentProcessIndex (tr s) (core s) \<ge> 0")
    case True
    assume "next_counts X w s = Inr (Go, s1)"
    then show ?thesis using True ends_fail [of X w False]
      by (auto simp: next_counts_def Let_def set_state_def on_trace_def core_def ends_def split: prod.splits if_splits)
  next
    case False
    have "ends (\<lambda>s2. if rc \<noteq> DQERR_OK then
          map_sum id (\<lambda>(r, s3). (r, if r = Return DQERR_OK then want_msg s3 else s3)) (tolerate (int (core s2)) s2)
        else Inr (Return DQERR_OK, want_msg s2))" for rc
      using ends_tolerate unfolding ends_def by (auto simp: map_sum_def split: sum.splits)
    then have "ends (process_msg X (\<lambda>rc consumed s1. then_do (give_msg X w consumed (here s1) s1) (\<lambda>s2.
        if rc \<noteq> DQERR_OK then
          map_sum id (\<lambda>(r, s3). (r, if r = Return DQERR_OK then want_msg s3 else s3)) (tolerate (int (core s2)) s2)
        else Inr (Return DQERR_OK, want_msg s2))))"
      by (intro ends_process ends_thenI)
    then show ?thesis if "next_counts X w s = Inr (Go, s1)"
      using that False by (simp add: next_counts_def ends_def)
  qed
  ultimately show ?thesis
    using assms ends_basic(1) unfolding get_next_def ends_def by (auto split: TCode.splits)
qed

section \<open>Parts that go on\<close>

lemma stack_frame:
  "readNewTraceMessage (push_addr c a t) = readNewTraceMessage t" "tr_state (push_addr c a t) = tr_state t"
  "readNewTraceMessage (snd (pop_addr c t)) = readNewTraceMessage t" "tr_state (snd (pop_addr c t)) = tr_state t"
  "readNewTraceMessage (snd (jalr_stack c a d t)) = readNewTraceMessage t" "tr_state (snd (jalr_stack c a d t)) = tr_state t"
  "readNewTraceMessage (snd (indirect fl c a cr d r)) = readNewTraceMessage (snd r)"
  "tr_state (snd (indirect fl c a cr d r)) = tr_state (snd r)"
  by (simp_all add: push_addr_def pop_addr_def jalr_stack_def indirect_def indirect_type_def split_def Let_def)

lemma indirect_frame:
  "pop_addr c t = (x, t1) \<Longrightarrow> readNewTraceMessage t1 = readNewTraceMessage t \<and> tr_state t1 = tr_state t"
  "indirect fl c a cr d r = (n, t1) \<Longrightarrow> readNewTraceMessage t1 = readNewTraceMessage (snd r) \<and> tr_state t1 = tr_state (snd r)"
  using stack_frame(3,4) [of c t] stack_frame(7,8) [of fl c a cr d r] by simp_all

lemma branch_frame:
  "branch c a d nm t = Inr (r, t1) \<Longrightarrow> readNewTraceMessage t1 = readNewTraceMessage t \<and> tr_state t1 = tr_state t"
  by (auto simp: branch_def branch_htm_def Let_def split: if_splits CountType.splits sum.splits prod.splits)

lemma next_switch_frame:
  assumes "next_switch c a d nm nx t = Inr (rc, nx1, t1)"
  shows "readNewTraceMessage t1 = readNewTraceMessage t \<and> tr_state t1 = tr_state t"
proof (cases "cond_branch (inst_type d)")
  case True
  then show ?thesis using assms branch_frame [of c a d nm t]
    by (auto simp: next_switch_def Let_def split: sum.splits)
next
  case False
  have two: "(case r of (nx, t) \<Rightarrow> Inr (DQERR_OK, nx, t)) = Inr (rc, nx1, t1) \<Longrightarrow> t1 = snd r" for r :: "Next \<times> Trace"
    by (cases r) auto
  from False assms show ?thesis
    by (cases "inst_type d")
      (auto simp: next_switch_def Let_def stack_frame cond_branch_def split: if_splits prod.splits dest!: two indirect_frame)
qed

lemma nextAddr_frame:
  assumes "nextAddr E c a nm nx t = Inr (rc, nx1, t1)"
  shows "readNewTraceMessage t1 = readNewTraceMessage t \<and> tr_state t1 = tr_state t"
proof -
  obtain r t0 where f: "fetch E a t = Inr (r, t0)" using assms by (auto simp: nextAddr_def split: sum.splits)
  obtain k where k: "t0 = t\<lparr>kMem := k\<rparr>" using fetch_frame [OF f] by blast
  show ?thesis
  proof (cases r)
    case (Fetched inst d)
    then show ?thesis using assms f k next_switch_frame [of c a d nm nx "t0\<lparr>tr_status := DQERR_OK\<rparr>"]
      by (auto simp: nextAddr_def consume_size_def split: sum.splits if_splits)
  qed (use assms f k in \<open>auto simp: nextAddr_def\<close>)
qed

lemma nextCAAddr_frame: "nextCAAddr E a v t = Inr (rc, a1, v1, t1) \<Longrightarrow> \<exists>e. t1 = t\<lparr>tr_status := e\<rparr>"
  by (auto simp: nextCAAddr_def Let_def split: option.splits sum.splits stop.splits prod.splits if_splits)

lemma ca_forward_keeps:
  "ca_forward X n a v out c s = Inr (Go, c1, s1) \<Longrightarrow>
     sfp s1 = sfp s \<and> readNewTraceMessage (tr s1) = readNewTraceMessage (tr s)"
proof (induction X n a v out c s rule: ca_forward.induct)
  case (2 X n a v out c s)
  show ?case
  proof (cases "a = caSyncAddr s")
    case False
    then obtain rc a1 v1 t1 where n: "nextCAAddr (x_env X) (caSyncAddr s) v (tr s) = Inr (rc, a1, v1, t1)"
      using 2(2) by (auto split: sum.splits)
    then obtain e where "t1 = tr s\<lparr>tr_status := e\<rparr>" using nextCAAddr_frame by blast
    then show ?thesis
      using 2(2) 2(1) [OF False n] False n by (auto simp: Let_def split: if_splits sum.splits prod.splits)
  qed (use 2(2) in simp)
qed simp

lemma cate_sync_goes:
  assumes "cate_sync X c s = Inr (Go, s1)"
  shows "tr_state (tr s1) (core s1) = TRACE_STATE_GETFIRSTSYNCMSG \<and> sfp s1 = sfp s \<and>
    readNewTraceMessage (tr s1) = readNewTraceMessage (tr s)"
  using assms
  by (auto simp: cate_sync_def Let_def set_state_def on_trace_def core_def map_sum_def
      split: sum.splits ret.splits if_splits prod.splits dest!: ca_forward_keeps)

lemma never: "cate_process X w a s \<noteq> Inr (Go, s1)" "fatal s \<noteq> Inr (Go, s1)" "ret_status s \<noteq> Inr (Go, s1)"
  "cate_error X w s \<noteq> Inr (Go, s1)" "cate_early X w s \<noteq> Inr (Go, s1)"
  using ends_cate_process [of X w a] ends_cate_error [of X w] ends_cate_early [of X w]
  by (simp_all add: ends_def fatal_def ret_status_def)

lemma cate_reason_goes: "cate_reason X w c s = Inr (Go, s1) \<Longrightarrow> cate_sync X c s = Inr (Go, s1)"
  by (auto simp: cate_reason_def never split: SyncReason.splits)

lemma cate_ict_goes: "cate_ict X w c s = Inr (Go, s1) \<Longrightarrow> cate_sync X c s = Inr (Go, s1)"
  by (auto simp: cate_ict_def never Let_def split: if_splits)

lemma sync_cate_goes:
  assumes "sync_cate X w s = Inr (Go, s1)"
  shows "tr_state (tr s1) (core s1) = TRACE_STATE_GETFIRSTSYNCMSG \<and> sfp s1 = sfp s \<and>
    readNewTraceMessage (tr s1) = readNewTraceMessage (tr s)"
proof -
  obtain c where "cate_sync X c s = Inr (Go, s1)"
    using assms
    by (cases "tcode (msg_of s)")
      (auto simp: sync_cate_def never split: option.splits dest: cate_reason_goes cate_ict_goes)
  then show ?thesis by (rule cate_sync_goes)
qed

lemma ca_cycles_goes:
  assumes "ca_cycles X t f s = Inr (Go, s1)"
  shows "\<exists>out prev s2. f out prev s2 = Inr (Go, s1) \<and> tr s2 = tr s\<lparr>tr_status := tr_status (tr s2)\<rparr> \<and> sfp s2 = sfp s"
  using assms
  by (auto simp: ca_cycles_def never Let_def count_cycles_def set_status_def on_trace_def
      split: option.splits sum.splits prod.splits if_splits intro!: exI)

lemma Disassemble_frame:
  assumes "Disassemble X a s = Inr (rc, s1)"
  shows "sfp s1 = sfp s \<and> readNewTraceMessage (tr s1) = readNewTraceMessage (tr s)"
  using assms
  by (auto simp: Disassemble_def Let_def on_trace_def map_sum_def split: option.splits sum.splits if_splits prod.splits)

lemma count_inst_goes:
  assumes "count_inst d cr br s = Inr (Go, s1)"
  shows "tr_state (tr s1) (core s1) = TRACE_STATE_RETIREMESSAGE \<and> sfp s1 = sfp s \<and>
    readNewTraceMessage (tr s1) = readNewTraceMessage (tr s)"
  using assms ends_basic(2)
  by (auto simp: count_inst_def Let_def ret_status_def set_state_def set_status_def on_trace_def core_def
      split: sum.splits if_splits)

lemma give_frame:
  "sfp (give_inst cr br out v s) = sfp s" "readNewTraceMessage (tr (give_inst cr br out v s)) = readNewTraceMessage (tr s)"
  "sfp (give_src s) = sfp s" "readNewTraceMessage (tr (give_src s)) = readNewTraceMessage (tr s)"
  by (simp_all add: give_inst_def give_src_def Let_def)

lemma ran_goes:
  assumes "ran X w d nx s = Inr (Go, s1)"
  shows "tr_state (tr s1) (core s1) = TRACE_STATE_RETIREMESSAGE \<and> sfp s1 = sfp s \<and>
    readNewTraceMessage (tr s1) = readNewTraceMessage (tr s)"
proof (cases "nx_pc nx = -1 \<and> brFlag nx = BRFLAG_unknown")
  case True
  then show ?thesis using assms by (auto simp: ran_def set_state_def on_trace_def core_def)
next
  case False
  then have "ca_cycles X (inst_type d) (\<lambda>out prev s1.
        let s2 = (if w_inst w then give_inst (crFlag nx) (brFlag nx) out prev s1 else s1);
            s3 = (if w_src w then give_src s2 else s2) in
        count_inst d (crFlag nx) (brFlag nx) s3) (on_trace (set_pc (nx_pc nx)) s) = Inr (Go, s1)"
    using assms by (auto simp: ran_def split: if_splits dest: endsD [OF ends_fail])
  from ca_cycles_goes [OF this] obtain out prev s2 where
    c: "count_inst d (crFlag nx) (brFlag nx)
       (if w_src w then give_src (if w_inst w then give_inst (crFlag nx) (brFlag nx) out prev s2 else s2)
        else if w_inst w then give_inst (crFlag nx) (brFlag nx) out prev s2 else s2) = Inr (Go, s1)"
    and t: "tr s2 = tr (on_trace (set_pc (nx_pc nx)) s)\<lparr>tr_status := tr_status (tr s2)\<rparr>" and f: "sfp s2 = sfp s"
    by (auto simp: Let_def on_trace_def)
  have "readNewTraceMessage (tr s2) = readNewTraceMessage (tr s)"
    by (subst t) (simp add: on_trace_def set_pc_def)
  then show ?thesis using count_inst_goes [OF c] f by (simp add: give_frame)
qed

lemma get_instruction_goes:
  assumes "get_instruction X w s = Inr (Go, s1)"
  shows "tr_state (tr s1) (core s1) = TRACE_STATE_RETIREMESSAGE \<and> sfp s1 = sfp s \<and>
    readNewTraceMessage (tr s1) = readNewTraceMessage (tr s)"
proof (cases "counts_of (tr s) = COUNTTYPE_none")
  case True
  then show ?thesis using assms by (auto simp: get_instruction_def set_state_def on_trace_def core_def)
next
  case False
  note n = endsD [OF ends_fail]
  obtain r t where f: "fetch (x_env X) (here s) (tr s) = Inr (r, t)" and "\<exists>inst d. r = Fetched inst d"
    using assms False by (auto simp: get_instruction_def split: if_splits sum.splits fetched.splits dest: n)
  then obtain inst d where r: "r = Fetched inst d" by blast
  let ?s = "s\<lparr>tr := t\<lparr>tr_status := DQERR_OK\<rparr>\<rparr>"
  have i: "run_inst X w d ?s = Inr (Go, s1)" using assms False f r by (auto simp: get_instruction_def split: if_splits)
  then obtain rc s2 where d: "Disassemble X (here ?s) ?s = Inr (rc, s2)" by (auto simp: run_inst_def split: sum.splits)
  then obtain nx t3 where a: "nextAddr (x_env X) (core s2) (here s2) (msg_of s2)
      \<lparr>nx_pc = 0, crFlag = isNone, brFlag = BRFLAG_none\<rparr> (tr s2) = Inr (DQERR_OK, nx, t3)"
    and g: "ran X w d nx (s2\<lparr>tr := t3\<lparr>tr_status := DQERR_OK\<rparr>\<rparr>) = Inr (Go, s1)"
    using i by (auto simp: run_inst_def split: sum.splits if_splits dest: n)
  have "readNewTraceMessage t3 = readNewTraceMessage (tr s) \<and> sfp s2 = sfp s"
    using nextAddr_frame [OF a] Disassemble_frame [OF d] fetch_frame [OF f] by auto
  then show ?thesis using ran_goes [OF g] by simp
qed

text \<open>How many rounds can follow.\<close>

fun rank :: "state \<Rightarrow> nat" where
  "rank TRACE_STATE_GETNEXTMSG = 2"
| "rank TRACE_STATE_GETNEXTINSTRUCTION = 1"
| "rank TRACE_STATE_SYNCCATE = 1"
| "rank _ = 0"

lemma state_switch_goes:
  assumes "state_switch X w s = Inr (Go, s1)"
  shows "rank (tr_state (tr s1) (core s1)) < rank (tr_state (tr s) (core s)) \<and> sfp s1 = sfp s \<and>
    readNewTraceMessage (tr s1) = readNewTraceMessage (tr s)"
  using assms ends_get_next [of X w s s1] get_instruction_goes [of X w s s1] sync_cate_goes [of X w s s1]
  by (cases "tr_state (tr s) (core s)")
    (auto simp: state_switch_def dest: endsD [OF ends_basic(1)] endsD [OF ends_get_first] endsD [OF ends_retire])

section \<open>The loops\<close>

lemma read_failed_keeps: "read_failed rc s = Inr (r, s1) \<Longrightarrow> sfp s1 = sfp s"
  by (auto simp: read_failed_def Let_def fatal_def set_status_def set_state_def on_trace_def reset_def map_sum_def
      split: if_splits sum.splits)

lemma read_msg_keeps:
  assumes "read_msg recv p s = Some r"
  shows "\<forall>a s1. r = Inr (a, s1) \<longrightarrow> sfp s1 \<noteq> None"
  using assms
proof (induction rule: read_msg.raw_induct [rotated, consumes 1, case_names step])
  case (step f recv p s r)
  have ih: "\<exists>y. sfp s1 = Some y" if "f recv q s2 = Some (Inr (a, s1))" for q s2 a s1
    using step(1) [OF that] by blast
  show ?case
    using step(2) by (auto simp: Let_def on_trace_def split: option.splits sum.splits prod.splits if_splits ret.splits
        dest!: read_failed_keeps ih)
qed

lemma take_msg_goes: "take_msg s = Inr (Go, s1) \<Longrightarrow> sfp s1 = sfp s \<and> \<not> readNewTraceMessage (tr s1)"
  by (auto simp: take_msg_def and_move_def linux_addrs_def trace_kind_def fatal_def on_trace_def Let_def
      split: if_splits sum.splits ret.splits option.splits)

lemma rounds_return:
  "sfp s \<noteq> None \<Longrightarrow> \<not> readNewTraceMessage (tr s) \<Longrightarrow> rounds X w s \<noteq> None"
proof (induction "rank (tr_state (tr s) (core s))" arbitrary: s rule: less_induct)
  case less
  obtain p where p: "sfp s = Some p" using less.prems(1) by blast
  have r: "round X w p s = Some (state_switch X w s)" using less.prems(2) by (simp add: round_def)
  show ?case
  proof (cases "\<exists>s1. state_switch X w s = Inr (Go, s1)")
    case True
    then obtain s1 where s1: "state_switch X w s = Inr (Go, s1)" by blast
    have "rounds X w s1 \<noteq> None"
      using state_switch_goes [OF s1] less.prems by (intro less.hyps) auto
    then show ?thesis using p r s1 by (simp add: rounds.simps [of X w s])
  next
    case False
    then show ?thesis using p r by (auto simp: rounds.simps [of X w s] split: sum.split ret.split)
  qed
qed

lemma rounds_after_reading:
  assumes "sfp s = Some p" and "read_msg (x_recv X) p s = Some r"
  shows "rounds X w s \<noteq> None"
proof (cases "readNewTraceMessage (tr s)")
  case True
  define g where "g = (\<lambda>s2. state_switch X (if filtered s2 then no_results else w) s2)"
  define q where "q = (case r of Inl e \<Rightarrow> Inl e | Inr (Return e, s1) \<Rightarrow> Inr (Return e, s1) | Inr (Go, s1) \<Rightarrow> and_move take_msg g s1)"
  have rd: "round X w p s = Some q" unfolding round_def q_def g_def using True assms(2) by simp
  have "rounds X w s1 \<noteq> None" if q: "q = Inr (Go, s1)" for s1
  proof -
    obtain s0 where s0: "r = Inr (Go, s0)" "and_move take_msg g s0 = Inr (Go, s1)"
      using q by (auto simp: q_def split: sum.splits ret.splits)
    then obtain s2 where s2: "take_msg s0 = Inr (Go, s2)" "g s2 = Inr (Go, s1)"
      by (auto simp: and_move_def split: sum.splits ret.splits)
    show ?thesis
      using rounds_return take_msg_goes [OF s2(1)] state_switch_goes [OF s2(2) [unfolded g_def]]
        read_msg_keeps [OF assms(2)] s0(1) by metis
  qed
  then show ?thesis using assms(1) rd by (auto simp: rounds.simps [of X w s] split: sum.split ret.split)
next
  case False
  then show ?thesis using rounds_return assms(1) by blast
qed

text \<open>
  C2. A call of \<^verbatim>\<open>NextInstruction\<close> returns whenever reading a message does: whatever the state of the
  cores and the message, the loop over the states ends. In particular a call that needs no message
  always returns.
\<close>

theorem NextInstruction_returns:
  assumes "sfp s = Some p" and "readNewTraceMessage (tr s) \<longrightarrow> read_msg (x_recv X) p (begin_call s) \<noteq> None"
  shows "NextInstruction X w s \<noteq> None"
proof -
  have b: "sfp (begin_call s) = Some p" "readNewTraceMessage (tr (begin_call s)) = readNewTraceMessage (tr s)"
    using assms(1) by (simp_all add: begin_call_def on_trace_def)
  have "rounds X w (begin_call s) \<noteq> None"
    using b assms(2) rounds_return [of "begin_call s" X w] rounds_after_reading [OF b(1)] by (cases "readNewTraceMessage (tr s)") auto
  then show ?thesis using assms(1) by (simp add: NextInstruction_def)
qed

section \<open>A bad message that is tolerated\<close>

lemma reset_all_keeps:
  "processes (tr s) \<noteq> [] \<Longrightarrow> \<exists>s1. reset (-1) s = Inr s1 \<and> processes (tr s1) = processes (tr s) \<and>
     tolerateErrors (tr s1) = tolerateErrors (tr s)"
  by (cases "processes (tr s)") (auto simp: reset_def resetTrace_def reset_all_def Let_def)

lemma read_msg_stuck:
  assumes "read_msg recv p s = Some r"
  shows "\<not> (status p = DQERR_BM \<and> tolerateErrors (tr s) \<and> processes (tr s) \<noteq> [])"
  using assms
proof (induction rule: read_msg.raw_induct [rotated, consumes 1, case_names step])
  case (step f recv p s r)
  show ?case
  proof
    assume a: "status p = DQERR_BM \<and> tolerateErrors (tr s) \<and> processes (tr s) \<noteq> []"
    let ?s1 = "(on_trace (\<lambda>t. t\<lparr>tr_nm := msg_of s, tr_analytics := tr_analytics (tr s)\<rparr>) s)\<lparr>sfp := Some p, net := net s\<rparr>"
    let ?s2 = "on_trace (\<lambda>t. t\<lparr>tolerantError := True\<rparr>) ?s1"
    obtain s3 where s3: "reset (-1) ?s2 = Inr s3" "processes (tr s3) = processes (tr s)" "tolerateErrors (tr s3)"
      using reset_all_keeps [of ?s2] a by (auto simp: on_trace_def)
    have "read_failed DQERR_BM ?s1 = Inr (Go, s3)"
      using s3(1) a by (simp add: read_failed_def on_trace_def)
    moreover have "readNextTraceMsg recv p (msg_of s) (tr_analytics (tr s)) (net s) =
        Some (Inr (DQERR_BM, False), p, msg_of s, tr_analytics (tr s), net s)"
      using a by (simp add: readNextTraceMsg_def)
    ultimately have "f recv p s3 = Some r" using step(2) by (simp add: Let_def)
    from step(1) [OF this] show False using a s3(2,3) by simp
  qed
qed

text \<open>
  C34. With tolerated errors the decoder hangs on a bad message that the reader keeps reporting, as it
  does after a message of more than 64 slices: the reader returns its error without reading, the trace
  is reset and the reader asked again, for ever.
\<close>

theorem tolerated_bad_message_hangs:
  assumes "sfp s = Some p" and "status p = DQERR_BM" and "tolerateErrors (tr s)" and "processes (tr s) \<noteq> []"
    and "readNewTraceMessage (tr s)" and "tr_status (tr s) = DQERR_OK"
  shows "NextInstruction X w s = None"
proof -
  have "read_msg (x_recv X) p (begin_call s) = None"
    using read_msg_stuck [of "x_recv X" p "begin_call s"] assms(2-4)
    by (cases "read_msg (x_recv X) p (begin_call s)") (auto simp: begin_call_def on_trace_def)
  then have "round X w p (begin_call s) = None"
    using assms(5) by (simp add: round_def begin_call_def on_trace_def)
  moreover have "sfp (begin_call s) = Some p" using assms(1) by (simp add: begin_call_def on_trace_def)
  ultimately have "rounds X w (begin_call s) = None" by (subst rounds.simps) simp
  then show ?thesis using assms(1,6) by (simp add: NextInstruction_def)
qed

section \<open>An example\<close>

definition ex_extern :: "unit Extern" where
  "ex_extern = undefined\<lparr>x_env := ex_env0, x_recv := (\<lambda>n net. (Would_block, net))\<rparr>"

definition ex_session :: "SliceFileParser \<Rightarrow> Trace \<Rightarrow> unit Session" where
  "ex_session p t = undefined\<lparr>tr := t, sfp := Some p, net := (), itcPrint := None\<rparr>"

definition ex_wants :: Want where
  "ex_wants = \<lparr>w_inst = True, w_msg = True, w_src = False\<rparr>"

definition ex_parser :: "DQErr \<Rightarrow> SliceFileParser" where
  "ex_parser e = undefined\<lparr>status := e\<rparr>"

theorem NextInstruction_returns_witness:
  "NextInstruction ex_extern ex_wants
     (ex_session (ex_parser DQERR_OK) ((ex_started ex_sync)\<lparr>readNewTraceMessage := False, tr_state := (\<lambda>_. TRACE_STATE_GETNEXTMSG)\<rparr>)) \<noteq> None"
  by (rule NextInstruction_returns [where p = "ex_parser DQERR_OK"]) (simp_all add: ex_session_def)

theorem tolerated_bad_message_hangs_witness:
  "NextInstruction ex_extern ex_wants (ex_session (ex_parser DQERR_BM)
     ((ex_started ex_sync)\<lparr>tolerateErrors := True, readNewTraceMessage := True, tr_status := DQERR_OK\<rparr>)) = None"
  by (rule tolerated_bad_message_hangs [where p = "ex_parser DQERR_BM"]) (simp_all add: ex_session_def ex_started_def ex_parser_def)

end
