(* ===== verification/Itc_Text.thy ===== *)
theory Itc_Text
  imports Itc_Print "HOL-Library.Sublist"
begin

text \<open>
  What \<^verbatim>\<open>ITCPrint\<close> promises: the ring buffer is a queue of bytes, a line written to the print channel
  comes out as it went in with its times, and where the list of times goes wrong.
\<close>

section \<open>The ring buffer as a queue\<close>

definition ring :: "'a list \<Rightarrow> nat \<Rightarrow> nat \<Rightarrow> 'a list" where
  "ring buf out i = (if out \<le> i then drop out (take i buf) else drop out buf @ take i buf)"

lemma length_ring: "out \<le> length buf \<Longrightarrow> i \<le> length buf \<Longrightarrow>
    length (ring buf out i) = (if out \<le> i then i - out else length buf - out + i)"
  by (simp add: ring_def)

lemma ring_update [simp]: "i < length buf \<Longrightarrow> out < length buf \<Longrightarrow> ring (buf[i := b]) out i = ring buf out i"
  by (auto simp: ring_def drop_update_cancel)

lemma take_Suc_update: "i < length xs \<Longrightarrow> take (Suc i) (xs[i := b]) = take i xs @ [b]"
  by (simp add: take_Suc_conv_app_nth)

lemma ring_put:
  assumes "i < length buf" "out < length buf" "length (ring buf out i) + 1 < length buf"
  shows "ring (buf[i := b]) out (if i + 1 \<ge> length buf then 0 else i + 1) = ring buf out i @ [b]"
proof (cases "out \<le> i")
  case True
  show ?thesis
  proof (cases "i + 1 \<ge> length buf")
    case last: True
    then have i: "Suc i = length buf" using assms(1) by simp
    have "take (Suc i) (buf[i := b]) = buf[i := b]" by (simp add: i)
    then have "drop out (buf[i := b]) = drop out (take i buf @ [b])"
      using take_Suc_update [OF assms(1), of b] by simp
    then show ?thesis using True last assms by (simp add: ring_def)
  next
    case False
    then show ?thesis using True assms(1) by (simp add: ring_def take_Suc_update)
  qed
next
  case False
  then have "i + 1 < out" using assms by (simp add: length_ring)
  then show ?thesis using False assms(1,2) by (simp add: ring_def take_Suc_update drop_update_cancel)
qed

lemma ring_skip:
  assumes "i < length buf" "out < length buf" "ring buf out i = b # bs"
  shows "buf ! out = b \<and> ring buf (if out + 1 \<ge> length buf then 0 else out + 1) i = bs"
proof -
  have d: "drop out buf = buf ! out # drop (Suc out) buf" using assms(2) by (simp add: Cons_nth_drop_Suc)
  show ?thesis
  proof (cases "out \<le> i")
    case True
    then have lt: "out < i" using assms(3) by (cases "out = i") (auto simp: ring_def)
    then have "drop out (take i buf) = buf ! out # drop (Suc out) (take i buf)"
      using assms(1) by (metis Cons_nth_drop_Suc length_take min.absorb4 nth_take)
    then show ?thesis using assms True lt by (simp add: ring_def)
  next
    case False
    then show ?thesis using assms d by (auto simp: ring_def)
  qed
qed

lemma ring_empty: "i < length buf \<Longrightarrow> out < length buf \<Longrightarrow> ring buf out i = [] \<longleftrightarrow> out = i"
  by (auto simp: ring_def)

section \<open>The buffer of a core\<close>

definition unread :: "nat \<Rightarrow> ITCPrint \<Rightarrow> u8 list" where
  "unread core q = ring (pbuff q core) (pbo q core) (pbi q core)"

definition q_ok :: "nat \<Rightarrow> ITCPrint \<Rightarrow> bool" where
  "q_ok core q \<longleftrightarrow> core < numCores q \<and> length (pbuff q core) = buffSize q \<and> pbi q core < buffSize q \<and> pbo q core < buffSize q"

lemma room: "q_ok core q \<Longrightarrow> roomInITCPrintQ core q = int (buffSize q) - 1 - int (length (unread core q))"
  by (auto simp: q_ok_def roomInITCPrintQ_def unread_def length_ring)

text \<open>What the operations on the buffer leave alone.\<close>

lemma put_frame [simp]:
  "tsList (put core b q) = tsList q" "heap (put core b q) = heap q" "numMsgs (put core b q) = numMsgs q"
  "freeList (put core b q) = freeList q" "buffSize (put core b q) = buffSize q" "numCores (put core b q) = numCores q"
  "itcOptFlags (put core b q) = itcOptFlags q" "printChannel (put core b q) = printChannel q" "pbo (put core b q) = pbo q"
  by (simp_all add: put_def write_at_def)

lemma write_at_frame [simp]:
  "tsList (write_at core b q) = tsList q" "heap (write_at core b q) = heap q" "numMsgs (write_at core b q) = numMsgs q"
  "buffSize (write_at core b q) = buffSize q" "numCores (write_at core b q) = numCores q"
  "itcOptFlags (write_at core b q) = itcOptFlags q" "printChannel (write_at core b q) = printChannel q"
  by (simp_all add: write_at_def)

lemma upd_frame [simp]:
  "tsList (upd p f q) = tsList q" "numMsgs (upd p f q) = numMsgs q"
  "buffSize (upd p f q) = buffSize q" "numCores (upd p f q) = numCores q" "heap (upd p f q) p = f (heap q p)"
  "itcOptFlags (upd p f q) = itcOptFlags q" "printChannel (upd p f q) = printChannel q"
  "q_ok core (upd p f q) = q_ok core q" "unread core (upd p f q) = unread core q"
  by (simp_all add: upd_def q_ok_def unread_def)

lemma count_msg_frame [simp]:
  "q_ok c (count_msg core q) = q_ok c q" "unread c (count_msg core q) = unread c q" "heap (count_msg core q) = heap q"
  "numMsgs (count_msg core q) core = numMsgs q core + 1"
  "tsList (count_msg core q) = tsList q" "buffSize (count_msg core q) = buffSize q" "numCores (count_msg core q) = numCores q"
  "itcOptFlags (count_msg core q) = itcOptFlags q" "printChannel (count_msg core q) = printChannel q"
  by (simp_all add: count_msg_def q_ok_def unread_def)

lemma terminate_frame [simp]:
  "q_ok c (terminate w q) = q_ok c q" "unread c (terminate w q) = unread c q" "buffSize (terminate w q) = buffSize q"
  "numMsgs (terminate w q) = numMsgs q"
  by (simp_all add: terminate_def)

lemma put_ok [simp]: "q_ok core q \<Longrightarrow> q_ok core (put core b q)"
  by (auto simp: q_ok_def put_def write_at_def wrap_def)

lemma unread_put:
  "q_ok core q \<Longrightarrow> length (unread core q) + 1 < buffSize q \<Longrightarrow> unread core (put core b q) = unread core q @ [b]"
  using ring_put [of "pbi q core" "pbuff q core" "pbo q core" b]
  by (simp add: q_ok_def put_def write_at_def wrap_def unread_def)

lemma write_at_ok [simp]: "q_ok core q \<Longrightarrow> q_ok core (write_at core b q)"
  by (simp add: q_ok_def write_at_def)

lemma unread_write_at [simp]: "q_ok core q \<Longrightarrow> unread core (write_at core b q) = unread core q"
  by (simp add: q_ok_def write_at_def unread_def)

lemma skip_ok: "q_ok core q \<Longrightarrow> q_ok core (skip core q)"
  by (auto simp: q_ok_def skip_def wrap_def)

lemma unread_skip:
  "q_ok core q \<Longrightarrow> unread core q = b # bs \<Longrightarrow> take_char core q = b \<and> unread core (skip core q) = bs"
  using ring_skip [of "pbi q core" "pbuff q core" "pbo q core" b bs]
  by (simp add: q_ok_def skip_def wrap_def unread_def take_char_def)

lemma set_head_frame [simp]:
  "q_ok core (set_head c p q) = q_ok core q" "unread core (set_head c p q) = unread core q"
  "numMsgs (set_head c p q) = numMsgs q" "buffSize (set_head c p q) = buffSize q" "heap (set_head c p q) = heap q"
  by (simp_all add: set_head_def q_ok_def unread_def)

section \<open>Printing appends\<close>

text \<open>The bytes as they are stored, with a zero after each end of line, and the number of messages they end.\<close>

definition stored :: "u8 list \<Rightarrow> u8 list" where
  "stored bs = concat (map (\<lambda>b. if b = 10 \<or> b = 13 then [b, 0] else [b]) bs)"

definition ends_of :: "u8 list \<Rightarrow> nat" where
  "ends_of bs = length (filter (\<lambda>b. b \<in> {0, 10, 13}) bs)"

lemma put_data_appends:
  assumes "q_ok core q" and "room \<le> int (buffSize q) - 1 - int (length (unread core q))"
  shows "q_ok core (put_data core w bs room q) \<and> prefix (unread core q) (unread core (put_data core w bs room q)) \<and>
    (int (length (stored bs)) + 1 \<le> room \<longrightarrow>
      unread core (put_data core w bs room q) = unread core q @ stored bs \<and>
      numMsgs (put_data core w bs room q) core = numMsgs q core + ends_of bs)"
  using assms
proof (induction core w bs room q rule: put_data.induct)
  case (1 core w room q)
  then show ?case by (simp add: stored_def ends_of_def)
next
  case (2 core w b bs room q)
  show ?case
  proof (cases "room \<ge> 2")
    case False
    then show ?thesis using 2 by (auto simp: stored_def split: if_splits)
  next
    case True
    have l1: "length (unread core q) + 1 < buffSize q" using True 2(6) by linarith
    let ?q1 = "put core b q"
    have u1: "unread core ?q1 = unread core q @ [b]" and ok1: "q_ok core ?q1" using unread_put [OF 2(5) l1] 2(5) by simp_all
    have u2: "unread core (put core 0 ?q1) = unread core q @ [b, 0]" and ok2: "q_ok core (put core 0 ?q1)"
      using unread_put [OF ok1] u1 ok1 True 2(6) by simp_all
    consider (z) "b = 0" | (eol) "b = 10 \<or> b = 13" "b \<noteq> 0" | (other) "b \<noteq> 0" "\<not> (b = 10 \<or> b = 13)" by blast
    then show ?thesis
    proof cases
      case z
      from 2(1) [OF True refl z] ok1 u1 z True 2(6) show ?thesis
        by (auto simp: stored_def ends_of_def prefix_def)
    next
      case eol
      from 2(2) [OF True refl eol(2,1)] ok2 u2 eol True 2(6) show ?thesis
        by (auto simp: stored_def ends_of_def prefix_def)
    next
      case other
      from 2(3) [OF True refl other] ok1 u1 other True 2(6) show ?thesis
        by (auto simp: stored_def ends_of_def prefix_def)
    qed
  qed
qed

lemma link_frame:
  assumes "link tlp w q = Inr q1"
  shows "q_ok core q1 = q_ok core q \<and> unread core q1 = unread core q \<and> numMsgs q1 = numMsgs q \<and> buffSize q1 = buffSize q"
  using assms by (auto simp: link_def Let_def split: option.splits)

lemma new_ts_frame:
  assumes "new_ts q = (w, q1)"
  shows "q_ok core q1 = q_ok core q \<and> unread core q1 = unread core q \<and> numMsgs q1 = numMsgs q \<and> buffSize q1 = buffSize q"
  using assms by (auto simp: new_ts_def q_ok_def unread_def upd_def split: option.splits)

lemma itc_print_start:
  assumes "itc_print core addr d t q = Inr q1"
  shows "\<exists>w q3. q_ok core q3 = q_ok core q \<and> unread core q3 = unread core q \<and> numMsgs q3 = numMsgs q \<and> buffSize q3 = buffSize q \<and>
    q1 = write_at core 0 (put_data core w (take (4 - unat (addr AND 3)) (data_bytes d))
      (roomInITCPrintQ core (upd w (\<lambda>r. r\<lparr>endTime := t\<rparr>) q3)) (upd w (\<lambda>r. r\<lparr>endTime := t\<rparr>) q3))"
proof (cases "case tsList q core of None \<Rightarrow> True | Some h \<Rightarrow> terminated (heap q h)")
  case False
  then show ?thesis using assms by (auto simp: itc_print_def Let_def)
next
  case True
  obtain w q0 where n: "new_ts q = (w, q0)" by (cases "new_ts q")
  from True assms n obtain q2 where l: "link (tsList q core) w q0 = Inr q2"
    and q1: "q1 = (let q3 = set_head core (Some w) (upd w (\<lambda>r. r\<lparr>terminated := False, startTime := t, ts_message := Some (pbi q2 core)\<rparr>) q2);
        q4 = upd w (\<lambda>r. r\<lparr>endTime := t\<rparr>) q3 in
      write_at core 0 (put_data core w (take (4 - unat (addr AND 3)) (data_bytes d)) (roomInITCPrintQ core q4) q4))"
    by (auto simp: itc_print_def Let_def map_sum_def split: sum.splits)
  let ?q3 = "set_head core (Some w) (upd w (\<lambda>r. r\<lparr>terminated := False, startTime := t, ts_message := Some (pbi q2 core)\<rparr>) q2)"
  have "q_ok core ?q3 = q_ok core q \<and> unread core ?q3 = unread core q \<and> numMsgs ?q3 = numMsgs q \<and> buffSize ?q3 = buffSize q"
    using new_ts_frame [OF n, of core] link_frame [OF l, of core] by simp
  then show ?thesis using q1 unfolding Let_def by blast
qed

text \<open>
  C37. Printing to a core appends to what has not been read from its buffer and never overwrites it,
  however full the buffer is; when there is room, exactly the bytes that the address selects are
  appended, with a zero after each end of line, and the messages they end are counted.
\<close>

theorem itc_print_appends:
  assumes "q_ok core q" and "itc_print core addr d t q = Inr q1"
  shows "q_ok core q1 \<and> prefix (unread core q) (unread core q1) \<and>
    (length (unread core q) + length (stored (take (4 - unat (addr AND 3)) (data_bytes d))) + 2 \<le> buffSize q \<longrightarrow>
      unread core q1 = unread core q @ stored (take (4 - unat (addr AND 3)) (data_bytes d)) \<and>
      numMsgs q1 core = numMsgs q core + ends_of (take (4 - unat (addr AND 3)) (data_bytes d)))"
proof -
  let ?bs = "take (4 - unat (addr AND 3)) (data_bytes d)"
  obtain w q3 where q3: "q_ok core q3" "unread core q3 = unread core q" "numMsgs q3 = numMsgs q" "buffSize q3 = buffSize q"
    and q1: "q1 = write_at core 0 (put_data core w ?bs (roomInITCPrintQ core (upd w (\<lambda>r. r\<lparr>endTime := t\<rparr>) q3))
      (upd w (\<lambda>r. r\<lparr>endTime := t\<rparr>) q3))"
    using itc_print_start [OF assms(2)] assms(1) by metis
  let ?q4 = "upd w (\<lambda>r. r\<lparr>endTime := t\<rparr>) q3"
  have ok: "q_ok core ?q4" using q3(1) by simp
  have r: "roomInITCPrintQ core ?q4 = int (buffSize q) - 1 - int (length (unread core q))" using room [OF ok] q3 by simp
  have p: "q_ok core (put_data core w ?bs (roomInITCPrintQ core ?q4) ?q4) \<and>
      prefix (unread core ?q4) (unread core (put_data core w ?bs (roomInITCPrintQ core ?q4) ?q4)) \<and>
      (int (length (stored ?bs)) + 1 \<le> roomInITCPrintQ core ?q4 \<longrightarrow>
        unread core (put_data core w ?bs (roomInITCPrintQ core ?q4) ?q4) = unread core ?q4 @ stored ?bs \<and>
        numMsgs (put_data core w ?bs (roomInITCPrintQ core ?q4) ?q4) core = numMsgs ?q4 core + ends_of ?bs)"
    by (rule put_data_appends [OF ok]) (simp add: room [OF ok])
  have l: "int (length (stored ?bs)) + 1 \<le> roomInITCPrintQ core ?q4" if "length (unread core q) + length (stored ?bs) + 2 \<le> buffSize q"
    unfolding r using that by linarith
  show ?thesis unfolding q1 using p l q3 by simp
qed

section \<open>A line goes in and comes out\<close>

text \<open>The bytes that one write prints.\<close>

definition bytes_of :: "u32 \<times> u32 \<times> TIMESTAMP \<Rightarrow> u8 list" where
  "bytes_of x = take (4 - unat (fst x AND 3)) (data_bytes (fst (snd x)))"

lemma bytes_of_nonempty: "bytes_of x \<noteq> []"
proof -
  have "fst x AND 3 = fst x AND mask 2" by (simp add: mask_eq_exp_minus_1)
  then have "unat (fst x AND 3) < 4" using and_mask_less' [of 2 "fst x"] by (simp add: word_less_nat_alt)
  then show ?thesis by (simp add: data_bytes_def bytes_of_def)
qed

lemma stored_simps [simp]:
  "stored [] = []" "stored (b # bs) = (if b = 10 \<or> b = 13 then b # 0 # stored bs else b # stored bs)"
  "ends_of [] = 0" "ends_of (b # bs) = (if b \<in> {0, 10, 13} then 1 else 0) + ends_of bs"
  by (simp_all add: stored_def ends_of_def)

lemma plain: "\<forall>b \<in> set bs. b \<notin> {0, 10, 13} \<Longrightarrow> stored bs = bs \<and> ends_of bs = 0"
  by (induction bs) auto

lemma stored_append: "stored (bs @ cs) = stored bs @ stored cs" by (simp add: stored_def)

lemma ends_append: "ends_of (bs @ cs) = ends_of bs + ends_of cs" by (simp add: ends_of_def)

lemma put_data_frame [simp]:
  "tsList (put_data core w bs room q) = tsList q \<and> buffSize (put_data core w bs room q) = buffSize q \<and>
   itcOptFlags (put_data core w bs room q) = itcOptFlags q \<and> printChannel (put_data core w bs room q) = printChannel q \<and>
   numCores (put_data core w bs room q) = numCores q"
  by (induction core w bs room q rule: put_data.induct) (simp_all add: Let_def terminate_def)

lemma put_data_heap:
  "int (length (stored bs)) + 1 \<le> room \<Longrightarrow> heap (put_data core w bs room q) =
     (if ends_of bs = 0 then heap q else (heap q)(w := (heap q w)\<lparr>terminated := True\<rparr>))"
  by (induction core w bs room q rule: put_data.induct) (auto simp: Let_def terminate_def upd_def)

text \<open>A core with nothing to read, and a core with one message, finished or not.\<close>

definition quiet :: "nat \<Rightarrow> ITCPrint \<Rightarrow> bool" where
  "quiet core q \<longleftrightarrow> q_ok core q \<and> unread core q = [] \<and> numMsgs q core = 0 \<and> tsList q core = None"

definition one_msg :: "nat \<Rightarrow> nat \<Rightarrow> TIMESTAMP \<Rightarrow> TIMESTAMP \<Rightarrow> u8 list \<Rightarrow> nat \<Rightarrow> ITCPrint \<Rightarrow> bool" where
  "one_msg core w t0 t1 said n q \<longleftrightarrow> q_ok core q \<and> unread core q = said \<and> numMsgs q core = n \<and> tsList q core = Some w \<and>
     ts_next (heap q w) = Some w \<and> ts_prev (heap q w) = Some w \<and> terminated (heap q w) = (n > 0) \<and>
     startTime (heap q w) = t0 \<and> endTime (heap q w) = t1"

definition same_setup :: "ITCPrint \<Rightarrow> ITCPrint \<Rightarrow> bool" where
  "same_setup q q1 \<longleftrightarrow> buffSize q1 = buffSize q \<and> itcOptFlags q1 = itcOptFlags q \<and> printChannel q1 = printChannel q"

lemma print_more:
  assumes m: "one_msg core w t0 t1 said 0 q"
    and r: "length said + length (stored (bytes_of x)) + 2 \<le> buffSize q"
  shows "\<exists>q1. itc_print core (fst x) (fst (snd x)) t q = Inr q1 \<and>
    one_msg core w t0 t (said @ stored (bytes_of x)) (ends_of (bytes_of x)) q1 \<and> same_setup q q1"
proof -
  let ?q4 = "upd w (\<lambda>r. r\<lparr>endTime := t\<rparr>) q"
  let ?q1 = "write_at core 0 (put_data core w (bytes_of x) (roomInITCPrintQ core ?q4) ?q4)"
  have i: "itc_print core (fst x) (fst (snd x)) t q = Inr ?q1"
    using m by (simp add: itc_print_def one_msg_def Let_def bytes_of_def)
  have ok: "q_ok core ?q4" "unread core ?q4 = said" "buffSize ?q4 = buffSize q" "numMsgs ?q4 core = 0"
    using m by (simp_all add: one_msg_def)
  have rm: "int (length (stored (bytes_of x))) + 1 \<le> roomInITCPrintQ core ?q4"
    using r unfolding room [OF ok(1)] ok(2,3) by linarith
  note a = put_data_appends [OF ok(1) eq_refl [OF room [OF ok(1)]], of w "bytes_of x"]
  have "one_msg core w t0 t (said @ stored (bytes_of x)) (ends_of (bytes_of x)) ?q1"
    using m a rm ok put_data_heap [OF rm, of core w ?q4] unfolding one_msg_def by auto
  moreover have "same_setup q ?q1" by (simp add: same_setup_def)
  ultimately show ?thesis using i by blast
qed

lemma print_first:
  assumes k: "quiet core q" and r: "length (stored (bytes_of x)) + 2 \<le> buffSize q"
  shows "\<exists>w q1. itc_print core (fst x) (fst (snd x)) t q = Inr q1 \<and>
    one_msg core w t t (stored (bytes_of x)) (ends_of (bytes_of x)) q1 \<and> same_setup q q1"
proof -
  obtain w q0 where n: "new_ts q = (w, q0)" by (cases "new_ts q")
  let ?q2 = "upd w (\<lambda>r. r\<lparr>ts_next := Some w, ts_prev := Some w\<rparr>) q0"
  let ?q3 = "set_head core (Some w) (upd w (\<lambda>r. r\<lparr>terminated := False, startTime := t, ts_message := Some (pbi ?q2 core)\<rparr>) ?q2)"
  have "one_msg core w t (endTime (heap ?q3 w)) [] 0 ?q3"
    using k new_ts_frame [OF n, of core] by (simp add: quiet_def one_msg_def) (simp add: set_head_def)
  moreover have b: "same_setup q ?q3"
    using n by (auto simp: same_setup_def new_ts_def set_head_def upd_def split: option.splits)
  ultimately obtain q1 where q1: "itc_print core (fst x) (fst (snd x)) t ?q3 = Inr q1"
      "one_msg core w t t (stored (bytes_of x)) (ends_of (bytes_of x)) q1" "same_setup ?q3 q1"
    using print_more [of core w t _ "[]" ?q3 x t] r unfolding same_setup_def by auto
  have "itc_print core (fst x) (fst (snd x)) t q = itc_print core (fst x) (fst (snd x)) t ?q3"
    using k n by (simp add: quiet_def itc_print_def link_def Let_def) (simp add: set_head_def upd_def)
  then show ?thesis using q1 b unfolding same_setup_def by metis
qed

text \<open>Writes one after another.\<close>

fun prints :: "Sprintf \<Rightarrow> nat \<Rightarrow> (u32 \<times> u32 \<times> TIMESTAMP) list \<Rightarrow> ITCPrint \<Rightarrow> ITCPrint outcome" where
  "prints F core [] q = Inr q"
| "prints F core ((a, d, t) # ws) q =
     (case print F core a d t q of Inl e \<Rightarrow> Inl e | Inr (_, q1) \<Rightarrow> prints F core ws q1)"

definition on_channel :: "ITCPrint \<Rightarrow> (u32 \<times> u32 \<times> TIMESTAMP) list \<Rightarrow> bool" where
  "on_channel q ws \<longleftrightarrow> itcOptFlags q = ITC_OPT_PRINT \<and>
     (\<forall>x \<in> set ws. word_of_int (printChannel q) * 4 \<le> fst x \<and> fst x < (word_of_int (printChannel q) + 1) * 4)"

lemma print_on_channel:
  "on_channel q ((a, d, t) # ws) \<Longrightarrow> core < numCores q \<Longrightarrow>
     print F core a d t q = map_sum id (\<lambda>q. (True, q)) (itc_print core a d t q)"
  by (auto simp: on_channel_def print_def Let_def ITC_OPT_PRINT_def ITC_OPT_NLS_def)

lemma on_channel_step: "on_channel q (x # ws) \<Longrightarrow> same_setup q q1 \<Longrightarrow> on_channel q1 ws"
  by (simp add: on_channel_def same_setup_def)

lemma same_setup_trans: "same_setup q q1 \<Longrightarrow> same_setup q1 q2 \<Longrightarrow> same_setup q q2"
  by (simp add: same_setup_def)

text \<open>The first write of several holds the beginning of the line.\<close>

lemma split_line:
  assumes "concat (map bytes_of (x # ws)) = line @ [10]" "ws \<noteq> []"
  obtains rest where "line = bytes_of x @ rest" "concat (map bytes_of ws) = rest @ [10]"
proof -
  have "concat (map bytes_of ws) \<noteq> []" using assms(2) bytes_of_nonempty by (cases ws) auto
  then obtain rest b where r: "concat (map bytes_of ws) = rest @ [b]" by (metis rev_exhaust)
  then show thesis using that assms(1) by simp
qed

lemma plain_line:
  "\<forall>b \<in> set line. b \<notin> {0, 10, 13} \<Longrightarrow> stored (line @ [10]) = line @ [10, 0] \<and> ends_of (line @ [10]) = 1"
  by (simp add: stored_append ends_append plain)

lemma prints_rest:
  assumes "one_msg core w t0 t1 said 0 q" "on_channel q ws" "ws \<noteq> []" "concat (map bytes_of ws) = line @ [10]"
    "\<forall>b \<in> set line. b \<notin> {0, 10, 13}" "length said + length line + 4 \<le> buffSize q"
  shows "\<exists>q1. prints F core ws q = Inr q1 \<and> one_msg core w t0 (snd (snd (last ws))) (said @ line @ [10, 0]) 1 q1"
  using assms
proof (induction ws arbitrary: q t1 said line)
  case (Cons x ws)
  obtain a d t where x: "x = (a, d, t)" by (cases x)
  have c: "core < numCores q" using Cons.prems(1) by (simp add: one_msg_def q_ok_def)
  note p = print_on_channel [OF Cons.prems(2) [unfolded x] c]
  show ?case
  proof (cases "ws = []")
    case True
    then have b: "bytes_of x = line @ [10]" using Cons.prems(4) by simp
    show ?thesis
      using print_more [OF Cons.prems(1), of x t] plain_line [OF Cons.prems(5)] Cons.prems(6) p x
      unfolding b by (auto simp: True)
  next
    case False
    obtain rest where l: "line = bytes_of x @ rest" "concat (map bytes_of ws) = rest @ [10]"
      using split_line Cons.prems(4) False by blast
    have pl: "stored (bytes_of x) = bytes_of x" "ends_of (bytes_of x) = 0" "\<forall>b \<in> set rest. b \<notin> {0, 10, 13}"
      using plain [of "bytes_of x"] Cons.prems(5) l(1) by auto
    obtain q1 where q1: "itc_print core a d t q = Inr q1" "one_msg core w t0 t (said @ bytes_of x) 0 q1" "same_setup q q1"
      using print_more [OF Cons.prems(1), of x t] pl Cons.prems(6) l(1) x by auto
    have "length (said @ bytes_of x) + length rest + 4 \<le> buffSize q1"
      using Cons.prems(6) q1(3) l(1) by (simp add: same_setup_def)
    from Cons.IH [OF q1(2) on_channel_step [OF Cons.prems(2) q1(3)] False l(2) pl(3) this] False l(1) p q1(1) x
    show ?thesis by auto
  qed
qed simp

lemma prints_line:
  assumes k: "quiet core q" and o: "on_channel q ws" and cc: "concat (map bytes_of ws) = line @ [10]"
    and pl: "\<forall>b \<in> set line. b \<notin> {0, 10, 13}" and r: "length line + 4 \<le> buffSize q"
  shows "\<exists>w q1. prints F core ws q = Inr q1 \<and>
    one_msg core w (snd (snd (hd ws))) (snd (snd (last ws))) (line @ [10, 0]) 1 q1"
proof -
  obtain x us where ws: "ws = x # us" using cc by (cases ws) auto
  obtain a d t where x: "x = (a, d, t)" by (cases x)
  have p: "print F core a d t q = map_sum id (\<lambda>q. (True, q)) (itc_print core a d t q)"
    using print_on_channel [OF o [unfolded ws x]] k by (simp add: quiet_def q_ok_def)
  show ?thesis
  proof (cases "us = []")
    case True
    then have b: "bytes_of x = line @ [10]" using cc ws by simp
    show ?thesis
      using print_first [OF k, of x t] plain_line [OF pl] r p x ws unfolding b by (auto simp: True)
  next
    case False
    obtain rest where l: "line = bytes_of x @ rest" "concat (map bytes_of us) = rest @ [10]"
      using split_line cc False unfolding ws by blast
    have pn: "stored (bytes_of x) = bytes_of x" "ends_of (bytes_of x) = 0" "\<forall>b \<in> set rest. b \<notin> {0, 10, 13}"
      using plain [of "bytes_of x"] pl l(1) by auto
    obtain w q1 where q1: "itc_print core a d t q = Inr q1" "one_msg core w t t (bytes_of x) 0 q1" "same_setup q q1"
      using print_first [OF k, of x t] pn r l(1) x by auto
    have "length (bytes_of x) + length rest + 4 \<le> buffSize q1" using r q1(3) l(1) by (simp add: same_setup_def)
    from prints_rest [OF q1(2) on_channel_step [OF o [unfolded ws] q1(3)] False l(2) pn(3) this, of F] False l(1) p q1(1) x ws
    show ?thesis by auto
  qed
qed

text \<open>Copying a message out of the buffer.\<close>

lemma skip_frame [simp]:
  "numMsgs (skip core q) = numMsgs q" "tsList (skip core q) = tsList q" "heap (skip core q) = heap q"
  by (simp_all add: skip_def)

lemma copy_msg_unread:
  "q_ok core q \<Longrightarrow> unread core q = msg @ 0 # rest \<Longrightarrow> 0 \<notin> set msg \<Longrightarrow> length msg \<le> n \<Longrightarrow>
   \<exists>q1. copy_msg core n q = (msg, q1) \<and> q_ok core q1 \<and> unread core q1 = 0 # rest \<and> numMsgs q1 = numMsgs q \<and> tsList q1 = tsList q"
proof (induction msg arbitrary: q n)
  case Nil
  then show ?case using unread_skip [of core q 0 rest] by (cases n) auto
next
  case (Cons b msg)
  then obtain m where n: "n = Suc m" by (cases n) auto
  have s: "take_char core q = b" "unread core (skip core q) = msg @ 0 # rest" "q_ok core (skip core q)"
    using unread_skip [OF Cons.prems(1), of b "msg @ 0 # rest"] Cons.prems skip_ok by auto
  from Cons.IH [OF s(3,2), of m] Cons.prems(3,4) n s(1) show ?case by auto
qed

lemma get_msg:
  assumes m: "one_msg core w t0 t1 (msg @ [0]) 1 q" and z: "0 \<notin> set msg" and l: "int (length msg) < dstLen"
  shows "\<exists>q1. getITCPrintMsg core dstLen q = Inr (Some (msg, t0, t1), q1) \<and> quiet core q1"
proof -
  let ?q1 = "unlink core w w q"
  let ?q2 = "?q1\<lparr>numMsgs := (numMsgs ?q1)(core := numMsgs ?q1 core - 1)\<rparr>"
  have c: "consumeTerminatedTsList core q = Inr (Some w, ?q1)"
    using m by (simp add: one_msg_def consumeTerminatedTsList_def)
  have f: "q_ok core ?q2" "unread core ?q2 = msg @ 0 # []" "numMsgs ?q2 core = 0" "tsList ?q2 core = None"
      "startTime (heap ?q1 w) = t0" "endTime (heap ?q1 w) = t1"
    using m by (simp_all add: one_msg_def unlink_def set_head_def upd_def q_ok_def unread_def)
  obtain q3 where q3: "copy_msg core (nat (dstLen - 1)) ?q2 = (msg, q3)" "q_ok core q3" "unread core q3 = [0]"
      "numMsgs q3 core = 0" "tsList q3 core = None"
    using copy_msg_unread [OF f(1,2) z, of "nat (dstLen - 1)"] l f(3,4) by fastforce
  have "getITCPrintMsg core dstLen q = Inr (Some (msg, t0, t1), skip core q3)"
    using m l c q3(1) f(5,6) by (simp add: getITCPrintMsg_def one_msg_def q_ok_def Let_def)
  moreover have "quiet core (skip core q3)"
    using q3 unread_skip [OF q3(2,3)] skip_ok by (simp add: quiet_def)
  ultimately show ?thesis by blast
qed


section \<open>Messages that wait\<close>

text \<open>
  Terminated messages of a core that have not been got: a circular list of their records, newest
  first, with the oldest in front of the newest.
\<close>

definition waiting :: "nat \<Rightarrow> nat list \<Rightarrow> ITCPrint \<Rightarrow> bool" where
  "waiting core ps q \<longleftrightarrow> ps \<noteq> [] \<and> distinct ps \<and> tsList q core = Some (hd ps) \<and> numMsgs q core = length ps \<and>
     list_all (\<lambda>i. terminated (heap q (ps ! i)) \<and> ts_next (heap q (ps ! i)) = Some (ps ! ((i + 1) mod length ps)) \<and>
       ts_prev (heap q (ps ! i)) = Some (ps ! ((i + length ps - 1) mod length ps))) [0..<length ps]"

text \<open>Getting a number of messages; their times.\<close>

fun gets :: "nat \<Rightarrow> int \<Rightarrow> nat \<Rightarrow> ITCPrint \<Rightarrow> ((TIMESTAMP \<times> TIMESTAMP) list \<times> ITCPrint) outcome" where
  "gets core dstLen 0 q = Inr ([], q)"
| "gets core dstLen (Suc n) q =
     (case getITCPrintMsg core dstLen q of
        Inl e \<Rightarrow> Inl e
      | Inr (None, q1) \<Rightarrow> Inr ([], q1)
      | Inr (Some (bs, t), q1) \<Rightarrow> map_sum id (\<lambda>(ts, q2). (t # ts, q2)) (gets core dstLen n q1))"

text \<open>
  What is left of the list after some of its messages have been got, with \<open>N\<close> what follows the second
  newest record: this link is never written, so that it leaves the list when its record does.
\<close>

definition rest_waiting :: "nat \<Rightarrow> nat \<Rightarrow> nat list \<Rightarrow> ITCPrint \<Rightarrow> bool" where
  "rest_waiting core N ps q \<longleftrightarrow> ps \<noteq> [] \<and> distinct ps \<and> tsList q core = Some (hd ps) \<and> numMsgs q core = length ps \<and>
     (\<forall>p \<in> set ps. terminated (heap q p)) \<and> ts_prev (heap q (hd ps)) = Some (last ps) \<and>
     (\<forall>i. 0 < i \<and> i < length ps \<longrightarrow> ts_prev (heap q (ps ! i)) = Some (ps ! (i - 1)) \<and>
        ts_next (heap q (ps ! i)) \<noteq> Some (ps ! i)) \<and>
     (if length ps = 1 then ts_next (heap q (hd ps)) = Some N
      else ts_next (heap q (hd ps)) = Some (ps ! 1) \<and> ts_next (heap q (ps ! 1)) = Some N)"

lemma waiting_rest:
  assumes "waiting core ps q"
  shows "rest_waiting core (ps ! (2 mod length ps)) ps q"
proof -
  have ne: "ps \<noteq> []" "distinct ps" "tsList q core = Some (hd ps)" "numMsgs q core = length ps"
    using assms by (simp_all add: waiting_def)
  have r: "terminated (heap q (ps ! i))" "ts_next (heap q (ps ! i)) = Some (ps ! ((i + 1) mod length ps))"
    "ts_prev (heap q (ps ! i)) = Some (ps ! ((i + length ps - 1) mod length ps))" if "i < length ps" for i
    using assms that by (simp_all add: waiting_def list_all_iff)
  have l: "0 < length ps" using ne(1) by simp
  have h: "hd ps = ps ! 0" "last ps = ps ! (length ps - 1)" using ne(1) by (simp_all add: hd_conv_nth last_conv_nth)
  have "ts_prev (heap q (ps ! i)) = Some (ps ! (i - 1)) \<and> ts_next (heap q (ps ! i)) \<noteq> Some (ps ! i)"
    if i: "0 < i" "i < length ps" for i
  proof -
    have e: "i + length ps - 1 = (i - 1) + length ps" using i by simp
    have "(i + length ps - 1) mod length ps = i - 1" unfolding e mod_add_self2 using i by (intro mod_less) simp
    moreover have "(i + 1) mod length ps \<noteq> i" using i by (cases "i + 1 = length ps") auto
    moreover have "(i + 1) mod length ps < length ps" using l by simp
    ultimately show ?thesis using r(2,3) [OF i(2)] ne(2) i(2) by (simp add: nth_eq_iff_index_eq)
  qed
  moreover have "\<forall>p \<in> set ps. terminated (heap q p)" using r(1) by (auto simp: in_set_conv_nth)
  moreover have "ts_prev (heap q (hd ps)) = Some (last ps)" using r(3) [OF l] l h by simp
  moreover have "if length ps = 1 then ts_next (heap q (hd ps)) = Some (ps ! (2 mod length ps))
      else ts_next (heap q (hd ps)) = Some (ps ! 1) \<and> ts_next (heap q (ps ! 1)) = Some (ps ! (2 mod length ps))"
    using r(2) [OF l] r(2) [of 1] l h by (cases "length ps = 1") (simp_all add: eval_nat_numeral)
  ultimately show ?thesis using ne by (simp add: rest_waiting_def)
qed

text \<open>What copying a message leaves alone.\<close>

definition same_lists :: "ITCPrint \<Rightarrow> ITCPrint \<Rightarrow> bool" where
  "same_lists q q1 \<longleftrightarrow> numMsgs q1 = numMsgs q \<and> tsList q1 = tsList q \<and> heap q1 = heap q \<and> freeList q1 = freeList q \<and>
     numCores q1 = numCores q"

lemma copy_msg_lists: "copy_msg core n q = (bs, q1) \<Longrightarrow> same_lists q q1"
  by (induction core n q arbitrary: bs rule: copy_msg.induct)
    (auto simp: same_lists_def skip_def split: if_splits prod.splits)

text \<open>One get: the oldest record leaves the list and is free.\<close>

lemma get_oldest:
  assumes "numMsgs q core > 0" "tsList q core = Some h" "ts_prev (heap q h) = Some z" "terminated (heap q z)"
    and "core < numCores q" "0 < dstLen"
  shows "\<exists>bs q1. getITCPrintMsg core dstLen q = Inr (Some (bs, startTime (heap q z), endTime (heap q z)), q1) \<and>
    numMsgs q1 core = numMsgs q core - 1 \<and> numCores q1 = numCores q \<and>
    tsList q1 = tsList (unlink core h z q) \<and> heap q1 = heap (unlink core h z q) \<and> freeList q1 = Some z"
proof -
  let ?q = "unlink core h z q"
  have c: "consumeTerminatedTsList core q = Inr (Some z, ?q)" using assms by (simp add: consumeTerminatedTsList_def)
  let ?r = "?q\<lparr>numMsgs := (numMsgs ?q)(core := numMsgs ?q core - 1)\<rparr>"
  obtain bs q1 where q1: "copy_msg core (nat (dstLen - 1)) ?r = (bs, q1)" by fastforce
  have t: "startTime (heap ?q z) = startTime (heap q z)" "endTime (heap ?q z) = endTime (heap q z)"
    "numMsgs ?q = numMsgs q" "numCores ?q = numCores q" "freeList ?q = Some z"
    by (simp_all add: unlink_def upd_def set_head_def Let_def)
  have "getITCPrintMsg core dstLen q = Inr (Some (bs, startTime (heap q z), endTime (heap q z)), skip core q1)"
    using assms c q1 t(1,2) by (simp add: getITCPrintMsg_def Let_def)
  then show ?thesis
    using copy_msg_lists [OF q1] t by (intro exI [of _ bs] exI [of _ "skip core q1"]) (simp add: same_lists_def skip_def)
qed

lemma unlink_heap:
  "ts_next (heap q z) \<noteq> Some z \<Longrightarrow> h \<noteq> z \<Longrightarrow> p \<noteq> z \<Longrightarrow> heap (unlink core h z q) p =
     (if p = h then (heap q h)\<lparr>ts_prev := ts_prev (heap q z),
        ts_next := (if ts_next (heap q h) = Some z then ts_next (heap q z) else ts_next (heap q h))\<rparr>
      else heap q p)"
  by (simp add: unlink_def upd_def set_head_def Let_def)

lemma get_rest:
  assumes r: "rest_waiting core N (ys @ [z]) q" and c: "core < numCores q" "0 < dstLen"
  shows "\<exists>bs q1. getITCPrintMsg core dstLen q = Inr (Some (bs, startTime (heap q z), endTime (heap q z)), q1) \<and>
    numCores q1 = numCores q \<and> freeList q1 = Some z \<and> numMsgs q1 core = length ys \<and>
    (\<forall>p. startTime (heap q1 p) = startTime (heap q p) \<and> endTime (heap q1 p) = endTime (heap q p)) \<and>
    (if ys = [] then tsList q1 core = (if N = z then None else Some z) else rest_waiting core N ys q1)"
proof -
  let ?ps = "ys @ [z]"
  define h where "h = hd ?ps"
  have w: "distinct ?ps" "tsList q core = Some h" "numMsgs q core = length ?ps" "\<forall>p \<in> set ?ps. terminated (heap q p)"
    "ts_prev (heap q h) = Some z"
    using r by (simp_all add: rest_waiting_def h_def)
  have mid: "ts_prev (heap q (?ps ! i)) = Some (?ps ! (i - 1))" "ts_next (heap q (?ps ! i)) \<noteq> Some (?ps ! i)"
    if "0 < i" "i < length ?ps" for i
    using r that unfolding rest_waiting_def by blast+
  obtain bs q1 where q1: "getITCPrintMsg core dstLen q = Inr (Some (bs, startTime (heap q z), endTime (heap q z)), q1)"
      "numMsgs q1 core = length ys" "numCores q1 = numCores q"
      "tsList q1 = tsList (unlink core h z q)" "heap q1 = heap (unlink core h z q)" "freeList q1 = Some z"
    using get_oldest [of q core h z dstLen] w c by auto
  have times: "startTime (heap q1 p) = startTime (heap q p) \<and> endTime (heap q1 p) = endTime (heap q p)" for p
    unfolding q1(5) by (simp add: unlink_def upd_def set_head_def Let_def)
  have "if ys = [] then tsList q1 core = (if N = z then None else Some z) else rest_waiting core N ys q1"
  proof (cases ys)
    case Nil
    then have "h = z" "ts_next (heap q z) = Some N" using r by (simp_all add: rest_waiting_def h_def)
    then show ?thesis using w Nil by (simp add: q1(4) unlink_def upd_def set_head_def Let_def)
  next
    case (Cons a as)
    have h: "h = a" "a \<noteq> z" "z \<notin> set ys" "distinct ys" using w(1) Cons by (auto simp: h_def)
    have zi: "?ps ! length ys = z" "?ps ! (length ys - 1) = last ys" using Cons by (simp_all add: nth_append last_conv_nth)
    have pz: "ts_prev (heap q z) = Some (last ys)" "ts_next (heap q z) \<noteq> Some z"
      using mid [of "length ys"] Cons unfolding zi by simp_all
    have na: "ts_next (heap q a) = Some (?ps ! 1)" "ts_next (heap q (?ps ! 1)) = Some N"
      using r Cons by (simp_all add: rest_waiting_def)
    have hp: "heap q1 p = (if p = a then (heap q a)\<lparr>ts_prev := Some (last ys),
        ts_next := (if as = [] then Some N else Some (?ps ! 1))\<rparr> else heap q p)" if "p \<noteq> z" for p
    proof -
      have "?ps ! 1 = z" if "as = []" using Cons that by simp
      moreover have "?ps ! 1 \<noteq> z" if "as \<noteq> []" using Cons that h(3) by (cases as) auto
      ultimately show ?thesis
        unfolding q1(5) h(1) using unlink_heap [OF pz(2) h(2) that] pz(1) na by (cases "as = []") simp_all
    qed
    have tl: "tsList q1 core = Some a" using w(2) pz h by (simp add: q1(4) unlink_def upd_def set_head_def Let_def)
    have ya: "ys ! i \<noteq> a" "ys ! i \<noteq> z" "?ps ! i = ys ! i" "?ps ! (i - 1) = ys ! (i - 1)" if "0 < i" "i < length ys" for i
      using h that Cons nth_mem [of i ys] by (auto simp: nth_append nth_Cons')
    have "ts_prev (heap q1 (ys ! i)) = Some (ys ! (i - 1)) \<and> ts_next (heap q1 (ys ! i)) \<noteq> Some (ys ! i)"
      if "0 < i" "i < length ys" for i
      using mid [of i] ya [OF that] that by (simp add: hp)
    moreover have "terminated (heap q1 p)" if "p \<in> set ys" for p
    proof -
      have "p \<noteq> z" using that h(3) by blast
      then show ?thesis using w(4) that Cons by (auto simp: hp)
    qed
    moreover have "ts_prev (heap q1 a) = Some (last ys)" using h by (simp add: hp)
    moreover have "if as = [] then ts_next (heap q1 a) = Some N
        else ts_next (heap q1 a) = Some (as ! 0) \<and> ts_next (heap q1 (as ! 0)) = Some N"
    proof (cases as)
      case Nil
      then show ?thesis using Cons h by (simp add: hp)
    next
      case (Cons b bs')
      then show ?thesis using \<open>ys = a # as\<close> h na by (auto simp: hp)
    qed
    ultimately show ?thesis using Cons h tl q1(2) by (simp add: rest_waiting_def)
  qed
  then show ?thesis using q1 times by blast
qed

lemma gets_rest:
  "rest_waiting core N ps q \<Longrightarrow> core < numCores q \<Longrightarrow> 0 < dstLen \<Longrightarrow>
   \<exists>q1. gets core dstLen (length ps) q = Inr (map (\<lambda>p. (startTime (heap q p), endTime (heap q p))) (rev ps), q1) \<and>
     numMsgs q1 core = 0 \<and> freeList q1 = Some (hd ps) \<and> tsList q1 core = (if N = hd ps then None else Some (hd ps))"
proof (induction ps arbitrary: q rule: rev_induct)
  case Nil
  then show ?case by (simp add: rest_waiting_def)
next
  case (snoc z ys)
  obtain bs q1 where q1: "getITCPrintMsg core dstLen q = Inr (Some (bs, startTime (heap q z), endTime (heap q z)), q1)"
      "numCores q1 = numCores q" "freeList q1 = Some z" "numMsgs q1 core = length ys"
      "\<And>p. startTime (heap q1 p) = startTime (heap q p)" "\<And>p. endTime (heap q1 p) = endTime (heap q p)"
      "if ys = [] then tsList q1 core = (if N = z then None else Some z) else rest_waiting core N ys q1"
    using get_rest [OF snoc.prems] by blast
  show ?case
  proof (cases "ys = []")
    case True
    then show ?thesis using q1 by simp
  next
    case False
    then obtain q2 where "gets core dstLen (length ys) q1 = Inr (map (\<lambda>p. (startTime (heap q1 p), endTime (heap q1 p))) (rev ys), q2)"
        "numMsgs q2 core = 0" "freeList q2 = Some (hd ys)" "tsList q2 core = (if N = hd ys then None else Some (hd ys))"
      using snoc.IH [of q1] q1(2,7) snoc.prems by auto
    then show ?thesis using q1(1,5,6) False by simp
  qed
qed


section \<open>Examples\<close>

definition ex_no_sprintf :: Sprintf where
  "ex_no_sprintf = \<lparr>sprintf = (\<lambda>_ _. []), bad_nf = (\<lambda>_ _. [])\<rparr>"

definition ex_itc :: ITCPrint where
  "ex_itc = ITCPrint_new ITC_OPT_PRINT 2 16 0 None (\<lambda>_. replicate 16 0)"

lemma ex_itc_quiet: "core < 2 \<Longrightarrow> quiet core ex_itc"
  by (simp add: ex_itc_def ITCPrint_new_def quiet_def q_ok_def unread_def ring_def)

theorem itc_print_appends_witness:
  "\<exists>q1. itc_print 0 0 0x0a636261 5 ex_itc = Inr q1 \<and> prefix (unread 0 ex_itc) (unread 0 q1)"
proof -
  have k: "q_ok 0 ex_itc" using ex_itc_quiet [of 0] by (simp add: quiet_def)
  obtain q1 where q1: "itc_print 0 0 0x0a636261 5 ex_itc = Inr q1"
    by (simp add: itc_print_def ex_itc_def ITCPrint_new_def new_ts_def link_def Let_def)
  show ?thesis using itc_print_appends [OF k q1] q1 by blast
qed


text \<open>Operations one after another, with what the gets return. A write prints an empty line at a time.\<close>

datatype itc_op = Write nat TIMESTAMP | Get nat

fun run_itc :: "itc_op list \<Rightarrow> ITCPrint \<Rightarrow> got list outcome" where
  "run_itc [] q = Inr []"
| "run_itc (Write core t # ops) q =
     (case print ex_no_sprintf core 3 10 t q of Inl e \<Rightarrow> Inl e | Inr (_, q1) \<Rightarrow> run_itc ops q1)"
| "run_itc (Get core # ops) q =
     (case getITCPrintMsg core 3 q of Inl e \<Rightarrow> Inl e | Inr (g, q1) \<Rightarrow> map_sum id (\<lambda>gs. g # gs) (run_itc ops q1))"

lemma copy_msg_rec:
  "copy_msg core n q = (if n = 0 then ([], q) else if take_char core q = 0 then ([], q)
     else case copy_msg core (n - 1) (skip core q) of (bs, q1) \<Rightarrow> (take_char core q # bs, q1))"
  by (cases n) auto

lemmas itc_eval = print_def itc_print_def Let_def ex_itc_def ITCPrint_new_def ITC_OPT_PRINT_def ITC_OPT_NLS_def
  new_ts_def link_def upd_def set_head_def data_bytes_def upt_rec roomInITCPrintQ_def put_def write_at_def wrap_def
  terminate_def count_msg_def getITCPrintMsg_def consumeTerminatedTsList_def unlink_def skip_def take_char_def copy_msg_rec

text \<open>
  What becomes of it: after three messages of core 0 the next message of core 1 takes the record, so that
  a message of core 0 comes with a time of core 1; and if the message of core 1 is got first, getting that
  of core 0 follows a null pointer.
\<close>

lemma freed_record_taken:
  "run_itc [Write 0 1, Write 0 2, Write 0 3, Get 0, Get 0, Get 0, Write 1 4, Write 0 5, Get 0] ex_itc =
     Inr [Some ([10], 1, 1), Some ([10], 2, 2), Some ([10], 3, 3), Some ([10], 4, 4)]"
  "run_itc [Write 0 1, Write 0 2, Write 0 3, Get 0, Get 0, Get 0, Write 1 4, Write 0 5, Get 1, Get 0] ex_itc = Inl UB"
  by (simp_all add: itc_eval del: copy_msg.simps)


end
