(* ===== verification/Swt_Stream.thy ===== *)
theory Swt_Stream
  imports Dqr_Prelude
begin

text \<open>
  The serial wire trace server (src/swt.cpp, include/swt.hpp): the stream that puts Nexus messages
  together from the bytes of the serial device, the builder of such streams, and the connections that
  pass the bytes on to clients. The acceptor of slices is an interface of callbacks.
\<close>

section \<open>Bits of a byte buffer\<close>

text \<open>A negative position, or one past the end, is an access out of bounds.\<close>

definition buf_get_bit :: "u8 list \<Rightarrow> int \<Rightarrow> bool outcome" where
  "buf_get_bit buf pos =
     (if pos < 0 \<or> pos \<ge> 8 * int (length buf) then Inl UB
      else Inr (bit (buf ! nat (pos div 8)) (nat (pos mod 8))))"

definition buf_set_bit :: "u8 list \<Rightarrow> int \<Rightarrow> bool \<Rightarrow> u8 list outcome" where
  "buf_set_bit buf pos v =
     (if pos < 0 \<or> pos \<ge> 8 * int (length buf) then Inl UB
      else let i = nat (pos div 8); m = push_bit (nat (pos mod 8)) 1 in
        Inr (buf[i := (if v then buf ! i OR m else buf ! i AND NOT m)]))"

fun u8_to_buf :: "u8 \<Rightarrow> nat \<Rightarrow> u8 list \<Rightarrow> int \<Rightarrow> u8 list outcome" where
  "u8_to_buf val 0 buf pos = Inr buf"
| "u8_to_buf val (Suc n) buf pos =
     (case buf_set_bit buf pos (bit val 0) of
        Inl e \<Rightarrow> Inl e | Inr buf1 \<Rightarrow> u8_to_buf (drop_bit 1 val) n buf1 (pos + 1))"

text \<open>\<^verbatim>\<open>bit << i\<close> is undefined from 64 bits on.\<close>

fun to_u64 :: "u8 list \<Rightarrow> int \<Rightarrow> nat \<Rightarrow> nat \<Rightarrow> u64 \<Rightarrow> u64 outcome" where
  "to_u64 buf pos i 0 val = Inr val"
| "to_u64 buf pos i (Suc n) val =
     (case buf_get_bit buf (pos + int i) of
        Inl e \<Rightarrow> Inl e
      | Inr b \<Rightarrow> if i \<ge> 64 then Inl UB else to_u64 buf pos (i + 1) n (val OR push_bit i (of_bool b)))"

definition buf_to_u64 :: "u8 list \<Rightarrow> int \<Rightarrow> int \<Rightarrow> u64 outcome" where
  "buf_to_u64 buf pos numbits = to_u64 buf pos 0 (nat numbits) 0"

section \<open>Slices\<close>

text \<open>\<^verbatim>\<open>class NexusSliceAcceptor\<close>: the callbacks of the unwrapper, on a state of the acceptor.\<close>

record 's Acceptor =
  startMessage :: "nat \<Rightarrow> 's \<Rightarrow> 's"
  messageData :: "int \<Rightarrow> u8 list \<Rightarrow> bool \<Rightarrow> 's \<Rightarrow> 's outcome"
  endField :: "'s \<Rightarrow> 's outcome"
  endMessage :: "'s \<Rightarrow> 's"

definition MAX_DATA :: nat where
  "MAX_DATA = 4096"

record NexusSliceUnwrapper =
  inMessage :: bool
  data :: "u8 list"
  datanumbits :: nat
  dataoverflowed :: bool

definition emptyData :: "NexusSliceUnwrapper \<Rightarrow> NexusSliceUnwrapper" where
  "emptyData u = u\<lparr>data := replicate MAX_DATA 0, dataoverflowed := False, datanumbits := 0\<rparr>"

definition NexusSliceUnwrapper_new :: NexusSliceUnwrapper where
  "NexusSliceUnwrapper_new = emptyData \<lparr>inMessage = False, data = [], datanumbits = 0, dataoverflowed = False\<rparr>"

definition add_slice :: "u8 \<Rightarrow> NexusSliceUnwrapper \<Rightarrow> NexusSliceUnwrapper outcome" where
  "add_slice mdo u =
     (if datanumbits u < MAX_DATA * 8 - 6 then
        map_sum id (\<lambda>d. u\<lparr>data := d, datanumbits := datanumbits u + 6\<rparr>) (u8_to_buf mdo 6 (data u) (int (datanumbits u)))
      else Inr (u\<lparr>dataoverflowed := True\<rparr>))"

definition end_slice :: "'s Acceptor \<Rightarrow> u8 \<Rightarrow> NexusSliceUnwrapper \<Rightarrow> 's \<Rightarrow> (NexusSliceUnwrapper \<times> 's) outcome" where
  "end_slice A meso u s =
     (case messageData A (int (datanumbits u)) (data u) (dataoverflowed u) s of
        Inl e \<Rightarrow> Inl e
      | Inr s1 \<Rightarrow> (case (if bit meso 0 then endField A s1 else Inr s1) of
            Inl e \<Rightarrow> Inl e
          | Inr s2 \<Rightarrow> Inr (if bit meso 1 then (emptyData (u\<lparr>inMessage := False\<rparr>), endMessage A s2) else (emptyData u, s2))))"

definition appendByte :: "'s Acceptor \<Rightarrow> u8 \<Rightarrow> NexusSliceUnwrapper \<times> 's \<Rightarrow> (NexusSliceUnwrapper \<times> 's) outcome" where
  "appendByte A byte us =
     (let (u, s) = us; meso = byte AND 3; mdo = drop_bit 2 byte in
      if \<not> inMessage u \<and> meso = 0 then Inr (u\<lparr>inMessage := True\<rparr>, startMessage A (unat mdo) s)
      else if inMessage u then
        (case add_slice mdo u of
           Inl e \<Rightarrow> Inl e
         | Inr u1 \<Rightarrow> if meso \<noteq> 0 then end_slice A meso u1 s else Inr (u1, s))
      else Inr (u, s))"

section \<open>Messages\<close>

record NexusDataAcquisitionMessage =
  da_tcode :: u32
  da_haveTimestamp :: bool
  da_timestamp :: u64
  da_haveSrc :: bool
  da_src :: u32
  da_idtag :: u32
  da_dqdata :: u32

definition NexusDataAcquisitionMessage_clear :: NexusDataAcquisitionMessage where
  "NexusDataAcquisitionMessage_clear =
     \<lparr>da_tcode = 7, da_haveTimestamp = False, da_timestamp = 0, da_haveSrc = False, da_src = 0, da_idtag = 0, da_dqdata = 0\<rparr>"

text \<open>Lower case hexadecimal digits without leading zeros.\<close>

fun hex_digits :: "nat \<Rightarrow> string" where
  "hex_digits n = (if n < 16 then [''0123456789abcdef'' ! n] else hex_digits (n div 16) @ [''0123456789abcdef'' ! (n mod 16)])"

definition hex :: "'a::len word \<Rightarrow> string" where
  "hex w = hex_digits (unat w)"

definition serialized :: "NexusDataAcquisitionMessage \<Rightarrow> string" where
  "serialized m = ''tcode='' @ hex (da_tcode m)
     @ (if da_haveSrc m then '' src='' @ hex (da_src m) else [])
     @ '' idtag='' @ hex (da_idtag m) @ '' dqdata='' @ hex (da_dqdata m)
     @ (if da_haveTimestamp m then '' timestamp='' @ hex (da_timestamp m) else []) @ [CHR 0x0A]"

record NexusMessageReassembler =
  r_srcbits :: int
  acceptingMessage :: bool
  fieldcount :: int
  messageHasOverflowedField :: bool
  messageReady :: bool
  dqm :: NexusDataAcquisitionMessage

definition NexusMessageReassembler_new :: "int \<Rightarrow> NexusMessageReassembler" where
  "NexusMessageReassembler_new srcbits = \<lparr>r_srcbits = srcbits, acceptingMessage = False, fieldcount = 0,
     messageHasOverflowedField = False, messageReady = False, dqm = NexusDataAcquisitionMessage_clear\<rparr>"

definition reassembler_startMessage :: "nat \<Rightarrow> NexusMessageReassembler \<Rightarrow> NexusMessageReassembler" where
  "reassembler_startMessage tcode r =
     r\<lparr>messageReady := False, messageHasOverflowedField := False, fieldcount := 0,
       dqm := NexusDataAcquisitionMessage_clear, acceptingMessage := (tcode = 7)\<rparr>"

text \<open>The first field holds the source, if there is one, and the tag.\<close>

definition first_field :: "int \<Rightarrow> u8 list \<Rightarrow> NexusMessageReassembler \<Rightarrow> NexusMessageReassembler outcome" where
  "first_field numbits d r =
     (let sb = r_srcbits r;
          src = (if sb \<noteq> 0 then map_sum id (\<lambda>v. (dqm r)\<lparr>da_haveSrc := True, da_src := ucast v\<rparr>) (buf_to_u64 d 0 sb) else Inr (dqm r)) in
      case src of
        Inl e \<Rightarrow> Inl e
      | Inr m \<Rightarrow> map_sum id (\<lambda>v. r\<lparr>dqm := m\<lparr>da_idtag := ucast v\<rparr>\<rparr>) (buf_to_u64 d sb (numbits - sb)))"

definition reassembler_messageData :: "int \<Rightarrow> u8 list \<Rightarrow> bool \<Rightarrow> NexusMessageReassembler \<Rightarrow> NexusMessageReassembler outcome" where
  "reassembler_messageData numbits d overflowed r =
     (if \<not> acceptingMessage r then Inr r
      else if overflowed then Inr (r\<lparr>messageHasOverflowedField := True\<rparr>)
      else if fieldcount r = 0 then first_field numbits d r
      else if fieldcount r = 1 then
        map_sum id (\<lambda>v. r\<lparr>dqm := (dqm r)\<lparr>da_dqdata := ucast v\<rparr>\<rparr>) (buf_to_u64 d 0 (min numbits 32))
      else if fieldcount r = 2 then
        map_sum id (\<lambda>v. r\<lparr>dqm := (dqm r)\<lparr>da_haveTimestamp := True, da_timestamp := v\<rparr>\<rparr>) (buf_to_u64 d 0 (min numbits 64))
      else Inr r)"

definition reassembler_endField :: "NexusMessageReassembler \<Rightarrow> NexusMessageReassembler outcome" where
  "reassembler_endField r = (if fieldcount r = 2 ^ 31 - 1 then Inl UB else Inr (r\<lparr>fieldcount := fieldcount r + 1\<rparr>))"

definition reassembler_endMessage :: "NexusMessageReassembler \<Rightarrow> NexusMessageReassembler" where
  "reassembler_endMessage r =
     (if acceptingMessage r then
        (if fieldcount r \<ge> 2 \<and> fieldcount r \<le> 3 \<and> \<not> messageHasOverflowedField r
         then r\<lparr>acceptingMessage := False, messageReady := True\<rparr> else r\<lparr>acceptingMessage := False\<rparr>)
      else r)"

definition reassembler :: "NexusMessageReassembler Acceptor" where
  "reassembler = \<lparr>startMessage = reassembler_startMessage, messageData = reassembler_messageData,
     endField = reassembler_endField, endMessage = reassembler_endMessage\<rparr>"

definition getMessage :: "NexusMessageReassembler \<Rightarrow> NexusDataAcquisitionMessage option \<times> NexusMessageReassembler" where
  "getMessage r = (if messageReady r then (Some (dqm r), r\<lparr>messageReady := False\<rparr>) else (None, r))"

type_synonym NexusStream = "NexusSliceUnwrapper \<times> NexusMessageReassembler"

definition NexusStream_new :: "int \<Rightarrow> NexusStream" where
  "NexusStream_new srcbits = (NexusSliceUnwrapper_new, NexusMessageReassembler_new srcbits)"

definition appendByteAndCheckForMessage ::
  "u8 \<Rightarrow> NexusStream \<Rightarrow> (NexusDataAcquisitionMessage option \<times> NexusStream) outcome" where
  "appendByteAndCheckForMessage byte ns =
     map_sum id (\<lambda>(u, r). let (m, r1) = getMessage r in (m, u, r1)) (appendByte reassembler byte ns)"

section \<open>Building a stream\<close>

record SwtMessageStreamBuilder =
  curslice :: u8
  cursliceOffset :: nat
  slices :: "u8 list"

definition flushSlice :: "SwtMessageStreamBuilder \<Rightarrow> SwtMessageStreamBuilder" where
  "flushSlice b = b\<lparr>slices := slices b @ [curslice b], curslice := 0, cursliceOffset := 2\<rparr>"

definition beginMessage :: "SwtMessageStreamBuilder \<Rightarrow> SwtMessageStreamBuilder" where
  "beginMessage b = b\<lparr>curslice := 0, cursliceOffset := 2\<rparr>"

text \<open>An offset above 8 would shift by a negative number.\<close>

function append :: "u64 \<Rightarrow> nat \<Rightarrow> SwtMessageStreamBuilder \<Rightarrow> SwtMessageStreamBuilder outcome" where
  "append val left b =
     (if left = 0 then Inr b
      else if cursliceOffset b > 8 then Inl UB
      else let chunk = min left (8 - cursliceOffset b);
               b1 = (if cursliceOffset b = 8 then flushSlice b else b) in
        append (drop_bit chunk val) (left - chunk)
          (b1\<lparr>curslice := curslice b1 OR ucast (push_bit (cursliceOffset b1) (val AND mask chunk)),
              cursliceOffset := cursliceOffset b1 + chunk\<rparr>))"
  by pat_completeness auto

termination
  by (relation "measure (\<lambda>(_, left, b). 2 * left + (if cursliceOffset b = 8 then 1 else 0))")
    (auto simp: flushSlice_def min_def)

declare append.simps [simp del]

definition close_slice :: "u8 \<Rightarrow> SwtMessageStreamBuilder \<Rightarrow> SwtMessageStreamBuilder" where
  "close_slice t b = flushSlice (b\<lparr>curslice := curslice b OR t\<rparr>)"

definition appendFixedField :: "u64 \<Rightarrow> nat \<Rightarrow> bool \<Rightarrow> SwtMessageStreamBuilder \<Rightarrow> SwtMessageStreamBuilder outcome" where
  "appendFixedField val numbits eom b =
     map_sum id (\<lambda>b. if eom then close_slice 3 b else b) (append val numbits b)"

text \<open>\<^verbatim>\<open>1 << bit\<close> is an \<^verbatim>\<open>int\<close>: undefined from 32 on, and sign-extended at 31.\<close>

definition int_mask :: "nat \<Rightarrow> u64" where
  "int_mask i = (if i = 31 then 0xffffffff80000000 else push_bit i 1)"

fun used_bits :: "u64 \<Rightarrow> nat \<Rightarrow> nat outcome" where
  "used_bits val 0 = Inr 0"
| "used_bits val (Suc i) =
     (if i \<ge> 32 then Inl UB else if val AND int_mask i = 0 then used_bits val i else Inr (Suc i))"

definition minBits :: "u64 \<Rightarrow> nat \<Rightarrow> nat outcome" where
  "minBits val numbits = map_sum id (\<lambda>n. max n 1) (used_bits val numbits)"

definition appendVarField :: "u64 \<Rightarrow> nat \<Rightarrow> bool \<Rightarrow> SwtMessageStreamBuilder \<Rightarrow> SwtMessageStreamBuilder outcome" where
  "appendVarField val numbits eom b =
     (case minBits val numbits of
        Inl e \<Rightarrow> Inl e
      | Inr n \<Rightarrow> map_sum id (close_slice (if eom then 3 else 1)) (append val n b))"

definition bind_out :: "'a outcome \<Rightarrow> ('a \<Rightarrow> 'b outcome) \<Rightarrow> 'b outcome" where
  "bind_out r f = (case r of Inl e \<Rightarrow> Inl e | Inr x \<Rightarrow> f x)"

definition itc_tag :: "int \<Rightarrow> nat \<Rightarrow> u32 outcome" where
  "itc_tag itcIdx sz =
     (if itcIdx * 4 \<noteq> s32 (itcIdx * 4) then Inl UB
      else Inr (word_of_int (itcIdx * 4) + (if sz = 2 then 2 else if sz = 1 then 3 else 0)))"

definition data_fields :: "nat \<Rightarrow> u32 \<Rightarrow> bool \<Rightarrow> u64 \<Rightarrow> SwtMessageStreamBuilder \<Rightarrow> SwtMessageStreamBuilder outcome" where
  "data_fields sz d haveTs ts b =
     bind_out (appendVarField (ucast d) (sz * 8) (\<not> haveTs) b)
       (\<lambda>b. if haveTs then appendVarField ts 64 True b else Inr b)"

definition addDataAcquisitionMessage ::
  "nat \<Rightarrow> int \<Rightarrow> int \<Rightarrow> nat \<Rightarrow> u32 \<Rightarrow> bool \<Rightarrow> u64 \<Rightarrow> SwtMessageStreamBuilder \<Rightarrow> SwtMessageStreamBuilder outcome" where
  "addDataAcquisitionMessage srcbits src itcIdx sz d haveTs ts b =
     bind_out (itc_tag itcIdx sz) (\<lambda>tag.
       bind_out (appendFixedField 7 6 False (beginMessage b)) (\<lambda>b.
         bind_out (appendFixedField (word_of_int src) srcbits False b) (\<lambda>b.
           bind_out (appendVarField (ucast tag) 32 False b) (data_fields sz d haveTs ts))))"

definition addMalformedDataAcquisitionMessageNoTag ::
  "nat \<Rightarrow> int \<Rightarrow> int \<Rightarrow> nat \<Rightarrow> u32 \<Rightarrow> bool \<Rightarrow> u64 \<Rightarrow> SwtMessageStreamBuilder \<Rightarrow> SwtMessageStreamBuilder outcome" where
  "addMalformedDataAcquisitionMessageNoTag srcbits src itcIdx sz d haveTs ts b =
     bind_out (itc_tag itcIdx sz) (\<lambda>_.
       bind_out (appendFixedField 7 6 False (beginMessage b)) (\<lambda>b.
         bind_out (appendFixedField (word_of_int src) srcbits False b) (data_fields sz d haveTs ts)))"

definition addLiteralSlice :: "u8 \<Rightarrow> SwtMessageStreamBuilder \<Rightarrow> SwtMessageStreamBuilder" where
  "addLiteralSlice x b = flushSlice (b\<lparr>curslice := x\<rparr>)"

section \<open>Connections\<close>

text \<open>The address of the client is never looked at and left out.\<close>

record IoConnection =
  fd :: int
  bytesToSend :: "u8 list"
  bytesReceived :: "u8 list"
  withholding :: bool
  itcFilterMask :: u32

definition IoConnection_new :: "int \<Rightarrow> IoConnection" where
  "IoConnection_new f = \<lparr>fd = f, bytesToSend = [], bytesReceived = [], withholding = False, itcFilterMask = 0\<rparr>"

definition enqueue :: "u8 list \<Rightarrow> IoConnection \<Rightarrow> IoConnection" where
  "enqueue bs c = c\<lparr>bytesToSend := bytesToSend c @ bs\<rparr>"

definition STALLED :: nat where
  "STALLED = 512 * 1024"

text \<open>
  The loops that queue: the iterator has already moved on when \<^verbatim>\<open>withholding\<close> is written, so it is the
  next connection that is written, and for the last one the end of the list.
\<close>

fun queue_loop :: "(IoConnection \<Rightarrow> IoConnection) \<Rightarrow> IoConnection list \<Rightarrow> IoConnection list outcome" where
  "queue_loop f [] = Inr []"
| "queue_loop f [c] = Inl UB"
| "queue_loop f (c # d # cs) =
     (let w = length (bytesToSend c) > STALLED; c1 = (if w then c else f c) in
      map_sum id (\<lambda>ds. c1 # ds) (queue_loop f (d\<lparr>withholding := w\<rparr> # cs)))"

definition queueSerialBytesToClients :: "u8 list \<Rightarrow> IoConnection list \<Rightarrow> IoConnection list outcome" where
  "queueSerialBytesToClients bs = queue_loop (enqueue bs)"

definition chars :: "string \<Rightarrow> u8 list" where
  "chars = map (\<lambda>c. of_nat (of_char c))"

definition queue_msg :: "NexusDataAcquisitionMessage \<Rightarrow> IoConnection \<Rightarrow> IoConnection" where
  "queue_msg m c =
     (let channel = unat (da_idtag m div 4) in
      if channel < 32 \<and> bit (itcFilterMask c) channel then c else enqueue (chars (serialized m)) c)"

definition queueMessageToClients :: "NexusDataAcquisitionMessage \<Rightarrow> IoConnection list \<Rightarrow> IoConnection list outcome" where
  "queueMessageToClients m = queue_loop (queue_msg m)"

text \<open>The filter command; a byte from 128 on is a negative \<^verbatim>\<open>char\<close>, for which \<^verbatim>\<open>isspace\<close> is undefined.\<close>

definition space_byte :: "u8 \<Rightarrow> bool" where
  "space_byte c \<longleftrightarrow> c = 32 \<or> (9 \<le> c \<and> c \<le> 13)"

definition nybble :: "u8 \<Rightarrow> u32" where
  "nybble c =
     (if 0x30 \<le> c \<and> c \<le> 0x39 then ucast c - 0x30
      else if 0x41 \<le> c \<and> c \<le> 0x46 \<or> 0x61 \<le> c \<and> c \<le> 0x66 then ucast c - 0x41 + 10
      else 0)"

fun find_text :: "u8 list \<Rightarrow> u8 list \<Rightarrow> u8 list option" where
  "find_text pat [] = (if pat = [] then Some [] else None)"
| "find_text pat (c # cs) = (if take (length pat) (c # cs) = pat then Some (drop (length pat) (c # cs)) else find_text pat cs)"

fun skip_spaces :: "u8 list \<Rightarrow> u8 list outcome" where
  "skip_spaces [] = Inr []"
| "skip_spaces (c # cs) = (if c \<ge> 128 then Inl UB else if space_byte c then skip_spaces cs else Inr (c # cs))"

fun read_mask :: "u8 list \<Rightarrow> u32 \<Rightarrow> u32 outcome" where
  "read_mask [] m = Inr m"
| "read_mask (c # cs) m =
     (if c = 0 then Inr m else if c \<ge> 128 then Inl UB else if space_byte c then Inr m
      else read_mask cs (push_bit 4 m OR nybble c))"

definition isItcFilterCommand :: "u8 list \<Rightarrow> u32 option outcome" where
  "isItcFilterCommand str =
     (case find_text (chars ''itcfilter'') str of
        None \<Rightarrow> Inr None
      | Some rest \<Rightarrow> bind_out (skip_spaces rest) (\<lambda>cs. map_sum id Some (read_mask cs 0)))"

end
