(* ===== verification/Swt_Text.thy ===== *)
theory Swt_Text
  imports Swt_Stream Slice_Reader
begin

text \<open>
  What the stream of the serial wire trace server promises: it puts together exactly the data
  acquisition messages that the trace decoder would read, and the builder writes such messages.
\<close>

section \<open>The buffer holds a list of bits\<close>

definition holds :: "u8 list \<Rightarrow> bool list \<Rightarrow> bool" where
  "holds d bs \<longleftrightarrow> length d = MAX_DATA \<and> length bs \<le> MAX_DATA * 8 \<and>
     (\<forall>k < MAX_DATA * 8. bit (d ! (k div 8)) (k mod 8) \<longleftrightarrow> k < length bs \<and> bs ! k)"

lemma holds_empty: "holds (replicate MAX_DATA 0) []"
  by (simp add: holds_def MAX_DATA_def less_mult_imp_div_less)

lemma bit_one: "j < 8 \<Longrightarrow> bit (2 ^ m :: u8) j \<longleftrightarrow> j = m"
  by (auto simp: bit_exp_iff possible_bit_word)

lemma set_bit_holds:
  assumes h: "holds d bs" and l: "length bs < MAX_DATA * 8"
  shows "\<exists>d1. buf_set_bit d (int (length bs)) v = Inr d1 \<and> holds d1 (bs @ [v])"
proof -
  let ?n = "length bs" and ?k = "length bs div 8"
  let ?x = "if v then d ! ?k OR 2 ^ (?n mod 8) else d ! ?k AND NOT (2 ^ (?n mod 8))"
  have ld: "length d = MAX_DATA" and b: "\<And>k. k < MAX_DATA * 8 \<Longrightarrow> bit (d ! (k div 8)) (k mod 8) \<longleftrightarrow> k < ?n \<and> bs ! k"
    using h by (auto simp: holds_def)
  have "buf_set_bit d (int ?n) v = Inr (d[?k := ?x])"
    using l ld by (simp add: buf_set_bit_def nat_div_distrib nat_mod_distrib Let_def)
  moreover have "bit (d[?k := ?x] ! (k div 8)) (k mod 8) \<longleftrightarrow> k < ?n + 1 \<and> (bs @ [v]) ! k" if "k < MAX_DATA * 8" for k
  proof (cases "k div 8 = ?k")
    case False
    then have "k \<noteq> ?n" by auto
    then show ?thesis using b [OF that] False ld by (auto simp: nth_append)
  next
    case True
    have lt: "?k < length d" using l ld by (simp add: less_mult_imp_div_less)
    have eq: "k mod 8 = ?n mod 8 \<longleftrightarrow> k = ?n" using True by (metis div_mult_mod_eq)
    have "bit ?x (k mod 8) \<longleftrightarrow> (if k = ?n then v else k < ?n \<and> bs ! k)"
      using b [OF that] True eq bit_one [of "k mod 8" "?n mod 8"]
      by (auto simp: bit_or_iff bit_and_iff bit_not_iff)
    then show ?thesis using True lt by (auto simp: nth_append)
  qed
  ultimately show ?thesis using l ld by (auto simp: holds_def)
qed

lemma u8_to_buf_holds:
  "holds d bs \<Longrightarrow> length bs + n \<le> MAX_DATA * 8 \<Longrightarrow>
   \<exists>d1. u8_to_buf v n d (int (length bs)) = Inr d1 \<and> holds d1 (bs @ map (bit v) [0..<n])"
proof (induction n arbitrary: d bs v)
  case (Suc n)
  obtain d1 where d1: "buf_set_bit d (int (length bs)) (bit v 0) = Inr d1" "holds d1 (bs @ [bit v 0])"
    using set_bit_holds [OF Suc.prems(1), of "bit v 0"] Suc.prems(2) by auto
  from Suc.IH [OF d1(2), of "drop_bit 1 v"] Suc.prems(2)
  obtain d2 where d2: "u8_to_buf (drop_bit 1 v) n d1 (int (length bs) + 1) = Inr d2"
      "holds d2 ((bs @ [bit v 0]) @ map (bit (drop_bit 1 v)) [0..<n])"
    by (auto simp: add.commute)
  have "map (bit v) [0..<Suc n] = bit v 0 # map (bit (drop_bit 1 v)) [0..<n]"
    unfolding upt_conv_Cons [OF zero_less_Suc] map_Suc_upt [symmetric] by (simp add: bit_drop_bit_eq comp_def)
  then show ?case using d1(1) d2 by simp
qed simp

lemma bit_num: "bit (num bs) j \<longleftrightarrow> j < 64 \<and> j < length bs \<and> bs ! j"
  by (auto simp: num_def bit_horner_sum_bit_iff)

lemma push_num_Cons: "push_bit i (num (b # bs)) = push_bit i (of_bool b) OR push_bit (i + 1) (num bs)"
proof (rule bit_word_eqI)
  fix j :: nat
  assume j: "j < LENGTH(64)"
  show "bit (push_bit i (num (b # bs))) j = bit (push_bit i (of_bool b) OR push_bit (i + 1) (num bs)) j"
  proof (cases "i \<le> j")
    case True
    then obtain k where "j = i + k" using le_iff_add by blast
    then show ?thesis using j
      by (cases k) (auto simp: bit_num bit_or_iff bit_push_bit_iff bit_of_bool_iff simp del: push_bit_Suc)
  next
    case False
    then show ?thesis by (auto simp: bit_or_iff bit_push_bit_iff simp del: push_bit_Suc)
  qed
qed

lemma to_u64_holds:
  assumes "holds d bs" and "p + i + n \<le> MAX_DATA * 8" and "i + n \<le> 64"
  shows "to_u64 d (int p) i n val = Inr (val OR push_bit i (num (take n (drop (p + i) bs))))"
  using assms(2,3)
proof (induction n arbitrary: i val)
  case 0
  then show ?case by (simp add: num_def)
next
  case (Suc n)
  define b where "b = (p + i < length bs \<and> bs ! (p + i))"
  have "buf_get_bit d (int p + int i) = Inr b"
    using assms(1) Suc.prems(1)
    by (simp add: buf_get_bit_def holds_def nat_div_distrib nat_mod_distrib b_def flip: of_nat_add)
  moreover have "(val OR push_bit i (of_bool b)) OR push_bit (i + 1) (num (take n (drop (p + (i + 1)) bs)))
      = val OR push_bit i (num (take (Suc n) (drop (p + i) bs)))" (is "?l = ?r")
  proof (cases "p + i < length bs")
    case True
    then have "drop (p + i) bs = b # drop (p + (i + 1)) bs" by (simp add: b_def Cons_nth_drop_Suc)
    then show ?thesis by (simp add: push_num_Cons or.assoc del: push_bit_Suc)
  next
    case False
    then show ?thesis by (simp add: b_def num_def del: push_bit_Suc)
  qed
  ultimately show ?case using Suc by (cases b) (simp_all del: push_bit_Suc push_bit_of_1)
qed

lemma buf_to_u64_holds:
  "holds d bs \<Longrightarrow> p + n \<le> MAX_DATA * 8 \<Longrightarrow> n \<le> 64 \<Longrightarrow> buf_to_u64 d (int p) (int n) = Inr (num (take n (drop p bs)))"
  using to_u64_holds [of d bs p 0 n 0] by (simp add: buf_to_u64_def)

section \<open>Slices of a field\<close>

definition reading :: "NexusSliceUnwrapper \<Rightarrow> bool list \<Rightarrow> bool" where
  "reading u bs \<longleftrightarrow> inMessage u \<and> holds (data u) bs \<and> datanumbits u = length bs \<and> \<not> dataoverflowed u"

definition between :: "NexusSliceUnwrapper \<Rightarrow> bool" where
  "between u \<longleftrightarrow> \<not> inMessage u \<and> holds (data u) [] \<and> datanumbits u = 0 \<and> \<not> dataoverflowed u"

lemma emptied:
  "inMessage u \<Longrightarrow> reading (emptyData u) []" "between (emptyData (u\<lparr>inMessage := False\<rparr>))"
  using holds_empty by (simp_all add: reading_def between_def emptyData_def)

lemma slice_bits: "take_bit 2 t = t \<Longrightarrow> length g = 6 \<Longrightarrow> map (bit (drop_bit 2 (enc_slice g t))) [0..<6] = g"
  using bit_enc_slice [of t _ g] by (intro nth_equalityI) (auto simp: bit_drop_bit_eq)

lemma add_slice_reading:
  assumes "reading u bs" "length g = 6" "length bs < MAX_DATA * 8 - 6" "take_bit 2 t = t"
  shows "\<exists>u1. add_slice (drop_bit 2 (enc_slice g t)) u = Inr u1 \<and> reading u1 (bs @ g)"
proof -
  obtain d where d: "u8_to_buf (drop_bit 2 (enc_slice g t)) 6 (data u) (int (length bs)) = Inr d" "holds d (bs @ g)"
    using u8_to_buf_holds [of "data u" bs 6 "drop_bit 2 (enc_slice g t)"] assms slice_bits [OF assms(4,2)]
    by (auto simp: reading_def MAX_DATA_def simp del: u8_to_buf.simps)
  have "add_slice (drop_bit 2 (enc_slice g t)) u = Inr (u\<lparr>data := d, datanumbits := datanumbits u + 6\<rparr>)"
    using assms(1,3) d(1) by (simp add: add_slice_def reading_def del: u8_to_buf.simps)
  then show ?thesis using assms(1,2) d(2) by (auto simp: reading_def)
qed

text \<open>Bytes one after another, and the messages got.\<close>

fun stream_run :: "u8 list \<Rightarrow> NexusStream \<Rightarrow> (NexusDataAcquisitionMessage list \<times> NexusStream) outcome" where
  "stream_run [] s = Inr ([], s)"
| "stream_run (b # bs) s = (case appendByteAndCheckForMessage b s of
      Inl e \<Rightarrow> Inl e
    | Inr (m, s1) \<Rightarrow> map_sum id (\<lambda>(ms, s2). (case m of None \<Rightarrow> ms | Some x \<Rightarrow> x # ms, s2)) (stream_run bs s1))"

lemma map_sum_same [simp]: "map_sum id (\<lambda>p. p) x = x" "map_sum id id x = x"
  by (cases x; simp)+

lemma run_slice:
  assumes "reading u bs" "length g = 6" "length bs < MAX_DATA * 8 - 6" "\<not> messageReady r"
  shows "\<exists>u1. reading u1 (bs @ g) \<and> stream_run (enc_slice g MSEO_NORMAL # rest) (u, r) = stream_run rest (u1, r)"
proof -
  obtain u1 where u1: "add_slice (drop_bit 2 (enc_slice g MSEO_NORMAL)) u = Inr u1" "reading u1 (bs @ g)"
    using add_slice_reading [OF assms(1-3) mseo_take_bit(1)] by blast
  have "appendByteAndCheckForMessage (enc_slice g MSEO_NORMAL) (u, r) = Inr (None, u1, r)"
    using assms(1,4) u1(1) enc_slice_mseo [OF mseo_take_bit(1), of g]
    by (simp add: appendByteAndCheckForMessage_def appendByte_def Let_def reading_def getMessage_def mseo_defs)
  then have "stream_run (enc_slice g MSEO_NORMAL # rest) (u, r) = stream_run rest (u1, r)" by simp
  then show ?thesis using u1(2) by blast
qed

definition after_field :: "u8 \<Rightarrow> NexusSliceUnwrapper \<Rightarrow> NexusMessageReassembler \<Rightarrow> u8 list \<Rightarrow>
    (NexusDataAcquisitionMessage list \<times> NexusStream) outcome" where
  "after_field t u r rest = (case end_slice reassembler t u r of
      Inl e \<Rightarrow> Inl e
    | Inr (u1, r1) \<Rightarrow> (case getMessage r1 of (m, r2) \<Rightarrow>
        map_sum id (\<lambda>(ms, s2). (case m of None \<Rightarrow> ms | Some x \<Rightarrow> x # ms, s2)) (stream_run rest (u1, r2))))"

lemma run_group:
  assumes "t = MSEO_VAR_END \<or> t = MSEO_END" "\<not> messageReady r"
  shows "length g = 6 * Suc c \<Longrightarrow> length bs + length g \<le> MAX_DATA * 8 - 6 \<Longrightarrow> reading u bs \<Longrightarrow>
    \<exists>u1. reading u1 (bs @ g) \<and> stream_run (enc_group t g @ rest) (u, r) = after_field t u1 r rest"
proof (induction c arbitrary: g bs u)
  case 0
  have tb: "take_bit 2 t = t" "t \<noteq> 0" using assms(1) by (auto simp: mseo_defs)
  obtain u1 where u1: "add_slice (drop_bit 2 (enc_slice g t)) u = Inr u1" "reading u1 (bs @ g)"
    using add_slice_reading [OF 0(3) _ _ tb(1), of g] 0(1,2) by auto
  have "appendByteAndCheckForMessage (enc_slice g t) (u, r) =
      map_sum id (\<lambda>(u, r). let (m, r1) = getMessage r in (m, u, r1)) (end_slice reassembler t u1 r)"
    using 0(3) u1(1) enc_slice_mseo [OF tb(1), of g] tb(2)
    by (simp add: appendByteAndCheckForMessage_def appendByte_def Let_def reading_def)
  then have "stream_run (enc_group t g @ rest) (u, r) = after_field t u1 r rest"
    using 0(1) by (auto simp: enc_group.simps after_field_def split_def Let_def split: sum.split)
  then show ?case using u1(2) by blast
next
  case (Suc c)
  have l: "length (take 6 g) = 6" "length (drop 6 g) = 6 * Suc c" using Suc.prems(1) by auto
  obtain u1 where u1: "reading u1 (bs @ take 6 g)"
      "stream_run (enc_slice (take 6 g) MSEO_NORMAL # enc_group t (drop 6 g) @ rest) (u, r) =
       stream_run (enc_group t (drop 6 g) @ rest) (u1, r)"
    using run_slice [OF Suc.prems(3) l(1) _ assms(2), of "enc_group t (drop 6 g) @ rest"] Suc.prems(1,2) by auto
  have "enc_group t g = enc_slice (take 6 g) MSEO_NORMAL # enc_group t (drop 6 g)"
    using Suc.prems(1) by (simp add: enc_group.simps [of t g])
  moreover have "length (bs @ take 6 g) + length (drop 6 g) \<le> MAX_DATA * 8 - 6" using Suc.prems(1,2) by simp
  ultimately show ?case using Suc.IH [OF l(2) _ u1(1)] u1(2) by simp
qed

section \<open>Messages\<close>

text \<open>The source field is taken off a field, and the tag is the rest.\<close>

lemma first_field_bits:
  assumes "holds d g" "r_srcbits r = int sb" "sb \<le> 64" "sb < length g" "length g \<le> sb + 64" "length g \<le> MAX_DATA * 8"
  shows "first_field (int (length g)) d r = Inr (r\<lparr>dqm := (dqm r)\<lparr>
     da_haveSrc := (if sb = 0 then da_haveSrc (dqm r) else True),
     da_src := (if sb = 0 then da_src (dqm r) else ucast (num (take sb g))), da_idtag := ucast (num (drop sb g))\<rparr>\<rparr>)"
proof -
  have "buf_to_u64 d (int sb) (int (length g) - int sb) = Inr (num (drop sb g))"
    using buf_to_u64_holds [OF assms(1), of sb "length g - sb"] assms(4-6) by (simp add: of_nat_diff)
  moreover have "buf_to_u64 d 0 (int sb) = Inr (num (take sb g))"
    using buf_to_u64_holds [OF assms(1), of 0 sb] assms(3,4,6) by simp
  ultimately show ?thesis using assms(2) by (cases "sb = 0") (simp_all add: first_field_def Let_def)
qed

lemma later_field_bits:
  "holds d g \<Longrightarrow> length g \<le> 64 \<Longrightarrow> n \<le> 64 \<Longrightarrow> buf_to_u64 d 0 (min (int (length g)) (int n)) = Inr (num (take n g))"
  using buf_to_u64_holds [of d g 0 "min (length g) n"] by (cases "length g \<le> n") (simp_all add: MAX_DATA_def min_def)

lemma reassembler_ops [simp]:
  "startMessage reassembler = reassembler_startMessage" "messageData reassembler = reassembler_messageData"
  "endField reassembler = reassembler_endField" "endMessage reassembler = reassembler_endMessage"
  by (simp_all add: reassembler_def)

text \<open>The end of a field within a message, and at its end.\<close>

lemma field_end_inner:
  assumes "reading u g" "reassembler_messageData (int (length g)) (data u) False r = Inr r1" "fieldcount r1 < 2 ^ 31 - 1"
    "\<not> messageReady r1"
  shows "\<exists>u1. reading u1 [] \<and> after_field MSEO_VAR_END u r rest = stream_run rest (u1, r1\<lparr>fieldcount := fieldcount r1 + 1\<rparr>)"
  using assms emptied(1) [of u]
  by (auto simp: after_field_def end_slice_def reading_def reassembler_endField_def getMessage_def mseo_defs intro!: exI [of _ "emptyData u"])

lemma field_end_last:
  assumes "reading u g" "reassembler_messageData (int (length g)) (data u) False r = Inr r1" "fieldcount r1 < 2 ^ 31 - 1"
  shows "\<exists>u1. between u1 \<and> after_field MSEO_END u r rest =
    (case getMessage (reassembler_endMessage (r1\<lparr>fieldcount := fieldcount r1 + 1\<rparr>)) of (m, r2) \<Rightarrow>
       map_sum id (\<lambda>(ms, s2). (case m of None \<Rightarrow> ms | Some x \<Rightarrow> x # ms, s2)) (stream_run rest (u1, r2)))"
  using assms emptied(2) [of u]
  by (auto simp: after_field_def end_slice_def reading_def reassembler_endField_def mseo_defs
      intro!: exI [of _ "emptyData (u\<lparr>inMessage := False\<rparr>)"])

definition idle_stream :: "nat \<Rightarrow> NexusStream \<Rightarrow> bool" where
  "idle_stream sb s \<longleftrightarrow> between (fst s) \<and> r_srcbits (snd s) = int sb \<and> \<not> messageReady (snd s)"

lemma run_start:
  assumes "idle_stream sb (u, r)" "take_bit 6 v = v"
  shows "\<exists>u1. reading u1 [] \<and> stream_run (enc_slice (bits_n 6 v) MSEO_NORMAL # rest) (u, r) =
    stream_run rest (u1, reassembler_startMessage (unat v) r)"
proof -
  let ?b = "enc_slice (bits_n 6 v) MSEO_NORMAL"
  have low: "bit v n \<Longrightarrow> n < 6" for n using assms(2) by (metis bit_take_bit_iff)
  have "drop_bit 2 ?b = (ucast v :: u8)"
  proof (rule bit_word_eqI)
    fix n :: nat
    assume "n < LENGTH(8)"
    then show "bit (drop_bit 2 ?b) n = bit (ucast v :: u8) n"
      using bit_enc_slice [OF mseo_take_bit(1), of n "bits_n 6 v"] low [of n]
      by (cases "n < 6") (auto simp: bits_n_def bit_drop_bit_eq bit_ucast_iff not_less dest: bit_imp_le_length)
  qed
  moreover have "take_bit 6 (unat v) = unat v"
    using assms(2) by (metis unsigned_take_bit_eq)
  then have "unat v < 64" using take_bit_nat_less_exp [of 6 "unat v"] by simp
  then have "unat (ucast v :: u8) = unat v" by (simp add: unsigned_ucast_eq take_bit_nat_eq_self)
  ultimately have "appendByteAndCheckForMessage ?b (u, r) = Inr (None, u\<lparr>inMessage := True\<rparr>, reassembler_startMessage (unat v) r)"
    using assms(1) enc_slice_mseo [OF mseo_take_bit(1), of "bits_n 6 v"]
    by (simp add: appendByteAndCheckForMessage_def appendByte_def Let_def idle_stream_def between_def getMessage_def
        reassembler_startMessage_def mseo_defs)
  moreover have "reading (u\<lparr>inMessage := True\<rparr>) []" using assms(1) by (simp add: idle_stream_def between_def reading_def)
  ultimately show ?thesis by auto
qed

lemma group_inner:
  assumes "reading u []" "whole g" "length g \<le> 400" "\<not> messageReady r"
    and "\<And>d. holds d g \<Longrightarrow> reassembler_messageData (int (length g)) d False r = Inr r1"
    and "fieldcount r1 < 2 ^ 31 - 1" "\<not> messageReady r1"
  shows "\<exists>u1. reading u1 [] \<and>
    stream_run (enc_group MSEO_VAR_END g @ rest) (u, r) = stream_run rest (u1, r1\<lparr>fieldcount := fieldcount r1 + 1\<rparr>)"
proof -
  obtain c where "length g = 6 * Suc c" using whole_cases [OF assms(2)] .
  then obtain u1 where u1: "reading u1 g" "stream_run (enc_group MSEO_VAR_END g @ rest) (u, r) = after_field MSEO_VAR_END u1 r rest"
    using run_group [OF disjI1 [OF refl] assms(4), of g c "[]" u rest] assms(1,3) by (auto simp: MAX_DATA_def)
  then have "reassembler_messageData (int (length g)) (data u1) False r = Inr r1" using assms(5) by (simp add: reading_def)
  from field_end_inner [OF u1(1) this assms(6,7), of rest] u1(2) show ?thesis by auto
qed

lemma group_last:
  assumes "reading u []" "whole g" "length g \<le> 400" "\<not> messageReady r"
    and "\<And>d. holds d g \<Longrightarrow> reassembler_messageData (int (length g)) d False r = Inr r1"
    and "fieldcount r1 < 2 ^ 31 - 1"
  shows "\<exists>u1. between u1 \<and> stream_run (enc_group MSEO_END g @ rest) (u, r) =
    (case getMessage (reassembler_endMessage (r1\<lparr>fieldcount := fieldcount r1 + 1\<rparr>)) of (m, r2) \<Rightarrow>
       map_sum id (\<lambda>(ms, s2). (case m of None \<Rightarrow> ms | Some x \<Rightarrow> x # ms, s2)) (stream_run rest (u1, r2)))"
proof -
  obtain c where "length g = 6 * Suc c" using whole_cases [OF assms(2)] .
  then obtain u1 where u1: "reading u1 g" "stream_run (enc_group MSEO_END g @ rest) (u, r) = after_field MSEO_END u1 r rest"
    using run_group [OF disjI2 [OF refl] assms(4), of g c "[]" u rest] assms(1,3) by (auto simp: MAX_DATA_def)
  then have "reassembler_messageData (int (length g)) (data u1) False r = Inr r1" using assms(5) by (simp add: reading_def)
  from field_end_last [OF u1(1) this assms(6), of rest] u1(2) show ?thesis by auto
qed

lemma data_first:
  "holds d g \<Longrightarrow> acceptingMessage r \<Longrightarrow> fieldcount r = 0 \<Longrightarrow> r_srcbits r = int sb \<Longrightarrow> sb \<le> 64 \<Longrightarrow> sb < length g \<Longrightarrow>
   length g \<le> sb + 64 \<Longrightarrow> reassembler_messageData (int (length g)) d False r = Inr (r\<lparr>dqm := (dqm r)\<lparr>
     da_haveSrc := (if sb = 0 then da_haveSrc (dqm r) else True),
     da_src := (if sb = 0 then da_src (dqm r) else ucast (num (take sb g))), da_idtag := ucast (num (drop sb g))\<rparr>\<rparr>)"
  using first_field_bits [of d g r sb] by (simp add: reassembler_messageData_def MAX_DATA_def)

lemma data_second:
  "holds d g \<Longrightarrow> acceptingMessage r \<Longrightarrow> fieldcount r = 1 \<Longrightarrow> length g \<le> 64 \<Longrightarrow>
   reassembler_messageData (int (length g)) d False r = Inr (r\<lparr>dqm := (dqm r)\<lparr>da_dqdata := ucast (num (take 32 g))\<rparr>\<rparr>)"
  using later_field_bits [of d g 32] by (simp add: reassembler_messageData_def)

lemma data_third:
  "holds d g \<Longrightarrow> acceptingMessage r \<Longrightarrow> fieldcount r = 2 \<Longrightarrow> length g \<le> 64 \<Longrightarrow>
   reassembler_messageData (int (length g)) d False r =
     Inr (r\<lparr>dqm := (dqm r)\<lparr>da_haveTimestamp := True, da_timestamp := num g\<rparr>\<rparr>)"
  using later_field_bits [of d g 64] by (simp add: reassembler_messageData_def)

lemma data_ignored: "\<not> acceptingMessage r \<Longrightarrow> reassembler_messageData n d ov r = Inr r"
  by (simp add: reassembler_messageData_def)

text \<open>The message that the server should see.\<close>

definition da_of :: "nat \<Rightarrow> NexusMessage \<Rightarrow> NexusDataAcquisitionMessage" where
  "da_of sb nm = \<lparr>da_tcode = 7, da_haveTimestamp = haveTimestamp nm,
     da_timestamp = (if haveTimestamp nm then timestamp nm else 0), da_haveSrc = (sb \<noteq> 0), da_src = ucast (coreId nm),
     da_idtag = dataAcquisition_idTag nm, da_dqdata = dataAcquisition_data nm\<rparr>"

lemma ucast_num_take: "num g = ucast (d :: u32) \<Longrightarrow> ucast (num (take 32 g)) = d"
proof -
  assume a: "num g = ucast d"
  show ?thesis
  proof (rule bit_word_eqI)
    fix n :: nat
    assume n: "n < LENGTH(32)"
    have "bit (num g) n = bit (ucast d :: u64) n" by (simp add: a)
    then show "bit (ucast (num (take 32 g)) :: u32) n = bit d n" using n by (auto simp: bit_ucast_iff bit_num)
  qed
qed

lemma enc_groups_tcode:
  assumes "length t = 6" "g \<noteq> []"
  shows "enc_groups ((t @ g) # gs) = enc_slice t MSEO_NORMAL # enc_groups (g # gs)"
proof -
  have "enc_group x (t @ g) = enc_slice t MSEO_NORMAL # enc_group x g" for x
    using assms by (simp add: enc_group.simps [of x "t @ g"])
  then show ?thesis by (cases gs) simp_all
qed

lemma encoding_parts:
  assumes "narrow_encoding sb nm m"
  obtains v vs where "m = enc_slice (bits_n 6 (TCode_val (tcode nm))) MSEO_NORMAL # enc_groups ((head_bits sb nm @ v) # vs)"
    and "\<forall>h \<in> set ((head_bits sb nm @ v) # vs). whole h \<and> length h \<le> 400"
    and "map num (v # vs) = var_fields nm @ ts_fields nm" and "\<forall>g \<in> set (v # vs). g \<noteq> [] \<and> length g \<le> 64"
proof -
  let ?t = "bits_n 6 (TCode_val (tcode nm))"
  obtain v vs where e: "map num (v # vs) = var_fields nm @ ts_fields nm" "\<forall>g \<in> set (v # vs). g \<noteq> [] \<and> length g \<le> 64"
      "\<forall>h \<in> set ((?t @ head_bits sb nm @ v) # vs). whole h" "m = enc_groups ((?t @ head_bits sb nm @ v) # vs)" "length m \<le> MSGBUF"
    using assms unfolding narrow_encoding_def encoding_by_def encodes_by_def narrow_def by blast
  let ?g = "head_bits sb nm @ v"
  have ne: "?g \<noteq> []" using e(2) by simp
  have l: "length m * 6 = length (concat ((?t @ ?g) # vs))" using length_enc_groups [of "(?t @ ?g) # vs"] e(3,4) by simp
  have "length h \<le> 400" if "h \<in> set (?g # vs)" for h
  proof -
    have "length h \<le> length (concat ((?t @ ?g) # vs))" using that member_le_sum_list [of "length h" "map length vs"] by (auto simp: length_concat)
    then show ?thesis using l e(5) by (simp add: MSGBUF_def)
  qed
  moreover have "whole h" if "h \<in> set (?g # vs)" for h
    using that e(3) ne by (auto simp: whole_def bits_n_simps)
  ultimately show thesis
    using that [of v vs] e enc_groups_tcode [OF _ ne, of ?t vs] by (simp add: bits_n_simps)
qed

lemma ucast_back: "ucast (ucast (d :: u32) :: u64) = d"
  by (rule bit_word_eqI) (auto simp: bit_ucast_iff)

lemma ucast_taken:
  assumes "take_bit sb c = c"
  shows "ucast (take_bit sb (ucast (c :: u8) :: u64)) = (ucast c :: u32)"
proof -
  have "bit c n \<Longrightarrow> n < sb" for n using assms by (metis bit_take_bit_iff)
  then show ?thesis by (intro bit_word_eqI) (auto simp: bit_ucast_iff bit_take_bit_iff dest: bit_imp_le_length)
qed

lemma run_da:
  assumes e: "narrow_encoding sb nm m" and k: "tcode nm = TCODE_DATA_ACQUISITION" and ok: "msg_ok sb nm" and i: "idle_stream sb s"
  shows "\<exists>s1. idle_stream sb s1 \<and> stream_run (m @ rest) s = map_sum id (\<lambda>(ms, s2). (da_of sb nm # ms, s2)) (stream_run rest s1)"
proof -
  obtain v vs where m: "m = enc_slice (bits_n 6 (TCode_val (tcode nm))) MSEO_NORMAL # enc_groups ((head_bits sb nm @ v) # vs)"
      "\<forall>h \<in> set ((head_bits sb nm @ v) # vs). whole h \<and> length h \<le> 400"
    and f: "map num (v # vs) = [ucast (dataAcquisition_idTag nm), ucast (dataAcquisition_data nm)] @ ts_fields nm"
    and b: "\<forall>g \<in> set (v # vs). g \<noteq> [] \<and> length g \<le> 64"
    using encoding_parts [OF e] k by (auto simp: var_fields_def)
  obtain d ds where vs: "vs = d # ds" using f by auto
  obtain u r where s: "s = (u, r)" by (cases s)
  let ?g = "head_bits sb nm @ v"
  have hb: "head_bits sb nm = bits_n sb (ucast (coreId nm))" using k by (simp add: head_bits_def fixed_fields_def)
  have sb: "sb \<le> 8" "take_bit sb (coreId nm) = coreId nm" using ok by (auto simp: msg_ok_def)
  let ?r0 = "reassembler_startMessage 7 r"
  let ?r1 = "?r0\<lparr>dqm := (dqm ?r0)\<lparr>da_haveSrc := (sb \<noteq> 0), da_src := ucast (coreId nm), da_idtag := dataAcquisition_idTag nm\<rparr>, fieldcount := 1\<rparr>"
  have tc: "take_bit 6 (TCode_val (tcode nm)) = TCode_val (tcode nm)" "unat (TCode_val (tcode nm)) = 7"
    by (simp_all add: k TCode_val_def)
  obtain u0 where u0: "reading u0 []" "stream_run (m @ rest) s = stream_run (enc_groups (?g # vs) @ rest) (u0, ?r0)"
    using run_start [of sb u r "TCode_val (tcode nm)" "enc_groups (?g # vs) @ rest"] i m(1) tc s by auto
  have acc: "acceptingMessage ?r0" "fieldcount ?r0 = 0" "r_srcbits ?r0 = int sb" "\<not> messageReady ?r0"
    using i s by (simp_all add: reassembler_startMessage_def idle_stream_def)
  have lg: "length ?g = sb + length v" using hb by (simp add: bits_n_simps)
  have vn: "num v = ucast (dataAcquisition_idTag nm)" "0 < length v" "length v \<le> 64" using f b by auto
  have src: "sb = 0 \<Longrightarrow> coreId nm = 0" using sb(2) by simp
  have d0: "reassembler_messageData (int (length ?g)) x False ?r0 = Inr (?r1\<lparr>fieldcount := 0\<rparr>)" if "holds x ?g" for x
  proof -
    have t: "num (take sb ?g) = take_bit sb (ucast (coreId nm))" "drop sb ?g = v" by (simp_all add: hb bits_n_simps)
    have "ucast (num (take sb ?g)) = (ucast (coreId nm) :: u32)" unfolding t(1) by (rule ucast_taken [OF sb(2)])
    moreover have "ucast (num v) = dataAcquisition_idTag nm" unfolding vn(1) by (rule ucast_back)
    ultimately show ?thesis
      using data_first [OF that acc(1-3)] sb(1) vn lg t(2) acc(2) src
      by (cases "sb = 0") (simp_all add: reassembler_startMessage_def NexusDataAcquisitionMessage_clear_def)
  qed
  have g1: "stream_run (enc_groups (?g # vs) @ rest) (u0, ?r0) = stream_run (enc_group MSEO_VAR_END ?g @ enc_groups vs @ rest) (u0, ?r0)"
    by (simp add: vs)
  obtain u1 where u1: "reading u1 []" "stream_run (enc_groups (?g # vs) @ rest) (u0, ?r0) = stream_run (enc_groups vs @ rest) (u1, ?r1)"
    using group_inner [OF u0(1) _ _ acc(4) d0, of "enc_groups vs @ rest"] m(2) acc g1 by auto
  let ?r2 = "?r1\<lparr>dqm := (dqm ?r1)\<lparr>da_dqdata := dataAcquisition_data nm\<rparr>\<rparr>"
  have dn: "num d = ucast (dataAcquisition_data nm)" "length d \<le> 64" "whole d" "length d \<le> 400" using f b m(2) vs by auto
  have acc1: "acceptingMessage ?r1" "fieldcount ?r1 = 1" "\<not> messageReady ?r1" using acc by simp_all
  have d1: "reassembler_messageData (int (length d)) x False ?r1 = Inr ?r2" if "holds x d" for x
    using data_second [OF that acc1(1,2) dn(2)] ucast_num_take [OF dn(1)] by simp
  show ?thesis
  proof (cases "haveTimestamp nm")
    case False
    then have ds: "ds = []" using f vs by (simp add: ts_fields_def)
    obtain u2 where u2: "between u2" "stream_run (enc_groups vs @ rest) (u1, ?r1) =
        (case getMessage (reassembler_endMessage (?r2\<lparr>fieldcount := fieldcount ?r2 + 1\<rparr>)) of (m, r2) \<Rightarrow>
           map_sum id (\<lambda>(ms, s2). (case m of None \<Rightarrow> ms | Some x \<Rightarrow> x # ms, s2)) (stream_run rest (u2, r2)))"
      using group_last [OF u1(1) dn(3,4) acc1(3) d1, of rest] by (auto simp: vs ds)
    let ?s = "(u2, ?r2\<lparr>fieldcount := 2, acceptingMessage := False, messageReady := False\<rparr>)"
    have "idle_stream sb ?s" using u2(1) acc by (simp add: idle_stream_def)
    moreover have "stream_run (m @ rest) s = map_sum id (\<lambda>(ms, s2). (da_of sb nm # ms, s2)) (stream_run rest ?s)"
      using u0(2) u1(2) u2(2) False acc
      by (simp add: reassembler_endMessage_def getMessage_def da_of_def reassembler_startMessage_def NexusDataAcquisitionMessage_clear_def)
    ultimately show ?thesis by blast
  next
    case True
    then obtain e where ds: "ds = [e]" "num e = timestamp nm" using f vs by (auto simp: ts_fields_def)
    let ?r3 = "?r2\<lparr>fieldcount := 2\<rparr>" and ?r4 = "?r2\<lparr>fieldcount := 2, dqm := (dqm ?r2)\<lparr>da_haveTimestamp := True, da_timestamp := timestamp nm\<rparr>\<rparr>"
    have en: "length e \<le> 64" "whole e" "length e \<le> 400" using b m(2) vs ds by auto
    have acc3: "acceptingMessage ?r3" "fieldcount ?r3 = 2" "\<not> messageReady ?r3" using acc by simp_all
    have d2: "reassembler_messageData (int (length e)) x False ?r3 = Inr ?r4" if "holds x e" for x
      using data_third [OF that acc3(1,2) en(1)] ds(2) by simp
    obtain u2 where u2: "reading u2 []" "stream_run (enc_group MSEO_VAR_END d @ enc_groups [e] @ rest) (u1, ?r1) = stream_run (enc_groups [e] @ rest) (u2, ?r3)"
      using group_inner [OF u1(1) dn(3,4) acc1(3) d1, of "enc_groups [e] @ rest"] acc by auto
    obtain u3 where u3: "between u3" "stream_run (enc_groups [e] @ rest) (u2, ?r3) =
        (case getMessage (reassembler_endMessage (?r4\<lparr>fieldcount := fieldcount ?r4 + 1\<rparr>)) of (m, r2) \<Rightarrow>
           map_sum id (\<lambda>(ms, s2). (case m of None \<Rightarrow> ms | Some x \<Rightarrow> x # ms, s2)) (stream_run rest (u3, r2)))"
      using group_last [OF u2(1) en(2,3) acc3(3) d2, of rest] by auto
    let ?s = "(u3, ?r4\<lparr>fieldcount := 3, acceptingMessage := False, messageReady := False\<rparr>)"
    have "idle_stream sb ?s" using u3(1) acc by (simp add: idle_stream_def)
    moreover have "stream_run (m @ rest) s = map_sum id (\<lambda>(ms, s2). (da_of sb nm # ms, s2)) (stream_run rest ?s)"
      using u0(2) u1(2) u2(2) u3(2) True acc
      by (simp add: vs ds(1) reassembler_endMessage_def getMessage_def da_of_def reassembler_startMessage_def NexusDataAcquisitionMessage_clear_def)
    ultimately show ?thesis by blast
  qed
qed

text \<open>Messages of other kinds are passed over.\<close>

lemma run_ignored:
  "gs \<noteq> [] \<Longrightarrow> \<forall>h \<in> set gs. whole h \<and> length h \<le> 400 \<Longrightarrow> reading u [] \<Longrightarrow> \<not> acceptingMessage r \<Longrightarrow> \<not> messageReady r \<Longrightarrow>
   0 \<le> fieldcount r \<Longrightarrow> fieldcount r + int (length gs) < 2 ^ 31 - 1 \<Longrightarrow>
   \<exists>u1 r1. between u1 \<and> r_srcbits r1 = r_srcbits r \<and> \<not> messageReady r1 \<and> stream_run (enc_groups gs @ rest) (u, r) = stream_run rest (u1, r1)"
proof (induction gs arbitrary: u r rule: enc_groups.induct)
  case (2 g)
  obtain u1 where u1: "between u1" "stream_run (enc_group MSEO_END g @ rest) (u, r) =
    (case getMessage (reassembler_endMessage (r\<lparr>fieldcount := fieldcount r + 1\<rparr>)) of (m, r2) \<Rightarrow>
       map_sum id (\<lambda>(ms, s2). (case m of None \<Rightarrow> ms | Some x \<Rightarrow> x # ms, s2)) (stream_run rest (u1, r2)))"
    using group_last [OF 2(3), of g r r rest] data_ignored [OF 2(4)] 2 by auto
  then have "stream_run (enc_groups [g] @ rest) (u, r) = stream_run rest (u1, r\<lparr>fieldcount := fieldcount r + 1\<rparr>)"
    using 2(4,5) by (simp add: reassembler_endMessage_def getMessage_def)
  then show ?case using u1(1) 2(5) by (intro exI [of _ u1] exI [of _ "r\<lparr>fieldcount := fieldcount r + 1\<rparr>"]) simp
next
  case (3 g h hs)
  let ?r1 = "r\<lparr>fieldcount := fieldcount r + 1\<rparr>"
  obtain u1 where u1: "reading u1 []" "stream_run (enc_group MSEO_VAR_END g @ enc_groups (h # hs) @ rest) (u, r) =
      stream_run (enc_groups (h # hs) @ rest) (u1, ?r1)"
    using group_inner [OF 3(4), of g r r "enc_groups (h # hs) @ rest"] data_ignored [OF 3(5)] 3(3,5-8) by auto
  have "\<exists>u2 r2. between u2 \<and> r_srcbits r2 = r_srcbits ?r1 \<and> \<not> messageReady r2 \<and>
      stream_run (enc_groups (h # hs) @ rest) (u1, ?r1) = stream_run rest (u2, r2)"
    using 3(3,5-8) u1(1) by (intro 3(1)) auto
  then show ?case using u1(2) by simp
qed simp

lemma run_other:
  assumes e: "narrow_encoding sb nm m" and k: "tcode nm \<noteq> TCODE_DATA_ACQUISITION" and ok: "msg_ok sb nm" and i: "idle_stream sb s"
  shows "\<exists>s1. idle_stream sb s1 \<and> stream_run (m @ rest) s = stream_run rest s1"
proof -
  obtain v vs where m: "m = enc_slice (bits_n 6 (TCode_val (tcode nm))) MSEO_NORMAL # enc_groups ((head_bits sb nm @ v) # vs)"
      "\<forall>h \<in> set ((head_bits sb nm @ v) # vs). whole h \<and> length h \<le> 400"
    and f: "map num (v # vs) = var_fields nm @ ts_fields nm"
    using encoding_parts [OF e] by blast
  obtain u r where s: "s = (u, r)" by (cases s)
  have kind: "kind_ok nm" using ok by (simp add: msg_ok_def)
  let ?r0 = "reassembler_startMessage (unat (TCode_val (tcode nm))) r"
  have tc: "take_bit 6 (TCode_val (tcode nm)) = TCode_val (tcode nm)" "unat (TCode_val (tcode nm)) \<noteq> 7"
    using TCode_val_range [OF kind] kind k by (auto simp: kind_ok_def TCode_val_def split: TCode.splits)
  obtain u0 where u0: "reading u0 []" "stream_run (m @ rest) s = stream_run (enc_groups ((head_bits sb nm @ v) # vs) @ rest) (u0, ?r0)"
    using run_start [of sb u r "TCode_val (tcode nm)" "enc_groups ((head_bits sb nm @ v) # vs) @ rest"] i m(1) tc(1) s by auto
  have "length (v # vs) = length (var_fields nm @ ts_fields nm)" using f by (metis length_map)
  then have "length (v # vs) \<le> 4" by (auto simp: var_fields_def ts_fields_def split: TCode.splits if_splits)
  then obtain u1 r1 where "between u1" "r_srcbits r1 = r_srcbits ?r0" "\<not> messageReady r1"
      "stream_run (enc_groups ((head_bits sb nm @ v) # vs) @ rest) (u0, ?r0) = stream_run rest (u1, r1)"
    using run_ignored [OF _ m(2) u0(1), of ?r0 rest] tc(2) by (auto simp: reassembler_startMessage_def)
  then show ?thesis using u0(2) i s
    by (intro exI [of _ "(u1, r1)"]) (simp add: idle_stream_def reassembler_startMessage_def)
qed

text \<open>Between messages, a byte whose end marks are not zero is passed over.\<close>

lemma run_pad:
  "\<forall>b \<in> set pad. b AND 3 \<noteq> 0 \<Longrightarrow> idle_stream sb s \<Longrightarrow> stream_run (pad @ rest) s = stream_run rest s"
proof (induction pad)
  case (Cons b pad)
  obtain u r where s: "s = (u, r)" by (cases s)
  have "appendByteAndCheckForMessage b s = Inr (None, s)"
    using Cons.prems s
    by (simp add: appendByteAndCheckForMessage_def appendByte_def Let_def idle_stream_def between_def getMessage_def)
  then show ?case using Cons by simp
qed simp

lemma stream_reads:
  assumes "\<forall>(pad, nm, m) \<in> set ms. (\<forall>b \<in> set pad. b AND 3 \<noteq> 0) \<and> narrow_encoding sb nm m \<and> msg_ok sb nm" and "idle_stream sb s"
  shows "\<exists>s1. idle_stream sb s1 \<and> stream_run (concat (map (\<lambda>(pad, nm, m). pad @ m) ms)) s =
    Inr (map (\<lambda>(pad, nm, m). da_of sb nm) (filter (\<lambda>(pad, nm, m). tcode nm = TCODE_DATA_ACQUISITION) ms), s1)"
  using assms
proof (induction ms arbitrary: s)
  case Nil
  then show ?case by (cases s) auto
next
  case (Cons x ms)
  obtain pad nm m where x: "x = (pad, nm, m)" by (cases x)
  let ?rest = "concat (map (\<lambda>(pad, nm, m). pad @ m) ms)"
  have e: "narrow_encoding sb nm m" "msg_ok sb nm" using Cons.prems(1) x by auto
  have pad: "stream_run (concat (map (\<lambda>(pad, nm, m). pad @ m) (x # ms))) s = stream_run (m @ ?rest) s"
    using run_pad [OF _ Cons.prems(2), of pad "m @ ?rest"] Cons.prems(1) x by simp
  show ?case
  proof (cases "tcode nm = TCODE_DATA_ACQUISITION")
    case True
    obtain s1 where "idle_stream sb s1"
        "stream_run (m @ ?rest) s = map_sum id (\<lambda>(ms, s2). (da_of sb nm # ms, s2)) (stream_run ?rest s1)"
      using run_da [OF e(1) True e(2) Cons.prems(2)] by blast
    then show ?thesis using Cons.IH [of s1] Cons.prems(1) True x unfolding pad by auto
  next
    case False
    obtain s1 where "idle_stream sb s1" "stream_run (m @ ?rest) s = stream_run ?rest s1"
      using run_other [OF e(1) False e(2) Cons.prems(2)] by blast
    then show ?thesis using Cons.IH [of s1] Cons.prems(1) False x unfolding pad by auto
  qed
qed

lemma new_stream_idle: "idle_stream sb (NexusStream_new (int sb))"
  using holds_empty
  by (simp add: idle_stream_def NexusStream_new_def between_def NexusSliceUnwrapper_new_def emptyData_def NexusMessageReassembler_new_def)

text \<open>
  C11. The server's stream agrees with the trace decoder: from the bytes of any messages of the kinds the
  decoder reads, no field of which takes more than 64 bits, one after another with idle bytes of any
  nonzero end marks between them, the stream gets exactly the data acquisition messages, complete and in order, with the source, tag, data and
  timestamp that the decoder reads from them.
\<close>

theorem stream_gets_data_messages:
  assumes "\<forall>(pad, nm, m) \<in> set ms. (\<forall>b \<in> set pad. b AND 3 \<noteq> 0) \<and> narrow_encoding sb nm m \<and> msg_ok sb nm" and "idle_stream sb s"
  shows "\<exists>s1. idle_stream sb s1 \<and> stream_run (concat (map (\<lambda>(pad, nm, m). pad @ m) ms)) s =
    Inr (map (\<lambda>(pad, nm, m). da_of sb nm) (filter (\<lambda>(pad, nm, m). tcode nm = TCODE_DATA_ACQUISITION) ms), s1)"
  using assms by (rule stream_reads)

definition data_msg :: NexusMessage where
  "data_msg = undefined\<lparr>tcode := TCODE_DATA_ACQUISITION, coreId := 1,
     dataAcquisition_idTag := 4, dataAcquisition_data := 0x41, haveTimestamp := False\<rparr>"

lemma data_narrow: "narrow_encoding 2 data_msg [0x1c, 0x45, 0x04, 0x07]" "msg_ok 2 data_msg"
proof -
  let ?g = "[False, False, True, False]" and ?d = "[True, False, False, False, False, False, True, False, False, False, False, False]"
  have b: "bits_n 6 (TCode_val (tcode data_msg)) = [True, True, True, False, False, False]"
    "bits_n 2 (ucast (coreId data_msg)) = [True, False]"
    by (simp_all add: bits_n_def data_msg_def TCode_val_def upt_rec bit_simps)
  have h: "head_bits 2 data_msg = [True, False]" by (simp add: head_bits_def b(2)) (simp add: data_msg_def fixed_fields_def)
  have "encodes_by narrow 2 data_msg ((head_bits 2 data_msg @ ?g) # [?d])"
    unfolding encodes_by_def
    by (rule exI [of _ ?g], rule exI [of _ "[?d]"]) (simp add: narrow_def data_msg_def fixed_fields_def var_fields_def ts_fields_def num_def)
  moreover have "enc_groups ((bits_n 6 (TCode_val (tcode data_msg)) @ head_bits 2 data_msg @ ?g) # [?d]) = [0x1c, 0x45, 0x04, 0x07]"
    by (simp add: b(1) h enc_group.simps enc_slice_def mseo_defs)
  ultimately show "narrow_encoding 2 data_msg [0x1c, 0x45, 0x04, 0x07]"
    unfolding narrow_encoding_def encoding_by_def
    by (intro exI [of _ "head_bits 2 data_msg @ ?g"] exI [of _ "[?d]"]) (simp add: b(1) h whole_def MSGBUF_def)
  show "msg_ok 2 data_msg" by (simp add: msg_ok_def kind_ok_def data_msg_def fixed_fields_def eval_nat_numeral)
qed

lemmas data_encoding = narrow_encoding_encoding [OF data_narrow(1)]

text \<open>The hypotheses hold for a data message, an idle byte, a branch message and another data message.\<close>

theorem stream_gets_data_messages_witness:
  "\<exists>s1. stream_run [0x1c, 0x45, 0x04, 0x07, 0xff, 0x0c, 0x59, 0x27, 0x1c, 0x45, 0x04, 0x07] (NexusStream_new 2) =
     Inr ([da_of 2 data_msg, da_of 2 data_msg], s1)"
proof -
  let ?ms = "[([], data_msg, [0x1c, 0x45, 0x04, 0x07]), ([0xff], sample_msg, [0x0c, 0x59, 0x27]),
    ([], data_msg, [0x1c, 0x45, 0x04, 0x07])] :: (u8 list \<times> NexusMessage \<times> u8 list) list"
  have "msg_ok 2 sample_msg" by (simp add: msg_ok_def kind_ok_def ok_int_def fixed_fields_def sample_msg_def eval_nat_numeral)
  then have "\<forall>(pad, nm, m) \<in> set ?ms. (\<forall>b \<in> set pad. b AND 3 \<noteq> 0) \<and> narrow_encoding 2 nm m \<and> msg_ok 2 nm"
    using data_narrow sample_narrow by simp
  moreover have "tcode data_msg = TCODE_DATA_ACQUISITION" "tcode sample_msg = TCODE_DIRECT_BRANCH"
    by (simp_all add: data_msg_def sample_msg_def)
  ultimately show ?thesis
    using stream_gets_data_messages [of ?ms 2 "NexusStream_new 2"] new_stream_idle [of 2] by (simp del: stream_run.simps) blast
qed

lemma length_le_concat: "\<forall>h \<in> set gs. h \<noteq> [] \<Longrightarrow> length gs \<le> length (concat gs)"
  by (induction gs) (auto simp: neq_Nil_conv)

text \<open>
  C36. An idle byte that is zero, which the trace decoder skips, costs the server's stream a message: the
  byte starts a message of kind 0, and the whole message that follows is taken for its fields. No data
  message is got, whatever the message, and the stream is idle again only after it.
\<close>

theorem zero_byte_loses_message:
  assumes "encoding sb nm m" and "idle_stream sb s"
  shows "\<exists>s1. idle_stream sb s1 \<and> stream_run (0 # m) s = Inr ([], s1)"
proof -
  let ?t = "bits_n 6 (TCode_val (tcode nm))"
  obtain g gs where e: "\<forall>h \<in> set ((?t @ g) # gs). whole h" "m = enc_groups ((?t @ g) # gs)" "length m \<le> MSGBUF"
    using assms(1) unfolding encoding_def encoding_by_def by blast
  let ?gs = "(?t @ g) # gs"
  have l: "length (concat ?gs) \<le> 384" using length_enc_groups [of ?gs] e by (simp add: MSGBUF_def)
  have hl: "length h \<le> length (concat ?gs)" if "h \<in> set ?gs" for h
    using that member_le_sum_list [of "length h" "map length ?gs"] by (auto simp: length_concat)
  have "\<forall>h \<in> set ?gs. h \<noteq> []" using e(1) by (auto simp: whole_def)
  then have "length ?gs \<le> length (concat ?gs)" by (rule length_le_concat)
  then have n: "int (length ?gs) < 2 ^ 31 - 1" using l by simp
  obtain u r where s: "s = (u, r)" by (cases s)
  let ?r0 = "reassembler_startMessage 0 r"
  have z: "enc_slice (bits_n 6 0) MSEO_NORMAL = 0" by (simp add: enc_slice_def bits_n_def mseo_defs upt_rec)
  obtain u0 where u0: "reading u0 []" "stream_run (0 # m) s = stream_run m (u0, ?r0)"
    using run_start [of sb u r 0 m] assms(2) z s by auto
  obtain u1 r1 where "between u1" "r_srcbits r1 = r_srcbits ?r0" "\<not> messageReady r1" "stream_run (m @ []) (u0, ?r0) = stream_run [] (u1, r1)"
    using run_ignored [of ?gs u0 ?r0 "[]"] e hl l u0(1) n by (fastforce simp: reassembler_startMessage_def)
  then show ?thesis using u0(2) assms(2) s
    by (intro exI [of _ "(u1, r1)"]) (simp add: idle_stream_def reassembler_startMessage_def)
qed

theorem zero_byte_loses_message_witness:
  "(\<exists>s1. stream_run [0, 0x1c, 0x45, 0x04, 0x07] (NexusStream_new 2) = Inr ([], s1)) \<and> idle 0"
proof -
  have "idle_stream 2 (NexusStream_new 2)" using new_stream_idle [of 2] by simp
  from zero_byte_loses_message [OF data_encoding this] show ?thesis
    by (elim exE conjE) (intro conjI exI, assumption, simp add: idle_def)
qed

section \<open>The builder writes messages\<close>

text \<open>The slices since the end of the last field: full ones, and the one that is being filled.\<close>

definition fill :: "u8 list \<Rightarrow> bool list list \<Rightarrow> bool list \<Rightarrow> SwtMessageStreamBuilder \<Rightarrow> bool" where
  "fill pre full part b \<longleftrightarrow> (\<forall>c \<in> set full. length c = 6) \<and> length part \<le> 6 \<and>
     slices b = pre @ map (\<lambda>c. enc_slice c MSEO_NORMAL) full \<and> cursliceOffset b = 2 + length part \<and>
     curslice b = enc_slice part MSEO_NORMAL"

lemma bit_unclosed_slice: "bit (enc_slice part MSEO_NORMAL) j \<longleftrightarrow> j < 8 \<and> 2 \<le> j \<and> j - 2 < length part \<and> part ! (j - 2)"
  by (auto simp: enc_slice_def mseo_defs bit_push_bit_iff bit_horner_sum_bit_iff)

lemma add_bits:
  assumes "length part + n \<le> 6" and p: "p = 2 + length part"
  shows "enc_slice part MSEO_NORMAL OR ucast (push_bit p (val AND mask n)) = enc_slice (part @ bits_n n val) MSEO_NORMAL"
proof (rule bit_word_eqI)
  fix j :: nat
  assume j: "j < LENGTH(8)"
  show "bit (enc_slice part MSEO_NORMAL OR ucast (push_bit p (val AND mask n))) j =
      bit (enc_slice (part @ bits_n n val) MSEO_NORMAL) j"
  proof (cases "j < p")
    case True
    then have "\<not> bit (push_bit p (val AND mask n)) j" by (simp add: bit_push_bit_iff del: push_bit_and)
    then show ?thesis using True j p by (auto simp: bit_or_iff bit_ucast_iff bit_unclosed_slice nth_append simp del: push_bit_and push_bit_Suc)
  next
    case False
    then obtain k where k: "j = p + k" using le_iff_add not_less by metis
    have "bit (push_bit p (val AND mask n)) (p + k) \<longleftrightarrow> p + k < 64 \<and> bit val k \<and> k < n"
      by (auto simp: bit_push_bit_iff bit_and_iff bit_mask_iff simp del: push_bit_and)
    then show ?thesis using j k p
      by (auto simp: bit_or_iff bit_ucast_iff bit_unclosed_slice nth_append bits_n_def simp del: push_bit_and push_bit_Suc)
  qed
qed

lemma bits_n_split: "c \<le> n \<Longrightarrow> bits_n n val = bits_n c val @ bits_n (n - c) (drop_bit c val)"
  by (intro nth_equalityI) (auto simp: bits_n_def nth_append bit_drop_bit_eq)

lemma append_fill:
  "fill pre full part b \<Longrightarrow> \<exists>full1 part1 b1. append val n b = Inr b1 \<and> fill pre full1 part1 b1 \<and>
     concat full1 @ part1 = concat full @ part @ bits_n n val \<and> (n > 0 \<longrightarrow> part1 \<noteq> [])"
proof (induction val n b arbitrary: full part rule: append.induct)
  case (1 val n b)
  show ?case
  proof (cases "n = 0")
    case True
    then show ?thesis using 1(2) by (auto simp: append.simps bits_n_def)
  next
    case False
    have off: "cursliceOffset b = 2 + length part" "length part \<le> 6" using 1(2) by (auto simp: fill_def)
    define c where "c = min n (8 - cursliceOffset b)"
    define b1 where "b1 = (if cursliceOffset b = 8 then flushSlice b else b)"
    define b2 where "b2 = b1\<lparr>curslice := curslice b1 OR ucast (push_bit (cursliceOffset b1) (val AND mask c)),
        cursliceOffset := cursliceOffset b1 + c\<rparr>"
    have no8: "\<not> 8 < cursliceOffset b" using off by simp
    have ap: "append val n b = append (drop_bit c val) (n - c) b2"
      using False no8 unfolding b2_def b1_def c_def by (subst append.simps) (simp add: Let_def)
    define full1 where "full1 = (if length part = 6 then full @ [part] else full)"
    define part1 where "part1 = (if length part = 6 then [] else part)"
    have f1: "fill pre full1 part1 b1"
      using 1(2) by (auto simp: fill_def flushSlice_def full1_def part1_def b1_def enc_slice_def mseo_defs)
    have c: "length part1 + c \<le> 6" using off by (auto simp: part1_def c_def)
    have o1: "cursliceOffset b1 = 2 + length part1" using f1 by (simp add: fill_def)
    have "fill pre full1 (part1 @ bits_n c val) b2"
      using f1 c add_bits [OF c o1, of val] by (simp add: fill_def bits_n_simps b2_def)
    note f2 = this [unfolded b2_def]
    have cc: "concat full1 @ part1 = concat full @ part" by (simp add: full1_def part1_def)
    have ih: "\<exists>full2 part2 b3. append (drop_bit c val) (n - c) b2 = Inr b3 \<and> fill pre full2 part2 b3 \<and>
        concat full2 @ part2 = concat full1 @ (part1 @ bits_n c val) @ bits_n (n - c) (drop_bit c val) \<and>
        (n - c > 0 \<longrightarrow> part2 \<noteq> [])"
      unfolding b2_def by (rule 1(1) [OF False no8 c_def b1_def f2])
    then obtain full2 part2 b3 where r: "append (drop_bit c val) (n - c) b2 = Inr b3" "fill pre full2 part2 b3"
        "concat full2 @ part2 = concat full1 @ (part1 @ bits_n c val) @ bits_n (n - c) (drop_bit c val)" "n - c > 0 \<longrightarrow> part2 \<noteq> []"
      by (elim exE conjE) rule
    have a3: "append val n b = Inr b3" using ap r(1) by simp
    have "bits_n n val = bits_n c val @ bits_n (n - c) (drop_bit c val)" by (rule bits_n_split) (simp add: c_def)
    then have "concat full2 @ part2 = concat full @ part @ bits_n n val" using r(3) cc by simp
    moreover have "part2 \<noteq> []"
    proof (cases "n - c > 0")
      case True
      then show ?thesis using r(4) by simp
    next
      case False
      then have "b3 = b2" using r(1) by (simp add: append.simps)
      moreover have "c > 0" using False \<open>n \<noteq> 0\<close> by simp
      ultimately have "cursliceOffset b3 > 2" using o1 by (simp add: b2_def)
      then show ?thesis using r(2) by (auto simp: fill_def)
    qed
    ultimately show ?thesis using a3 r(2) by (intro exI [of _ full2] exI [of _ part2] exI [of _ b3]) simp
  qed
qed

lemma enc_group_chunks:
  "\<forall>c \<in> set full. length c = 6 \<Longrightarrow> length p = 6 \<Longrightarrow>
   enc_group t (concat full @ p) = map (\<lambda>c. enc_slice c MSEO_NORMAL) full @ [enc_slice p t]"
  by (induction full) (simp_all add: enc_group.simps)

lemma enc_slice_pad: "enc_slice (part @ replicate m False) t = enc_slice part t"
proof -
  have "horner_sum of_bool 2 (replicate m False) = (0 :: u8)" by (induction m) simp_all
  then show ?thesis by (simp add: enc_slice_def horner_sum_append)
qed

lemma length_concat_slices: "\<forall>c \<in> set full. length c = 6 \<Longrightarrow> length (concat full) = 6 * length full"
  by (induction full) simp_all

lemma close_fill:
  assumes "fill pre full part b"
  shows "slices (close_slice t b) = pre @ enc_group t (concat full @ part @ replicate (6 - length part) False) \<and>
    fill (slices (close_slice t b)) [] [] (close_slice t b)"
proof -
  let ?p = "part @ replicate (6 - length part) False"
  have "length ?p = 6" "\<forall>c \<in> set full. length c = 6" using assms by (auto simp: fill_def)
  then have "enc_group t (concat full @ ?p) = map (\<lambda>c. enc_slice c MSEO_NORMAL) full @ [enc_slice part t]"
    using enc_group_chunks [of full ?p t] enc_slice_pad by simp
  moreover have "curslice b OR t = enc_slice part t" using assms by (simp add: fill_def enc_slice_def mseo_defs)
  ultimately show ?thesis
    using assms by (simp add: close_slice_def flushSlice_def fill_def enc_slice_def mseo_defs)
qed

lemma int_mask_zero: "take_bit 32 val = val \<Longrightarrow> i < 32 \<Longrightarrow> val AND int_mask i = 0 \<longleftrightarrow> \<not> bit val i"
proof -
  assume v: "take_bit 32 val = val" and i: "i < 32"
  have low: "bit val j \<Longrightarrow> j < 32" for j using v by (metis bit_take_bit_iff)
  have m: "bit (int_mask i) j \<longleftrightarrow> j < 64 \<and> (if i = 31 then 31 \<le> j else j = i)" for j
  proof (cases "i = 31")
    case True
    have "int_mask i = NOT (mask 31)" using True by (simp add: int_mask_def mask_eq_exp_minus_1)
    then show ?thesis using True by (auto simp: bit_not_iff bit_mask_iff)
  qed (auto simp: int_mask_def bit_exp_iff possible_bit_word)
  show ?thesis
  proof
    assume "val AND int_mask i = 0"
    then have "\<not> bit (val AND int_mask i) i" by simp
    then show "\<not> bit val i" using m [of i] i by (cases "i = 31") (simp_all add: bit_and_iff)
  next
    assume "\<not> bit val i"
    then have "\<not> bit (val AND int_mask i) n" for n using m [of n] low [of n] i by (cases "n = i") (auto simp: bit_and_iff split: if_splits)
    then show "val AND int_mask i = 0" using word_nonzero_bit by blast
  qed
qed

lemma used_bits_enough:
  "take_bit 32 val = val \<Longrightarrow> n \<le> 32 \<Longrightarrow> \<exists>k \<le> n. used_bits val n = Inr k \<and> take_bit k val = take_bit n val"
proof (induction n)
  case (Suc n)
  show ?case
  proof (cases "bit val n")
    case True
    then show ?thesis using Suc.prems int_mask_zero [of val n] by auto
  next
    case False
    then have "take_bit (Suc n) val = take_bit n val" 
      by (intro bit_word_eqI) (auto simp: bit_take_bit_iff less_Suc_eq)
    then show ?thesis using Suc False int_mask_zero [of val n] by (auto intro: le_SucI)
  qed
qed simp

lemma num_pad: "num (bits_n k val @ replicate m False) = take_bit k val"
  by (rule bit_word_eqI) (auto simp: bit_num bit_take_bit_iff bits_n_def nth_append)

lemma appendVarField_fill:
  assumes b: "fill pre full part b" and v: "take_bit 32 val = val" and n: "0 < n" "n \<le> 32"
  shows "\<exists>b1 f. appendVarField val n fin b = Inr b1 \<and> f \<noteq> [] \<and> length f \<le> 64 \<and> num f = take_bit n val \<and>
    fill (slices b1) [] [] b1 \<and> whole (concat full @ part @ f) \<and>
    slices b1 = pre @ enc_group (if fin then MSEO_END else MSEO_VAR_END) (concat full @ part @ f)"
proof -
  obtain k where k: "k \<le> n" "used_bits val n = Inr k" "take_bit k val = take_bit n val"
    using used_bits_enough [OF v n(2)] by blast
  let ?k = "max k 1"
  have tk: "take_bit ?k val = take_bit n val"
  proof (cases k)
    case 0
    then have "\<not> bit val 0" using k(3) n(1) by (metis bit_take_bit_iff take_bit_0 bit_0_eq bot_apply bot_bool_def)
    then have "take_bit 1 val = 0" by (intro bit_word_eqI) (auto simp: bit_take_bit_iff bit_0 elim: oddE)
    then show ?thesis using 0 k(3) by simp
  next
    case (Suc j)
    then have "?k = k" by simp
    then show ?thesis using k(3) by (simp only:)
  qed
  obtain full1 part1 b1 where b1: "append val ?k b = Inr b1" "fill pre full1 part1 b1"
      "concat full1 @ part1 = concat full @ part @ bits_n ?k val" "part1 \<noteq> []"
    using append_fill [OF b, of val ?k] by auto
  let ?f = "bits_n ?k val @ replicate (6 - length part1) False"
  have l: "?k \<le> 32" using k(1) n by simp
  have "concat full @ part @ ?f = concat full1 @ part1 @ replicate (6 - length part1) False" using b1(3) by simp
  moreover have "whole (concat full1 @ part1 @ replicate (6 - length part1) False)"
    using b1(2) length_concat_slices [of full1] by (auto simp: whole_def fill_def)
  moreover have "?f \<noteq> [] \<and> length ?f \<le> 64 \<and> num ?f = take_bit n val" using l num_pad tk by (auto simp: bits_n_simps)
  moreover have "appendVarField val n fin b = Inr (close_slice (if fin then MSEO_END else MSEO_VAR_END) b1)"
    using k(2) b1(1) by (simp add: appendVarField_def minBits_def mseo_defs)
  ultimately show ?thesis using close_fill [OF b1(2), of "if fin then MSEO_END else MSEO_VAR_END"] by metis
qed

text \<open>The message that is written; its data is cut to the size of the write.\<close>

definition da_msg :: "nat \<Rightarrow> int \<Rightarrow> u32 \<Rightarrow> u32 \<Rightarrow> NexusMessage" where
  "da_msg sb src tag d = undefined\<lparr>tcode := TCODE_DATA_ACQUISITION, coreId := take_bit sb (word_of_int src),
     dataAcquisition_idTag := tag, dataAcquisition_data := d, haveTimestamp := False\<rparr>"

lemma bits_n_src: "sb \<le> 8 \<Longrightarrow> bits_n sb (word_of_int src) = bits_n sb (ucast (take_bit sb (word_of_int src :: u8)))"
  by (intro nth_equalityI) (auto simp: bits_n_def bit_ucast_iff bit_take_bit_iff bit_word_of_int_iff)

lemma ucast_u32_fits: "take_bit 32 (ucast (x :: u32) :: u64) = ucast x"
  by (rule bit_word_eqI) (auto simp: bit_take_bit_iff bit_ucast_iff dest: bit_imp_le_length)

lemma builder_encodes:
  assumes sb: "sb \<le> 8" and tag: "itc_tag i sz = Inr tag" and sz: "sz \<in> {1, 2, 4}"
  shows "\<exists>b1 m. addDataAcquisitionMessage sb src i sz d False ts b = Inr b1 \<and> slices b1 = slices b @ m \<and>
    narrow_encoding sb (da_msg sb src tag (take_bit (8 * sz) d)) m \<and> msg_ok sb (da_msg sb src tag (take_bit (8 * sz) d))"
proof -
  let ?nm = "da_msg sb src tag (take_bit (8 * sz) d)"
  let ?t = "bits_n 6 7"
  have f0: "fill (slices b) [] [] (beginMessage b)"
    by (simp add: fill_def beginMessage_def enc_slice_def mseo_defs)
  obtain fl1 p1 b1 where b1: "append 7 6 (beginMessage b) = Inr b1" "fill (slices b) fl1 p1 b1" "concat fl1 @ p1 = ?t"
    using append_fill [OF f0, of 7 6] by auto
  obtain fl2 p2 b2 where b2: "append (word_of_int src) sb b1 = Inr b2" "fill (slices b) fl2 p2 b2"
      "concat fl2 @ p2 = ?t @ bits_n sb (word_of_int src)"
    using append_fill [OF b1(2), of "word_of_int src" sb] b1(3) by auto
  obtain b3 v where b3: "appendVarField (ucast tag) 32 False b2 = Inr b3" "v \<noteq> []" "length v \<le> 64" "num v = ucast tag"
      "fill (slices b3) [] [] b3" "whole (concat fl2 @ p2 @ v)" "slices b3 = slices b @ enc_group MSEO_VAR_END (concat fl2 @ p2 @ v)"
    using appendVarField_fill [OF b2(2) ucast_u32_fits, of 32 tag False] ucast_u32_fits by auto
  obtain b4 e where b4: "appendVarField (ucast d) (sz * 8) True b3 = Inr b4" "e \<noteq> []" "length e \<le> 64"
      "num e = take_bit (sz * 8) (ucast d)" "whole e" "slices b4 = slices b3 @ enc_group MSEO_END e"
    using appendVarField_fill [OF b3(5) ucast_u32_fits, of "sz * 8" d True] sz by auto
  let ?m = "enc_group MSEO_VAR_END (concat fl2 @ p2 @ v) @ enc_group MSEO_END e"
  have add: "addDataAcquisitionMessage sb src i sz d False ts b = Inr b4"
    using tag b1(1) b2(1) b3(1) b4(1)
    by (simp add: addDataAcquisitionMessage_def bind_out_def appendFixedField_def data_fields_def)
  have g: "concat fl2 @ p2 @ v = ?t @ bits_n sb (ucast (coreId ?nm)) @ v"
    using b2(3) bits_n_src [OF sb, of src] by (simp add: da_msg_def flip: append_assoc)
  have d: "take_bit (sz * 8) (ucast d :: u64) = ucast (take_bit (8 * sz) d)"
    by (rule bit_word_eqI) (auto simp: bit_take_bit_iff bit_ucast_iff mult.commute)
  have enc: "encodes_by narrow sb ?nm [bits_n sb (ucast (coreId ?nm)) @ v, e]"
    unfolding encodes_by_def narrow_def using b3(2-4) b4(2-4) d
    by (intro exI [of _ v] exI [of _ "[e]"]) (simp add: head_bits_def fixed_fields_def var_fields_def ts_fields_def da_msg_def)
  have wh: "whole (?t @ bits_n sb (ucast (coreId ?nm)) @ v)" "whole e" using b3(6) b4(5) g by simp_all
  have m: "?m = enc_groups [?t @ bits_n sb (ucast (coreId ?nm)) @ v, e]" unfolding g by simp
  have "length ?m * 6 = length (concat [?t @ bits_n sb (ucast (coreId ?nm)) @ v, e])"
    unfolding m using wh by (intro length_enc_groups) auto
  then have "length ?m \<le> MSGBUF" using b3(3) b4(3) sb by (simp add: bits_n_simps MSGBUF_def)
  then have "narrow_encoding sb ?nm ?m"
    unfolding narrow_encoding_def encoding_by_def using enc wh m by (intro exI [of _ "bits_n sb (ucast (coreId ?nm)) @ v"] exI [of _ "[e]"])
      (simp add: da_msg_def TCode_val_def)
  moreover have "msg_ok sb ?nm" using sb by (simp add: msg_ok_def kind_ok_def da_msg_def fixed_fields_def)
  ultimately show ?thesis using add b4(6) b3(7) by auto
qed

lemma builder_timestamp:
  assumes "itc_tag i sz = Inr tag" and sz: "sz \<in> {1, 2, 4}"
  shows "addDataAcquisitionMessage sb src i sz d True ts b = Inl UB"
proof -
  have f0: "fill (slices b) [] [] (beginMessage b)" by (simp add: fill_def beginMessage_def enc_slice_def mseo_defs)
  obtain fl1 p1 b1 where b1: "append 7 6 (beginMessage b) = Inr b1" "fill (slices b) fl1 p1 b1"
    using append_fill [OF f0, of 7 6] by auto
  obtain fl2 p2 b2 where b2: "append (word_of_int src) sb b1 = Inr b2" "fill (slices b) fl2 p2 b2"
    using append_fill [OF b1(2), of "word_of_int src" sb] by auto
  obtain b3 where b3: "appendVarField (ucast tag) 32 False b2 = Inr b3" "fill (slices b3) [] [] b3"
    using appendVarField_fill [OF b2(2) ucast_u32_fits, of 32 tag False] by auto
  obtain b4 where b4: "appendVarField (ucast d) (sz * 8) False b3 = Inr b4"
    using appendVarField_fill [OF b3(2) ucast_u32_fits, of "sz * 8" d False] sz by auto
  have "used_bits ts 64 = Inl UB" by (simp add: eval_nat_numeral)
  then have "appendVarField ts 64 True b4 = Inl UB" by (simp add: appendVarField_def minBits_def)
  then show ?thesis using assms(1) b1(1) b2(1) b3(1) b4
    by (simp add: addDataAcquisitionMessage_def bind_out_def appendFixedField_def data_fields_def)
qed

text \<open>
  C26. The builder of streams writes messages that can be read back: the slices it adds for a data
  acquisition message without timestamp are an encoding of that message, the data cut to its size,
  and an idle stream gets exactly that message from them. With a timestamp the builder shifts an
  \<^verbatim>\<open>int\<close> by 63, which is undefined.
\<close>

theorem built_message_is_got:
  assumes "sb \<le> 8" and "itc_tag i sz = Inr tag" and "sz \<in> {1, 2, 4}" and "idle_stream sb s"
  shows "addDataAcquisitionMessage sb src i sz d True ts b = Inl UB \<and>
    (\<exists>b1 m s1. addDataAcquisitionMessage sb src i sz d False ts b = Inr b1 \<and> slices b1 = slices b @ m \<and>
       narrow_encoding sb (da_msg sb src tag (take_bit (8 * sz) d)) m \<and> idle_stream sb s1 \<and>
       stream_run m s = Inr ([\<lparr>da_tcode = 7, da_haveTimestamp = False, da_timestamp = 0, da_haveSrc = (sb \<noteq> 0),
         da_src = ucast (take_bit sb (word_of_int src :: u8)), da_idtag = tag, da_dqdata = take_bit (8 * sz) d\<rparr>], s1))"
proof -
  let ?nm = "da_msg sb src tag (take_bit (8 * sz) d)"
  obtain b1 m where m: "addDataAcquisitionMessage sb src i sz d False ts b = Inr b1" "slices b1 = slices b @ m" "narrow_encoding sb ?nm m" "msg_ok sb ?nm"
    using builder_encodes [OF assms(1-3)] by blast
  obtain s1 where "idle_stream sb s1" "stream_run m s = Inr ([da_of sb ?nm], s1)"
    using stream_reads [of "[([], ?nm, m)]" sb s] m(3,4) assms(4) by (auto simp: da_msg_def)
  then show ?thesis using m builder_timestamp [OF assms(2,3)]
    by (cases s1) (auto simp: da_of_def da_msg_def)
qed

text \<open>The hypotheses hold for a new stream and a byte written to channel 1 by core 1.\<close>

theorem built_message_is_got_witness:
  "\<exists>b1 m s1. addDataAcquisitionMessage 2 1 1 1 0x41 False 0 \<lparr>curslice = 0, cursliceOffset = 0, slices = []\<rparr> = Inr b1 \<and> slices b1 = m \<and>
     stream_run m (NexusStream_new 2) = Inr ([\<lparr>da_tcode = 7, da_haveTimestamp = False, da_timestamp = 0, da_haveSrc = True,
         da_src = 1, da_idtag = 7, da_dqdata = 0x41\<rparr>], s1)"
proof -
  have tag: "itc_tag 1 1 = Inr 7" by (simp add: itc_tag_def s32_def)
  have t: "take_bit 2 (word_of_int 1 :: u8) = 1" "take_bit (8 * 1) (0x41 :: u32) = 0x41" by code_simp+
  have "idle_stream 2 (NexusStream_new 2)" using new_stream_idle [of 2] by simp
  from built_message_is_got [OF _ tag _ this, of 1 "0x41" 0 "\<lparr>curslice = 0, cursliceOffset = 0, slices = []\<rparr>"]
  obtain b1 m s1 where m: "addDataAcquisitionMessage 2 1 1 1 0x41 False 0 \<lparr>curslice = 0, cursliceOffset = 0, slices = []\<rparr> = Inr b1"
      "slices b1 = m" "stream_run m (NexusStream_new 2) = Inr ([\<lparr>da_tcode = 7, da_haveTimestamp = False, da_timestamp = 0,
         da_haveSrc = True, da_src = 1, da_idtag = 7, da_dqdata = 0x41\<rparr>], s1)"
    unfolding t by force
  then show ?thesis by (intro exI conjI)
qed

end
