(* ===== verification/Ca_Keeps.thy ===== *)
theory Ca_Keeps
  imports Next_Returns
begin

text \<open>
  What leaves the cycle accurate trace alone: reading, taking and retiring messages, and waiting for
  synchronisation. Only running an instruction takes an event from it.
\<close>

section \<open>What processing a message keeps\<close>

text \<open>Steps that leave the states of the cores alone.\<close>

definition steady :: "Trace_Msg.step \<Rightarrow> bool" where
  "steady f \<longleftrightarrow> (\<forall>t rc t1. f t = Inr (rc, t1) \<longrightarrow> tr_state t1 = tr_state t)"

named_theorems steady_rules "steps that leave the states of the cores alone"

lemma steadyD: "steady f \<Longrightarrow> f t = Inr (rc, t1) \<Longrightarrow> tr_state t1 = tr_state t"
  by (simp add: steady_def)

lemma tr_state_moves [simp]:
  "tr_state (set_pc a t) = tr_state t" "tr_state (set_faddr a t) = tr_state t" "tr_state (set_ts x t) = tr_state t"
  "tr_state (set_sync b t) = tr_state t" "tr_state (set_prv p t) = tr_state t" "tr_state (xor_faddr u t) = tr_state t"
  "tr_state (pc_from_faddr t) = tr_state t" "tr_state (update_process i g t) = tr_state t" "tr_state (tell ev t) = tr_state t"
  "tr_state (ict_faddr ws t) = tr_state t" "tr_state (ict_call_addrs ws t) = tr_state t" "tr_state (reset_core c t) = tr_state t"
  by (simp_all add: set_pc_def set_faddr_def set_ts_def set_sync_def set_prv_def xor_faddr_def pc_from_faddr_def
      update_process_def tell_def ict_faddr_def ict_call_addrs_def reset_core_def Let_def)

lemma steady_basic [steady_rules]: "steady (give_up rc)" "steady (new_time ty)" "steady (need_converter E i)" "steady (ict_move ws n)"
  by (auto simp: steady_def give_up_def new_time_def need_converter_def enableEventConverter_def ict_move_def map_sum_def Let_def
      split: if_splits sum.splits)

lemma steady_act [steady_rules]: "(\<And>t. tr_state (f t) = tr_state t) \<Longrightarrow> steady (act f)"
  by (simp add: steady_def act_def)

lemma steady_then [steady_rules]: "steady f \<Longrightarrow> steady g \<Longrightarrow> steady (and_then f g)"
  by (auto simp: steady_def and_then_def split: sum.splits if_splits)

lemma steady_guarded [steady_rules]: "steady f \<Longrightarrow> steady (guarded b f)"
  by (simp add: steady_def guarded_def)

lemma steady_emit [steady_rules]: "steady (emit E i ev)"
  unfolding emit_def by (intro steady_rules) simp

lemma nextAddr_call_steady: "nextAddr_call E a t = Inr (rc, p, cr, t1) \<Longrightarrow> tr_state t1 = tr_state t"
  by (auto simp: nextAddr_call_def split: sum.splits fetched.splits option.splits dest!: fetch_frame)

lemma steady_by_call [steady_rules]:
  "(\<And>a cr. steady (g a cr)) \<Longrightarrow> steady (\<lambda>t. case nextAddr_call E (pc_of t) t of
      Inl e \<Rightarrow> Inl e | Inr (rc, a, cr, t1) \<Rightarrow> if rc \<noteq> DQERR_OK then Inr (DQERR_ERR, t1) else g a cr t1)"
  by (auto simp: steady_def split: sum.splits if_splits dest: nextAddr_call_steady)

lemma steady_ctf [steady_rules]: "steady (ctf_call i cr)"
  by (simp add: ctf_call_def steady_rules)


lemma steady_if [steady_rules]: "steady f \<Longrightarrow> steady g \<Longrightarrow> steady (\<lambda>t. if b t then f t else g t)"
  by (simp add: steady_def)

lemma steady_here: "(\<And>x. steady (f x)) \<Longrightarrow> steady (\<lambda>t. f (g t) t)"
  unfolding steady_def by blast

lemma steady_err [steady_rules]: "steady (\<lambda>t. Inr (rc, t))"
  by (simp add: steady_def)

lemma steady_trigger [steady_rules]: "steady (ict_trigger kind d E ws i pd)"
proof -
  have "steady (and_then (act (ict_faddr ws)) (emit E i ev))"
    "steady (and_then (act (\<lambda>t. pc_from_faddr (ict_faddr ws t))) (emit E i ev))" for ev
    by (simp_all add: steady_rules)
  then show ?thesis unfolding steady_def ict_trigger_def Let_def by simp
qed

lemma steady_inferableCall [steady_rules]: "steady (ict_inferableCall E ws i pd)"
proof -
  have htm: "steady (ict_call_htm E ws i pd)"
    unfolding ict_call_htm_def by (intro steady_rules) simp_all
  have "steady (guarded (\<lambda>t. has_ctf (processes t ! nat i)) (and_then (ctf_call i cr) (emit E i ev)))"
    "steady (and_then (guarded (\<lambda>t. has_ctf (processes t ! nat i)) (ctf_call i cr)) (and_then (need_converter E i) (act (tell ev))))" for cr ev
    by (simp_all add: steady_rules)
  then have "steady (ict_call_event E ws i pd)"
    unfolding ict_call_event_def Let_def by (intro steady_rules) (cases ws, simp_all)
  with htm show ?thesis by (auto simp: steady_def ict_inferableCall_def)
qed

lemma steady_trap [steady_rules]: "steady (ict_trap kind E ws i pd)"
  unfolding ict_trap_def by (intro steady_rules)

lemma steady_periodic [steady_rules]: "steady (ict_periodic E ws i pd)"
  unfolding ict_periodic_def by (intro steady_rules)

lemma steady_control [steady_rules]: "steady (ict_control E ws i pd)"
proof -
  have "steady (and_then (ict_move ws 1) (emit E i ev))" "steady (guarded b (act (tell ev)))" for ev b
    by (simp_all add: steady_rules)
  then show ?thesis using steady_emit [of E i] unfolding steady_def ict_control_def Let_def by simp
qed

lemma processPidPriv_steady: "processPidPriv c pd v pv t = Inr (i, t1) \<Longrightarrow> tr_state t1 = tr_state t"
  by (auto simp: processPidPriv_def Let_def map_sum_def split: sum.splits)

lemma steady_context [steady_rules]: "steady (ict_context E ws i pd)"
  unfolding ict_context_def
proof (intro steady_then steady_rules, unfold steady_def Let_def, intro allI impI, goal_cases)
  case (1 t rc t1)
  then show ?case
    by (auto split: if_splits sum.splits prod.splits dest!: steadyD [OF steady_emit] processPidPriv_steady)
qed

lemma steady_switch [steady_rules]: "steady (ict_switch E ws i pd)"
  using steady_trigger steady_inferableCall steady_trap steady_periodic steady_control steady_context
  unfolding steady_def ict_switch_def ict_extTrig_def ict_watchpoint_def ict_exception_def ict_interrupt_def
  by (fastforce split: ICTReason.splits)

lemma steady_rel [steady_rules]: "(\<And>t. tr_state (f t) = tr_state t) \<Longrightarrow> steady (rel_msg f)"
  unfolding rel_msg_def by (intro steady_rules) simp

lemma steady_sync [steady_rules]: "steady (sync_msg a)"
proof -
  have "steady (and_then (new_time TS_full)
        (act (\<lambda>t. set_sync True (reset_core (msg_core t) (pc_from_faddr (set_faddr (push_bit 1 a) t))))))"
    by (intro steady_rules) simp
  then show ?thesis unfolding steady_def sync_msg_def by simp
qed

lemma steady_ownership [steady_rules]: "steady ownership_msg"
  unfolding ownership_msg_def
proof (intro steady_then steady_rules, unfold steady_def Let_def, intro allI impI, goal_cases)
  case (1 t rc t1)
  then show ?case by (auto simp: map_sum_def split: if_splits sum.splits prod.splits dest!: processPidPriv_steady)
qed

lemma steady_process_switch: "steady (process_switch E i pd)"
proof -
  have "steady (rel_msg id)" "steady (rel_msg (\<lambda>t. set_pc 0 (set_faddr 0 t)))" "steady (indirect_msg a)"
    "steady (process_ict E i pd)" "steady (process_ictWS E i pd)" for a
    unfolding indirect_msg_def process_ict_def process_ictWS_def by (intro steady_rules; simp)+
  with steady_ownership steady_sync show ?thesis
    unfolding steady_def process_switch_def Let_def by (auto split: TCode.splits if_splits)
qed

lemma processTraceMessage_steady:
  assumes "processTraceMessage E t = Inr (rc, b, t1)"
  shows "tr_state t1 = tr_state t"
proof (cases "tcode (tr_nm t) = TCODE_DATA_ACQUISITION")
  case True
  then show ?thesis using assms steady_basic(2) [of TS_rel, THEN steadyD]
    by (auto simp: processTraceMessage_def data_msg_def Let_def split: if_splits sum.splits prod.splits)
next
  case False
  then show ?thesis using assms
    by (auto simp: processTraceMessage_def Let_def map_sum_def split: if_splits sum.splits dest!: steadyD [OF steady_process_switch])
qed


section \<open>What leaves the cycle accurate trace alone\<close>

definition no_cate :: "'net Session \<Rightarrow> bool" where
  "no_cate s \<longleftrightarrow> (\<forall>i. tr_state (tr s) i \<noteq> TRACE_STATE_SYNCCATE)"

definition untouched :: "'net Session \<Rightarrow> 'net Session \<Rightarrow> bool" where
  "untouched s s1 \<longleftrightarrow> caTrace s1 = caTrace s \<and> syncCount s1 = syncCount s \<and> lastCycle s1 = lastCycle s \<and>
     eCycleCount s1 = eCycleCount s \<and> (no_cate s \<longrightarrow> no_cate s1)"

lemma untouched_refl [simp]: "untouched s s"
  by (simp add: untouched_def)

lemma untouched_trans: "untouched s s1 \<Longrightarrow> untouched s1 s2 \<Longrightarrow> untouched s s2"
  by (simp add: untouched_def)

text \<open>Parts of the code that keep it, those with an outcome and those that end or go on.\<close>

definition calm :: "('net Session \<Rightarrow> 'net Session outcome) \<Rightarrow> bool" where
  "calm g \<longleftrightarrow> (\<forall>s s1. g s = Inr s1 \<longrightarrow> untouched s s1)"

definition keeps :: "'net move \<Rightarrow> bool" where
  "keeps f \<longleftrightarrow> (\<forall>s r s1. f s = Inr (r, s1) \<longrightarrow> untouched s s1)"

named_theorems keeps_rules "parts of the code that leave the cycle accurate trace alone"

lemma keepsD: "keeps f \<Longrightarrow> f s = Inr (r, s1) \<Longrightarrow> untouched s s1"
  unfolding keeps_def by blast

lemma calmD: "calm g \<Longrightarrow> g s = Inr s1 \<Longrightarrow> untouched s s1"
  unfolding calm_def by blast

lemma untouched_moves [simp]:
  "untouched s (set_status e s)" "untouched s (want_msg s)" "untouched s (reset_counts s)" "untouched s (give_src s)"
  "untouched s (full_from_last s)" "untouched s (note_exception s)" "untouched s (begin_call s)"
  "st \<noteq> TRACE_STATE_SYNCCATE \<Longrightarrow> untouched s (set_state st s)"
  by (simp_all add: untouched_def set_status_def want_msg_def reset_counts_def give_src_def full_from_last_def note_exception_def
      begin_call_def set_state_def on_trace_def no_cate_def)

lemma keeps_then [keeps_rules]: "calm g \<Longrightarrow> (\<And>s. keeps (f s)) \<Longrightarrow> keeps (\<lambda>s. then_do (g s) (f s))"
proof -
  assume a: "calm g" "\<And>s. keeps (f s)"
  show ?thesis
    unfolding keeps_def
  proof (intro allI impI)
    fix s r s1
    assume "then_do (g s) (f s) = Inr (r, s1)"
    then obtain s2 where "g s = Inr s2" "f s s2 = Inr (r, s1)" by (auto simp: then_do_def split: sum.splits)
    then show "untouched s s1" using calmD [OF a(1)] keepsD [OF a(2)] untouched_trans by blast
  qed
qed

lemma keeps_compose: "keeps f \<Longrightarrow> (\<And>s. untouched s (g s)) \<Longrightarrow> keeps (\<lambda>s. f (g s))"
  unfolding keeps_def using untouched_trans by blast

lemma keeps_at: "(\<And>x. keeps (f x)) \<Longrightarrow> keeps (\<lambda>s. f (a s) s)"
  unfolding keeps_def by blast

lemma calm_at: "(\<And>x. calm (f x)) \<Longrightarrow> calm (\<lambda>s. f (a s) s)"
  unfolding calm_def by blast

lemma keeps_if [keeps_rules]: "keeps f \<Longrightarrow> keeps g \<Longrightarrow> keeps (\<lambda>s. if b s then f s else g s)"
  by (simp add: keeps_def)

lemma keeps_ends [keeps_rules]: "keeps fatal" "keeps ret_status" "keeps ret_ok"
proof -
  have "untouched s (set_state TRACE_STATE_ERROR (set_status DQERR_ERR s))" for s :: "'a Session"
    by (rule untouched_trans [of _ "set_status DQERR_ERR s"]) simp_all
  then show "keeps (fatal :: 'a move)" by (simp add: keeps_def fatal_def)
qed (auto simp: keeps_def ret_status_def ret_ok_def)

lemmas fatal_keeps = keepsD [OF keeps_ends(1)]

lemma resetTrace_states: "resetTrace c t = Inr t1 \<Longrightarrow> tr_state t1 i = tr_state t i \<or> tr_state t1 i = TRACE_STATE_GETFIRSTSYNCMSG"
  by (auto simp: resetTrace_def reset_all_def reset_one_def Let_def split: list.splits if_splits)

lemma calm_reset [keeps_rules]: "calm (reset c)"
  unfolding calm_def
proof (intro allI impI)
  fix s s1 :: "'a Session"
  assume "reset c s = Inr s1"
  then obtain t where t: "resetTrace c (tr s) = Inr t" "s1 = s\<lparr>tr := t\<rparr>" by (auto simp: reset_def map_sum_def split: sum.splits)
  have "no_cate s1" if "no_cate s"
    unfolding no_cate_def
  proof
    fix i
    show "tr_state (tr s1) i \<noteq> TRACE_STATE_SYNCCATE"
      using resetTrace_states [OF t(1), of i] that t(2) by (auto simp: no_cate_def)
  qed
  then show "untouched s s1" using t(2) by (simp add: untouched_def)
qed

lemma calm_give [keeps_rules]: "calm (give_msg X w c a)"
  by (auto simp: calm_def give_msg_def Let_def map_sum_def untouched_def no_cate_def split: sum.splits if_splits)

lemma keeps_map: "calm g \<Longrightarrow> keeps (\<lambda>s. map_sum id (\<lambda>s1. (Return e, s1)) (g s))"
  by (auto simp: keeps_def calm_def map_sum_def split: sum.splits)

lemma keeps_process [keeps_rules]: "(\<And>rc c. keeps (f rc c)) \<Longrightarrow> keeps (process_msg X f)"
proof -
  assume f: "\<And>rc c. keeps (f rc c)"
  have "untouched s s1" if p: "processTraceMessage (x_env X) (tr s) = Inr (rc, c, t)" and "f rc c (s\<lparr>tr := t\<rparr>) = Inr (r, s1)" for s rc c t r s1
  proof -
    have "untouched s (s\<lparr>tr := t\<rparr>)" using processTraceMessage_steady [OF p] by (simp add: untouched_def no_cate_def)
    then show ?thesis using keepsD [OF f that(2)] by (rule untouched_trans)
  qed
  then show ?thesis by (auto simp: keeps_def process_msg_def split: sum.splits)
qed

lemma keeps_tolerate [keeps_rules]: "keeps (tolerate c)"
proof -
  let ?g = "\<lambda>s. on_trace (\<lambda>t. t\<lparr>tolerantError := True\<rparr>) s :: 'a Session"
  have u: "untouched s (?g s)" for s by (simp add: untouched_def on_trace_def no_cate_def)
  have "keeps (\<lambda>s. fatal (?g s))" "keeps (\<lambda>s. map_sum id (\<lambda>s2. (Return DQERR_OK, s2)) (reset c (?g s)))"
    using u keeps_compose [OF keeps_ends(1), of ?g] keeps_compose [OF keeps_map [OF calm_reset], of ?g] by auto
  then show ?thesis by (auto simp: keeps_def tolerate_def Let_def)
qed

lemma keeps_fail [keeps_rules]: "keeps (fail_msg X w c)"
proof -
  have "keeps (\<lambda>s. then_do (give_msg X w c (here s) s) (\<lambda>s. tolerate (int (core s)) s))"
    by (intro keeps_then calm_at [OF calm_give] keeps_at [OF keeps_tolerate])
  then show ?thesis by (simp add: keeps_def fail_msg_def)
qed

lemma keeps_process_or_fail [keeps_rules]: "(\<And>c. keeps (f c)) \<Longrightarrow> keeps (process_or_fail X w f)"
  unfolding process_or_fail_def by (rule keeps_process) (simp add: keeps_fail)


lemma Disassemble_calm: "Disassemble X a s = Inr (rc, s1) \<Longrightarrow> untouched s s1"
  by (auto simp: Disassemble_def Let_def on_trace_def map_sum_def untouched_def no_cate_def
      split: option.splits sum.splits if_splits prod.splits)

lemma calm_src [keeps_rules]: "calm (src_here X b)"
proof -
  have "untouched s (give_src s1)" if "untouched s s1" for s s1 :: "'a Session"
    using untouched_trans [OF that, of "give_src s1"] by simp
  then show ?thesis
    by (auto simp: calm_def src_here_def map_sum_def split: if_splits sum.splits dest!: Disassemble_calm)
qed

lemma getCRBRFlags_steady: "getCRBRFlags E k a t = Inr (rc, cr, br, t1) \<Longrightarrow> tr_state t1 = tr_state t"
  by (auto simp: getCRBRFlags_def Let_def split: ICTReason.splits sum.splits fetched.splits prod.splits dest!: fetch_frame)

lemma calm_ict_inst: "calm (ict_inst X)"
  by (auto simp: calm_def ict_inst_def map_sum_def untouched_def no_cate_def split: sum.splits dest!: getCRBRFlags_steady)

lemma calm_ict [keeps_rules]: "calm (ict_info X w)"
  unfolding calm_def
proof (intro allI impI)
  fix s s1 :: "'a Session"
  have g: "untouched s (give_src s2)" if "untouched s s2" for s2
    using untouched_trans [OF that, of "give_src s2"] by simp
  have i: "untouched s s3" if "untouched s s2" "ict_inst X s2 = Inr s3" for s2 s3
    using untouched_trans [OF that(1) calmD [OF calm_ict_inst that(2)]] .
  assume "ict_info X w s = Inr s1"
  then show "untouched s s1"
    using g i by (auto simp: ict_info_def map_sum_def split: if_splits sum.splits dest!: Disassemble_calm)
qed

lemma untouched_after [simp]:
  "untouched s s1 \<Longrightarrow> st \<noteq> TRACE_STATE_SYNCCATE \<Longrightarrow> untouched s (set_state st s1)"
  "untouched s s1 \<Longrightarrow> untouched s (want_msg s1)"
  using untouched_trans [of s s1] by simp_all

lemma keeps_first_tail [keeps_rules]: "keeps (first_tail X w c)"
proof -
  have "keeps (\<lambda>s. then_do (give_msg X w c (here s) s) ret_ok)"
    by (intro keeps_then calm_at [OF calm_give] keeps_ends)
  from keeps_compose [OF this, of want_msg] show ?thesis by (simp add: keeps_def first_tail_def)
qed

lemma keeps_get_first:
  fixes X :: "'a Extern"
  shows "keeps (get_first X w)"
proof -
  have tail: "keeps (\<lambda>s. first_tail X w c (set_state TRACE_STATE_GETNEXTMSG (reset_counts s)))" for c
    by (rule keeps_compose [OF keeps_first_tail, of "\<lambda>s. set_state TRACE_STATE_GETNEXTMSG (reset_counts s)"]) simp
  have "keeps (first_sync X w)" unfolding first_sync_def
    by (intro keeps_process_or_fail keeps_then calm_src tail)
  moreover have "keeps (first_ict X w)" unfolding first_ict_def
  proof (rule keeps_process_or_fail, unfold keeps_def Let_def, intro allI impI)
    fix c r and s s1 :: "'a Session"
    let ?f = "\<lambda>s. if ict_cksrc (msg_of s) = ICT_CONTROL \<and> ict_ckdf (msg_of s) = 0 then first_tail X w c s
        else then_do (if \<not> no_address (msg_of s) \<and> (w_inst w \<or> w_src w) then ict_info X w s else Inr s)
          (\<lambda>s2. first_tail X w c (set_state TRACE_STATE_GETNEXTMSG (reset_counts s2)))"
    assume a: "?f (full_from_last s) = Inr (r, s1)"
    have "calm (\<lambda>s. if \<not> no_address (msg_of s) \<and> (w_inst w \<or> w_src w) then ict_info X w s else Inr s)"
      by (auto simp: calm_def dest: calmD [OF calm_ict])
    then have "keeps ?f" by (intro keeps_if keeps_then keeps_first_tail tail)
    from keepsD [OF this a] have "untouched (full_from_last s) s1" .
    then show "untouched s s1" using untouched_trans [OF untouched_moves(5)] by blast
  qed
  moreover have "keeps (first_error X w)" unfolding first_error_def
  proof (intro keeps_process keeps_then calm_at [OF calm_give])
    fix rc c and s :: "'a Session"
    show "keeps (\<lambda>s1. if rc \<noteq> DQERR_OK then tolerate (- 1) s1 else map_sum id (\<lambda>s2. (Return DQERR_OK, s2)) (reset (- 1) s1))"
      by (intro keeps_if keeps_tolerate keeps_map [OF calm_reset])
  qed
  moreover have "keeps (process_or_fail X w (first_tail X w))" by (intro keeps_process_or_fail keeps_first_tail)
  moreover have "keeps (\<lambda>s. then_do (give_msg X w False 0 s) (\<lambda>s1. tolerate (int (core s1)) s1))"
    by (intro keeps_then calm_give keeps_at [OF keeps_tolerate])
  ultimately show ?thesis
    unfolding keeps_def get_first_def by (auto split: TCode.splits dest: fatal_keeps)
qed

lemma keeps_retire: "keeps (retire X w)"
proof -
  have fin: "keeps (\<lambda>s2. ret_ok (set_state TRACE_STATE_GETNEXTMSG (want_msg (note_exception s2))))"
    by (rule keeps_compose [OF keeps_ends(3), of "\<lambda>s2. set_state TRACE_STATE_GETNEXTMSG (want_msg (note_exception s2))"]) simp
  have "keeps (retire_counts X w)" unfolding retire_counts_def
    by (intro keeps_process_or_fail keeps_then calm_at [OF calm_give] calm_at [OF calm_src] fin)
  moreover have "keeps (retire_correlation X w)" unfolding retire_correlation_def
  proof (intro keeps_process keeps_then calm_at [OF calm_give])
    fix rc c and s :: "'a Session"
    have "keeps (\<lambda>s1. map_sum id (\<lambda>s2. (Return DQERR_OK, s2)) (reset (int (core s1)) s1))"
      by (rule keeps_at [OF keeps_map [OF calm_reset]])
    then show "keeps (\<lambda>s1. if rc \<noteq> DQERR_OK then tolerate (int (core s1)) s1
        else map_sum id (\<lambda>s2. (Return DQERR_OK, s2)) (reset (int (core s1)) s1))"
      by (intro keeps_if keeps_at [OF keeps_tolerate])
  qed
  ultimately show ?thesis
    unfolding keeps_def retire_def by (auto split: TCode.splits dest: fatal_keeps)
qed


lemma keeps_next_tail: "keeps (\<lambda>s. then_do (give_msg X w c (a s) s) (\<lambda>s1. ret_status (want_msg s1)))"
  by (intro keeps_then calm_at [OF calm_give] keeps_compose [OF keeps_ends(2), of want_msg]) simp

lemma keeps_next_error: "keeps (next_error X w)"
proof -
  have k: "keeps (\<lambda>s. then_do (give_msg X w False (here s) s) (\<lambda>s1. then_do (reset (-1) s1) (\<lambda>s2. ret_status (want_msg s2))))"
    by (intro keeps_then calm_at [OF calm_give] calm_reset keeps_compose [OF keeps_ends(2), of want_msg]) simp
  have "untouched s (s\<lparr>tr := t\<rparr>)" if "new_time TS_rel (tr s) = Inr (rc, t)" for s :: "'a Session" and rc t
    using steadyD [OF steady_basic(2) that] by (simp add: untouched_def no_cate_def)
  then show ?thesis
    by (auto simp: keeps_def next_error_def split: sum.splits dest!: keepsD [OF k] intro: untouched_trans)
qed

lemma keeps_next_ict: "keeps (next_ict X w)"
  unfolding next_ict_def
proof (rule keeps_process_or_fail, unfold keeps_def Let_def split_def, intro allI impI)
  fix c r and s s1 :: "'a Session"
  let ?b = "\<lambda>s. getCKSRC (msg_of s) \<noteq> ICT_CONTROL \<or> getCKDF (msg_of s) \<noteq> 0"
  let ?g = "\<lambda>s. if ?b s \<and> \<not> no_address (msg_of s) \<and> (w_inst w \<or> w_src w) then ict_info X w s else Inr s"
  let ?a = "\<lambda>s. if \<not> ?b s then here s else if no_address (msg_of s) then lastFaddr (tr s) (core s)
      else if w_inst w \<or> w_src w then here s else junk_addr X"
  have g: "calm ?g" by (auto simp: calm_def dest: calmD [OF calm_ict])
  have "keeps (\<lambda>s. then_do (?g s) (\<lambda>s1. then_do (give_msg X w c (?a s) s1) (\<lambda>s2. ret_status (want_msg s2))))"
    by (intro keeps_then g calm_give keeps_compose [OF keeps_ends(2), of want_msg]) simp
  moreover assume "then_do
        (fst (if getCKSRC (msg_of s) = ICT_CONTROL \<and> getCKDF (msg_of s) = 0 then (Inr s, here s)
            else if no_address (msg_of s) then (Inr s, lastFaddr (tr s) (core s))
            else if w_inst w \<or> w_src w then (ict_info X w s, here s) else (Inr s, junk_addr X)))
        (\<lambda>s1. then_do (give_msg X w c
        (snd (if getCKSRC (msg_of s) = ICT_CONTROL \<and> getCKDF (msg_of s) = 0 then (Inr s, here s)
            else if no_address (msg_of s) then (Inr s, lastFaddr (tr s) (core s))
            else if w_inst w \<or> w_src w then (ict_info X w s, here s) else (Inr s, junk_addr X))) s1)
          (\<lambda>s2. ret_status (want_msg s2))) = Inr (r, s1)"
  then have "then_do (?g s) (\<lambda>s1. then_do (give_msg X w c (?a s) s1) (\<lambda>s2. ret_status (want_msg s2))) = Inr (r, s1)"
    by (auto split: if_splits)
  ultimately show "untouched s s1" by (rule keepsD)
qed

lemma untouched_switched: "untouched s (switched b i s)"
proof -
  have "untouched s (on_trace (reset_core (core s)) s)" by (simp add: untouched_def on_trace_def no_cate_def)
  then show ?thesis by (simp add: switched_def Let_def)
qed

lemma keeps_next_ownership: "keeps (next_ownership X w)"
proof -
  let ?go = "\<lambda>c s2. then_do (give_msg X w c (here s2) s2) (\<lambda>s3. ret_status (want_msg s3))"
  have sw: "keeps (\<lambda>s. ?go c (switched b i s))" for c b i
    by (rule keeps_compose [OF keeps_next_tail, of "switched b i"]) (rule untouched_switched)
  have "keeps (process_or_fail X w (\<lambda>c s1. if ownership_tag (msg_of s1) = 0 \<or> ownership_tag (msg_of s1) = 3 then ?go c s1
        else if ownership_tag (msg_of s1) = 2 then ?go c (switched b i s1) else Inr (Return DQERR_ERR, s1)))" for b i
    by (intro keeps_process_or_fail keeps_if keeps_next_tail sw) (simp add: keeps_def)
  then show ?thesis by (simp add: keeps_def next_ownership_def Let_def)
qed

lemma keeps_next_counts: "keeps (next_counts X w)"
proof -
  have t: "keeps (\<lambda>s2. map_sum id (\<lambda>(r, s3). (r, if r = Return DQERR_OK then want_msg s3 else s3)) (tolerate (int (core s2)) s2))"
    using keepsD [OF keeps_tolerate] by (auto simp: keeps_def map_sum_def split: sum.splits)
  have "keeps (process_msg X (\<lambda>rc consumed s1. then_do (give_msg X w consumed (here s1) s1) (\<lambda>s2.
        if rc \<noteq> DQERR_OK then
          map_sum id (\<lambda>(r, s3). (r, if r = Return DQERR_OK then want_msg s3 else s3)) (tolerate (int (core s2)) s2)
        else Inr (Return DQERR_OK, want_msg s2))))"
    by (intro keeps_process keeps_then calm_at [OF calm_give] keeps_if t) (simp add: keeps_def)
  moreover have "untouched s s1"
    if "(let (rc, c) = setCounts (msg_of s) (counts (tr s)); s1 = on_trace (\<lambda>t. t\<lparr>counts := c\<rparr>) s in
         if rc \<noteq> DQERR_OK then fail_msg X w False s1
         else Inr (Go, set_state TRACE_STATE_GETNEXTINSTRUCTION s1)) = Inr (r, s1)" for s r s1
  proof -
    have u: "untouched s (on_trace (\<lambda>t. t\<lparr>counts := c\<rparr>) s)" for c by (simp add: untouched_def on_trace_def no_cate_def)
    show ?thesis using that u untouched_trans [OF u keepsD [OF keeps_fail]]
      by (auto simp: Let_def split: prod.splits if_splits)
  qed
  ultimately show ?thesis by (simp add: keeps_def next_counts_def)
qed

lemma keeps_get_next: "keeps (get_next X w)"
proof -
  have "keeps (next_data X w)" unfolding next_data_def by (intro keeps_process_or_fail keeps_next_tail)
  with keeps_next_error [of X w] keeps_next_ict [of X w] keeps_next_ownership [of X w] keeps_next_counts [of X w] show ?thesis
    unfolding keeps_def get_next_def by (auto split: TCode.splits dest: fatal_keeps)
qed


section \<open>Reading leaves it alone\<close>

text \<open>Reading only stops the current core or starts all cores over.\<close>

definition read_keeps :: "'net Session \<Rightarrow> 'net Session \<Rightarrow> bool" where
  "read_keeps s s1 \<longleftrightarrow> untouched s s1 \<and> (\<forall>i. tr_state (tr s1) i \<in>
     {tr_state (tr s) i, TRACE_STATE_GETFIRSTSYNCMSG, TRACE_STATE_DONE, TRACE_STATE_ERROR})"

lemma read_keeps_trans: "read_keeps s s1 \<Longrightarrow> read_keeps s1 s2 \<Longrightarrow> read_keeps s s2"
proof -
  assume a: "read_keeps s s1" "read_keeps s1 s2"
  have "tr_state (tr s2) i \<in> {tr_state (tr s) i, TRACE_STATE_GETFIRSTSYNCMSG, TRACE_STATE_DONE, TRACE_STATE_ERROR}" for i
    using a(1) [unfolded read_keeps_def, THEN conjunct2, rule_format, of i]
      a(2) [unfolded read_keeps_def, THEN conjunct2, rule_format, of i] by auto
  then show ?thesis using a untouched_trans [of s s1 s2] by (simp add: read_keeps_def)
qed

lemma reset_states: "reset c s = Inr s1 \<Longrightarrow> tr_state (tr s1) i \<in> {tr_state (tr s) i, TRACE_STATE_GETFIRSTSYNCMSG}"
  using resetTrace_states [of c "tr s" _ i] by (auto simp: reset_def map_sum_def split: sum.splits)

lemma state_moves: "tr_state (tr (set_status e s)) = tr_state (tr s)"
  "tr_state (tr (set_state st s)) = (tr_state (tr s))(core s := st)" "tr_state (tr (on_trace f s)) = tr_state (f (tr s))"
  by (simp_all add: set_status_def set_state_def on_trace_def core_def)

lemma read_failed_states:
  assumes "read_failed rc s = Inr (r, s1)"
  shows "tr_state (tr s1) i \<in> {tr_state (tr s) i, TRACE_STATE_GETFIRSTSYNCMSG, TRACE_STATE_DONE, TRACE_STATE_ERROR}"
proof (cases "rc = DQERR_BM \<and> tolerateErrors (tr s)")
  case True
  then have "reset (-1) (on_trace (\<lambda>t. t\<lparr>tolerantError := True\<rparr>) s) = Inr s1"
    using assms by (auto simp: read_failed_def Let_def map_sum_def split: sum.splits)
  then show ?thesis using reset_states [of "-1" _ s1 i] by (fastforce simp: state_moves)
next
  case False
  then show ?thesis using assms
    by (cases "rc = DQERR_EOF"; cases "rc = DQERR_BM") (auto simp: read_failed_def Let_def fatal_def state_moves)
qed

lemma read_failed_untouched: "read_failed rc s = Inr (r, s1) \<Longrightarrow> untouched s s1"
proof -
  let ?s = "on_trace (\<lambda>t. t\<lparr>tolerantError := True\<rparr>) s"
  have u: "untouched s ?s" by (simp add: untouched_def on_trace_def no_cate_def)
  have e: "untouched s (set_status e (set_state TRACE_STATE_DONE s))" for e
    by (rule untouched_trans [of _ "set_state TRACE_STATE_DONE s"]) simp_all
  assume "read_failed rc s = Inr (r, s1)"
  then show ?thesis
    using u e untouched_trans [OF u] calmD [OF calm_reset [of "-1"], of ?s]
    by (auto simp: read_failed_def Let_def map_sum_def split: if_splits sum.splits dest: fatal_keeps)
qed

lemma read_msg_keeps_ca:
  assumes "read_msg recv p s = Some r"
  shows "\<forall>a s1. r = Inr (a, s1) \<longrightarrow> read_keeps s s1"
  using assms
proof (induction rule: read_msg.raw_induct [rotated, consumes 1, case_names step])
  case (step f recv p s r)
  show ?case
  proof (intro allI impI)
    fix a s1
    assume r: "r = Inr (a, s1)"
    obtain rc h q nm an n where rd: "readNextTraceMsg recv p (msg_of s) (tr_analytics (tr s)) (net s) = Some (Inr (rc, h), q, nm, an, n)"
      using step(2) r by (auto split: option.splits sum.splits)
    let ?s = "(on_trace (\<lambda>t. t\<lparr>tr_nm := nm, tr_analytics := an\<rparr>) s)\<lparr>sfp := Some q, net := n\<rparr>"
    let ?x = "if rc = DQERR_OK then Inr (Go, ?s) else read_failed rc ?s"
    have c: "(case ?x of Inl e \<Rightarrow> Some (Inl e) | Inr (Return e, s2) \<Rightarrow> Some (Inr (Return e, s2))
       | Inr (Go, s2) \<Rightarrow> if h then Some (Inr (Go, s2)) else f recv q s2) = Some (Inr (a, s1))"
      using step(2) r rd by (simp add: Let_def)
    then obtain x s2 where x: "?x = Inr (x, s2)" by (cases ?x) auto
    have "read_keeps s ?s" by (simp add: read_keeps_def untouched_def on_trace_def no_cate_def)
    moreover have "read_keeps ?s s2"
      using x read_failed_states [of rc ?s x s2] read_failed_untouched [of rc ?s x s2] by (auto simp: read_keeps_def split: if_splits)
    moreover have "read_keeps s2 s1"
    proof (cases x)
      case Go
      show ?thesis
      proof (cases h)
        case False
        then have "f recv q s2 = Some (Inr (a, s1))" using c unfolding x Go by simp
        from step(1) [OF this] show ?thesis by blast
      qed (use c in \<open>unfold x Go, simp add: read_keeps_def\<close>)
    qed (use c in \<open>unfold x, simp add: read_keeps_def\<close>)
    ultimately show "read_keeps s s1" using read_keeps_trans by blast
  qed
qed

lemma on_trace_untouched: "tr_state (f (tr s)) = tr_state (tr s) \<Longrightarrow> untouched s (on_trace f s)"
  by (simp add: untouched_def on_trace_def no_cate_def)

lemma keeps_and_move: "keeps f \<Longrightarrow> keeps g \<Longrightarrow> keeps (and_move f g)"
proof -
  assume f: "keeps f" and g: "keeps g"
  have "untouched s s1" if a: "and_move f g s = Inr (r, s1)" for s r s1
  proof (cases "f s")
    case (Inr x)
    obtain y s2 where x: "x = (y, s2)" by (cases x)
    show ?thesis
    proof (cases y)
      case Go
      then have "g s2 = Inr (r, s1)" using a Inr x by (simp add: and_move_def)
      then show ?thesis using keepsD [OF f Inr [unfolded x]] keepsD [OF g] untouched_trans by blast
    qed (use a Inr x keepsD [OF f Inr [unfolded x]] in \<open>simp add: and_move_def\<close>)
  qed (use a in \<open>simp add: and_move_def\<close>)
  then show ?thesis by (simp add: keeps_def)
qed

lemma keeps_linux: "keeps linux_addrs"
  by (auto simp: keeps_def linux_addrs_def split: if_splits option.splits sum.splits intro: on_trace_untouched dest: fatal_keeps)

lemma keeps_kind: "keeps trace_kind"
  by (auto simp: keeps_def trace_kind_def Let_def split: if_splits intro: on_trace_untouched dest: fatal_keeps)

lemma take_msg_keeps: "keeps take_msg"
  unfolding keeps_def
proof (intro allI impI)
  fix r and s s1 :: "'a Session"
  let ?s = "on_trace (\<lambda>t. t\<lparr>readNewTraceMessage := False, currentCore := unat (coreId (msg_of s))\<rparr>) s"
  assume "take_msg s = Inr (r, s1)"
  then have "and_move linux_addrs trace_kind ?s = Inr (r, s1)" by (simp add: take_msg_def Let_def split: if_splits)
  from keepsD [OF keeps_and_move [OF keeps_linux keeps_kind] this] have "untouched ?s s1" .
  moreover have "untouched s ?s" by (rule on_trace_untouched) simp
  ultimately show "untouched s s1" using untouched_trans by blast
qed

lemma take_msg_states: "take_msg s = Inr (Go, s1) \<Longrightarrow> tr_state (tr s1) = tr_state (tr s)"
  by (auto simp: take_msg_def and_move_def linux_addrs_def trace_kind_def fatal_def on_trace_def Let_def
      split: if_splits sum.splits ret.splits option.splits)

end
