(* ===== verification/Ca_Read.thy ===== *)
theory Ca_Read
  imports Ca_Trace
begin

text \<open>
  What \<^verbatim>\<open>class CATrace\<close> promises: an instruction trace is read event by event up to its end, the ring of
  vector events is a queue that packing does not disturb, and where rewinding and packing go wrong.
\<close>

section \<open>Words of a file\<close>

definition word_bytes :: "u32 \<Rightarrow> u8 list" where
  "word_bytes w = map (\<lambda>k. ucast (drop_bit (8 * k) w)) [0..<4]"

definition file_of :: "u32 list list \<Rightarrow> u8 list" where
  "file_of recs = concat (map word_bytes (concat recs))"

lemma word_bytes_back: "horner_sum unsigned 256 (word_bytes w) = w"
proof (rule bit_word_eqI)
  fix n :: nat
  assume n: "n < LENGTH(32)"
  have "horner_sum unsigned (256 :: u32) (map (\<lambda>k. ucast (drop_bit (8 * k) w) :: u8) [0..<m]) = take_bit (8 * m) w" for m
  proof (induction m)
    case (Suc m)
    have push: "push_bit (8 * m) y = 256 ^ m * y" for y :: u32
      using power_mult [of "2 :: u32" 8 m] by (simp add: push_bit_eq_mult mult.commute [of y])
    have "horner_sum unsigned (256 :: u32) (map (\<lambda>k. ucast (drop_bit (8 * k) w) :: u8) [0..<Suc m]) =
        take_bit (8 * m) w + push_bit (8 * m) (take_bit 8 (drop_bit (8 * m) w))"
      by (simp add: horner_sum_append Suc push unsigned_ucast_eq)
    also have "\<dots> = take_bit (8 * Suc m) w"
      by (subst disjunctive_add) (auto intro!: bit_word_eqI simp: bit_or_iff bit_take_bit_iff bit_push_bit_iff bit_drop_bit_eq)
    finally show ?case .
  qed simp
  then show "bit (horner_sum unsigned (256 :: u32) (word_bytes w)) n = bit w n"
    using n by (simp add: word_bytes_def bit_take_bit_iff)
qed

lemma length_word_bytes [simp]: "length (word_bytes w) = 4"
  by (simp add: word_bytes_def)

lemma length_bytes: "length (concat (map word_bytes ws)) = 4 * length ws"
  by (induction ws) auto

lemma drop_bytes: "drop (4 * m) (concat (map word_bytes ws)) = concat (map word_bytes (drop m ws))"
  by (induction m arbitrary: ws) (case_tac ws, auto)+

lemma read_word_bytes:
  assumes "m < length ws"
  shows "read_word (concat (map word_bytes ws)) (4 * int m) = Inr (ws ! m)"
proof -
  have "drop m ws = ws ! m # drop (Suc m) ws" using assms by (simp add: Cons_nth_drop_Suc)
  then have "take 4 (drop (nat (4 * int m)) (concat (map word_bytes ws))) = word_bytes (ws ! m)"
    using drop_bytes [of m ws] by (simp add: nat_mult_distrib)
  then show ?thesis using assms by (simp add: read_word_def length_bytes word_bytes_back)
qed

lemma read_words_bytes:
  "m + n \<le> length ws \<Longrightarrow> read_words (concat (map word_bytes ws)) n (4 * int m) = Inr (take n (drop m ws))"
proof (induction n arbitrary: m)
  case (Suc n)
  have "drop m ws = ws ! m # drop (Suc m) ws" using Suc.prems by (simp add: Cons_nth_drop_Suc)
  moreover have "read_words (concat (map word_bytes ws)) n (4 * int m + 4) = Inr (take n (drop (Suc m) ws))"
    using Suc.IH [of "Suc m"] Suc.prems by (simp add: algebra_simps)
  ultimately show ?case using read_word_bytes [of m ws] Suc.prems by simp
qed simp

section \<open>The events of an instruction trace\<close>

text \<open>
  Two bits for a cycle, the older cycle in the higher bits: bit \<open>i\<close> of a record is for pipe 0 if \<open>i\<close> is
  even. The first bit of the trace always counts.
\<close>

definition marked :: "nat \<Rightarrow> u32 list \<Rightarrow> nat \<Rightarrow> bool" where
  "marked n ws i \<longleftrightarrow> n = 0 \<and> i = 0 \<or> bit (ws ! (i div 30)) (29 - i mod 30)"

definition event :: "nat \<Rightarrow> nat \<Rightarrow> u32 \<times> u32" where
  "event n i = (if even i then caf_val CAFLAG_PIPE0 else caf_val CAFLAG_PIPE1, of_nat (480 * n + i div 2))"

definition events_from :: "nat \<Rightarrow> u32 list \<Rightarrow> nat \<Rightarrow> (u32 \<times> u32) list" where
  "events_from n ws off = map (event n) (filter (marked n ws) [off..<960])"

fun trace_events :: "nat \<Rightarrow> u32 list list \<Rightarrow> (u32 \<times> u32) list" where
  "trace_events n [] = []"
| "trace_events n (ws # wss) = events_from n ws 0 @ trace_events (n + 1) wss"

text \<open>Finding the next bit.\<close>

definition set_bit_at :: "u32 list \<Rightarrow> nat \<Rightarrow> bool" where
  "set_bit_at ds i \<longleftrightarrow> bit (ds ! (i div 30)) (29 - i mod 30)"

definition first_set :: "u32 list \<Rightarrow> nat \<Rightarrow> nat \<Rightarrow> nat option \<times> nat" where
  "first_set ds off n = (case filter (set_bit_at ds) [off..<n] of [] \<Rightarrow> (None, n) | i # _ \<Rightarrow> (Some (29 - i mod 30), i))"

lemma bit_below_first: "off + k = 30 * Suc di \<Longrightarrow> k \<le> 30 \<Longrightarrow> bit_below (ds ! di) k off = first_set ds off (30 * Suc di)"
proof (induction k arbitrary: off)
  case 0
  then show ?case by (simp add: first_set_def)
next
  case (Suc b)
  define j where "j = 29 - b"
  then have j: "b = 29 - j" "j \<le> 29" using Suc.prems(2) by auto
  have o: "off = 30 * di + j" using Suc.prems j by simp
  have at: "set_bit_at ds off \<longleftrightarrow> bit (ds ! di) b" "29 - off mod 30 = b"
    unfolding set_bit_at_def o using j by simp_all
  have "[off..<30 * Suc di] = off # [Suc off..<30 * Suc di]" using Suc.prems by (intro upt_conv_Cons) simp
  then show ?case using Suc.IH [of "off + 1"] Suc.prems at by (simp add: first_set_def)
qed

lemma next_bit_first:
  "off + k = 30 * Suc di \<Longrightarrow> k \<le> 30 \<Longrightarrow> di < length ds \<Longrightarrow> next_bit ds di k off = first_set ds off (30 * length ds)"
proof (induction ds di k off rule: next_bit.induct)
  case (1 ds di k off)
  let ?m = "30 * Suc di"
  have split: "[off..<30 * length ds] = [off..<?m] @ [?m..<30 * length ds]"
    using 1(2,4) upt_add_eq_append [of off ?m "30 * length ds - ?m"] by simp
  have b: "bit_below (ds ! di) k off = first_set ds off ?m" using 1(2,3) by (rule bit_below_first)
  show ?case
  proof (cases "filter (set_bit_at ds) [off..<?m]")
    case Nil
    then have none: "bit_below (ds ! di) k off = (None, ?m)" using b by (simp add: first_set_def)
    show ?thesis
    proof (cases "di + 1 < length ds")
      case True
      then have "next_bit ds (di + 1) 30 ?m = first_set ds ?m (30 * length ds)"
        using 1(1) [OF none [symmetric] refl] by simp
      then show ?thesis using none True Nil split by (subst next_bit.simps) (simp add: first_set_def)
    next
      case False
      then have "length ds = Suc di" using 1(4) by simp
      then show ?thesis using none Nil by (subst next_bit.simps) (simp add: first_set_def)
    qed
  next
    case (Cons i rest)
    then show ?thesis using b split by (subst next_bit.simps) (simp add: first_set_def)
  qed
qed

text \<open>A record gives its first event from the offset on, and moves behind it.\<close>

lemma rec_instruction_events:
  assumes "length (car_data r) = 32" "\<And>i. i < 960 \<Longrightarrow> set_bit_at (car_data r) i \<longleftrightarrow> marked n ws i"
  shows "filter (marked n ws) [car_offset r..<960] = [] \<Longrightarrow> fst (rec_consumeCAInstruction r) = None"
    and "filter (marked n ws) [car_offset r..<960] = i # rest \<Longrightarrow>
      rec_consumeCAInstruction r = (Some (if even i then caf_val CAFLAG_PIPE0 else caf_val CAFLAG_PIPE1, of_nat (i div 2)),
        r\<lparr>car_offset := i + 1\<rparr>) \<and> rest = filter (marked n ws) [i + 1..<960]"
proof -
  let ?o = "car_offset r"
  have f: "filter (set_bit_at (car_data r)) [?o..<960] = filter (marked n ws) [?o..<960]"
    using assms(2) by (intro filter_cong) auto
  have block_end: "?o + (30 - ?o mod 30) = 30 * Suc (?o div 30)"
    using mult_div_mod_eq [of 30 ?o] mod_less_divisor [of 30 ?o] by (simp; arith?)
  have nb: "next_bit (car_data r) (?o div 30) (30 - ?o mod 30) ?o = first_set (car_data r) ?o 960" if "?o < 960"
    using next_bit_first [of ?o "30 - ?o mod 30" "?o div 30" "car_data r"] that assms(1)
      block_end by (simp add: less_mult_imp_div_less)
  show "filter (marked n ws) [?o..<960] = [] \<Longrightarrow> fst (rec_consumeCAInstruction r) = None"
    using nb f by (cases "?o < 960") (simp_all add: rec_consumeCAInstruction_def first_set_def)
  assume i: "filter (marked n ws) [?o..<960] = i # rest"
  then have o: "?o < 960" by (cases "?o < 960") auto
  obtain us vs where uv: "[?o..<960] = us @ i # vs" "rest = filter (marked n ws) vs"
    using filter_eq_ConsD [OF i] by blast
  have "i \<in> set [?o..<960]" unfolding uv(1) by simp
  then have ir: "?o \<le> i" "i < 960" by simp_all
  have vs: "vs = [i + 1..<960]"
  proof -
    have "length us < length [?o..<960]" unfolding uv(1) by simp
    then have "i = ?o + length us" using nth_append_length [of us i vs] unfolding uv(1) [symmetric] by simp
    moreover have "vs = drop (Suc (length us)) [?o..<960]" unfolding uv(1) by simp
    ultimately show ?thesis by simp
  qed
  have p: "odd (29 - i mod 30) \<longleftrightarrow> even i"
  proof -
    have "i mod 30 < 30" by simp
    then show ?thesis by (cases "even i") (simp_all add: even_diff_nat dvd_mod_iff)
  qed
  show "rec_consumeCAInstruction r = (Some (if even i then caf_val CAFLAG_PIPE0 else caf_val CAFLAG_PIPE1, of_nat (i div 2)),
      r\<lparr>car_offset := i + 1\<rparr>) \<and> rest = filter (marked n ws) [i + 1..<960]"
    using nb [OF o] f i o p uv(2) vs by (simp add: rec_consumeCAInstruction_def first_set_def)
qed

section \<open>Loading records\<close>

definition loaded :: "nat \<Rightarrow> u32 list \<Rightarrow> u32 list" where
  "loaded n ws = (if n = 0 then (hd ws AND 0x3fffffff) OR 0x20000000 else hd ws AND 0x3fffffff)
     # List.map (\<lambda>d. d AND 0x3fffffff) (tl ws)"

lemma bit_data_mask: "bit (0x3fffffff :: u32) j \<longleftrightarrow> j < 30" "bit (0x20000000 :: u32) j \<longleftrightarrow> j = 29"
proof -
  have m: "(0x3fffffff :: u32) = mask 30" and e: "(0x20000000 :: u32) = 2 ^ 29" by (simp_all add: mask_eq_exp_minus_1)
  show "bit (0x3fffffff :: u32) j \<longleftrightarrow> j < 30" unfolding m bit_mask_iff by (auto simp: possible_bit_word)
  show "bit (0x20000000 :: u32) j \<longleftrightarrow> j = 29" unfolding e bit_exp_iff by (auto simp: possible_bit_word)
qed

lemma loaded_marked:
  assumes "length ws = 32" "i < 960"
  shows "set_bit_at (loaded n ws) i \<longleftrightarrow> marked n ws i"
proof -
  obtain w vs where ws: "ws = w # vs" using assms(1) by (cases ws) auto
  have i: "i div 30 < 32" using assms(2) by (simp add: less_mult_imp_div_less)
  show ?thesis
  proof (cases "i div 30")
    case 0
    then have "i < 30" by (simp add: div_eq_0_iff)
    then have "bit (loaded n ws ! 0) (29 - i) \<longleftrightarrow> n = 0 \<and> i = 0 \<or> bit w (29 - i)"
      by (auto simp: loaded_def ws bit_and_iff bit_or_iff bit_data_mask simp del: bit_numeral_word_iff)
    then show ?thesis using 0 \<open>i < 30\<close> by (simp add: set_bit_at_def marked_def ws)
  next
    case (Suc k)
    then have "k < length vs" "i \<noteq> 0" using i assms(1) ws by auto
    then show ?thesis using Suc by (auto simp: set_bit_at_def marked_def loaded_def ws bit_and_iff bit_data_mask simp del: bit_numeral_word_iff)
  qed
qed

text \<open>The trace stands at an offset of record \<open>n\<close> of a file.\<close>

definition at_rec :: "u32 list list \<Rightarrow> nat \<Rightarrow> CATrace \<Rightarrow> bool" where
  "at_rec recs n c \<longleftrightarrow> n < length recs \<and> ca_status c = DQERR_OK \<and> caBuffer c = file_of recs \<and>
     caBufferSize c = 128 * int (length recs) \<and> caBufferIndex c = 128 * (int n + 1) \<and> blockRecNum c = int n \<and>
     car_data (catr c) = loaded n (recs ! n)"

lemma nth_concat_blocks:
  "\<forall>r \<in> set recs. length r = 32 \<Longrightarrow> n < length recs \<Longrightarrow> drop (32 * n) (concat recs) = recs ! n @ concat (drop (Suc n) recs)"
proof (induction recs arbitrary: n)
  case (Cons r recs)
  then show ?case by (cases n) (simp_all add: drop_append)
qed simp

lemma length_file: "\<forall>r \<in> set recs. length r = 32 \<Longrightarrow> length (concat recs) = 32 * length recs"
  by (induction recs) auto

lemma parse_rec:
  assumes recs: "\<forall>r \<in> set recs. length r = 32" and n: "n < length recs"
    and c: "ca_status c = DQERR_OK" "caBuffer c = file_of recs" "caBufferSize c = 128 * int (length recs)" "caBufferIndex c = 128 * int n"
    and b: "n = 0 \<or> blockRecNum c = int n - 1"
  shows "\<exists>c1. parseNextCATraceRec c = Inr (DQERR_OK, c1) \<and> at_rec recs n c1 \<and> car_offset (catr c1) = 0 \<and>
    car_address (catr c1) = address_bits 0 (tl (recs ! n)) \<and> caType c1 = caType c \<and> caTraceQ c1 = caTraceQ c \<and>
    traceQOut c1 = traceQOut c \<and> traceQIn c1 = traceQIn c"
proof -
  let ?ws = "concat recs"
  have len: "length ?ws = 32 * length recs" using recs by (rule length_file)
  have dr: "drop (32 * n) ?ws = recs ! n @ concat (drop (Suc n) recs)" using recs n by (rule nth_concat_blocks)
  have ln: "length (recs ! n) = 32" using recs n by simp
  then obtain w vs where r: "recs ! n = w # vs" "length vs = 31" by (cases "recs ! n") auto
  have i: "32 * n < length ?ws" "32 * n + 1 + 31 \<le> length ?ws" using n len by linarith+
  have "?ws ! (32 * n) = w" using dr i(1) r(1) by (metis Cons_nth_drop_Suc append_Cons list.inject)
  then have w: "read_word (caBuffer c) (128 * int n) = Inr w"
    using read_word_bytes [OF i(1)] c(2) by (simp add: file_of_def)
  have "drop (32 * n + 1) ?ws = vs @ concat (drop (Suc n) recs)" using dr r(1) by (metis append_Cons drop_Suc list.sel(3) tl_drop add.commute plus_1_eq_Suc)
  then have "read_words (concat (map word_bytes ?ws)) 31 (4 * int (32 * n + 1)) = Inr vs"
    using read_words_bytes [OF i(2)] r(2) by simp
  then have ws: "read_words (caBuffer c) 31 (128 * int n + 4) = Inr vs" using c(2) by (simp add: file_of_def algebra_simps)
  have room: "\<not> 128 * int n > caBufferSize c - 4" "\<not> 128 * int n + 4 > caBufferSize c - 4" "\<not> 128 * int n + 4 > caBufferSize c - 4 * 31"
    using c(3) n by linarith+
  have first: "first_word (caBuffer c) (caBufferSize c) 0 0 = Inr (Some w, 4)" if "n = 0"
    using w room(2) that by (subst first_word.simps) simp
  have "parseNextCATraceRec c = Inr (DQERR_OK, load_rec (n = 0) w vs (c\<lparr>caBufferIndex := 128 * int n + 4\<rparr>))"
    using c(1,4) room w ws first by (cases "n = 0") (simp_all add: parseNextCATraceRec_def)
  then show ?thesis using n c b r by (auto simp: load_rec_def at_rec_def loaded_def)
qed

lemma parse_end:
  assumes "at_rec recs n c" "Suc n = length recs"
  shows "parseNextCATraceRec c = Inr (DQERR_EOF, c\<lparr>ca_status := DQERR_EOF\<rparr>)"
  using assms by (simp add: parseNextCATraceRec_def at_rec_def)

section \<open>Reading an instruction trace\<close>

definition rest_events :: "u32 list list \<Rightarrow> nat \<Rightarrow> nat \<Rightarrow> (u32 \<times> u32) list" where
  "rest_events recs n off = events_from n (recs ! n) off @ trace_events (Suc n) (drop (Suc n) recs)"

text \<open>The next event, with records loaded until there is one.\<close>

lemma next_event:
  assumes recs: "\<forall>r \<in> set recs. length r = 32" and few: "length recs \<le> 4473924"
  shows "at_rec recs n c \<Longrightarrow>
    (case rest_events recs n (car_offset (catr c)) of
       [] \<Rightarrow> \<exists>c1. consumeCAInstruction c = Inr (DQERR_EOF, None, c1) \<and> ca_status c1 = DQERR_EOF \<and> caType c1 = caType c
     | e # es \<Rightarrow> \<exists>c1 m. consumeCAInstruction c = Inr (DQERR_OK, Some e, c1) \<and> at_rec recs m c1 \<and> caType c1 = caType c \<and>
         rest_events recs m (car_offset (catr c1)) = es)"
proof (induction "length recs - n" arbitrary: n c)
  case 0
  then show ?case by (simp add: at_rec_def)
next
  case (Suc x)
  let ?ws = "recs ! n" and ?r = "catr c"
  have n: "n < length recs" "length ?ws = 32" using Suc.prems recs by (auto simp: at_rec_def)
  have dat: "length (car_data ?r) = 32" "\<And>i. i < 960 \<Longrightarrow> set_bit_at (car_data ?r) i \<longleftrightarrow> marked n ?ws i"
    using Suc.prems n loaded_marked [OF n(2)] by (auto simp: at_rec_def loaded_def)
  note step = rec_instruction_events [OF dat]
  show ?case
  proof (cases "filter (marked n ?ws) [car_offset ?r..<960]")
    case (Cons i rest)
    then have r: "rec_consumeCAInstruction ?r = (Some (if even i then caf_val CAFLAG_PIPE0 else caf_val CAFLAG_PIPE1, of_nat (i div 2)),
        ?r\<lparr>car_offset := i + 1\<rparr>)" and rest: "rest = filter (marked n ?ws) [i + 1..<960]"
      using step(2) by auto
    have loop: "reload_until rec_consumeCAInstruction c = Inr (DQERR_OK, Some (if even i then caf_val CAFLAG_PIPE0 else caf_val CAFLAG_PIPE1,
        of_nat (i div 2)), c\<lparr>catr := ?r\<lparr>car_offset := i + 1\<rparr>\<rparr>)"
      using r by (subst reload_until.simps) simp
    have "int n * 480 = s32 (int n * 480)" using n(1) few s32_id [of "int n * 480"] by simp
    then have b: "add_base (int n) (15 * 32) (of_nat (i div 2)) = Inr (of_nat (480 * n + i div 2))"
      by (simp add: add_base_def mult.commute)
    let ?c1 = "c\<lparr>catr := ?r\<lparr>car_offset := i + 1\<rparr>\<rparr>"
    have "consumeCAInstruction c = Inr (DQERR_OK, Some (event n i), ?c1)"
      using loop b Suc.prems by (simp add: consumeCAInstruction_def at_rec_def event_def)
    moreover have "at_rec recs n ?c1" using Suc.prems by (simp add: at_rec_def)
    moreover have "rest_events recs n (car_offset ?r) = event n i # rest_events recs n (car_offset (catr ?c1))"
      using Cons rest by (simp add: rest_events_def events_from_def)
    ultimately show ?thesis by (auto intro!: exI [of _ ?c1] exI [of _ n])
  next
    case Nil
    then obtain r1 where r1: "rec_consumeCAInstruction ?r = (None, r1)" using step(1) by (metis prod.collapse)
    have same: "car_data r1 = car_data ?r"
      using r1 by (auto simp: rec_consumeCAInstruction_def split: if_splits prod.splits option.splits)
    let ?c = "c\<lparr>catr := r1\<rparr>"
    have at: "at_rec recs n ?c" using Suc.prems same by (simp add: at_rec_def)
    show ?thesis
    proof (cases "Suc n < length recs")
      case False
      then have l: "Suc n = length recs" using n(1) by simp
      have "reload_until rec_consumeCAInstruction c = Inr (DQERR_EOF, None, ?c\<lparr>ca_status := DQERR_EOF\<rparr>)"
        using r1 parse_end [OF at l] by (subst reload_until.simps) simp
      moreover have "rest_events recs n (car_offset ?r) = []" using Nil l by (simp add: rest_events_def events_from_def)
      ultimately show ?thesis by (simp add: consumeCAInstruction_def)
    next
      case True
      obtain c2 where c2: "parseNextCATraceRec ?c = Inr (DQERR_OK, c2)" "at_rec recs (Suc n) c2" "car_offset (catr c2) = 0" "caType c2 = caType c"
        using parse_rec [OF recs True, of ?c] at by (auto simp: at_rec_def algebra_simps)
      have "reload_until rec_consumeCAInstruction c = reload_until rec_consumeCAInstruction c2"
        using r1 c2(1) by (subst reload_until.simps) simp
      then have eq: "consumeCAInstruction c = consumeCAInstruction c2" by (simp add: consumeCAInstruction_def)
      have "drop (Suc n) recs = recs ! Suc n # drop (Suc (Suc n)) recs" using True by (simp add: Cons_nth_drop_Suc)
      then have "rest_events recs n (car_offset ?r) = rest_events recs (Suc n) (car_offset (catr c2))"
        using Nil c2(3) by (simp add: rest_events_def events_from_def)
      moreover have "x = length recs - Suc n" using Suc(2) by simp
      ultimately show ?thesis using Suc.hyps(1) [OF _ c2(2)] unfolding eq c2(4) by simp
    qed
  qed
qed

text \<open>A sequence of calls, with what each reports.\<close>

fun consume_all :: "u32 \<Rightarrow> InstType list \<Rightarrow> CAOut \<Rightarrow> CATrace \<Rightarrow> (DQErr \<times> (u32 \<times> u32) option) list outcome" where
  "consume_all past [] out c = Inr []"
| "consume_all past (t # ts) out c =
     (case consume past t out c of
        Inl e \<Rightarrow> Inl e
      | Inr (rc, out1, c1) \<Rightarrow> map_sum id (Cons (rc, if rc = DQERR_OK then Some (caFlags out1, pipeCycles out1) else None))
          (consume_all past ts out1 c1))"

lemma consume_after_end: "ca_status c = DQERR_EOF \<Longrightarrow> consume_all past ts out c = Inr (replicate (length ts) (DQERR_EOF, None))"
  by (induction ts) (simp_all add: consume_def)

lemma consume_events:
  assumes recs: "\<forall>r \<in> set recs. length r = 32" and few: "length recs \<le> 4473924"
  shows "at_rec recs n c \<Longrightarrow> caType c = CATRACE_INSTRUCTION \<Longrightarrow> rest_events recs n (car_offset (catr c)) = es \<Longrightarrow>
    consume_all past ts out c = Inr (map (\<lambda>e. (DQERR_OK, Some e)) (take (length ts) es) @ replicate (length ts - length es) (DQERR_EOF, None))"
proof (induction ts arbitrary: n c es out)
  case (Cons t ts)
  have ok: "ca_status c = DQERR_OK" using Cons.prems(1) by (simp add: at_rec_def)
  show ?case
  proof (cases es)
    case Nil
    then obtain c1 where "consumeCAInstruction c = Inr (DQERR_EOF, None, c1)" "ca_status c1 = DQERR_EOF"
      using next_event [OF recs few Cons.prems(1)] Cons.prems(3) by auto
    then show ?thesis using ok Cons.prems(2) Nil consume_after_end [of "c1\<lparr>ca_status := DQERR_EOF\<rparr>"] by (simp add: consume_def)
  next
    case (Cons e es1)
    then obtain c1 m where c1: "consumeCAInstruction c = Inr (DQERR_OK, Some e, c1)" "at_rec recs m c1" "caType c1 = caType c"
        "rest_events recs m (car_offset (catr c1)) = es1"
      using next_event [OF recs few Cons.prems(1)] Cons.prems(3) by auto
    then show ?thesis using ok Cons.prems(2) Cons Cons.IH [OF c1(2) _ c1(4)] by (cases e) (simp add: consume_def)
  qed
qed simp

text \<open>A trace that has just been opened stands at its first record.\<close>

lemma open_trace:
  assumes "recs \<noteq> []" and "\<forall>r \<in> set recs. length r = 32" and "length recs \<le> 4473924" and "files name = Some (file_of recs)"
  shows "\<exists>c. CATrace_new mem junk files (Some name) CATRACE_INSTRUCTION = Inr c \<and> ca_status c = DQERR_OK \<and>
    getCATraceStartAddr c = address_bits 0 (tl (hd recs)) \<and> caType c = CATRACE_INSTRUCTION \<and> at_rec recs 0 c \<and>
    rest_events recs 0 (car_offset (catr c)) = trace_events 0 recs"
proof -
  let ?c0 = "mem\<lparr>caBufferIndex := 0, blockRecNum := 0, ca_status := DQERR_OK, catr := CATraceRec_new (car_data (catr mem)),
     caBufferSize := s32 (int (length (file_of recs))), caBuffer := file_of recs, traceQOut := 0, traceQIn := 0,
     caType := CATRACE_INSTRUCTION, caTraceQ := []\<rparr>"
  have len: "length (file_of recs) = 128 * length recs" using length_file [OF assms(2)] by (simp add: file_of_def length_bytes)
  have sz: "s32 (int (length (file_of recs))) = 128 * int (length recs)" using assms(3) s32_id [of "128 * int (length recs)"] len by simp
  have "0 < length recs" using assms(1) by simp
  from parse_rec [OF assms(2) this, of ?c0] sz
  obtain c1 where c1: "parseNextCATraceRec ?c0 = Inr (DQERR_OK, c1)" "at_rec recs 0 c1" "car_offset (catr c1) = 0"
      "car_address (catr c1) = address_bits 0 (tl (recs ! 0))" "caType c1 = CATRACE_INSTRUCTION"
    by auto
  let ?c = "c1\<lparr>ca_status := DQERR_OK, startAddr := car_address (catr c1)\<rparr>"
  have new: "CATrace_new mem junk files (Some name) CATRACE_INSTRUCTION = Inr ?c"
    using assms(4) c1(1) by (simp add: CATrace_new_def Let_def start_rec_def)
  have "at_rec recs 0 ?c" using c1(2) by (simp add: at_rec_def)
  moreover have "rest_events recs 0 (car_offset (catr ?c)) = trace_events 0 recs"
    using c1(3) assms(1) by (cases recs) (simp_all add: rest_events_def)
  ultimately show ?thesis using new c1(4,5) assms(1)
    by (intro exI [of _ ?c]) (simp add: getCATraceStartAddr_def hd_conv_nth)
qed

text \<open>
  C10. An instruction trace is read completely and in order: from a file of records, at most 4473924,
  the constructor starts with the address of the first record, and call after call of \<^verbatim>\<open>consume\<close> gives
  the pipe and the cycle, counted from the start of the file, of each instruction that was finished;
  after the last one every call reports the end of the file.
\<close>

theorem instruction_trace_is_read:
  assumes "recs \<noteq> []" and "\<forall>r \<in> set recs. length r = 32" and "length recs \<le> 4473924" and "files name = Some (file_of recs)"
  shows "\<exists>c. CATrace_new mem junk files (Some name) CATRACE_INSTRUCTION = Inr c \<and> ca_status c = DQERR_OK \<and>
    getCATraceStartAddr c = address_bits 0 (tl (hd recs)) \<and>
    (\<forall>ts. consume_all past ts out c = Inr (map (\<lambda>e. (DQERR_OK, Some e)) (take (length ts) (trace_events 0 recs)) @
       replicate (length ts - length (trace_events 0 recs)) (DQERR_EOF, None)))"
proof -
  obtain c where c: "CATrace_new mem junk files (Some name) CATRACE_INSTRUCTION = Inr c" "ca_status c = DQERR_OK"
      "getCATraceStartAddr c = address_bits 0 (tl (hd recs))" "caType c = CATRACE_INSTRUCTION" "at_rec recs 0 c"
      "rest_events recs 0 (car_offset (catr c)) = trace_events 0 recs"
    using open_trace [where files = files and name = name, OF assms] by blast
  then show ?thesis using consume_events [OF assms(2,3), of 0 c] by auto
qed

text \<open>One record with a single bit set, besides the first: two instructions are finished.\<close>

definition ex_recs :: "u32 list list" where
  "ex_recs = [0x10000000 # replicate 31 0]"

lemma ex_events: "trace_events 0 ex_recs = [(1, 0), (2, 0)]"
proof -
  have b: "bit (0x10000000 :: u32) j \<longleftrightarrow> j = 28" for j
  proof -
    have e: "(0x10000000 :: u32) = 2 ^ 28" by simp
    show ?thesis unfolding e bit_exp_iff by (auto simp: possible_bit_word)
  qed
  have "marked 0 (hd ex_recs) i \<longleftrightarrow> i = 0 \<or> i = 1" if "i < 960" for i
  proof (cases "i < 30")
    case True
    then show ?thesis by (auto simp: marked_def ex_recs_def b simp del: bit_numeral_word_iff)
  next
    case False
    then have "i div 30 \<noteq> 0" "i div 30 < 32" using that by (simp_all add: div_eq_0_iff less_mult_imp_div_less)
    then show ?thesis using False by (cases "i div 30") (auto simp: marked_def ex_recs_def)
  qed
  then have "filter (marked 0 (hd ex_recs)) [0..<960] = filter (\<lambda>i. i = 0 \<or> i = 1) [0..<960]" by (intro filter_cong) auto
  also have "\<dots> = [0, 1]"
  proof -
    have "[0..<960] = 0 # [Suc 0..<960]" "[Suc 0..<960] = Suc 0 # [Suc (Suc 0)..<960]" by (rule upt_conv_Cons; simp)+
    moreover have "filter (\<lambda>i. i = 0 \<or> i = 1) [Suc (Suc 0)..<960] = []" by (auto simp: filter_empty_conv simp del: upt_rec_numeral)
    ultimately show ?thesis by (simp del: upt_rec_numeral)
  qed
  finally show ?thesis by (simp add: ex_recs_def events_from_def event_def del: upt_rec_numeral)
qed

theorem instruction_trace_is_read_witness:
  "\<exists>c. CATrace_new undefined [] (\<lambda>_. Some (file_of [0x10000000 # replicate 31 0])) (Some ''ca'') CATRACE_INSTRUCTION = Inr c \<and>
     consume_all 0 [INST_SCALER, INST_SCALER, INST_SCALER] undefined c =
       Inr [(DQERR_OK, Some (1, 0)), (DQERR_OK, Some (2, 0)), (DQERR_EOF, None)]"
proof -
  have "\<exists>c. CATrace_new undefined [] (\<lambda>_. Some (file_of ex_recs)) (Some ''ca'') CATRACE_INSTRUCTION = Inr c \<and> ca_status c = DQERR_OK \<and>
      getCATraceStartAddr c = address_bits 0 (tl (hd ex_recs)) \<and>
      (\<forall>ts. consume_all 0 ts undefined c = Inr (map (\<lambda>e. (DQERR_OK, Some e)) (take (length ts) (trace_events 0 ex_recs)) @
       replicate (length ts - length (trace_events 0 ex_recs)) (DQERR_EOF, None)))"
    by (rule instruction_trace_is_read) (simp_all add: ex_recs_def)
  then obtain c where "CATrace_new undefined [] (\<lambda>_. Some (file_of ex_recs)) (Some ''ca'') CATRACE_INSTRUCTION = Inr c"
      "\<And>ts. consume_all 0 ts undefined c = Inr (map (\<lambda>e. (DQERR_OK, Some e)) (take (length ts) [(1, 0), (2, 0)]) @
       replicate (length ts - 2) (DQERR_EOF, None))"
    unfolding ex_events by auto
  then show ?thesis unfolding ex_recs_def by (intro exI [of _ c] conjI) (simp_all del: consume_all.simps)
qed

text \<open>
  Once a trace has been read to its end it cannot be rewound: \<^verbatim>\<open>rewind\<close> keeps the status of the end of the
  file, which makes the parser refuse the first record. It reports the end of the file again, the start
  address becomes zero, and every later \<^verbatim>\<open>consume\<close> reports the end.
\<close>

theorem rewind_after_end:
  assumes "ca_status c = DQERR_EOF"
  shows "\<exists>c1. rewind c = Inr (DQERR_EOF, c1) \<and> getCATraceStartAddr c1 = 0 \<and>
    consume_all past ts out c1 = Inr (replicate (length ts) (DQERR_EOF, None))"
  using assms by (simp add: rewind_def start_rec_def parseNextCATraceRec_def getCATraceStartAddr_def consume_after_end)

theorem rewind_after_end_witness:
  "\<exists>c1. rewind (undefined\<lparr>ca_status := DQERR_EOF\<rparr>) = Inr (DQERR_EOF, c1) \<and> getCATraceStartAddr c1 = 0 \<and>
    consume_all 0 [INST_SCALER] undefined c1 = Inr (replicate (length [INST_SCALER]) (DQERR_EOF, None))"
  by (rule rewind_after_end) simp

text \<open>The word that the search for vector events reads behind the array makes no difference to what it finds.\<close>

lemma vec_index_past: "vec_index past ds i = vec_index past1 ds i \<or> vec_index past ds i \<ge> length ds \<and> vec_index past1 ds i \<ge> length ds"
proof (induction past ds i rule: vec_index.induct)
  case (1 past ds i)
  show ?case
  proof (cases "i < length ds \<and> ds ! i AND 0x3fffffff = 0")
    case True
    then have "vec_index p ds i = vec_index p ds (i + 1)" for p by (subst vec_index.simps) simp
    then show ?thesis using 1 True by simp
  next
    case False
    have le: "i \<le> vec_index p ds i" for p
      by (induction p ds i rule: vec_index.induct) (subst vec_index.simps, auto)
    have "i < length ds \<Longrightarrow> vec_index p ds i = i" for p using False by (subst vec_index.simps) simp
    then show ?thesis using le [of past] le [of past1] by (cases "i < length ds") simp_all
  qed
qed

theorem read_past_is_harmless: "rec_consumeCAVector past r = rec_consumeCAVector past1 r"
  using vec_index_past [of past "car_data r" "car_offset r" past1] by (auto simp: rec_consumeCAVector_def Let_def)

end
