(* ===== verification/Ca_Sync.thy ===== *)
theory Ca_Sync
  imports Ca_Keeps Ca_Read
begin

text \<open>
  Instructions and cycles. While the instruction trace and a cycle accurate trace run together, every
  call of \<^verbatim>\<open>NextInstruction\<close> that runs an instruction takes one event from the cycle accurate trace, and no
  other call touches it. Before that, the state \<^verbatim>\<open>TRACE_STATE_SYNCCATE\<close> brings the two together.
\<close>

section \<open>The events that are left\<close>

text \<open>An instruction trace that is read from a file of records, with the events it still has.\<close>

definition ca_reads :: "u32 list list \<Rightarrow> (u32 \<times> u32) list \<Rightarrow> CATrace \<Rightarrow> bool" where
  "ca_reads recs es c \<longleftrightarrow> (\<forall>r \<in> set recs. length r = 32) \<and> length recs \<le> 4473924 \<and> caType c = CATRACE_INSTRUCTION \<and>
     (\<exists>n. at_rec recs n c \<and> rest_events recs n (car_offset (catr c)) = es)"

lemma consume_next:
  assumes "ca_reads recs (e # es) c"
  shows "\<exists>out1 c1. consume past t out c = Inr (DQERR_OK, out1, c1) \<and> ca_reads recs es c1 \<and>
    caFlags out1 = fst e \<and> pipeCycles out1 = snd e"
proof -
  obtain n where n: "at_rec recs n c" "rest_events recs n (car_offset (catr c)) = e # es"
    and r: "\<forall>r \<in> set recs. length r = 32" "length recs \<le> 4473924" and ty: "caType c = CATRACE_INSTRUCTION"
    using assms by (auto simp: ca_reads_def)
  obtain c1 m where c1: "consumeCAInstruction c = Inr (DQERR_OK, Some e, c1)" "at_rec recs m c1" "caType c1 = caType c"
      "rest_events recs m (car_offset (catr c1)) = es"
    using next_event [OF r n(1)] n(2) by auto
  have "ca_status c = DQERR_OK" using n(1) by (simp add: at_rec_def)
  then show ?thesis using c1 r ty by (cases e) (auto simp: consume_def ca_reads_def)
qed

lemma consume_at_end:
  assumes "ca_reads recs [] c"
  shows "\<exists>c1. consume past t out c = Inr (DQERR_EOF, out, c1) \<and> ca_status c1 = DQERR_EOF"
proof -
  obtain n where n: "at_rec recs n c" "rest_events recs n (car_offset (catr c)) = []"
    and r: "\<forall>r \<in> set recs. length r = 32" "length recs \<le> 4473924" and ty: "caType c = CATRACE_INSTRUCTION"
    using assms by (auto simp: ca_reads_def)
  obtain c1 where c1: "consumeCAInstruction c = Inr (DQERR_EOF, None, c1)"
    using next_event [OF r n(1)] n(2) by auto
  have "ca_status c = DQERR_OK" using n(1) by (simp add: at_rec_def)
  then show ?thesis using c1 ty by (auto simp: consume_def)
qed

section \<open>Running an instruction\<close>

text \<open>The two traces run together, with events left.\<close>

definition in_step :: "u32 list list \<Rightarrow> (u32 \<times> u32) list \<Rightarrow> 'net Session \<Rightarrow> bool" where
  "in_step recs es s \<longleftrightarrow> no_cate s \<and> syncCount s = 0 \<and> (\<exists>c. caTrace s = Some c \<and> ca_reads recs es c)"

lemma in_step_untouched: "in_step recs es s \<Longrightarrow> untouched s s1 \<Longrightarrow> in_step recs es s1"
  by (auto simp: in_step_def untouched_def)

text \<open>An instruction of core \<open>k\<close> that has the flags and the cycle of an event, and the cycles since the last one.\<close>

definition carries :: "nat \<Rightarrow> u32 \<times> u32 \<Rightarrow> u32 \<Rightarrow> Instruction \<Rightarrow> bool" where
  "carries k e prev i \<longleftrightarrow> in_coreId i = of_nat k \<and> in_caFlags i = fst e \<and> in_timestamp i = ucast (snd e) \<and>
     in_pipeCycles i = snd e - prev"

lemma ca_cycles_next:
  assumes "caTrace s = Some c" and "syncCount s = 0" and "ca_reads recs (e # es) c"
  shows "\<exists>out c1. ca_cycles X t f s = f out (ucast (lastCycle s (core s)))
      (count_cycles out (set_status DQERR_OK (s\<lparr>caTrace := Some c1\<rparr>))) \<and>
    ca_reads recs es c1 \<and> caFlags out = fst e \<and> pipeCycles out = snd e"
proof -
  obtain out c1 where c1: "consume (ca_past X) t (junk_ca X) c = Inr (DQERR_OK, out, c1)" "ca_reads recs es c1"
      "caFlags out = fst e" "pipeCycles out = snd e"
    using consume_next [OF assms(3)] by blast
  have "ca_cycles X t f s = f out (ucast (lastCycle s (core s)))
      (count_cycles out (set_status DQERR_OK (s\<lparr>caTrace := Some c1\<rparr>)))"
    using assms(1,2) c1(1) by (simp add: ca_cycles_def Let_def set_status_def on_trace_def core_def)
  then show ?thesis using c1 by blast
qed

lemma ca_cycles_end:
  assumes "caTrace s = Some c" and "syncCount s = 0" and "ca_reads recs [] c" and "ca_cycles X t f s = Inr (r, s1)"
  shows "r = Return DQERR_EOF"
  using consume_at_end [OF assms(3), of "ca_past X" t "junk_ca X"] assms(1,2,4)
  by (auto simp: ca_cycles_def Let_def ret_status_def set_state_def set_status_def on_trace_def)

text \<open>Nothing later in the call changes the instruction.\<close>

definition same_inst :: "'net Session \<Rightarrow> 'net Session \<Rightarrow> bool" where
  "same_inst s s1 \<longleftrightarrow> got_inst s1 = got_inst s \<and> instructionInfo s1 = instructionInfo s \<and> got_src s1 = got_src s"

lemma count_inst_keeps:
  assumes "count_inst d cr br s = Inr (r, s1)"
  shows "untouched s s1 \<and> same_inst s s1"
  using assms
  by (auto simp: count_inst_def Let_def ret_status_def set_state_def set_status_def on_trace_def untouched_def no_cate_def same_inst_def
      split: sum.splits if_splits)

lemma give_inst_keeps: "untouched s (give_inst cr br out prev s)" "got_inst (give_inst cr br out prev s)"
  by (auto simp: give_inst_def Let_def untouched_def no_cate_def)

lemma give_inst_carries:
  assumes "caTrace s \<noteq> None" and "syncCount s = 0" and "caFlags out = fst e" and "pipeCycles out = snd e"
    and "eCycleCount s (core s) = sint (snd e - prev)"
  shows "carries (core s) e prev (instructionInfo (give_inst cr br out prev s))"
  using assms by (simp add: give_inst_def Let_def carries_def own_inst_def)

text \<open>What a part of a call, or a call, does to the events that are left.\<close>

definition stepped ::
  "bool \<Rightarrow> u32 list list \<Rightarrow> (u32 \<times> u32) list \<Rightarrow> 'net Session \<Rightarrow> 'net Session \<Rightarrow> bool" where
  "stepped wi recs es s s1 \<longleftrightarrow>
     (\<exists>e es1 k. es = e # es1 \<and> in_step recs es1 s1 \<and> lastCycle s1 = (lastCycle s)(k := ucast (snd e)) \<and>
        (wi \<longrightarrow> got_inst s1 \<and> carries k e (ucast (lastCycle s k)) (instructionInfo s1)))"

lemma stepped_after: "stepped wi recs es s s1 \<Longrightarrow> untouched s1 s2 \<Longrightarrow> same_inst s1 s2 \<Longrightarrow> stepped wi recs es s s2"
  unfolding stepped_def using in_step_untouched [of recs _ s1 s2] by (fastforce simp: same_inst_def untouched_def)

lemma stepped_before: "untouched s s1 \<Longrightarrow> stepped wi recs es s1 s2 \<Longrightarrow> stepped wi recs es s s2"
  by (simp add: stepped_def untouched_def)

lemma ran_steps:
  assumes "in_step recs es s" and "ran X w d nx s = Inr (r, s1)"
  shows "untouched s s1 \<or> stepped (w_inst w) recs es s s1 \<and> (w_src w \<longrightarrow> got_src s1) \<or> es = [] \<and> r = Return DQERR_EOF"
proof -
  let ?s = "on_trace (set_pc (nx_pc nx)) s"
  let ?f = "\<lambda>out prev s1.
        let s2 = (if w_inst w then give_inst (crFlag nx) (brFlag nx) out prev s1 else s1);
            s3 = (if w_src w then give_src s2 else s2) in
        count_inst d (crFlag nx) (brFlag nx) s3"
  have u: "untouched s ?s" by (rule on_trace_untouched) simp
  obtain c where c: "caTrace ?s = Some c" "syncCount ?s = 0" "ca_reads recs es c"
    using assms(1) by (auto simp: in_step_def on_trace_def)
  consider "untouched s s1" | "ca_cycles X (inst_type d) ?f ?s = Inr (r, s1)"
    using assms(2) keepsD [OF keeps_fail] by (fastforce simp: ran_def split: if_splits)
  then show ?thesis
  proof cases
    case 2
    show ?thesis
    proof (cases es)
      case Nil
      then show ?thesis using ca_cycles_end [OF c(1,2) _ 2] c(3) by simp
    next
      case (Cons e es1)
      obtain out c1 where n: "?f out (ucast (lastCycle ?s (core ?s)))
            (count_cycles out (set_status DQERR_OK (?s\<lparr>caTrace := Some c1\<rparr>))) = Inr (r, s1)"
          "ca_reads recs es1 c1" "caFlags out = fst e" "pipeCycles out = snd e"
        using ca_cycles_next [OF c(1,2), of recs e es1 X "inst_type d" ?f] c(3) Cons 2 by auto
      let ?s1 = "count_cycles out (set_status DQERR_OK (?s\<lparr>caTrace := Some c1\<rparr>))"
      let ?prev = "ucast (lastCycle s (core s)) :: u32"
      have k: "core ?s = core s" "lastCycle ?s = lastCycle s" by (simp_all add: core_def on_trace_def set_pc_def)
      have k1: "core ?s1 = core s" "lastCycle ?s1 = (lastCycle s)(core s := ucast (snd e))" "caTrace ?s1 \<noteq> None" "syncCount ?s1 = 0"
          "eCycleCount ?s1 (core ?s1) = sint (snd e - ?prev)"
        using c(2) n(4) by (simp_all add: count_cycles_def set_status_def on_trace_def core_def set_pc_def)
      have st: "in_step recs es1 ?s1"
        using assms(1) n(2) by (simp add: in_step_def count_cycles_def set_status_def on_trace_def set_pc_def no_cate_def)
      define s2 where "s2 = (if w_inst w then give_inst (crFlag nx) (brFlag nx) out ?prev ?s1 else ?s1)"
      define s3 where "s3 = (if w_src w then give_src s2 else s2)"
      have g: "count_inst d (crFlag nx) (brFlag nx) s3 = Inr (r, s1)"
        using n(1) by (simp only: Let_def s2_def s3_def k)
      have u2: "untouched ?s1 s2" by (simp add: s2_def give_inst_keeps)
      have u3: "untouched ?s1 s3" using u2 by (auto simp: s3_def intro: untouched_trans)
      have i3: "w_inst w \<Longrightarrow> got_inst s3 \<and> carries (core s) e ?prev (instructionInfo s3)"
        using give_inst_carries [OF k1(3,4) n(3,4) k1(5)] give_inst_keeps(2) k1(1) by (simp add: s3_def s2_def give_src_def)
      have "stepped (w_inst w) recs es s s3"
        unfolding stepped_def using Cons in_step_untouched [OF st u3] u3 k1(2) i3
        by (intro exI [of _ e] exI [of _ es1] exI [of _ "core s"]) (simp add: untouched_def)
      moreover have "w_src w \<Longrightarrow> got_src s3" by (simp add: s3_def give_src_def)
      moreover have "untouched s3 s1" "same_inst s3 s1" using count_inst_keeps [OF g] by simp_all
      ultimately have "stepped (w_inst w) recs es s s1" "w_src w \<Longrightarrow> got_src s1"
        using stepped_after by (blast, simp add: same_inst_def)
      then show ?thesis by blast
    qed
  qed simp
qed


lemma get_instruction_steps:
  assumes "in_step recs es s" and "get_instruction X w s = Inr (r, s1)"
  shows "untouched s s1 \<or> stepped (w_inst w) recs es s s1 \<and> (w_src w \<longrightarrow> got_src s1) \<or> es = [] \<and> r = Return DQERR_EOF"
proof -
  have tr: "untouched s (s\<lparr>tr := t\<rparr>)" if "tr_state t = tr_state (tr s)" for s :: "'a Session" and t
    using that by (simp add: untouched_def no_cate_def)
  consider "untouched s s1" | (run) inst d t where "fetch (x_env X) (here s) (tr s) = Inr (Fetched inst d, t)"
      "run_inst X w d (s\<lparr>tr := t\<lparr>tr_status := DQERR_OK\<rparr>\<rparr>) = Inr (r, s1)"
  proof -
    have "untouched s s1" if "fetch (x_env X) (here s) (tr s) = Inr (x, t)" "fail_msg X w False (s\<lparr>tr := t\<lparr>tr_status := e\<rparr>\<rparr>) = Inr (r, s1)" for x t e
    proof -
      have "untouched s (s\<lparr>tr := t\<lparr>tr_status := e\<rparr>\<rparr>)" using fetch_frame [OF that(1)] by (intro tr) auto
      then show ?thesis using keepsD [OF keeps_fail that(2)] untouched_trans by blast
    qed
    then show ?thesis using assms(2) that by (auto simp: get_instruction_def split: if_splits sum.splits fetched.splits)
  qed
  then show ?thesis
  proof cases
    case run
    let ?s = "s\<lparr>tr := t\<lparr>tr_status := DQERR_OK\<rparr>\<rparr>"
    have u: "untouched s ?s" using fetch_frame [OF run(1)] by (intro tr) auto
    obtain rc s2 where d: "Disassemble X (here ?s) ?s = Inr (rc, s2)" using run(2) by (auto simp: run_inst_def split: sum.splits)
    then have u2: "untouched s s2" using u Disassemble_calm untouched_trans by blast
    obtain rc nx t3 where a: "nextAddr (x_env X) (core s2) (here s2) (msg_of s2)
        \<lparr>nx_pc = 0, crFlag = isNone, brFlag = BRFLAG_none\<rparr> (tr s2) = Inr (rc, nx, t3)"
      and g: "(if rc \<noteq> DQERR_OK then fail_msg X w False (s2\<lparr>tr := t3\<lparr>tr_status := rc\<rparr>\<rparr>)
        else ran X w d nx (s2\<lparr>tr := t3\<lparr>tr_status := rc\<rparr>\<rparr>)) = Inr (r, s1)"
      using run(2) d by (auto simp: run_inst_def split: sum.splits)
    let ?s2 = "s2\<lparr>tr := t3\<lparr>tr_status := rc\<rparr>\<rparr>"
    have u3: "untouched s ?s2" by (rule untouched_trans [OF u2 tr]) (simp add: nextAddr_frame [OF a])
    show ?thesis
    proof (cases "rc = DQERR_OK")
      case True
      then have "ran X w d nx ?s2 = Inr (r, s1)" using g by simp
      from ran_steps [OF in_step_untouched [OF assms(1) u3] this] show ?thesis
        using untouched_trans [OF u3] stepped_before [OF u3] by blast
    next
      case False
      then have "untouched ?s2 s1" using g keepsD [OF keeps_fail] by (simp split: if_splits)
      then show ?thesis using u3 untouched_trans by blast
    qed
  qed simp
qed

text \<open>Retiring the message leaves the instruction that was given.\<close>

lemma same_inst_refl [simp]: "same_inst s s"
  by (simp add: same_inst_def)

lemma same_inst_trans: "same_inst s s1 \<Longrightarrow> same_inst s1 s2 \<Longrightarrow> same_inst s s2"
  by (simp add: same_inst_def)

lemma give_msg_same: "give_msg X w c a s = Inr s1 \<Longrightarrow> same_inst s s1"
  by (auto simp: give_msg_def Let_def map_sum_def same_inst_def split: sum.splits if_splits)

lemma tolerate_same: "tolerate c s = Inr (r, s1) \<Longrightarrow> same_inst s s1"
  by (auto simp: tolerate_def Let_def fatal_def reset_def map_sum_def same_inst_def on_trace_def set_state_def set_status_def
      split: sum.splits if_splits)

lemma fail_msg_same: "fail_msg X w c s = Inr (r, s1) \<Longrightarrow> same_inst s s1"
  by (auto simp: fail_msg_def then_do_def split: sum.splits dest!: give_msg_same tolerate_same intro: same_inst_trans)

lemma retire_same:
  assumes "retire X w s = Inr (r, s1)" and "w_src w \<longrightarrow> got_src s"
  shows "same_inst s s1"
proof -
  have t: "same_inst s (s\<lparr>tr := t\<rparr>)" for t by (simp add: same_inst_def)
  have e: "same_inst s2 s3" if "ret_ok (set_state TRACE_STATE_GETNEXTMSG (want_msg (note_exception s2))) = Inr (r, s3)" for s2 s3
    using that by (auto simp: ret_ok_def set_state_def want_msg_def note_exception_def set_status_def on_trace_def same_inst_def
        split: if_splits)
  have f: "same_inst s s1" if "fatal s = Inr (r, s1)" using that by (auto simp: fatal_def set_state_def set_status_def on_trace_def same_inst_def)
  have c: "same_inst s s1" if m: "retire_counts X w s = Inr (r, s1)"
  proof -
    obtain rc b t0 where "processTraceMessage (x_env X) (tr s) = Inr (rc, b, t0)"
      using m by (auto simp: retire_counts_def process_or_fail_def process_msg_def split: sum.splits)
    then have p: "(if rc \<noteq> DQERR_OK then fail_msg X w b (s\<lparr>tr := t0\<rparr>)
        else then_do (give_msg X w b (here (s\<lparr>tr := t0\<rparr>)) (s\<lparr>tr := t0\<rparr>)) (\<lambda>s1.
          then_do (src_here X (w_src w \<and> \<not> got_src s1) s1) (\<lambda>s2.
            ret_ok (set_state TRACE_STATE_GETNEXTMSG (want_msg (note_exception s2)))))) = Inr (r, s1)"
      using m by (simp add: retire_counts_def process_or_fail_def process_msg_def split: if_splits)
    show ?thesis
    proof (cases "rc = DQERR_OK")
      case True
      then obtain s2 where s2: "give_msg X w b (here (s\<lparr>tr := t0\<rparr>)) (s\<lparr>tr := t0\<rparr>) = Inr s2"
        "then_do (src_here X (w_src w \<and> \<not> got_src s2) s2) (\<lambda>s2. ret_ok (set_state TRACE_STATE_GETNEXTMSG (want_msg (note_exception s2)))) = Inr (r, s1)"
        using p by (auto simp: then_do_def split: sum.splits)
      have "same_inst s s2" using same_inst_trans [OF t give_msg_same [OF s2(1)]] .
      moreover from this have "src_here X (w_src w \<and> \<not> got_src s2) s2 = Inr s2" using assms(2) by (auto simp: src_here_def same_inst_def)
      ultimately show ?thesis using s2(2) e same_inst_trans by (fastforce simp: then_do_def)
    next
      case False
      then show ?thesis using p same_inst_trans [OF t fail_msg_same] by auto
    qed
  qed
  have "same_inst s s1" if "retire_correlation X w s = Inr (r, s1)"
    using that by (auto simp: retire_correlation_def process_msg_def then_do_def map_sum_def reset_def split: sum.splits if_splits
        dest!: give_msg_same tolerate_same intro: same_inst_trans) (auto simp: same_inst_def)
  then show ?thesis using assms(1) c f by (auto simp: retire_def split: TCode.splits)
qed


section \<open>A call\<close>

definition call_steps :: "bool \<Rightarrow> u32 list list \<Rightarrow> (u32 \<times> u32) list \<Rightarrow> DQErr \<Rightarrow> 'net Session \<Rightarrow> 'net Session \<Rightarrow> bool" where
  "call_steps wi recs es rc s s1 \<longleftrightarrow> untouched s s1 \<or> stepped wi recs es s s1 \<or> es = [] \<and> rc = DQERR_EOF"

lemma call_steps_before: "untouched s s1 \<Longrightarrow> call_steps wi recs es rc s1 s2 \<Longrightarrow> call_steps wi recs es rc s s2"
  unfolding call_steps_def using untouched_trans [of s s1 s2] stepped_before [of s s1] by auto

text \<open>A part of the code that returns, or goes on with further rounds.\<close>

definition returns :: "'net Extern \<Rightarrow> Want \<Rightarrow> (ret \<times> 'net Session) outcome \<Rightarrow> DQErr \<Rightarrow> 'net Session \<Rightarrow> bool" where
  "returns X w r rc s1 \<longleftrightarrow> r = Inr (Return rc, s1) \<or> (\<exists>s2. r = Inr (Go, s2) \<and> rounds X w s2 = Some (Inr (rc, s1)))"

lemma rounds_returns:
  assumes "rounds X w s = Some (Inr (rc, s1))"
  shows "\<exists>p r. sfp s = Some p \<and> round X w p s = Some r \<and> returns X w r rc s1"
  using assms by (subst (asm) rounds.simps) (auto simp: returns_def split: option.splits sum.splits ret.splits)

lemma rounds_quiet:
  assumes "rounds X w s = Some (Inr (rc, s1))" and "\<not> readNewTraceMessage (tr s)"
  shows "returns X w (state_switch X w s) rc s1"
  using rounds_returns [OF assms(1)] assms(2) by (auto simp: round_def)

lemma retire_round:
  assumes "rounds X w s = Some (Inr (rc, s1))" and "\<not> readNewTraceMessage (tr s)"
    and "tr_state (tr s) (core s) = TRACE_STATE_RETIREMESSAGE"
  shows "untouched s s1 \<and> ((w_src w \<longrightarrow> got_src s) \<longrightarrow> same_inst s s1)"
proof -
  have "returns X w (retire X w s) rc s1" using rounds_quiet [OF assms(1,2)] assms(3) by (simp add: state_switch_def)
  then have "retire X w s = Inr (Return rc, s1)" using endsD [OF ends_retire] by (auto simp: returns_def)
  then show ?thesis using keepsD [OF keeps_retire] retire_same by blast
qed

lemma instruction_returns:
  assumes "in_step recs es s" and "\<not> readNewTraceMessage (tr s)" and "returns X w (get_instruction X v s) rc s1"
  shows "call_steps (w_inst w \<and> v = w) recs es rc s s1"
proof -
  have weak: "stepped (w_inst v) recs es s s2 \<Longrightarrow> stepped (w_inst w \<and> v = w) recs es s s2" for s2
    by (auto simp: stepped_def)
  consider (now) "get_instruction X v s = Inr (Return rc, s1)"
    | (later) s2 where "get_instruction X v s = Inr (Go, s2)" "rounds X w s2 = Some (Inr (rc, s1))"
    using assms(3) by (auto simp: returns_def)
  then show ?thesis
  proof cases
    case now
    then show ?thesis using get_instruction_steps [OF assms(1) now] weak by (auto simp: call_steps_def)
  next
    case later
    note g = get_instruction_goes [OF later(1)]
    have r: "untouched s2 s1" "(w_src w \<longrightarrow> got_src s2) \<longrightarrow> same_inst s2 s1"
      using retire_round [OF later(2)] g assms(2) by simp_all
    consider "untouched s s2" | "stepped (w_inst v) recs es s s2" "w_src v \<longrightarrow> got_src s2"
      using get_instruction_steps [OF assms(1) later(1)] by auto
    then show ?thesis
    proof cases
      case 1
      then show ?thesis using r(1) untouched_trans by (auto simp: call_steps_def)
    next
      case 2
      show ?thesis
      proof (cases "v = w")
        case True
        then show ?thesis using stepped_after [OF weak [OF 2(1)] r(1)] r(2) 2(2) by (simp add: call_steps_def)
      next
        case False
        then show ?thesis using 2(1) r(1) in_step_untouched [OF _ r(1)] by (auto simp: call_steps_def stepped_def untouched_def)
      qed
    qed
  qed
qed

lemma switch_returns:
  assumes "in_step recs es s" and "\<not> readNewTraceMessage (tr s)" and "returns X w (state_switch X v s) rc s1"
    and "v \<noteq> w \<longrightarrow> tr_state (tr s) (core s) \<noteq> TRACE_STATE_GETNEXTINSTRUCTION \<or> \<not> wi"
    and "wi \<longrightarrow> w_inst w"
  shows "call_steps wi recs es rc s s1"
proof -
  have weak: "call_steps (w_inst w) recs es rc s s2 \<Longrightarrow> call_steps wi recs es rc s s2" for s s2 :: "'a Session"
    using assms(5) by (auto simp: call_steps_def stepped_def)
  have st: "untouched s (set_status e s)" for e by simp
  have first: "untouched s s1" if "returns X w (get_first X v s) rc s1"
    using that endsD [OF ends_get_first] keepsD [OF keeps_get_first] by (fastforce simp: returns_def)
  have ret: "untouched s s1" if "returns X w (retire X v s) rc s1"
    using that endsD [OF ends_retire] keepsD [OF keeps_retire] by (fastforce simp: returns_def)
  have nxt: "call_steps wi recs es rc s s1" if n: "returns X w (get_next X v s) rc s1"
  proof -
    consider "get_next X v s = Inr (Return rc, s1)"
      | s2 where "get_next X v s = Inr (Go, s2)" "rounds X w s2 = Some (Inr (rc, s1))"
      using n by (auto simp: returns_def)
    then show ?thesis
    proof cases
      case 1
      then show ?thesis using keepsD [OF keeps_get_next 1] by (simp add: call_steps_def)
    next
      case 2
      note g = ends_get_next [OF 2(1)] and u = keepsD [OF keeps_get_next 2(1)]
      have "\<not> readNewTraceMessage (tr s2)" using g assms(2) by simp
      moreover from this have "returns X w (get_instruction X w s2) rc s1"
        using rounds_quiet [OF 2(2)] g by (simp add: state_switch_def)
      ultimately have "call_steps (w_inst w) recs es rc s2 s1"
        using instruction_returns [OF in_step_untouched [OF assms(1) u], of X w w rc s1] by simp
      then show ?thesis using call_steps_before [OF u] weak by blast
    qed
  qed
  have ins: "call_steps wi recs es rc s s1" if "returns X w (get_instruction X v s) rc s1"
      "tr_state (tr s) (core s) = TRACE_STATE_GETNEXTINSTRUCTION"
    using instruction_returns [OF assms(1,2) that(1)] that(2) assms(4) weak
    by (cases "v = w") (auto simp: call_steps_def stepped_def)
  have "tr_state (tr s) (core s) \<noteq> TRACE_STATE_SYNCCATE" using assms(1) by (simp add: in_step_def no_cate_def)
  then show ?thesis
    using assms(3) first ret nxt ins st
    by (cases "tr_state (tr s) (core s)") (auto simp: state_switch_def call_steps_def returns_def)
qed


lemma rounds_step:
  assumes "in_step recs es s" and "rounds X w s = Some (Inr (rc, s1))"
    and "wi \<longrightarrow> w_inst w \<and> (readNewTraceMessage (tr s) \<longrightarrow> (\<forall>i. tr_state (tr s) i \<noteq> TRACE_STATE_GETNEXTINSTRUCTION))"
  shows "call_steps wi recs es rc s s1"
proof (cases "readNewTraceMessage (tr s)")
  case False
  then show ?thesis using switch_returns [OF assms(1) False rounds_quiet [OF assms(2) False]] assms(3) by simp
next
  case True
  obtain p r where p: "sfp s = Some p" "round X w p s = Some r" "returns X w r rc s1" using rounds_returns [OF assms(2)] by blast
  then obtain q where q: "read_msg (x_recv X) p s = Some q" using True by (auto simp: round_def)
  have r: "r = (case q of Inl e \<Rightarrow> Inl e | Inr (Return e, s1) \<Rightarrow> Inr (Return e, s1)
      | Inr (Go, s1) \<Rightarrow> and_move take_msg (\<lambda>s2. state_switch X (if filtered s2 then no_results else w) s2) s1)"
    using p(2) q True by (simp add: round_def)
  obtain y s2 where y: "q = Inr (y, s2)" using p(3) r by (cases q) (auto simp: returns_def)
  have k: "read_keeps s s2" using read_msg_keeps_ca [OF q] y by blast
  then have u: "untouched s s2" by (simp add: read_keeps_def)
  show ?thesis
  proof (cases y)
    case (Return e)
    then show ?thesis using p(3) r y u by (auto simp: returns_def call_steps_def)
  next
    case Go
    let ?g = "\<lambda>s2. state_switch X (if filtered s2 then no_results else w) s2"
    have a: "returns X w (and_move take_msg ?g s2) rc s1" using p(3) r y Go by simp
    then obtain z s3 where z: "take_msg s2 = Inr (z, s3)" by (cases "take_msg s2") (auto simp: returns_def and_move_def)
    have u3: "untouched s s3" using untouched_trans [OF u keepsD [OF take_msg_keeps z]] .
    show ?thesis
    proof (cases z)
      case (Return e)
      then show ?thesis using a z u3 by (auto simp: returns_def and_move_def call_steps_def)
    next
      case Go
      have "returns X w (state_switch X (if filtered s3 then no_results else w) s3) rc s1"
        using a z Go by (simp add: and_move_def)
      moreover have "\<not> readNewTraceMessage (tr s3)" using take_msg_goes z Go by blast
      moreover have "wi \<Longrightarrow> tr_state (tr s3) (core s3) \<noteq> TRACE_STATE_GETNEXTINSTRUCTION"
      proof -
        assume wi
        then have "tr_state (tr s) (core s3) \<noteq> TRACE_STATE_GETNEXTINSTRUCTION" using assms(3) True by simp
        moreover have "tr_state (tr s3) = tr_state (tr s2)" using take_msg_states z Go by blast
        ultimately show ?thesis using k [unfolded read_keeps_def, THEN conjunct2, rule_format, of "core s3"] by auto
      qed
      ultimately have "call_steps wi recs es rc s3 s1"
        using switch_returns [OF in_step_untouched [OF assms(1) u3]] assms(3) by blast
      then show ?thesis by (rule call_steps_before [OF u3])
    qed
  qed
qed

text \<open>
  C3. Instructions are paired with cycles one by one: while the instruction trace and an instruction type cycle
  accurate trace run together, a call of \<^verbatim>\<open>NextInstruction\<close> takes at most the next event of the cycle accurate
  trace. If it takes one, the instruction it returns has the flags and the cycle of that event, and as its
  duration the cycles since the event before it on the same core. Otherwise the cycle accurate trace is as
  before, or it has ended and the call reports the end of the file.
\<close>

theorem instruction_takes_one_event:
  assumes "in_step recs es s" and "NextInstruction X w s = Some (Inr (rc, s1))"
    and "w_inst w" and "readNewTraceMessage (tr s) \<longrightarrow> (\<forall>i. tr_state (tr s) i \<noteq> TRACE_STATE_GETNEXTINSTRUCTION)"
  shows "(in_step recs es s1 \<and> caTrace s1 = caTrace s \<and> lastCycle s1 = lastCycle s) \<or>
    (\<exists>flags cycle es1 k. es = (flags, cycle) # es1 \<and> in_step recs es1 s1 \<and>
       lastCycle s1 = (lastCycle s)(k := ucast cycle) \<and> got_inst s1 \<and>
       in_coreId (instructionInfo s1) = of_nat k \<and> in_caFlags (instructionInfo s1) = flags \<and>
       in_timestamp (instructionInfo s1) = ucast cycle \<and> in_pipeCycles (instructionInfo s1) = cycle - ucast (lastCycle s k)) \<or>
    es = [] \<and> rc = DQERR_EOF"
proof -
  have "call_steps True recs es rc s s1"
  proof (cases "sfp s = None \<or> tr_status (tr s) \<noteq> DQERR_OK")
    case True
    then have "untouched s s1" using assms(2) by (auto simp: NextInstruction_def split: if_splits)
    then show ?thesis by (simp add: call_steps_def)
  next
    case False
    then have r: "rounds X w (begin_call s) = Some (Inr (rc, s1))" using assms(2) by (auto simp: NextInstruction_def)
    have b: "readNewTraceMessage (tr (begin_call s)) = readNewTraceMessage (tr s)" "tr_state (tr (begin_call s)) = tr_state (tr s)"
      by (simp_all add: begin_call_def on_trace_def)
    have "in_step recs es (begin_call s)" by (rule in_step_untouched [OF assms(1)]) simp
    from rounds_step [OF this r, of True] show ?thesis
      using assms(3,4) b by (intro call_steps_before [of s "begin_call s"]) simp_all
  qed
  then consider "untouched s s1" | "stepped True recs es s s1" | "es = [] \<and> rc = DQERR_EOF" by (auto simp: call_steps_def)
  then show ?thesis
  proof cases
    case 1
    then show ?thesis using in_step_untouched [OF assms(1)] by (simp add: untouched_def)
  next
    case 2
    then show ?thesis by (fastforce simp: stepped_def carries_def)
  qed simp
qed


text \<open>A compressed no-operation is run with the first event of a cycle accurate trace.\<close>

definition ex_ca :: CATrace where
  "ex_ca = undefined\<lparr>ca_status := DQERR_OK, caType := CATRACE_INSTRUCTION, caBuffer := file_of ex_recs, caBufferSize := 128,
     caBufferIndex := 128, blockRecNum := 0, catr := \<lparr>car_offset = 0, car_address = 0, car_data = loaded 0 (hd ex_recs)\<rparr>\<rparr>"

definition ex_running :: "unit Session" where
  "ex_running = undefined\<lparr>tr := (ex_trace TRACETYPE_BTM)\<lparr>tr_status := DQERR_OK, readNewTraceMessage := False,
       tr_state := (\<lambda>_. TRACE_STATE_GETNEXTINSTRUCTION), tr_currentAddress := (\<lambda>_. 0x1008), currentProcessIndex := (\<lambda>_. 0),
       tr_analytics := undefined\<lparr>an_status := DQERR_OK\<rparr>,
       counts := (Count_new (\<lambda>_. AddrStack_new (replicate 4 0)))\<lparr>i_cnt := (\<lambda>_. 9)\<rparr>\<rparr>,
     sfp := Some (ex_parser DQERR_OK), net := (), itcPrint := None, caTrace := Some ex_ca, syncCount := 0, lastCycle := (\<lambda>_. 0)\<rparr>"

lemma ex_ca_reads: "ca_reads ex_recs [(1, 0), (2, 0)] ex_ca"
proof -
  have "at_rec ex_recs 0 ex_ca" by (simp add: at_rec_def ex_ca_def ex_recs_def)
  moreover have "rest_events ex_recs 0 (car_offset (catr ex_ca)) = trace_events 0 ex_recs"
    by (simp add: rest_events_def ex_ca_def ex_recs_def)
  ultimately show ?thesis unfolding ca_reads_def ex_events by (auto simp: ex_recs_def ex_ca_def)
qed

lemma ex_fetch:
  assumes "kMem t = None" and "currentElfReader t (currentCore t) = Some ex_elf"
    and "currentDisassembler t (currentCore t) = Some (Disassembler_new [])" and "processes t = processes (ex_trace TRACETYPE_BTM)"
  shows "fetch ex_env 0x1008 t = Inr (Fetched 1 (ex_prog 0x1008), t)"
proof -
  have "getArchSize (-1) t = Inr 32" using assms(4) by (simp add: getArchSize_def proc_lookup_def elf_of_def ex_trace_def ex_elf_def)
  then show ?thesis
    using assms(1-3) by (simp add: fetch_def getInstructionByAddress_def Trace_decodeInstruction_def ex_code ex_decode ex_progs)
qed

lemma ex_next:
  assumes "fetch ex_env 0x1008 t = Inr (Fetched 1 (ex_prog 0x1008), t)"
  shows "nextAddr ex_env c 0x1008 nm nx t =
    Inr (DQERR_OK, \<lparr>nx_pc = 0x100a, crFlag = isNone, brFlag = BRFLAG_none\<rparr>, consume_size c (ex_prog 0x1008) (t\<lparr>tr_status := DQERR_OK\<rparr>))"
  using assms by (simp add: nextAddr_def next_switch_def ex_progs cond_branch_def after_def)

lemma ex_runs: "\<exists>s1. NextInstruction (ex_extern\<lparr>x_env := ex_env\<rparr>) ex_wants ex_running = Some (Inr (DQERR_OK, s1))"
proof -
  define s where "s = begin_call ex_running"
  let ?X = "ex_extern\<lparr>x_env := ex_env\<rparr>"
  let ?t = "(tr s)\<lparr>tr_status := DQERR_OK\<rparr>"
  let ?s0 = "s\<lparr>tr := ?t\<rparr>" and ?t1 = "(consume_size 0 (ex_prog 0x1008) (?t\<lparr>tr_status := DQERR_OK\<rparr>))\<lparr>tr_status := DQERR_OK\<rparr>"
  let ?nx = "\<lparr>nx_pc = 0x100a, crFlag = isNone, brFlag = BRFLAG_none\<rparr>"
  have st: "kMem (tr s) = None" "currentElfReader (tr s) = (\<lambda>_. Some ex_elf)"
    "currentDisassembler (tr s) = (\<lambda>_. Some (Disassembler_new []))" "processes (tr s) = processes (ex_trace TRACETYPE_BTM)"
    "currentCore (tr s) = 0" "tr_currentAddress (tr s) = (\<lambda>_. 0x1008)" "currentProcessIndex (tr s) = (\<lambda>_. 0)"
    "tr_status (tr s) = DQERR_OK" "tr_state (tr s) = (\<lambda>_. TRACE_STATE_GETNEXTINSTRUCTION)" "\<not> readNewTraceMessage (tr s)"
    "an_status (tr_analytics (tr s)) = DQERR_OK" "counts (tr s) = (Count_new (\<lambda>_. AddrStack_new (replicate 4 0)))\<lparr>i_cnt := (\<lambda>_. 9)\<rparr>"
    "sfp s = Some (ex_parser DQERR_OK)" "caTrace s = Some ex_ca" "syncCount s = 0"
    by (simp_all add: s_def begin_call_def on_trace_def ex_running_def ex_trace_def)
  have f: "fetch ex_env 0x1008 (tr s) = Inr (Fetched 1 (ex_prog 0x1008), tr s)" "fetch ex_env 0x1008 ?t = Inr (Fetched 1 (ex_prog 0x1008), ?t)"
    using ex_fetch [of "tr s"] ex_fetch [of ?t] by (simp_all add: st)
  have d: "Disassemble ?X 0x1008 ?s0 = Inr (DQERR_ERR, ?s0)"
    by (simp add: Disassemble_def st core_def Disassembler_disassemble_def Disassembler_new_def)
  have "\<exists>s1. ran ?X ex_wants (ex_prog 0x1008) ?nx (?s0\<lparr>tr := ?t1\<rparr>) = Inr (Return DQERR_OK, s1)"
  proof -
    let ?u = "on_trace (set_pc 0x100a) (?s0\<lparr>tr := ?t1\<rparr>)"
    obtain out c1 where c: "ca_cycles ?X INST_UNKNOWN f ?u =
        f out (ucast (lastCycle ?u (core ?u))) (count_cycles out (set_status DQERR_OK (?u\<lparr>caTrace := Some c1\<rparr>)))" for f
      using consume_next [OF ex_ca_reads, of "ca_past ?X" INST_UNKNOWN "junk_ca ?X"]
      by (auto simp: ca_cycles_def Let_def set_status_def on_trace_def core_def st)
    have ty: "inst_type (ex_prog 0x1008) = INST_UNKNOWN" "inst_size (ex_prog 0x1008) = 16" by (simp_all add: ex_progs)
    let ?v = "give_inst isNone BRFLAG_none out (ucast (lastCycle ?u (core ?u)))
      (count_cycles out (set_status DQERR_OK (?u\<lparr>caTrace := Some c1\<rparr>)))"
    have v: "core ?v = 0" "an_status (tr_analytics (tr ?v)) = DQERR_OK"
        "counts (tr ?v) = (Count_new (\<lambda>_. AddrStack_new (replicate 4 0)))\<lparr>i_cnt := (\<lambda>_. 9)(0 := 8)\<rparr>"
      by (simp_all add: give_inst_def count_cycles_def set_status_def on_trace_def core_def set_pc_def consume_size_def ty
          consumeICnt_def Count_new_def s32_def Let_def st)
    have "currentCore (tr ?v) = 0" using v(1) by (simp add: core_def)
    have "ran ?X ex_wants (ex_prog 0x1008) ?nx (?s0\<lparr>tr := ?t1\<rparr>) = count_inst (ex_prog 0x1008) isNone BRFLAG_none ?v"
      using c [of "\<lambda>out prev s1. count_inst (ex_prog 0x1008) isNone BRFLAG_none (give_inst isNone BRFLAG_none out prev s1)"]
      by (simp add: ran_def ty ex_wants_def)
    also have "\<exists>s1. \<dots> = Inr (Return DQERR_OK, s1)"
      using v by (simp add: count_inst_def updateInstructionInfo_def ty Let_def DQR_MAXCORES_def isNone_def ret_status_def set_status_def
          on_trace_def counts_of_def getCurrentCountType_def Count_new_def core_def)
    finally show ?thesis .
  qed
  then obtain s1 where r: "ran ?X ex_wants (ex_prog 0x1008) ?nx (?s0\<lparr>tr := ?t1\<rparr>) = Inr (Return DQERR_OK, s1)" by blast
  have "run_inst ?X ex_wants (ex_prog 0x1008) ?s0 = Inr (Return DQERR_OK, s1)"
    using d ex_next [OF f(2), of 0] r by (simp add: run_inst_def here_def core_def st)
  then have "get_instruction ?X ex_wants s = Inr (Return DQERR_OK, s1)"
    using f(1) by (simp add: get_instruction_def here_def core_def st counts_of_def getCurrentCountType_def Count_new_def)
  then have "state_switch ?X ex_wants s = Inr (Return DQERR_OK, s1)" by (simp add: state_switch_def core_def st)
  then have "rounds ?X ex_wants s = Some (Inr (DQERR_OK, s1))" by (subst rounds.simps) (simp add: st round_def)
  then show ?thesis by (simp add: s_def NextInstruction_def ex_running_def ex_trace_def)
qed


theorem instruction_takes_one_event_witness:
  "\<exists>s1. NextInstruction (ex_extern\<lparr>x_env := ex_env\<rparr>) ex_wants ex_running = Some (Inr (DQERR_OK, s1)) \<and>
     ((in_step ex_recs [(1, 0), (2, 0)] s1 \<and> caTrace s1 = Some ex_ca) \<or>
      (in_step ex_recs [(2, 0)] s1 \<and> got_inst s1 \<and> in_caFlags (instructionInfo s1) = 1 \<and> in_timestamp (instructionInfo s1) = 0))"
proof -
  obtain s1 where s1: "NextInstruction (ex_extern\<lparr>x_env := ex_env\<rparr>) ex_wants ex_running = Some (Inr (DQERR_OK, s1))"
    using ex_runs by blast
  have "in_step ex_recs [(1, 0), (2, 0)] ex_running"
    using ex_ca_reads by (simp add: in_step_def ex_running_def no_cate_def)
  moreover have "caTrace ex_running = Some ex_ca" by (simp add: ex_running_def)
  moreover have "w_inst ex_wants" "\<not> readNewTraceMessage (tr ex_running)" by (simp_all add: ex_wants_def ex_running_def)
  ultimately show ?thesis using instruction_takes_one_event [OF _ s1] s1 by fastforce
qed

end
