(* ===== verification/Ca_Start.thy ===== *)
theory Ca_Start
  imports Ca_Sync
begin

text \<open>
  How an instruction trace and a cycle accurate trace are brought together (the state
  \<^verbatim>\<open>TRACE_STATE_SYNCCATE\<close> of \<^verbatim>\<open>Trace::NextInstruction\<close>): where synchronisation leaves both, and what a lost
  message does to it.
\<close>

section \<open>Running the cycle accurate trace forward\<close>

text \<open>The addresses that follow the start of a cycle accurate trace, with the saved return address.\<close>

fun ca_walk :: "Env \<Rightarrow> Trace \<Rightarrow> nat \<Rightarrow> ADDRESS \<times> ADDRESS \<Rightarrow> (ADDRESS \<times> ADDRESS) option" where
  "ca_walk E t 0 p = Some p"
| "ca_walk E t (Suc n) p = (case nextCAAddr E (fst p) (snd p) t of
     Inr (rc, a, v, t1) \<Rightarrow> if rc = DQERR_OK then ca_walk E t n (a, v) else None
   | Inl e \<Rightarrow> None)"

lemma nextCAAddr_status:
  "nextCAAddr E a v (t\<lparr>tr_status := e\<rparr>) = nextCAAddr E a v t"
  by (auto simp: nextCAAddr_def Trace_decodeInstruction_def getArchSize_def proc_lookup_def Let_def
      split: option.splits sum.splits stop.splits list.splits)

lemma ca_walk_status: "ca_walk E (t\<lparr>tr_status := e\<rparr>) n p = ca_walk E t n p"
proof (induction n arbitrary: p)
  case (Suc n)
  then show ?case by (cases "nextCAAddr E (fst p) (snd p) t") (simp_all add: nextCAAddr_status split_def)
qed simp

lemma nextCAAddr_fails: "nextCAAddr E a v t = Inr (rc, a1, v1, t1) \<Longrightarrow> rc \<noteq> DQERR_OK \<Longrightarrow> a1 = a \<or> a1 = -1"
  by (auto simp: nextCAAddr_def Let_def split: option.splits sum.splits stop.splits prod.splits if_splits)

text \<open>Each step of the loop takes one event.\<close>

lemma ca_forward_walks:
  "ca_forward X m a v out c s = Inr (Go, c1, s1) \<Longrightarrow> ca_reads recs es c \<Longrightarrow> a \<noteq> -1 \<Longrightarrow>
     syncCount s1 = syncCount s \<and> (\<exists>n v1. n \<le> m \<and> n \<le> length es \<and> ca_reads recs (drop n es) c1 \<and>
        (caSyncAddr s1 = a \<longrightarrow> ca_walk (x_env X) (tr s) n (caSyncAddr s, v) = Some (a, v1)))"
proof (induction X m a v out c s arbitrary: es rule: ca_forward.induct)
  case (1 X a v out c s)
  then show ?case by (intro conjI exI [of _ 0] exI [of _ v]) auto
next
  case (2 X m a v out c s)
  show ?case
  proof (cases "a = caSyncAddr s")
    case True
    then show ?thesis using 2(2,3) by (intro conjI exI [of _ 0] exI [of _ v]) auto
  next
    case False
    then obtain rc a1 v1 t1 where n: "nextCAAddr (x_env X) (caSyncAddr s) v (tr s) = Inr (rc, a1, v1, t1)"
      using 2(2) by (auto split: sum.splits)
    then obtain e where t1: "t1 = tr s\<lparr>tr_status := e\<rparr>" using nextCAAddr_frame by blast
    let ?s1 = "s\<lparr>tr := t1, caSyncAddr := a1\<rparr>"
    show ?thesis
    proof (cases "rc = DQERR_OK")
      case ok: True
      show ?thesis
      proof (cases es)
        case Nil
        then show ?thesis
          using 2(2,3) False n ok consume_at_end [of recs c "ca_past X" INST_SCALER out] by (auto simp: Let_def)
      next
        case (Cons e1 es1)
        obtain out1 c2 where c2: "consume (ca_past X) INST_SCALER out c = Inr (DQERR_OK, out1, c2)" "ca_reads recs es1 c2"
          using consume_next 2(3) Cons by blast
        then have "ca_forward X m a v1 out1 c2 ?s1 = Inr (Go, c1, s1)" using 2(2) False n ok by (simp add: Let_def)
        from 2(1) [OF False n refl refl refl _ _ c2(1) refl refl _ _ this c2(2) 2(4)] ok
        obtain k v2 where k: "syncCount s1 = syncCount s" "k \<le> m" "k \<le> length es1" "ca_reads recs (drop k es1) c1"
            "caSyncAddr s1 = a \<longrightarrow> ca_walk (x_env X) t1 k (a1, v1) = Some (a, v2)"
          by auto
        then show ?thesis using Cons n ok t1 by (intro conjI exI [of _ "Suc k"] exI [of _ v2]) (auto simp: ca_walk_status)
      qed
    next
      case fail: False
      then have "c1 = c \<and> s1 = ?s1" using 2(2) False n by (simp add: Let_def)
      moreover have "a1 \<noteq> a" using nextCAAddr_fails [OF n fail] False 2(4) by auto
      ultimately show ?thesis using 2(3) by (intro conjI exI [of _ 0]) auto
    qed
  qed
qed


text \<open>
  The trace stands at its first event, and its start address is the address of its first record: the
  event belongs to the instruction at that address. So it is when it has been opened or rewound.
\<close>

definition ca_at_start :: "u32 list list \<Rightarrow> CATrace \<Rightarrow> bool" where
  "ca_at_start recs c \<longleftrightarrow> ca_reads recs (trace_events 0 recs) c \<and> getCATraceStartAddr c = address_bits 0 (tl (hd recs))"

lemma opened_at_start:
  assumes "recs \<noteq> []" and "\<forall>r \<in> set recs. length r = 32" and "length recs \<le> 4473924" and "files name = Some (file_of recs)"
  shows "\<exists>c. CATrace_new mem junk files (Some name) CATRACE_INSTRUCTION = Inr c \<and> ca_at_start recs c"
  using open_trace [where files = files and name = name, OF assms, of mem junk] assms(2,3)
  by (auto simp: ca_at_start_def ca_reads_def)

lemma rewind_restarts:
  assumes "ca_reads recs es c"
  shows "\<exists>c1. rewind c = Inr (DQERR_OK, c1) \<and> ca_at_start recs c1"
proof -
  obtain n where n: "at_rec recs n c" and r: "\<forall>r \<in> set recs. length r = 32" "length recs \<le> 4473924" and ty: "caType c = CATRACE_INSTRUCTION"
    using assms by (auto simp: ca_reads_def)
  let ?c = "c\<lparr>caBufferIndex := 0, catr := (catr c)\<lparr>car_offset := 0, car_address := 0\<rparr>\<rparr>"
  have ne: "0 < length recs" using n by (auto simp: at_rec_def)
  then obtain r0 rs where rs: "recs = r0 # rs" by (cases recs) auto
  from n have "ca_status ?c = DQERR_OK" "caBuffer ?c = file_of recs" "caBufferSize ?c = 128 * int (length recs)" "caBufferIndex ?c = 128 * int 0"
    by (simp_all add: at_rec_def)
  from parse_rec [OF r(1) ne this] obtain c1 where c1: "parseNextCATraceRec ?c = Inr (DQERR_OK, c1)" "at_rec recs 0 c1"
      "car_offset (catr c1) = 0" "car_address (catr c1) = address_bits 0 (tl (recs ! 0))" "caType c1 = caType ?c"
    by auto
  let ?c1 = "c1\<lparr>ca_status := DQERR_OK, CATrace.startAddr := car_address (catr c1), traceQOut := 0, traceQIn := 0\<rparr>"
  have "rewind c = Inr (DQERR_OK, ?c1)" using c1(1) by (simp add: rewind_def start_rec_def)
  moreover have "at_rec recs 0 ?c1" using c1(2) by (simp add: at_rec_def)
  moreover have "rest_events recs 0 0 = trace_events 0 recs" using rs by (simp add: rest_events_def)
  ultimately show ?thesis
    using c1(3-5) r ty rs by (intro exI [of _ ?c1]) (auto simp: ca_at_start_def ca_reads_def getCATraceStartAddr_def)
qed

lemma full_address_even: "full_address s \<noteq> -1"
proof
  assume "full_address s = -1"
  then have "bit (full_address s) 0" by simp
  then show False by (simp add: full_address_def bit_0)
qed

section \<open>Properties\<close>

text \<open>
  C13. Synchronisation leaves the two traces at the same instruction. The cycle accurate trace has just
  been opened or rewound: its events belong, one each, to the instructions that follow its start address.
  When the state \<^verbatim>\<open>TRACE_STATE_SYNCCATE\<close> is left on a message with address \<open>a\<close>, either \<open>a\<close> is the address
  \<open>n\<close> instructions after that start address, with \<open>n\<close> at most 30, and the first \<open>n\<close> events have been taken,
  so that the next one belongs to the instruction at \<open>a\<close>; or the trace is back at its start, and its start
  address has to be met by one of the next 16 instructions. The bound 30 is the one of the loop; the
  comment above it says 6.
\<close>

theorem synchronised_at_message:
  assumes "ca_at_start recs c" and "cate_sync X c s = Inr (Go, s1)"
  shows "tr_state (tr s1) (core s1) = TRACE_STATE_GETFIRSTSYNCMSG \<and>
    ((caSyncAddr s1 = full_address s \<and> syncCount s1 = syncCount s \<and>
      (\<exists>n c1 v. n \<le> 30 \<and> n \<le> length (trace_events 0 recs) \<and>
         ca_walk (x_env X) (tr s) n (address_bits 0 (tl (hd recs)), -1) = Some (full_address s, v) \<and>
         caTrace s1 = Some c1 \<and> ca_reads recs (drop n (trace_events 0 recs)) c1)) \<or>
     (syncCount s1 = 16 \<and> caSyncAddr s1 = address_bits 0 (tl (hd recs)) \<and>
      (\<exists>c1. caTrace s1 = Some c1 \<and> ca_at_start recs c1)))"
proof -
  let ?es = "trace_events 0 recs" and ?b = "address_bits 0 (tl (hd recs))"
  have es: "ca_reads recs ?es c" and b: "getCATraceStartAddr c = ?b" using assms(1) by (simp_all add: ca_at_start_def)
  let ?a = "full_address s" and ?s = "s\<lparr>caSyncAddr := ?b\<rparr>"
  obtain c1 s2 where f: "ca_forward X 30 ?a (-1) (junk_ca X) c ?s = Inr (Go, c1, s2)"
    using assms(2) b by (auto simp: cate_sync_def Let_def split: sum.splits ret.splits)
  from ca_forward_walks [OF f es full_address_even]
  obtain n v where n: "syncCount s2 = syncCount s" "n \<le> 30" "n \<le> length ?es" "ca_reads recs (drop n ?es) c1"
      "caSyncAddr s2 = ?a \<longrightarrow> ca_walk (x_env X) (tr s) n (?b, -1) = Some (?a, v)"
    by auto
  have g: "tr_state (tr s1) (core s1) = TRACE_STATE_GETFIRSTSYNCMSG" using cate_sync_goes [OF assms(2)] by simp
  show ?thesis
  proof (cases "?a = caSyncAddr s2")
    case True
    then have "s1 = set_state TRACE_STATE_GETFIRSTSYNCMSG (s2\<lparr>caTrace := Some c1\<rparr>)"
      using assms(2) f b by (simp add: cate_sync_def Let_def)
    then have "caSyncAddr s1 = ?a" "syncCount s1 = syncCount s" "caTrace s1 = Some c1"
      using n(1) True by (simp_all add: set_state_def on_trace_def)
    moreover have "ca_walk (x_env X) (tr s) n (?b, -1) = Some (?a, v)" using n(5) True by simp
    ultimately show ?thesis using g n(2-4) by blast
  next
    case False
    obtain c2 where c2: "rewind c1 = Inr (DQERR_OK, c2)" "ca_at_start recs c2"
      using rewind_restarts [OF n(4)] by blast
    then have "s1 = set_state TRACE_STATE_GETFIRSTSYNCMSG
        (s2\<lparr>caTrace := Some c2, syncCount := 16, caSyncAddr := getCATraceStartAddr c2\<rparr>)"
      using assms(2) f b False by (simp add: cate_sync_def Let_def)
    then have "syncCount s1 = 16" "caSyncAddr s1 = ?b" "caTrace s1 = Some c2"
      using c2(2) by (simp_all add: set_state_def on_trace_def ca_at_start_def)
    then show ?thesis using g c2(2) by blast
  qed
qed

text \<open>
  C33. A message about lost messages ends the search for synchronisation on every core: it starts all cores
  over in the state that waits for the next message with an address, and none of them will look for the
  cycle accurate trace again, which stays where it is. From then on its events are taken for the
  instructions as if the two traces were together.
\<close>

theorem lost_message_skips_synchronisation:
  assumes "ca_reads recs es c" and "caTrace s = Some c" and "syncCount s = 0"
    and "tr_state (tr s) (core s) = TRACE_STATE_SYNCCATE" and "tcode (msg_of s) = TCODE_ERROR"
    and "state_switch X w s = Inr (r, s1)"
  shows "r = Return DQERR_OK \<and> (\<forall>i. tr_state (tr s1) i = TRACE_STATE_GETFIRSTSYNCMSG) \<and> in_step recs es s1"
proof -
  have e: "cate_error X w s = Inr (r, s1)" using assms(2,4-6) by (simp add: state_switch_def sync_cate_def)
  then obtain rc t s2 s3 where "new_time TS_rel (tr s) = Inr (rc, t)"
      and g: "give_bare X w False (here (s\<lparr>tr := t\<rparr>)) (s\<lparr>tr := t\<rparr>) = Inr s2" and z: "reset (-1) s2 = Inr s3"
      and f: "ret_ok (want_msg s3) = Inr (r, s1)"
    by (auto simp: cate_error_def then_do_def split: sum.splits)
  have k: "caTrace s2 = caTrace s \<and> syncCount s2 = syncCount s"
    using g by (auto simp: give_bare_def Let_def map_sum_def split: if_splits sum.splits)
  obtain t3 where t3: "resetTrace (-1) (tr s2) = Inr t3" "s3 = s2\<lparr>tr := t3\<rparr>" using z by (auto simp: reset_def map_sum_def split: sum.splits)
  then have "tr_state t3 = (\<lambda>_. TRACE_STATE_GETFIRSTSYNCMSG)"
    by (auto simp: resetTrace_def reset_all_def Let_def split: list.splits)
  then show ?thesis
    using f t3(2) k assms(1-3) by (auto simp: ret_ok_def want_msg_def set_status_def on_trace_def in_step_def no_cate_def)
qed

section \<open>An example\<close>

text \<open>A cycle accurate trace that starts one instruction before the message.\<close>

definition ex_searching :: "NexusMessage \<Rightarrow> unit Session" where
  "ex_searching nm = ex_running\<lparr>tr := (tr ex_running)\<lparr>tr_nm := nm, tr_state := (\<lambda>_. TRACE_STATE_SYNCCATE)\<rparr>\<rparr>"

definition ex_on :: NexusMessage where
  "ex_on = undefined\<lparr>tcode := TCODE_SYNC, coreId := 0, sync_f_addr := 0x805, sync_sync := SYNC_TRACE_ENABLE\<rparr>"

definition ex_lost :: NexusMessage where
  "ex_lost = undefined\<lparr>tcode := TCODE_ERROR, coreId := 0, haveTimestamp := False\<rparr>"

lemma ex_ca_next:
  assumes "currentElfReader t (currentCore t) = Some ex_elf" and "currentDisassembler t (currentCore t) = Some (Disassembler_new [])"
    and "processes t = processes (ex_trace TRACETYPE_BTM)"
  shows "nextCAAddr ex_env 0x1008 v t = Inr (DQERR_OK, 0x100a, v, t\<lparr>tr_status := DQERR_OK\<rparr>)"
proof -
  have "getArchSize (-1) t = Inr 32" using assms(3) by (simp add: getArchSize_def proc_lookup_def elf_of_def ex_trace_def ex_elf_def)
  then show ?thesis
    using assms(1,2) by (simp add: nextCAAddr_def Trace_decodeInstruction_def ex_code ex_decode ca_switch_def cond_branch_def after_def)
qed

text \<open>A file of one record whose address bits give 0x1008.\<close>

definition ex_start_recs :: "u32 list list" where
  "ex_start_recs = [0x10000000 # [0, 0x80000000, 0, 0, 0, 0, 0x40000000] @ replicate 24 0]"

lemma ex_start_address: "address_bits 0 (tl (hd ex_start_recs)) = 0x1008"
proof -
  have "address_bits i (replicate n 0) = 0" for i n by (induction n arbitrary: i) simp_all
  then show ?thesis by (simp add: ex_start_recs_def)
qed

lemma ex_start_event: "\<exists>es. trace_events 0 ex_start_recs = event 0 0 # es"
proof -
  have "[0..<960] = 0 # [Suc 0..<960]" by (rule upt_conv_Cons) simp
  then show ?thesis
    by (simp add: ex_start_recs_def events_from_def marked_def del: upt_rec_numeral)
qed

lemma ex_forward:
  assumes "ca_at_start ex_start_recs c"
  shows "\<exists>s1. cate_sync (ex_extern\<lparr>x_env := ex_env\<rparr>) c (ex_searching ex_on) = Inr (Go, s1) \<and> caSyncAddr s1 = 0x100a"
proof -
  let ?X = "ex_extern\<lparr>x_env := ex_env\<rparr>"
  define s where "s = ex_searching ex_on"
  obtain es where r: "ca_reads ex_start_recs (event 0 0 # es) c"
    using assms ex_start_event by (auto simp: ca_at_start_def)
  obtain out c1 where c: "consume (ca_past ?X) INST_SCALER (junk_ca ?X) c = Inr (DQERR_OK, out, c1)"
    using consume_next [OF r] by blast
  have a: "full_address s = 0x100a" "getCATraceStartAddr c = 0x1008"
    using assms ex_start_address
    by (simp_all add: s_def full_address_def msg_of_def ex_searching_def ex_on_def getF_Addr_def ca_at_start_def)
  have n: "nextCAAddr ex_env 0x1008 (-1) (tr s) = Inr (DQERR_OK, 0x100a, -1, (tr s)\<lparr>tr_status := DQERR_OK\<rparr>)"
    by (rule ex_ca_next) (simp_all add: s_def ex_searching_def ex_running_def ex_trace_def)
  have "ca_forward ?X (Suc (Suc k)) 0x100a (-1) (junk_ca ?X) c (s\<lparr>caSyncAddr := 0x1008\<rparr>) =
      Inr (Go, c1, s\<lparr>tr := (tr s)\<lparr>tr_status := DQERR_OK\<rparr>, caSyncAddr := 0x100a\<rparr>)" for k
    using c n by (simp add: Let_def)
  from this [of 28] have "ca_forward ?X 30 0x100a (-1) (junk_ca ?X) c (s\<lparr>caSyncAddr := 0x1008\<rparr>) =
      Inr (Go, c1, s\<lparr>tr := (tr s)\<lparr>tr_status := DQERR_OK\<rparr>, caSyncAddr := 0x100a\<rparr>)" by simp
  then show ?thesis unfolding s_def [symmetric] by (simp add: cate_sync_def Let_def a set_state_def on_trace_def)
qed

text \<open>The hypotheses hold for a trace that has just been opened, and the message is met after one instruction.\<close>

theorem synchronised_at_message_witness:
  "\<exists>c s1. CATrace_new undefined [] (\<lambda>_. Some (file_of ex_start_recs)) (Some ''ca'') CATRACE_INSTRUCTION = Inr c \<and>
     cate_sync (ex_extern\<lparr>x_env := ex_env\<rparr>) c (ex_searching ex_on) = Inr (Go, s1) \<and> caSyncAddr s1 = 0x100a \<and>
     tr_state (tr s1) (core s1) = TRACE_STATE_GETFIRSTSYNCMSG \<and>
     (\<exists>n c1. n \<le> 30 \<and> caTrace s1 = Some c1 \<and> ca_reads ex_start_recs (drop n (trace_events 0 ex_start_recs)) c1)"
proof -
  have "\<exists>c. CATrace_new undefined [] (\<lambda>_. Some (file_of ex_start_recs)) (Some ''ca'') CATRACE_INSTRUCTION = Inr c \<and>
      ca_at_start ex_start_recs c"
    by (rule opened_at_start) (simp_all add: ex_start_recs_def)
  then obtain c where c: "CATrace_new undefined [] (\<lambda>_. Some (file_of ex_start_recs)) (Some ''ca'') CATRACE_INSTRUCTION = Inr c"
      "ca_at_start ex_start_recs c" by blast
  obtain s1 where s1: "cate_sync (ex_extern\<lparr>x_env := ex_env\<rparr>) c (ex_searching ex_on) = Inr (Go, s1)" "caSyncAddr s1 = 0x100a"
    using ex_forward [OF c(2)] by blast
  from synchronised_at_message [OF c(2) s1(1)] s1(2) ex_start_address
  have "tr_state (tr s1) (core s1) = TRACE_STATE_GETFIRSTSYNCMSG"
    "\<exists>n c1. n \<le> 30 \<and> caTrace s1 = Some c1 \<and> ca_reads ex_start_recs (drop n (trace_events 0 ex_start_recs)) c1"
    by auto
  with c(1) s1 show ?thesis by blast
qed

theorem lost_message_skips_synchronisation_witness:
  "\<exists>s1. state_switch ex_extern ex_wants (ex_searching ex_lost) = Inr (Return DQERR_OK, s1) \<and> in_step ex_recs [(1, 0), (2, 0)] s1"
proof -
  let ?s = "ex_searching ex_lost"
  have st: "caTrace ?s = Some ex_ca" "tr_state (tr ?s) (core ?s) = TRACE_STATE_SYNCCATE" "tcode (msg_of ?s) = TCODE_ERROR"
      "syncCount ?s = 0" "haveTimestamp (tr_nm (tr ?s)) = False" "itcPrint ?s = None" "processes (tr ?s) \<noteq> []"
    by (simp_all add: ex_searching_def ex_running_def ex_lost_def msg_of_def ex_trace_def)
  have "new_time TS_rel (tr ?s) = Inr (DQERR_OK, tr ?s)" using st(5) by (simp add: new_time_def)
  moreover obtain s2 where s2: "give_bare ex_extern ex_wants False (here ?s) ?s = Inr s2" "tr s2 = tr ?s"
    using st(6) by (simp add: give_bare_def ex_wants_def processITCPrintData_def Let_def)
  moreover obtain s3 where "reset (-1) s2 = Inr s3" using reset_all_keeps [of s2] s2(2) st(7) by auto
  ultimately have "\<exists>s1. state_switch ex_extern ex_wants ?s = Inr (Return DQERR_OK, s1)"
    using st(1-3) by (simp add: state_switch_def sync_cate_def cate_error_def then_do_def ret_ok_def)
  then obtain s1 where "state_switch ex_extern ex_wants ?s = Inr (Return DQERR_OK, s1)" by blast
  with lost_message_skips_synchronisation [OF ex_ca_reads st(1) st(4) st(2) st(3) this] show ?thesis by blast
qed

end
