(* ===== verification/Ca_Ring.thy ===== *)
theory Ca_Ring
  imports Ca_Trace
begin

text \<open>
  The ring of vector events of \<^verbatim>\<open>class CATrace\<close> is a queue: packing it keeps the events that wait and their
  order, adding appends to them, and both leave room as long as there is some.
\<close>

section \<open>Positions in the ring\<close>

function poss :: "'a list \<Rightarrow> nat \<Rightarrow> nat \<Rightarrow> nat list" where
  "poss q i j = (if i = j \<or> i \<ge> length q \<or> j \<ge> length q then [] else i # poss q (ring_next q i) j)"
  by pat_completeness auto

termination
  by (relation "measure (\<lambda>(q, i, j). ring_dist q i j)") (auto simp: ring_dist_next)

declare poss.simps [simp del]

lemma poss_same [simp]: "poss q i i = []"
  by (simp add: poss.simps)

lemma poss_step: "i \<noteq> j \<Longrightarrow> i < length q \<Longrightarrow> j < length q \<Longrightarrow> poss q i j = i # poss q (ring_next q i) j"
  by (simp add: poss.simps)

lemma ca_ring_update [simp]: "ring_next (q[k := x]) i = ring_next q i" "ring_dist (q[k := x]) i j = ring_dist q i j"
  by (simp_all add: ring_next_def ring_dist_def)

lemma poss_update [simp]: "poss (q[k := x]) i j = poss q i j"
  by (induction q i j rule: poss.induct) (subst (1 2) poss.simps, auto)

lemma poss_length: "i < length q \<Longrightarrow> j < length q \<Longrightarrow> length (poss q i j) = ring_dist q i j"
proof (induction q i j rule: poss.induct)
  case (1 q i j)
  then show ?case using ring_dist_next [of i j q] ring_next_less [of i q] poss_step [of i j q]
    by (cases "i = j") (auto simp: ring_dist_def)
qed

lemma poss_in: "k \<in> set (poss q i j) \<Longrightarrow> k < length q \<and> k \<noteq> j \<and> ring_dist q k j \<le> ring_dist q i j"
proof (induction q i j rule: poss.induct)
  case (1 q i j)
  then show ?case using ring_dist_next [of i j q]
    by (subst (asm) (2) poss.simps) (auto split: if_splits)
qed

lemma poss_distinct: "distinct (poss q i j)"
proof (induction q i j rule: poss.induct)
  case (1 q i j)
  then show ?case using ring_dist_next [of i j q] poss_in [of i q "ring_next q i" j]
    by (subst poss.simps) auto
qed

lemma poss_split: "k \<in> set (poss q i j) \<Longrightarrow> poss q i j = poss q i k @ poss q k j"
proof (induction q i j rule: poss.induct)
  case (1 q i j)
  have r: "i \<noteq> j" "i < length q" "j < length q" using 1(2) by (subst (asm) poss.simps, auto split: if_splits)+
  show ?case
  proof (cases "k = i")
    case False
    then have k: "k \<in> set (poss q (ring_next q i) j)" using 1(2) poss_step [OF r] by simp
    then have "poss q i k = i # poss q (ring_next q i) k" using poss_in [OF k] r False by (intro poss_step) auto
    then show ?thesis using 1(1) k r poss_step [OF r] by simp
  qed simp
qed

lemma find_item_total:
  "i < length q \<Longrightarrow> j < length q \<Longrightarrow> \<exists>k. find_item P q i j = Inr k \<and> k < length q \<and> poss q i j = poss q i k @ poss q k j \<and>
     (\<forall>p \<in> set (poss q i k). \<not> P (q ! p)) \<and> (k \<noteq> j \<longrightarrow> P (q ! k))"
proof (induction P q i j rule: find_item.induct)
  case (1 P q i j)
  show ?case
  proof (cases "i = j \<or> P (q ! i)")
    case True
    then show ?thesis using 1(2,3) by (subst find_item.simps) auto
  next
    case False
    obtain k where k: "find_item P q (ring_next q i) j = Inr k" "k < length q"
        "poss q (ring_next q i) j = poss q (ring_next q i) k @ poss q k j"
        "\<forall>p \<in> set (poss q (ring_next q i) k). \<not> P (q ! p)" "k \<noteq> j \<longrightarrow> P (q ! k)"
      using 1 False ring_next_less [of i q] by auto
    have "find_item P q i j = Inr k" using k(1) False 1(2,3) by (subst find_item.simps) simp
    moreover have ki: "k \<noteq> i" using k(5) False by auto
    ultimately show ?thesis using k False 1(2,3) poss_step [of i j q] poss_step [of i k q] by auto
  qed
qed

section \<open>Packing\<close>

definition live :: "CATraceQItem list \<Rightarrow> nat \<Rightarrow> nat \<Rightarrow> CATraceQItem list" where
  "live q i j = filter (\<lambda>x. \<not> empty_item x) (map ((!) q) (poss q i j))"

lemma live_cong: "length q = length q1 \<Longrightarrow> \<forall>p \<in> set (poss q i j). q ! p = q1 ! p \<Longrightarrow> live q i j = live q1 i j"
proof -
  assume a: "length q = length q1" "\<forall>p \<in> set (poss q i j). q ! p = q1 ! p"
  have "poss q1 i j = poss q i j"
    using a(1)
  proof (induction q i j rule: poss.induct)
    case (1 q i j)
    then show ?case by (subst (1 2) poss.simps) (auto simp: ring_next_def)
  qed
  then show ?thesis using a(2) by (auto simp: live_def intro: arg_cong [of _ _ "filter _"])
qed

lemma empty_clear [simp]: "empty_item (clear_item x)"
  by (simp add: empty_item_def clear_item_def)

text \<open>
  What packing from \<open>dst\<close> on does: nothing is lost, the events are at the front, the rest is empty,
  and items outside are not touched.
\<close>

definition packed :: "CATraceQItem list \<Rightarrow> nat \<Rightarrow> nat \<Rightarrow> nat \<Rightarrow> CATraceQItem list \<Rightarrow> bool" where
  "packed q dst qin d q1 \<longleftrightarrow> length q1 = length q \<and> d < length q \<and> live q1 dst qin = live q dst qin \<and>
     (\<forall>k. k \<notin> set (poss q dst qin) \<longrightarrow> q1 ! k = q ! k) \<and> poss q dst qin = poss q dst d @ poss q d qin \<and>
     (\<forall>p \<in> set (poss q dst d). \<not> empty_item (q1 ! p)) \<and> (\<forall>p \<in> set (poss q d qin). empty_item (q1 ! p))"

lemma move_item:
  assumes d: "d < length q" "qin < length q" "d \<noteq> qin" "empty_item (q ! d)"
    and s: "poss q (ring_next q d) qin = poss q (ring_next q d) s @ poss q s qin" "s < length q" "s \<noteq> qin" "\<not> empty_item (q ! s)"
    and between: "\<forall>p \<in> set (poss q (ring_next q d) s). empty_item (q ! p)"
  shows "live (q[d := q ! s, s := clear_item (q ! s)]) d qin = live q d qin"
    and "s \<in> set (poss q d qin)"
proof -
  let ?A = "poss q (ring_next q d) s" and ?B = "poss q (ring_next q s) qin" and ?q = "q[d := q ! s, s := clear_item (q ! s)]"
  have p: "poss q d qin = d # ?A @ s # ?B" using poss_step [OF d(3,1,2)] poss_step [OF s(3,2) d(2)] s(1) by simp
  then have dis: "distinct (d # ?A @ s # ?B)" using poss_distinct [of q d qin] by metis
  have m: "map ((!) ?q) ?A = map ((!) q) ?A" "map ((!) ?q) ?B = map ((!) q) ?B" "?q ! d = q ! s" "?q ! s = clear_item (q ! s)"
    using dis d(1) s(2) by (auto simp: nth_list_update)
  have "filter (\<lambda>x. \<not> empty_item x) (map ((!) q) ?A) = []" using between by (auto simp: filter_empty_conv)
  then show "live ?q d qin = live q d qin"
    using s(4) d(4) unfolding live_def poss_update p list.map map_append filter_append m by (simp add: m(3,4))
  show "s \<in> set (poss q d qin)" by (simp add: p)
qed

lemma live_prefix:
  assumes "poss q dst qin = poss q dst d @ poss q d qin"
  shows "live q dst qin = live q dst d @ live q d qin"
  using assms by (simp add: live_def)

lemma pack_loop_packs:
  "dst < length q \<Longrightarrow> qin < length q \<Longrightarrow> dst = qin \<or> src \<noteq> qin \<Longrightarrow>
   \<exists>d q1. pack_loop qin src q dst = Inr (d, q1) \<and> packed q dst qin d q1"
proof (induction qin src q dst rule: pack_loop.induct)
  case (1 qin src q dst)
  show ?case
  proof (cases "dst = qin")
    case True
    then show ?thesis using 1(2) by (subst pack_loop.simps) (simp add: packed_def)
  next
    case False
    then have go: "\<not> (dst = qin \<or> src = qin)" using 1(4) by simp
    obtain d where d: "find_item empty_item q dst qin = Inr d" "d < length q" "poss q dst qin = poss q dst d @ poss q d qin"
        "\<forall>p \<in> set (poss q dst d). \<not> empty_item (q ! p)" "d \<noteq> qin \<longrightarrow> empty_item (q ! d)"
      using find_item_total [OF 1(2,3), of empty_item] by blast
    show ?thesis
    proof (cases "d = qin")
      case True
      then show ?thesis using go d by (subst pack_loop.simps) (simp add: packed_def)
    next
      case dne: False
      obtain s where s: "find_item (\<lambda>x. \<not> empty_item x) q (ring_next q d) qin = Inr s" "s < length q"
          "poss q (ring_next q d) qin = poss q (ring_next q d) s @ poss q s qin"
          "\<forall>p \<in> set (poss q (ring_next q d) s). empty_item (q ! p)" "s \<noteq> qin \<longrightarrow> \<not> empty_item (q ! s)"
        using find_item_total [OF ring_next_less [OF d(2)] 1(3), of "\<lambda>x. \<not> empty_item x"] by blast
      show ?thesis
      proof (cases "s = qin")
        case True
        then have "\<forall>p \<in> set (poss q d qin). empty_item (q ! p)"
          using poss_step [OF dne d(2) 1(3)] d(5) s(4) dne by simp
        then show ?thesis using go d s(1) dne True by (subst pack_loop.simps) (simp add: packed_def)
      next
        case sne: False
        let ?q = "q[d := q ! s, s := clear_item (q ! s)]"
        have de: "empty_item (q ! d)" and se: "\<not> empty_item (q ! s)" using d(5) s(5) dne sne by auto
        note mv = move_item [OF d(2) 1(3) dne de s(3,2) sne se s(4)]
        obtain e q1 where e: "pack_loop qin s ?q d = Inr (e, q1)" "packed ?q d qin e q1"
          using 1(1) [OF go d(1) dne s(1) sne] 1(3) d(2) sne by auto
        have eq: "pack_loop qin src q dst = Inr (e, q1)" using go d(1) s(1) dne sne e(1) by (subst pack_loop.simps) simp
        have dis: "distinct (poss q dst d @ poss q d qin)" using poss_distinct [of q dst qin] d(3) by metis
        have p: "length q1 = length q" "e < length q" "live q1 d qin = live ?q d qin" "\<And>k. k \<notin> set (poss q d qin) \<Longrightarrow> q1 ! k = ?q ! k"
            "poss q d qin = poss q d e @ poss q e qin" "\<forall>p \<in> set (poss q d e). \<not> empty_item (q1 ! p)"
            "\<forall>p \<in> set (poss q e qin). empty_item (q1 ! p)"
          using e(2) by (simp_all add: packed_def)
        have out: "q1 ! k = q ! k" if "k \<notin> set (poss q d qin)" for k
        proof -
          have "k \<noteq> d" "k \<noteq> s" using that mv(2) poss_step [OF dne d(2) 1(3)] by auto
          then show ?thesis using p(4) [OF that] by simp
        qed
        have apart: "k \<in> set (poss q dst d) \<Longrightarrow> q1 ! k = q ! k" for k using dis out [of k] by auto
        have pre: "live q1 dst d = live q dst d" using apart p(1) by (intro live_cong [symmetric]) simp_all
        have poss1: "poss q1 i j = poss q i j" for i j
          using p(1)
        proof (induction q i j rule: poss.induct)
          case (1 q i j)
          then show ?case by (subst (1 2) poss.simps) (auto simp: ring_next_def)
        qed
        have lv: "live q1 dst qin = live q dst qin"
          using live_prefix [of q1 dst qin d] live_prefix [of q dst qin d] d(3) poss1 pre p(3) mv(1) by simp
        have "e \<in> set (poss q d qin) \<or> e = qin"
          using p(5) poss_step [of e qin q] p(2) 1(3) by (cases "e = qin") (metis append_is_Nil_conv in_set_conv_decomp, simp)+
        moreover have "poss q dst qin = poss q dst e @ poss q e qin" if "e \<in> set (poss q d qin)"
          using poss_split [of e q dst qin] that d(3) by simp
        ultimately have split: "poss q dst qin = poss q dst e @ poss q e qin" by auto
        then have "poss q dst e = poss q dst d @ poss q d e" using d(3) p(5) by (metis append_assoc append_same_eq)
        then have "\<forall>p \<in> set (poss q dst e). \<not> empty_item (q1 ! p)" using d(4) p(6) apart by auto
        then show ?thesis using eq p lv split out d(3) by (auto simp: packed_def)
      qed
    qed
  qed
qed

section \<open>The queue\<close>

definition ring_ok :: "CATrace \<Rightarrow> bool" where
  "ring_ok c \<longleftrightarrow> traceQOut c < length (caTraceQ c) \<and> traceQIn c < length (caTraceQ c)"

definition waiting :: "CATrace \<Rightarrow> CATraceQItem list" where
  "waiting c = live (caTraceQ c) (traceQOut c) (traceQIn c)"

lemma roomQ_dist: "ring_ok c \<Longrightarrow> roomQ c = int (length (caTraceQ c)) - 1 - int (ring_dist (caTraceQ c) (traceQOut c) (traceQIn c))"
  by (auto simp: roomQ_def ring_ok_def ring_dist_def)

lemma length_live: "i < length q \<Longrightarrow> j < length q \<Longrightarrow> length (live q i j) \<le> ring_dist q i j"
  using poss_length [of i q j] length_filter_le [of "\<lambda>x. \<not> empty_item x" "map ((!) q) (poss q i j)"] by (simp add: live_def)

lemma poss_snoc:
  assumes "i < length q" "k < length q" "ring_next q k \<noteq> i"
  shows "poss q i (ring_next q k) = poss q i k @ [k]"
  using assms
proof (induction q i k rule: poss.induct)
  case (1 q i k)
  have n: "ring_next q k < length q" using 1(3) by (rule ring_next_less)
  show ?case
  proof (cases "i = k")
    case True
    then show ?thesis using 1(4) n 1(3) poss_step [of k "ring_next q k" q] by simp
  next
    case False
    have "ring_next q k \<noteq> ring_next q i"
      using False 1(2,3) by (auto simp: ring_next_def split: if_splits)
    then show ?thesis using 1 False n poss_step [of i "ring_next q k" q] poss_step [of i k q] ring_next_less [of i q] by auto
  qed
qed

lemma poss_same_length: "length q1 = length q \<Longrightarrow> poss q1 i j = poss q i j"
proof (induction q i j rule: poss.induct)
  case (1 q i j)
  then show ?case by (subst (1 2) poss.simps) (auto simp: ring_next_def)
qed

lemma packQ_packs:
  assumes "ring_ok c"
  shows "\<exists>c1. packQ c = Inr c1 \<and> ring_ok c1 \<and> waiting c1 = waiting c \<and> traceQOut c1 = traceQOut c \<and>
    length (caTraceQ c1) = length (caTraceQ c) \<and> roomQ c1 \<ge> int (length (caTraceQ c)) - 2 - int (length (waiting c)) \<and>
    c1 = c\<lparr>caTraceQ := caTraceQ c1, traceQIn := traceQIn c1\<rparr>"
proof -
  let ?q = "caTraceQ c" and ?o = "traceQOut c" and ?i = "traceQIn c"
  have oi: "?o < length ?q" "?i < length ?q" using assms by (simp_all add: ring_ok_def)
  obtain d q1 where d: "pack_loop ?i ?o ?q ?o = Inr (d, q1)" "packed ?q ?o ?i d q1"
    using pack_loop_packs [OF oi, of ?o] by auto
  let ?j = "if d \<noteq> ?i then ring_next q1 d else ?i"
  let ?c = "c\<lparr>caTraceQ := q1, traceQIn := ?j\<rparr>"
  have p: "length q1 = length ?q" "d < length ?q" "live q1 ?o ?i = live ?q ?o ?i" "poss ?q ?o ?i = poss ?q ?o d @ poss ?q d ?i"
      "\<forall>p \<in> set (poss ?q ?o d). \<not> empty_item (q1 ! p)" "\<forall>p \<in> set (poss ?q d ?i). empty_item (q1 ! p)"
    using d(2) by (simp_all add: packed_def)
  note poss1 = poss_same_length [OF p(1)]
  have full: "live q1 ?o d = map ((!) q1) (poss ?q ?o d)" using p(5) by (auto simp: live_def poss1 filter_id_conv)
  have none: "live q1 d ?i = []" using p(6) by (auto simp: live_def poss1 filter_empty_conv)
  have w: "live q1 ?o ?i = live q1 ?o d" using live_prefix [of q1 ?o ?i d] p(4) poss1 none by simp
  have dist: "ring_dist ?q ?o d = length (waiting c)"
    using full w p(3) poss_length [OF oi(1) p(2)] by (simp add: waiting_def)
  have "live q1 ?o ?j = live q1 ?o ?i \<and> ring_dist ?q ?o ?j \<le> Suc (ring_dist ?q ?o d)"
  proof (cases "d = ?i")
    case False
    have "?o \<noteq> ring_next ?q d"
    proof
      assume "?o = ring_next ?q d"
      then have "poss ?q d ?i = d # poss ?q ?o ?i" using poss_step [OF False p(2) oi(2)] by simp
      then show False using p(4) by (metis Cons_eq_appendI append_self_conv2 length_append length_Cons add_Suc_right le_add2 not_less_eq_eq order_refl)
    qed
    then have "poss ?q ?o (ring_next ?q d) = poss ?q ?o d @ [d]" using poss_snoc [OF oi(1) p(2)] by simp
    moreover have "ring_next q1 d = ring_next ?q d" using p(1) by (simp add: ring_next_def)
    moreover have "empty_item (q1 ! d)" using p(6) poss_step [OF False p(2) oi(2)] by simp
    ultimately show ?thesis using False w poss_length [OF oi(1) ring_next_less [OF p(2)]] poss_length [OF oi(1) p(2)]
      by (simp add: live_def poss1)
  qed simp
  moreover have ok: "ring_ok ?c" using oi p(1,2) ring_next_less [of d q1] by (simp add: ring_ok_def)
  moreover have "packQ c = Inr ?c" using d(1) by (simp add: packQ_def)
  moreover have "ring_dist q1 a b = ring_dist ?q a b" for a b using p(1) by (simp add: ring_dist_def)
  ultimately show ?thesis using roomQ_dist [OF ok] dist p(1,3)
    by (intro exI [of _ ?c]) (simp add: waiting_def)
qed

section \<open>Adding events\<close>

fun new_events :: "nat \<Rightarrow> u32 \<Rightarrow> u32 \<Rightarrow> CATraceQItem list" where
  "new_events 0 d t = []"
| "new_events (Suc n) d t =
     (let rec = ucast (drop_bit (6 * n) d) AND 0x3f in
      if rec = 0 then [] else [\<lparr>q_cycle = t, q_record = rec, q_qDepth = 0, q_arithInProcess = 0, q_loadInProcess = 0, q_storeInProcess = 0\<rparr>])
     @ new_events n d (t + 1)"

lemma add_events_total:
  "i < length q \<Longrightarrow> \<exists>q1 j. add_events n d t (q, i) = Inr (q1, j) \<and> length q1 = length q \<and> j < length q"
proof (induction n arbitrary: q i t)
  case (Suc n)
  then show ?case using Suc.IH [of i q] Suc.IH [of "ring_next q i" "q[i := x]" for x] ring_next_less [of i q]
    by (fastforce simp: Let_def)
qed simp

lemma ring_dist_room: "i < length q \<Longrightarrow> b < length q \<Longrightarrow> Suc (ring_dist q b i) < length q \<Longrightarrow>
    ring_next q i \<noteq> b \<and> ring_dist q b (ring_next q i) = Suc (ring_dist q b i)"
  by (auto simp: ring_dist_def ring_next_def split: if_splits)

lemma live_snoc:
  assumes "i < length q" "b < length q" "ring_next q i \<noteq> b" "\<not> empty_item x"
  shows "live (q[i := x]) b (ring_next q i) = live q b i @ [x]"
proof -
  have "map ((!) (q[i := x])) (poss q b i) = map ((!) q) (poss q b i)"
    using poss_in [of _ q b i] by (intro map_cong refl) (metis nth_list_update_neq)
  then show ?thesis using assms poss_snoc [OF assms(2,1,3)] by (simp add: live_def del: map_eq_conv)
qed

lemma add_events_live:
  "i < length q \<Longrightarrow> b < length q \<Longrightarrow> ring_dist q b i + n < length q \<Longrightarrow> add_events n d t (q, i) = Inr (q1, j) \<Longrightarrow>
   live q1 b j = live q b i @ new_events n d t"
proof (induction n arbitrary: q i t)
  case (Suc n)
  let ?rec = "ucast (drop_bit (6 * n) d) AND 0x3f :: u8"
  let ?x = "\<lparr>q_cycle = t, q_record = ?rec, q_qDepth = 0, q_arithInProcess = 0, q_loadInProcess = 0, q_storeInProcess = 0\<rparr>"
  show ?case
  proof (cases "?rec = 0")
    case True
    then show ?thesis using Suc.IH [of i q "t + 1"] Suc.prems by (simp add: Let_def)
  next
    case False
    have r: "ring_next q i \<noteq> b" "ring_dist q b (ring_next q i) = Suc (ring_dist q b i)"
      using ring_dist_room [OF Suc.prems(1,2)] Suc.prems(3) by simp_all
    have "add_events n d (t + 1) (q[i := ?x], ring_next q i) = Inr (q1, j)"
      using Suc.prems(1,4) False by (simp add: Let_def)
    then have "live q1 b j = live (q[i := ?x]) b (ring_next q i) @ new_events n d (t + 1)"
      using Suc.prems r(2) ring_next_less [of i q] by (intro Suc.IH) simp_all
    then show ?thesis using live_snoc [OF Suc.prems(1,2) r(1), of ?x] False by (simp add: Let_def empty_item_def)
  qed
qed simp

lemma add_five_appends:
  assumes "ring_ok c" "roomQ c \<ge> 5"
  shows "\<exists>c1. add_five d t c = Inr (DQERR_OK, c1) \<and> ring_ok c1 \<and> traceQOut c1 = traceQOut c \<and> waiting c1 = waiting c @ new_events 5 d t \<and>
    live (caTraceQ c1) (traceQIn c) (traceQIn c1) = new_events 5 d t"
proof -
  let ?q = "caTraceQ c"
  have oi: "traceQOut c < length ?q" "traceQIn c < length ?q" using assms(1) by (simp_all add: ring_ok_def)
  have room: "ring_dist ?q (traceQOut c) (traceQIn c) + 5 < length ?q" using assms roomQ_dist by fastforce
  obtain q1 j where e: "add_events 5 d t (?q, traceQIn c) = Inr (q1, j)" "length q1 = length ?q" "j < length ?q"
    using add_events_total [OF oi(2)] by blast
  have "live q1 (traceQOut c) j = live ?q (traceQOut c) (traceQIn c) @ new_events 5 d t"
    using oi room e(1) by (intro add_events_live)
  moreover have "live q1 (traceQIn c) j = live ?q (traceQIn c) (traceQIn c) @ new_events 5 d t"
    using oi room e(1) by (intro add_events_live) (simp_all add: ring_dist_def)
  ultimately show ?thesis using e oi by (auto simp: add_five_def ring_ok_def waiting_def live_def)
qed

lemma addQ_total:
  assumes "ring_ok c"
  shows "\<exists>rc c1. addQ d t c = Inr (rc, c1) \<and> ring_ok c1 \<and> traceQOut c1 = traceQOut c \<and> rc \<in> {DQERR_OK, DQERR_ERR} \<and>
    waiting c1 = waiting c @ (if rc = DQERR_OK then new_events 5 d t else []) \<and>
    (length (waiting c) + 7 \<le> length (caTraceQ c) \<longrightarrow> rc = DQERR_OK)"
proof (cases "roomQ c < 5")
  case True
  obtain c1 where c1: "packQ c = Inr c1" "ring_ok c1" "waiting c1 = waiting c" "traceQOut c1 = traceQOut c"
      "roomQ c1 \<ge> int (length (caTraceQ c)) - 2 - int (length (waiting c))"
    using packQ_packs [OF assms] by blast
  show ?thesis
  proof (cases "roomQ c1 < 5")
    case full: True
    then show ?thesis using True c1 by (simp add: addQ_def)
  next
    case False
    then show ?thesis using True c1 add_five_appends [OF c1(2), of d t] by (auto simp: addQ_def)
  qed
next
  case False
  then show ?thesis using add_five_appends [OF assms, of d t] by (auto simp: addQ_def)
qed

text \<open>
  C21. The ring is a queue of events: adding a word of five cycles appends its events, each with its cycle,
  behind those that wait, which keep their order and their content even when the ring has to be packed
  for that. It is refused only if fewer than seven items of the ring are free of waiting events, and
  then nothing is lost.
\<close>

theorem addQ_appends:
  assumes "ring_ok c"
  shows "\<exists>rc c1. addQ d t c = Inr (rc, c1) \<and> ring_ok c1 \<and> rc \<in> {DQERR_OK, DQERR_ERR} \<and>
    waiting c1 = waiting c @ (if rc = DQERR_OK then new_events 5 d t else []) \<and>
    (length (waiting c) + 7 \<le> length (caTraceQ c) \<longrightarrow> rc = DQERR_OK)"
  using addQ_total [OF assms] by blast

text \<open>A ring of eight items that is full of empty ones but for two, so that it has to be packed.\<close>

definition sample_item :: "u32 \<Rightarrow> u8 \<Rightarrow> CATraceQItem" where
  "sample_item t rec = \<lparr>q_cycle = t, q_record = rec, q_qDepth = 0, q_arithInProcess = 0, q_loadInProcess = 0, q_storeInProcess = 0\<rparr>"

definition sample_ring :: CATrace where
  "sample_ring = undefined\<lparr>traceQOut := 0, traceQIn := 7, ca_status := DQERR_OK,
     caTraceQ := [sample_item 0 0, sample_item 1 8, sample_item 2 0, sample_item 3 0, sample_item 4 0, sample_item 5 0, sample_item 6 0,
       sample_item 7 0, sample_item 8 0]\<rparr>"

theorem addQ_appends_witness:
  "ring_ok sample_ring \<and> (\<exists>c1. addQ 0x20000001 9 sample_ring = Inr (DQERR_OK, c1) \<and>
     waiting c1 = [sample_item 1 8, sample_item 9 0x20, sample_item 13 1])"
proof -
  have ok: "ring_ok sample_ring" by (simp add: ring_ok_def sample_ring_def)
  have w: "waiting sample_ring = [sample_item 1 8]"
    by (simp add: waiting_def live_def sample_ring_def poss.simps ring_next_def empty_item_def sample_item_def)
  have n: "new_events 5 0x20000001 9 = [sample_item 9 0x20, sample_item 13 1]" by code_simp
  have l: "length (caTraceQ sample_ring) = 9" by (simp add: sample_ring_def)
  show ?thesis using addQ_appends [OF ok, of "0x20000001" 9] w n l ok by auto
qed

text \<open>
  The start of the new events, which \<^verbatim>\<open>parseNextVectorRecord\<close> takes from the ring before it adds them, is
  right as long as nothing has to be packed. After packing the events are somewhere else: the ring ends
  at another position, and that is where they begin.
\<close>

theorem start_of_new_events:
  assumes "ring_ok c" and "addQ d t c = Inr (DQERR_OK, c1)"
  shows "if roomQ c \<ge> 5 then live (caTraceQ c1) (traceQIn c) (traceQIn c1) = new_events 5 d t
    else (\<exists>c2. packQ c = Inr c2 \<and> traceQIn c2 \<noteq> traceQIn c \<and> live (caTraceQ c1) (traceQIn c2) (traceQIn c1) = new_events 5 d t)"
proof (cases "roomQ c \<ge> 5")
  case True
  then show ?thesis using assms add_five_appends [OF assms(1) True, of d t] by (auto simp: addQ_def)
next
  case False
  obtain c2 where c2: "packQ c = Inr c2" "ring_ok c2" "traceQOut c2 = traceQOut c" "length (caTraceQ c2) = length (caTraceQ c)"
    using packQ_packs [OF assms(1)] by blast
  have room: "roomQ c2 \<ge> 5" using assms(2) False c2(1) by (auto simp: addQ_def split: if_splits)
  then have "traceQIn c2 \<noteq> traceQIn c" using False c2(3,4) by (auto simp: roomQ_def split: if_splits)
  moreover have "add_five d t c2 = Inr (DQERR_OK, c1)" using assms(2) False c2(1) room by (simp add: addQ_def)
  ultimately show ?thesis using False c2(1) add_five_appends [OF c2(2) room, of d t] by auto
qed

theorem start_of_new_events_witness:
  "\<exists>c1 c2. addQ 0x20000001 9 sample_ring = Inr (DQERR_OK, c1) \<and> packQ sample_ring = Inr c2 \<and> traceQIn c2 \<noteq> traceQIn sample_ring \<and>
     live (caTraceQ c1) (traceQIn c2) (traceQIn c1) = new_events 5 0x20000001 9"
proof -
  have ok: "ring_ok sample_ring" by (simp add: ring_ok_def sample_ring_def)
  have w: "length (waiting sample_ring) = 1"
    by (simp add: waiting_def live_def sample_ring_def poss.simps ring_next_def empty_item_def sample_item_def)
  have l: "length (caTraceQ sample_ring) = 9" by (simp add: sample_ring_def)
  have room: "\<not> roomQ sample_ring \<ge> 5" by (simp add: roomQ_def sample_ring_def)
  obtain c1 where c1: "addQ 0x20000001 9 sample_ring = Inr (DQERR_OK, c1)"
    using addQ_total [OF ok, of "0x20000001" 9] w l by auto
  show ?thesis using start_of_new_events [OF ok c1] room c1 by auto
qed

end
