(* ===== verification/Properties.thy ===== *)
theory Properties
  imports Dqr_Types "HOL-Library.Char_ord"
begin

text \<open>
  \<^verbatim>\<open>class propertiesParser\<close> (src/trace.cpp, include/trace.hpp): reads a file of lines \<open>name = value\<close>. Names and
  values are pointers into the buffer of the file, which the parser cuts up by writing zeros, so the
  model keeps the buffer and positions in it.
\<close>

abbreviation NUL :: char where "NUL \<equiv> CHR 0x00"
abbreviation TAB :: char where "TAB \<equiv> CHR 0x09"
abbreviation LF :: char where "LF \<equiv> CHR 0x0A"
abbreviation CR :: char where "CR \<equiv> CHR 0x0D"

text \<open>The string at a position of the buffer.\<close>

definition cstr :: "string \<Rightarrow> nat \<Rightarrow> string" where
  "cstr b i = takeWhile (\<lambda>c. c \<noteq> NUL) (drop i b)"

definition read_char :: "string \<Rightarrow> nat \<Rightarrow> char outcome" where
  "read_char b i = (if i < length b then Inr (b ! i) else Inl UB)"

record pline =
  line_at :: "nat option"
  line_name :: "nat option"
  line_value :: "nat option"

record propertiesParser =
  pp_status :: DQErr
  pp_lines :: "pline list option"
  nextLine :: nat
  propertiesBuff :: string

definition numLines :: "propertiesParser \<Rightarrow> nat" where
  "numLines p = (case pp_lines p of None \<Rightarrow> 0 | Some ls \<Rightarrow> length ls)"

section \<open>Reading the file\<close>

fun count_lines :: "string \<Rightarrow> nat" where
  "count_lines [] = 0"
| "count_lines [c] = 1"
| "count_lines (c # cs) = (if c = LF then 1 else 0) + count_lines cs"

text \<open>The starts of lines from position \<open>i\<close> on, and the characters with line ends taken out; \<open>s\<close> says a line starts.\<close>

fun find_lines :: "bool \<Rightarrow> nat \<Rightarrow> string \<Rightarrow> nat list \<times> string" where
  "find_lines s i [] = ([], [])"
| "find_lines s i (c # cs) =
     (let (ls, bs) = find_lines (c = LF) (i + 1) cs in
      ((if s then [i] else []) @ ls, (if c = CR \<or> c = LF then NUL else c) # bs))"

text \<open>A file that can be opened has a size, which may be negative for an error, and what is read of it.\<close>

definition propertiesParser_new :: "(string \<Rightarrow> (int \<times> string) option) \<Rightarrow> string option \<Rightarrow> propertiesParser" where
  "propertiesParser_new files srcData =
     (let p = \<lparr>pp_status = DQERR_OK, pp_lines = None, nextLine = 0, propertiesBuff = []\<rparr> in
      case srcData of
        None \<Rightarrow> p
      | Some name \<Rightarrow> (case files name of
            None \<Rightarrow> p\<lparr>pp_status := DQERR_OPEN\<rparr>
          | Some (sz, bs) \<Rightarrow>
              if sz < 0 \<or> int (length bs) \<noteq> sz then p\<lparr>pp_status := DQERR_OPEN\<rparr>
              else let (starts, b) = find_lines True 0 bs in
                if length starts \<noteq> count_lines bs then p\<lparr>pp_status := DQERR_ERR\<rparr>
                else p\<lparr>propertiesBuff := b @ [NUL],
                  pp_lines := Some (map (\<lambda>i. \<lparr>line_at = Some i, line_name = None, line_value = None\<rparr>) starts)\<rparr>))"

definition properties_rewind :: "propertiesParser \<Rightarrow> propertiesParser" where
  "properties_rewind p = p\<lparr>nextLine := 0\<rparr>"

section \<open>Tokens\<close>

function skip_blanks :: "string \<Rightarrow> nat \<Rightarrow> nat outcome" where
  "skip_blanks b i =
     (case read_char b i of
        Inl e \<Rightarrow> Inl e
      | Inr c \<Rightarrow> if c = TAB \<or> c = CHR '' '' then skip_blanks b (i + 1) else Inr i)"
  by pat_completeness auto

termination
  by (relation "measure (\<lambda>(b, i). length b - i)") (auto simp: read_char_def split: if_splits)

declare skip_blanks.simps [simp del]

text \<open>The end of a token that starts at \<open>s\<close>; an equals sign is a token of its own.\<close>

definition ends_token :: "char \<Rightarrow> bool" where
  "ends_token c \<longleftrightarrow> c \<in> {CHR '' '', CHR ''#'', NUL, LF, CR}"

function token_end :: "string \<Rightarrow> nat \<Rightarrow> nat \<Rightarrow> nat outcome" where
  "token_end b s i =
     (case read_char b i of
        Inl e \<Rightarrow> Inl e
      | Inr c \<Rightarrow>
          if ends_token c then Inr i
          else if c = CHR ''='' then Inr (if s = i then i + 1 else i)
          else token_end b s (i + 1))"
  by pat_completeness auto

termination
  by (relation "measure (\<lambda>(b, s, i). length b - i)") (auto simp: read_char_def split: if_splits)

declare token_end.simps [simp del]

text \<open>Indexes are relative to the line.\<close>

definition getNextToken :: "string \<Rightarrow> nat option \<Rightarrow> nat \<Rightarrow> nat \<Rightarrow> (DQErr \<times> nat \<times> nat) outcome" where
  "getNextToken b inputText startIndex endIndex =
     (case inputText of
        None \<Rightarrow> Inr (DQERR_ERR, startIndex, endIndex)
      | Some l \<Rightarrow>
          (case skip_blanks b (l + startIndex) of
             Inl e \<Rightarrow> Inl e
           | Inr s \<Rightarrow>
               (case read_char b s of
                  Inl e \<Rightarrow> Inl e
                | Inr c \<Rightarrow>
                    if c \<in> {CHR ''#'', NUL, LF, CR} then Inr (DQERR_OK, s - l, s - l)
                    else map_sum id (\<lambda>e. (DQERR_OK, s - l, e - l)) (token_end b s s))))"

section \<open>Properties\<close>

text \<open>The search for a line with a name; the indexes are those of the line before.\<close>

function find_name :: "string \<Rightarrow> pline list \<Rightarrow> nat \<Rightarrow> nat \<Rightarrow> nat \<Rightarrow> (DQErr \<times> nat \<times> nat \<times> nat) outcome" where
  "find_name b ls n nameStart nameEnd =
     (if n \<ge> length ls then Inl UB
      else case getNextToken b (line_at (ls ! n)) nameStart nameEnd of
        Inl e \<Rightarrow> Inl e
      | Inr (rc, s, e) \<Rightarrow>
          if rc \<noteq> DQERR_OK then Inr (rc, n, s, e)
          else if s = e then if n + 1 < length ls then find_name b ls (n + 1) s e else Inr (DQERR_OK, n + 1, s, e)
          else Inr (DQERR_OK, n, s, e))"
  by pat_completeness auto

termination
  by (relation "measure (\<lambda>(b, ls, n, _, _). length ls - n)") auto

declare find_name.simps [simp del]

type_synonym property_result = "(DQErr \<times> (nat \<times> nat) option \<times> propertiesParser) outcome"

definition bad_line :: "DQErr \<Rightarrow> propertiesParser \<Rightarrow> property_result" where
  "bad_line rc p = Inr (rc, None, p\<lparr>pp_status := rc\<rparr>)"

text \<open>The line has a name and a value: both are ended by a zero and kept.\<close>

definition take_property :: "nat \<Rightarrow> nat \<Rightarrow> nat \<Rightarrow> nat \<Rightarrow> nat \<Rightarrow> pline list \<Rightarrow> propertiesParser \<Rightarrow> property_result" where
  "take_property l nameStart nameEnd valueStart valueEnd ls p =
     (let n = nextLine p; name = l + nameStart; value = l + valueStart in
      Inr (DQERR_OK, Some (name, value),
        p\<lparr>propertiesBuff := (propertiesBuff p)[l + nameEnd := NUL, l + valueEnd := NUL],
          pp_lines := Some (ls[n := (ls ! n)\<lparr>line_name := Some name, line_value := Some value\<rparr>]),
          nextLine := n + 1\<rparr>))"

definition value_of_line :: "nat \<Rightarrow> nat \<Rightarrow> nat \<Rightarrow> nat \<Rightarrow> pline list \<Rightarrow> propertiesParser \<Rightarrow> property_result" where
  "value_of_line l nameStart nameEnd eqEnd ls p =
     (case getNextToken (propertiesBuff p) (Some l) eqEnd eqEnd of
        Inl e \<Rightarrow> Inl e
      | Inr (rc, valueStart, valueEnd) \<Rightarrow>
          if rc \<noteq> DQERR_OK then bad_line rc p
          else if int valueStart - int valueEnd = 1 \<and> propertiesBuff p ! (l + nameStart) = CHR ''='' then bad_line DQERR_ERR p
          else take_property l nameStart nameEnd valueStart valueEnd ls p)"

definition rest_of_line :: "nat \<Rightarrow> nat \<Rightarrow> nat \<Rightarrow> pline list \<Rightarrow> propertiesParser \<Rightarrow> property_result" where
  "rest_of_line l nameStart nameEnd ls p =
     (if int nameStart - int nameEnd = 1 \<and> propertiesBuff p ! (l + nameStart) = CHR ''='' then bad_line DQERR_ERR p
      else case getNextToken (propertiesBuff p) (Some l) nameEnd nameEnd of
        Inl e \<Rightarrow> Inl e
      | Inr (rc, eqStart, eqEnd) \<Rightarrow>
          if rc \<noteq> DQERR_OK then bad_line rc p
          else if eqStart = eqEnd \<or> int eqEnd - int eqStart \<noteq> 1 then bad_line DQERR_ERR p
          else (case read_char (propertiesBuff p) (l + eqStart) of
              Inl e \<Rightarrow> Inl e
            | Inr c \<Rightarrow> if c \<noteq> CHR ''='' then bad_line DQERR_ERR p else value_of_line l nameStart nameEnd eqEnd ls p))"

definition getNextProperty :: "propertiesParser \<Rightarrow> property_result" where
  "getNextProperty p =
     (if pp_status p \<noteq> DQERR_OK then Inr (pp_status p, None, p)
      else case pp_lines p of
        None \<Rightarrow> bad_line DQERR_EOF p
      | Some ls \<Rightarrow>
          if nextLine p \<ge> length ls then Inr (DQERR_EOF, None, p)
          else (case (line_name (ls ! nextLine p), line_value (ls ! nextLine p)) of
              (Some name, Some value) \<Rightarrow> Inr (DQERR_OK, Some (name, value), p\<lparr>nextLine := nextLine p + 1\<rparr>)
            | _ \<Rightarrow>
                (case find_name (propertiesBuff p) ls (nextLine p) 0 0 of
                   Inl e \<Rightarrow> Inl e
                 | Inr (rc, n, s, e) \<Rightarrow>
                     let p1 = p\<lparr>nextLine := n\<rparr> in
                     if rc \<noteq> DQERR_OK then bad_line rc p1
                     else if n \<ge> length ls then Inr (DQERR_EOF, None, p1)
                     else (case line_at (ls ! n) of
                         None \<Rightarrow> bad_line DQERR_ERR p1
                       | Some l \<Rightarrow> rest_of_line l s e ls p1))))"

lemma find_name_advances: "find_name b ls n s e = Inr (rc, n1, s1, e1) \<Longrightarrow> n \<le> n1"
proof (induction b ls n s e rule: find_name.induct)
  case (1 b ls n s e)
  then show ?case by (subst (asm) (2) find_name.simps) (fastforce split: if_splits sum.splits prod.splits)
qed

lemma getNextProperty_advances:
  assumes "getNextProperty p = Inr (DQERR_OK, x, p1)"
  shows "nextLine p < nextLine p1 \<and> nextLine p1 \<le> numLines p1 \<and> numLines p1 = numLines p"
proof -
  obtain ls where ls: "pp_lines p = Some ls" "nextLine p < length ls" "pp_status p = DQERR_OK"
    using assms by (auto simp: getNextProperty_def bad_line_def not_le split: if_splits option.splits)
  show ?thesis
  proof (cases "line_name (ls ! nextLine p) \<noteq> None \<and> line_value (ls ! nextLine p) \<noteq> None")
    case True
    then show ?thesis using assms ls by (auto simp: getNextProperty_def numLines_def)
  next
    case False
    then obtain rc n s e where f: "find_name (propertiesBuff p) ls (nextLine p) 0 0 = Inr (rc, n, s, e)"
      using assms ls by (auto simp: getNextProperty_def split: option.splits sum.splits)
    then show ?thesis using assms ls False find_name_advances [OF f]
      by (auto simp: getNextProperty_def bad_line_def rest_of_line_def value_of_line_def take_property_def numLines_def Let_def
          split: if_splits option.splits sum.splits prod.splits)
  qed
qed

end
