(* ===== verification/Settings.thy ===== *)
theory Settings
  imports Properties Ca_Trace
begin

text \<open>
  \<^verbatim>\<open>class TraceSettings\<close> (src/trace.cpp, include/trace.hpp): the settings of a trace, set from the properties
  of a file one by one. \<^verbatim>\<open>strtol\<close> and \<^verbatim>\<open>strcasecmp\<close> are those of the C library on a machine with 64 bit
  \<^verbatim>\<open>long\<close>, in the C locale.
\<close>

section \<open>The C library\<close>

definition lower :: "char \<Rightarrow> nat" where
  "lower c = (let n = of_char c in if 0x41 \<le> n \<and> n \<le> 0x5A then n + 0x20 else n)"

definition strcasecmp_eq :: "string \<Rightarrow> string \<Rightarrow> bool" where
  "strcasecmp_eq s t \<longleftrightarrow> map lower s = map lower t"

definition space_char :: "char \<Rightarrow> bool" where
  "space_char c \<longleftrightarrow> c = CHR '' '' \<or> (let n = (of_char c :: nat) in 9 \<le> n \<and> n \<le> 13)"

definition digit_val :: "char \<Rightarrow> nat" where
  "digit_val c =
     (let n = lower c in
      if 0x30 \<le> n \<and> n \<le> 0x39 then n - 0x30 else if 0x61 \<le> n \<and> n \<le> 0x7A then n - 0x61 + 10 else 99)"

definition number_of :: "nat \<Rightarrow> string \<Rightarrow> nat" where
  "number_of base ds = foldl (\<lambda>v c. v * base + digit_val c) 0 ds"

text \<open>The base of a number and the characters of its prefix.\<close>

definition number_base :: "nat \<Rightarrow> string \<Rightarrow> nat \<times> nat" where
  "number_base base s =
     (if base \<noteq> 0 then (base, 0)
      else case s of
        CHR ''0'' # x # d # _ \<Rightarrow> if lower x = 0x78 \<and> digit_val d < 16 then (16, 2) else (8, 0)
      | CHR ''0'' # _ \<Rightarrow> (8, 0)
      | _ \<Rightarrow> (10, 0))"

text \<open>The value, and how many characters were taken: none if there is no number.\<close>

definition strtol :: "nat \<Rightarrow> string \<Rightarrow> int \<times> nat" where
  "strtol base s =
     (let ws = length (takeWhile space_char s); s1 = drop ws s;
          sign = (case s1 of c # _ \<Rightarrow> if c = CHR ''-'' \<or> c = CHR ''+'' then 1 else 0 | [] \<Rightarrow> 0);
          neg = (sign = 1 \<and> hd s1 = CHR ''-''); s2 = drop sign s1;
          (b, pre) = number_base base s2;
          ds = takeWhile (\<lambda>c. digit_val c < b) (drop pre s2);
          v = (if neg then - int (number_of b ds) else int (number_of b ds)) in
      if ds = [] then (0, 0) else (max (- (2 ^ 63)) (min (2 ^ 63 - 1) v), ws + sign + pre + length ds))"

section \<open>The settings\<close>

datatype pathType = PATH_RAW | PATH_TO_WINDOWS | PATH_TO_UNIX

definition opt_print :: int where "opt_print = 1"
definition opt_nls :: int where "opt_nls = 2"
definition ADDRDISP_WIDTHAUTO :: u32 where "ADDRDISP_WIDTHAUTO = 1"

record TraceSettings =
  tolerateErrors :: bool
  odName :: "string option"
  tfName :: "string option"
  efName :: "string option"
  vdsoName :: "string option"
  caName :: "string option"
  pfName :: "string option"
  mfNameList :: "string option"
  pids :: "string option"
  tType :: TraceType
  set_caType :: CATraceType
  set_srcBits :: int
  archSize :: int
  numAddrBits :: int
  set_itcPrintOpts :: int
  itcPrintBufferSize :: int
  set_itcPrintChannel :: int
  cutPath :: "string option"
  srcRoot :: "string option"
  pathType_of :: pathType
  freq :: u32
  addrDispFlags :: u32
  startTime :: int
  tsSize :: int
  CTFConversion :: bool
  eventConversionEnable :: bool
  hostName :: "string option"
  set_filterControlEvents :: bool
  kmemPath :: "string option"
  itcPerfEnable :: bool
  itcPerfChannel :: int
  itcPerfMarkerValue :: u32

definition TraceSettings_new :: TraceSettings where
  "TraceSettings_new = \<lparr>tolerateErrors = False, odName = None, tfName = None, efName = None, vdsoName = None, caName = None,
     pfName = None, mfNameList = None, pids = None, tType = TRACETYPE_unknown, set_caType = CATRACE_NONE, set_srcBits = 0,
     archSize = 0, numAddrBits = 0, set_itcPrintOpts = opt_nls, itcPrintBufferSize = 4096, set_itcPrintChannel = 0,
     cutPath = None, srcRoot = None, pathType_of = PATH_TO_UNIX, freq = 0, addrDispFlags = 0, startTime = -1, tsSize = 40,
     CTFConversion = False, eventConversionEnable = False, hostName = None, set_filterControlEvents = False, kmemPath = None,
     itcPerfEnable = False, itcPerfChannel = 6, itcPerfMarkerValue = 0x70657266\<rparr>"

text \<open>A setter of a property: the value is a string or a null pointer.\<close>

type_synonym setter = "string option \<Rightarrow> TraceSettings \<Rightarrow> DQErr \<times> TraceSettings"

definition set_string :: "(string option \<Rightarrow> TraceSettings \<Rightarrow> TraceSettings) \<Rightarrow> setter" where
  "set_string upd v t = (case v of None \<Rightarrow> (DQERR_OK, t) | Some s \<Rightarrow> (DQERR_OK, upd (Some s) t))"

definition set_nonempty :: "(string \<Rightarrow> TraceSettings \<Rightarrow> DQErr \<times> TraceSettings) \<Rightarrow> setter" where
  "set_nonempty f v t = (case v of None \<Rightarrow> (DQERR_OK, t) | Some s \<Rightarrow> if s = [] then (DQERR_OK, t) else f s t)"

text \<open>A number is assigned before it is known whether there was one.\<close>

definition set_number :: "(int \<Rightarrow> TraceSettings \<Rightarrow> TraceSettings) \<Rightarrow> setter" where
  "set_number upd = set_nonempty (\<lambda>s t. case strtol 0 s of (n, k) \<Rightarrow> (if k = 0 then DQERR_ERR else DQERR_OK, upd n t))"

definition propertyToObjdumpName :: setter where "propertyToObjdumpName = set_string (\<lambda>v t. t\<lparr>odName := v\<rparr>)"
definition propertyToKMemPath :: setter where "propertyToKMemPath = set_string (\<lambda>v t. t\<lparr>kmemPath := v\<rparr>)"
definition propertyToTFName :: setter where "propertyToTFName = set_string (\<lambda>v t. t\<lparr>tfName := v\<rparr>)"
definition propertyToPFName :: setter where "propertyToPFName = set_string (\<lambda>v t. t\<lparr>pfName := v\<rparr>)"
definition propertyToPids :: setter where "propertyToPids = set_string (\<lambda>v t. t\<lparr>pids := v\<rparr>)"
definition propertyToSrcRoot :: setter where "propertyToSrcRoot = set_string (\<lambda>v t. t\<lparr>srcRoot := v\<rparr>)"
definition propertyToSrcCutPath :: setter where "propertyToSrcCutPath = set_string (\<lambda>v t. t\<lparr>cutPath := v\<rparr>)"
definition propertyToCAName :: setter where "propertyToCAName = set_string (\<lambda>v t. t\<lparr>caName := v\<rparr>)"
definition propertyToVDSOName :: setter where "propertyToVDSOName = set_nonempty (\<lambda>s t. (DQERR_OK, t\<lparr>vdsoName := Some s\<rparr>))"
definition propertyToHostName :: setter where "propertyToHostName = set_nonempty (\<lambda>s t. (DQERR_OK, t\<lparr>hostName := Some s\<rparr>))"

definition propertyToEFName :: setter where
  "propertyToEFName = set_nonempty (\<lambda>s t. if mfNameList t \<noteq> None then (DQERR_ERR, t) else (DQERR_OK, t\<lparr>efName := Some s\<rparr>))"

definition propertyToMFName :: setter where
  "propertyToMFName v t =
     (case v of None \<Rightarrow> (DQERR_OK, t)
      | Some s \<Rightarrow> if efName t \<noteq> None then (DQERR_ERR, t) else (DQERR_OK, t\<lparr>mfNameList := Some s\<rparr>))"

text \<open>Numbers are converted from \<^verbatim>\<open>long\<close> to the type of the setting.\<close>

definition propertyToArchSize :: setter where "propertyToArchSize = set_number (\<lambda>n t. t\<lparr>archSize := s32 n\<rparr>)"
definition propertyToSrcBits :: setter where "propertyToSrcBits = set_number (\<lambda>n t. t\<lparr>set_srcBits := s32 n\<rparr>)"
definition propertyToNumAddrBits :: setter where "propertyToNumAddrBits = set_number (\<lambda>n t. t\<lparr>numAddrBits := s32 n\<rparr>)"
definition propertyToITCPrintChannel :: setter where "propertyToITCPrintChannel = set_number (\<lambda>n t. t\<lparr>set_itcPrintChannel := s32 n\<rparr>)"
definition propertyToITCPrintBufferSize :: setter where "propertyToITCPrintBufferSize = set_number (\<lambda>n t. t\<lparr>itcPrintBufferSize := s32 n\<rparr>)"
definition propertyToITCPerfChannel :: setter where "propertyToITCPerfChannel = set_number (\<lambda>n t. t\<lparr>itcPerfChannel := s32 n\<rparr>)"
definition propertyToITCPerfMarkerValue :: setter where "propertyToITCPerfMarkerValue = set_number (\<lambda>n t. t\<lparr>itcPerfMarkerValue := word_of_int n\<rparr>)"
definition propertyToFreq :: setter where "propertyToFreq = set_number (\<lambda>n t. t\<lparr>freq := word_of_int n\<rparr>)"
definition propertyToStartTime :: setter where "propertyToStartTime = set_number (\<lambda>n t. t\<lparr>startTime := n\<rparr>)"
definition propertyToTSSize :: setter where "propertyToTSSize = set_number (\<lambda>n t. t\<lparr>tsSize := s32 n\<rparr>)"

definition propertyToTraceType :: setter where
  "propertyToTraceType = set_nonempty (\<lambda>s t. (DQERR_OK, t\<lparr>tType :=
     (if strcasecmp_eq s ''teInstNone'' then TRACETYPE_unknown
      else if strcasecmp_eq s ''teInstEvent'' then TRACETYPE_EVENT
      else if strcasecmp_eq s ''teInstPath'' then TRACETYPE_PATH
      else if strcasecmp_eq s ''teInstBTMSync'' then TRACETYPE_BTM
      else if strcasecmp_eq s ''teInstHTMSyncNoOpt'' then TRACETYPE_HTMNOOPT
      else if strcasecmp_eq s ''teInstHTMSync'' then TRACETYPE_HTM
      else TRACETYPE_unknown)\<rparr>))"

definition propertyToAddrDispFlags :: setter where
  "propertyToAddrDispFlags = set_nonempty (\<lambda>s t0.
     let t = t0\<lparr>addrDispFlags := 0\<rparr>; (n, k) = strtol 10 s; l = s32 n; checked = (\<lambda>t. (if l < 32 \<or> l > 64 then DQERR_ERR else DQERR_OK, t)) in
     if k = length s then checked (t\<lparr>numAddrBits := l, addrDispFlags := addrDispFlags t AND NOT ADDRDISP_WIDTHAUTO\<rparr>)
     else if s ! k = CHR ''+'' then checked (t\<lparr>numAddrBits := l, addrDispFlags := addrDispFlags t OR ADDRDISP_WIDTHAUTO\<rparr>)
     else (DQERR_ERR, t))"

text \<open>The truth value is assigned even when the text is no number.\<close>

definition propertyToBool :: "string option \<Rightarrow> DQErr \<times> bool" where
  "propertyToBool src =
     (case src of None \<Rightarrow> (DQERR_OK, False)
      | Some s \<Rightarrow>
          if s = [] then (DQERR_OK, False)
          else if strcasecmp_eq ''true'' s then (DQERR_OK, True)
          else if strcasecmp_eq ''false'' s then (DQERR_OK, False)
          else case strtol 0 s of (n, k) \<Rightarrow> (if k = 0 then DQERR_ERR else DQERR_OK, n \<noteq> 0))"

definition set_bool :: "(bool \<Rightarrow> TraceSettings \<Rightarrow> TraceSettings) \<Rightarrow> setter" where
  "set_bool upd v t = (case propertyToBool v of (rc, b) \<Rightarrow> (rc, upd b t))"

definition set_bool_ok :: "(bool \<Rightarrow> TraceSettings \<Rightarrow> TraceSettings) \<Rightarrow> setter" where
  "set_bool_ok upd v t = (case propertyToBool v of (rc, b) \<Rightarrow> if rc \<noteq> DQERR_OK then (rc, t) else (DQERR_OK, upd b t))"

definition propertyToCTFEnable :: setter where "propertyToCTFEnable = set_bool (\<lambda>b t. t\<lparr>CTFConversion := b\<rparr>)"
definition propertyToEventConversionEnable :: setter where "propertyToEventConversionEnable = set_bool (\<lambda>b t. t\<lparr>eventConversionEnable := b\<rparr>)"
definition propertyToTolerateErrors :: setter where "propertyToTolerateErrors = set_bool_ok (\<lambda>b t. t\<lparr>tolerateErrors := b\<rparr>)"
definition propertyToITCPerfEnable :: setter where "propertyToITCPerfEnable = set_bool_ok (\<lambda>b t. t\<lparr>itcPerfEnable := b\<rparr>)"

definition propertyToITCPrintOpts :: setter where
  "propertyToITCPrintOpts = set_bool_ok (\<lambda>b t. t\<lparr>set_itcPrintOpts := (if b then opt_print OR opt_nls else opt_nls)\<rparr>)"

definition propertyToCAType :: setter where
  "propertyToCAType = set_nonempty (\<lambda>s t.
     if strcasecmp_eq s ''none'' \<or> strcasecmp_eq s ''catrace_none'' then (DQERR_OK, t\<lparr>set_caType := CATRACE_NONE\<rparr>)
     else if strcasecmp_eq s ''vector'' \<or> strcasecmp_eq s ''catrace_vector'' then (DQERR_OK, t\<lparr>set_caType := CATRACE_VECTOR\<rparr>)
     else if strcasecmp_eq s ''instruction'' \<or> strcasecmp_eq s ''catrace_instruction'' then (DQERR_OK, t\<lparr>set_caType := CATRACE_INSTRUCTION\<rparr>)
     else (DQERR_ERR, t))"

definition propertyToPathType :: setter where
  "propertyToPathType = set_nonempty (\<lambda>s t.
     if strcasecmp_eq ''unix'' s then (DQERR_OK, t\<lparr>pathType_of := PATH_TO_UNIX\<rparr>)
     else if strcasecmp_eq ''windows'' s then (DQERR_OK, t\<lparr>pathType_of := PATH_TO_WINDOWS\<rparr>)
     else if strcasecmp_eq ''raw'' s then (DQERR_OK, t\<lparr>pathType_of := PATH_RAW\<rparr>)
     else (DQERR_ERR, t))"

section \<open>Settings from a file\<close>

text \<open>The setters by name, in the order of the code.\<close>

definition first_setters :: "(string \<times> setter) list" where
  "first_setters =
     [(''tolerateErrors'', propertyToTolerateErrors), (''rtd'', propertyToTFName), (''elf'', propertyToEFName),
      (''vdso'', propertyToVDSOName), (''pcd'', propertyToPFName), (''pids'', propertyToPids), (''map'', propertyToMFName),
      (''srcbits'', propertyToSrcBits), (''addrbits'', propertyToNumAddrBits),
      (''trace.config.boolean.enable.itc.print.processing'', propertyToITCPrintOpts),
      (''trace.config.int.itc.print.channel'', propertyToITCPrintChannel),
      (''trace.config.int.itc.print.buffersize'', propertyToITCPrintBufferSize),
      (''trace.config.int.itc.perf'', propertyToITCPerfEnable), (''trace.config.int.itc.perf.channel'', propertyToITCPerfChannel),
      (''trace.config.int.itc.perf.marker'', propertyToITCPerfMarkerValue), (''source.root'', propertyToSrcRoot),
      (''source.cutpath'', propertyToSrcCutPath), (''caFile'', propertyToCAName), (''caType'', propertyToCAType)]"

definition more_setters :: "(string \<times> setter) list" where
  "more_setters =
     [(''TSSize'', propertyToTSSize), (''pathType'', propertyToPathType), (''freq'', propertyToFreq),
      (''ctfenable'', propertyToCTFEnable), (''eventConversionEnable'', propertyToEventConversionEnable),
      (''addressdisplayflags'', propertyToAddrDispFlags), (''starttime'', propertyToStartTime), (''hostname'', propertyToHostName),
      (''objdump'', propertyToObjdumpName), (''kmempath'', propertyToKMemPath), (''archsize'', propertyToArchSize),
      (''teinstruction'', propertyToTraceType)]"

definition setters :: "(string \<times> setter) list" where
  "setters = first_setters @ more_setters"

definition set_property :: "string \<Rightarrow> setter" where
  "set_property name = (case find (\<lambda>(n, f). strcasecmp_eq n name) setters of Some (n, f) \<Rightarrow> f | None \<Rightarrow> (\<lambda>v t. (DQERR_OK, t)))"

text \<open>The loop over the properties: \<open>Inl\<close> is an early return, \<open>Inr\<close> the code that ended the loop.\<close>

function property_loop :: "propertiesParser \<Rightarrow> TraceSettings \<Rightarrow> ((DQErr + DQErr) \<times> TraceSettings \<times> propertiesParser) outcome" where
  "property_loop p t =
     (case getNextProperty p of
        Inl e \<Rightarrow> Inl e
      | Inr (rc, nv, p1) \<Rightarrow>
          if rc \<noteq> DQERR_OK then Inr (Inr rc, t, p1)
          else (case nv of None \<Rightarrow> Inl UB
              | Some (name, value) \<Rightarrow>
                  (case set_property (cstr (propertiesBuff p1) name) (Some (cstr (propertiesBuff p1) value)) t of (rc, t1) \<Rightarrow>
                     if rc \<noteq> DQERR_OK then Inr (Inl rc, t1, p1) else property_loop p1 t1)))"
  by pat_completeness auto

termination
  by (relation "measure (\<lambda>(p, t). numLines p - nextLine p)") (auto dest!: getNextProperty_advances)

declare property_loop.simps [simp del]

definition check_settings :: "DQErr \<Rightarrow> TraceSettings \<Rightarrow> DQErr" where
  "check_settings rc t =
     (if itcPerfEnable t \<and> set_itcPrintOpts t AND opt_print \<noteq> 0 \<and> set_itcPrintChannel t = itcPerfChannel t then DQERR_ERR
      else if rc \<noteq> DQERR_EOF then DQERR_ERR else DQERR_OK)"

definition addSettings :: "propertiesParser \<Rightarrow> TraceSettings \<Rightarrow> (DQErr \<times> TraceSettings \<times> propertiesParser) outcome" where
  "addSettings p t =
     map_sum id (\<lambda>(rc, t1, p1). (case rc of Inl e \<Rightarrow> e | Inr e \<Rightarrow> check_settings e t1, t1, p1)) (property_loop (properties_rewind p) t)"

end
