(* ===== verification/Settings_Text.thy ===== *)
theory Settings_Text
  imports Settings
begin

text \<open>
  What the parser of properties files promises: the properties of a file are read in order and applied to
  the settings one by one; and the lines that it gets wrong.
\<close>

section \<open>Lines of a properties file\<close>

definition blank :: "char \<Rightarrow> bool" where
  "blank c \<longleftrightarrow> c = CHR '' '' \<or> c = TAB"

definition plain :: "char \<Rightarrow> bool" where
  "plain c \<longleftrightarrow> \<not> ends_token c \<and> c \<noteq> CHR ''=''"

definition ends_line :: "char \<Rightarrow> bool" where
  "ends_line c \<longleftrightarrow> c \<in> {CHR ''#'', NUL, CR}"

text \<open>
  A line is empty or a comment, or a property: blanks, the name, blanks, an equals sign, blanks, the value, and
  what follows it. The blanks after the name start with a space, because a tab is part of the name.
\<close>

datatype sline = Blank string | Property string string string string string string

fun line_text :: "sline \<Rightarrow> string" where
  "line_text (Blank l) = l"
| "line_text (Property a name b c val rest) = a @ name @ b @ [CHR ''=''] @ c @ val @ rest"

definition word :: "string \<Rightarrow> bool" where
  "word w \<longleftrightarrow> w \<noteq> [] \<and> \<not> blank (hd w) \<and> (\<forall>c \<in> set w. plain c)"

fun line_ok :: "sline \<Rightarrow> bool" where
  "line_ok (Blank l) \<longleftrightarrow> LF \<notin> set l \<and> (l = [] \<or> ends_line (hd l))"
| "line_ok (Property a name b c val rest) \<longleftrightarrow>
     (\<forall>x \<in> set (a @ b @ c). blank x) \<and> word name \<and> (b = [] \<or> hd b = CHR '' '') \<and> LF \<notin> set rest \<and>
     (val = [] \<and> (rest = [] \<or> ends_line (hd rest)) \<or>
      word val \<and> (rest = [] \<or> ends_token (hd rest) \<or> hd rest = CHR ''=''))"

fun line_props :: "sline list \<Rightarrow> (string \<times> string) list" where
  "line_props [] = []"
| "line_props (Blank l # ls) = line_props ls"
| "line_props (Property a name b c val rest # ls) = (name, val) # line_props ls"

text \<open>The last line may have no line end; then it is not empty.\<close>

definition file_text :: "sline list \<Rightarrow> bool \<Rightarrow> string" where
  "file_text ls nl = (let t = concat (map (\<lambda>l. line_text l @ [LF]) ls) in if nl then t else butlast t)"

section \<open>Tokens\<close>

lemma read_char_at: "read_char (u @ c # v) (length u) = Inr c"
  by (simp add: read_char_def)

lemma skip_blanks_run:
  "\<forall>x \<in> set ws. blank x \<Longrightarrow> \<not> blank c \<Longrightarrow> skip_blanks (u @ ws @ c # v) (length u) = Inr (length u + length ws)"
proof (induction ws arbitrary: u)
  case Nil
  then show ?case by (subst skip_blanks.simps) (auto simp: read_char_at blank_def)
next
  case (Cons x ws)
  have "skip_blanks (u @ (x # ws) @ c # v) (length u) = skip_blanks ((u @ [x]) @ ws @ c # v) (length (u @ [x]))"
    using Cons.prems(1) by (subst skip_blanks.simps) (auto simp: read_char_def nth_append blank_def)
  then show ?case using Cons.IH [of "u @ [x]"] Cons.prems by simp
qed

lemma token_end_run:
  "\<forall>x \<in> set w. plain x \<Longrightarrow> ends_token c \<or> c = CHR ''='' \<Longrightarrow> s < length u \<or> s = length u \<and> w \<noteq> [] \<Longrightarrow>
   token_end (u @ w @ c # v) s (length u) = Inr (length u + length w)"
proof (induction w arbitrary: u)
  case Nil
  then show ?case by (subst token_end.simps) (auto simp: read_char_at)
next
  case (Cons x w)
  have "token_end (u @ (x # w) @ c # v) s (length u) = token_end ((u @ [x]) @ w @ c # v) s (length (u @ [x]))"
    using Cons.prems(1) by (subst token_end.simps) (auto simp: read_char_def nth_append plain_def)
  then show ?case using Cons.IH [of "u @ [x]"] Cons.prems by auto
qed

text \<open>A token behind the part \<open>x\<close> of a line that starts at \<open>pre\<close>.\<close>

lemma ends_line_simps: "ends_line c \<Longrightarrow> c = CHR ''#'' \<or> c = NUL \<or> c = CR" "ends_line NUL" "ends_line c \<Longrightarrow> \<not> blank c"
  by (auto simp: ends_line_def blank_def)

lemma token_word:
  assumes "\<forall>x \<in> set ws. blank x" "word w" "ends_token c \<or> c = CHR ''=''"
  shows "getNextToken (pre @ x @ ws @ w @ c # v) (Some (length pre)) (length x) e0 =
    Inr (DQERR_OK, length x + length ws, length x + length ws + length w)"
proof -
  obtain d w1 where w: "w = d # w1" "\<not> blank d" "plain d" using assms(2) by (cases w) (auto simp: word_def)
  let ?B = "pre @ x @ ws @ w @ c # v"
  have "skip_blanks ?B (length (pre @ x)) = Inr (length (pre @ x) + length ws)"
    using skip_blanks_run [OF assms(1) w(2), of "pre @ x" "w1 @ c # v"] w(1) by simp
  moreover have "read_char ?B (length pre + length x + length ws) = Inr d"
    using read_char_at [of "pre @ x @ ws" d "w1 @ c # v"] w(1) by (simp add: add.assoc)
  moreover have "token_end ?B (length pre + length x + length ws) (length (pre @ x @ ws)) = Inr (length (pre @ x @ ws) + length w)"
    using token_end_run [of w c "length (pre @ x @ ws)" "pre @ x @ ws" v] assms(2,3) w(1) by (simp add: word_def add.assoc)
  moreover have "d \<notin> {CHR ''#'', NUL, LF, CR}" using w(3) by (auto simp: plain_def ends_token_def)
  ultimately show ?thesis by (simp add: getNextToken_def add.assoc)
qed

lemma token_equals:
  assumes "\<forall>x \<in> set ws. blank x"
  shows "getNextToken (pre @ x @ ws @ CHR ''='' # v) (Some (length pre)) (length x) e0 =
    Inr (DQERR_OK, length x + length ws, length x + length ws + 1)"
proof -
  let ?B = "pre @ x @ ws @ CHR ''='' # v" and ?s = "length pre + (length x + length ws)"
  have "skip_blanks ?B (length (pre @ x)) = Inr (length (pre @ x) + length ws)"
    using skip_blanks_run [OF assms, of "CHR ''=''" "pre @ x" v] by (simp add: blank_def)
  moreover have r: "read_char ?B ?s = Inr (CHR ''='')"
    using read_char_at [of "pre @ x @ ws" "CHR ''=''" v] by simp
  moreover have "token_end ?B ?s ?s = Inr (?s + 1)" using r by (subst token_end.simps) (simp add: ends_token_def)
  ultimately show ?thesis by (simp add: getNextToken_def add.assoc)
qed

lemma token_none:
  assumes "\<forall>x \<in> set ws. blank x" "ends_line c"
  shows "getNextToken (pre @ x @ ws @ c # v) (Some (length pre)) (length x) e0 =
    Inr (DQERR_OK, length x + length ws, length x + length ws)"
proof -
  let ?B = "pre @ x @ ws @ c # v" and ?s = "length pre + (length x + length ws)"
  have "skip_blanks ?B (length (pre @ x)) = Inr (length (pre @ x) + length ws)"
    using skip_blanks_run [OF assms(1) ends_line_simps(3) [OF assms(2)], of "pre @ x" v] by simp
  moreover have "read_char ?B ?s = Inr c" using read_char_at [of "pre @ x @ ws" c v] by simp
  ultimately show ?thesis using ends_line_simps(1) [OF assms(2)] by (auto simp: getNextToken_def add.assoc)
qed

section \<open>The buffer\<close>

definition strip :: "string \<Rightarrow> string" where
  "strip = map (\<lambda>c. if c = CR \<or> c = LF then NUL else c)"

definition buffer_of :: "sline list \<Rightarrow> string" where
  "buffer_of ls = concat (map (\<lambda>l. strip (line_text l) @ [NUL]) ls)"

fun starts :: "nat \<Rightarrow> sline list \<Rightarrow> nat list" where
  "starts i [] = []"
| "starts i (l # ls) = i # starts (i + length (line_text l) + 1) ls"

lemma find_lines_line: "LF \<notin> set l \<Longrightarrow> find_lines s i (l @ LF # t) =
    (case find_lines True (i + length l + 1) t of (ls, bs) \<Rightarrow> ((if s then [i] else []) @ ls, strip l @ NUL # bs))"
proof (induction l arbitrary: i s)
  case (Cons c l)
  then show ?case by (auto simp: strip_def split: prod.split)
qed (simp add: strip_def split: prod.split)

lemma find_lines_last: "LF \<notin> set l \<Longrightarrow> l \<noteq> [] \<Longrightarrow> find_lines s i l = (if s then [i] else [], strip l)"
proof (induction l arbitrary: i s)
  case (Cons c l)
  then show ?case by (cases "l = []") (auto simp: strip_def)
qed simp

lemma count_lines_line: "LF \<notin> set l \<Longrightarrow> count_lines (l @ LF # t) = Suc (count_lines t)"
proof (induction l)
  case Nil
  then show ?case by (cases t) simp_all
next
  case (Cons c l)
  then have "c \<noteq> LF" by auto
  then show ?case using Cons by (cases "l @ LF # t") simp_all
qed

lemma count_lines_last: "LF \<notin> set l \<Longrightarrow> l \<noteq> [] \<Longrightarrow> count_lines l = 1"
proof (induction l)
  case (Cons c l)
  then show ?case by (cases l) auto
qed simp

lemma line_ok_no_LF: "line_ok l \<Longrightarrow> LF \<notin> set (line_text l)"
proof (cases l)
  case (Property a name b c val rest)
  have "blank x \<Longrightarrow> x \<noteq> LF" "plain x \<Longrightarrow> x \<noteq> LF" for x by (auto simp: blank_def plain_def ends_token_def)
  then show "line_ok l \<Longrightarrow> ?thesis" unfolding Property line_ok.simps line_text.simps word_def by fastforce
qed simp

lemma file_lines:
  "\<forall>l \<in> set ls. line_ok l \<Longrightarrow> ls \<noteq> [] \<Longrightarrow> nl \<or> line_text (last ls) \<noteq> [] \<Longrightarrow>
   find_lines True i (file_text ls nl) = (starts i ls, if nl then buffer_of ls else butlast (buffer_of ls)) \<and>
   count_lines (file_text ls nl) = length ls"
proof (induction ls arbitrary: i)
  case (Cons l ls)
  have lf: "LF \<notin> set (line_text l)" using Cons.prems(1) line_ok_no_LF by simp
  show ?case
  proof (cases "ls = []")
    case True
    then show ?thesis using lf Cons.prems(3) find_lines_line [OF lf, of True i "[]"] count_lines_line [OF lf, of "[]"]
        find_lines_last [OF lf] count_lines_last [OF lf]
      by (auto simp: file_text_def buffer_of_def)
  next
    case False
    have t: "file_text (l # ls) nl = line_text l @ LF # file_text ls nl"
      using False by (cases ls) (auto simp: file_text_def Let_def butlast_append)
    have b: "buffer_of (l # ls) = strip (line_text l) @ NUL # buffer_of ls" by (simp add: buffer_of_def)
    have "buffer_of ls \<noteq> []" using False by (cases ls) (simp_all add: buffer_of_def)
    then have bl: "butlast (buffer_of (l # ls)) = strip (line_text l) @ NUL # butlast (buffer_of ls)" by (simp add: b butlast_append)
    show ?thesis using Cons.IH [of "i + length (line_text l) + 1"] Cons.prems False b bl
      by (simp add: t find_lines_line [OF lf] count_lines_line [OF lf])
  qed
qed simp

section \<open>A line with a property\<close>

lemma strip_simps [simp]: "strip (u @ v) = strip u @ strip v" "length (strip u) = length u" "strip [] = []" "strip (CHR ''='' # u) = CHR ''='' # strip u"
  by (simp_all add: strip_def)

lemma strip_same: "CR \<notin> set u \<Longrightarrow> LF \<notin> set u \<Longrightarrow> strip u = u"
  by (induction u) (auto simp: strip_def)

lemma not_blank: "\<not> blank CR" "\<not> blank LF" "\<not> plain CR" "\<not> plain LF"
  by (simp_all add: blank_def plain_def ends_token_def)

lemma strip_blanks: "\<forall>x \<in> set u. blank x \<Longrightarrow> strip u = u"
  using not_blank by (intro strip_same) blast+

lemma strip_plain: "\<forall>x \<in> set u. plain x \<Longrightarrow> strip u = u"
  using not_blank by (intro strip_same) blast+

lemma strip_word: "word w \<Longrightarrow> strip w = w"
  by (simp add: word_def strip_plain)

lemma strip_first: "strip rest @ NUL # suf = t # ts \<Longrightarrow> t = NUL \<or> rest \<noteq> [] \<and> t = hd rest"
  by (cases rest) (simp_all add: strip_def split: if_splits)

lemma NUL_ends: "ends_token NUL" "ends_line NUL"
  by (simp_all add: ends_token_def ends_line_def)

lemma ends_strip: "rest = [] \<or> ends_token (hd rest) \<or> hd rest = CHR ''='' \<Longrightarrow> strip rest @ NUL # suf = t # ts \<Longrightarrow> ends_token t \<or> t = CHR ''=''"
  using strip_first [of rest suf t ts] NUL_ends(1) by metis

lemma ends_line_strip: "rest = [] \<or> ends_line (hd rest) \<Longrightarrow> strip rest @ NUL # suf = t # ts \<Longrightarrow> ends_line t"
  using strip_first [of rest suf t ts] NUL_ends(2) by metis

lemma update_two: "i < length u \<Longrightarrow> j < length u \<Longrightarrow> (u @ v)[i := x, j := y] = u[i := x, j := y] @ v"
  by (simp add: list_update_append1)

lemma cstr_update: "\<forall>x \<in> set w. x \<noteq> NUL \<Longrightarrow> cstr (u @ w @ NUL # v) (length u) = w"
  by (simp add: cstr_def)

lemma word_not_NUL: "word w \<Longrightarrow> \<forall>x \<in> set w. x \<noteq> NUL"
  by (auto simp: word_def plain_def ends_token_def)

text \<open>The three tokens of the line, at the indexes where they are.\<close>

lemma property_tokens:
  fixes pre suf :: string
  assumes ok: "line_ok (Property a name b c val rest)"
  defines "B \<equiv> pre @ strip (line_text (Property a name b c val rest)) @ NUL # suf"
    and "s \<equiv> length a" and "e \<equiv> length a + length name" and "q \<equiv> length a + length name + length b"
    and "vs \<equiv> length a + length name + length b + 1 + length c"
  shows "getNextToken B (Some (length pre)) 0 0 = Inr (DQERR_OK, s, e)"
    and "getNextToken B (Some (length pre)) e e = Inr (DQERR_OK, q, q + 1)"
    and "getNextToken B (Some (length pre)) (q + 1) (q + 1) = Inr (DQERR_OK, vs, vs + length val)"
    and "read_char B (length pre + q) = Inr (CHR ''='')"
proof -
  have bl: "\<forall>x \<in> set a. blank x" "\<forall>x \<in> set b. blank x" "\<forall>x \<in> set c. blank x" and nm: "word name"
    using ok by simp_all
  obtain t ts where t: "strip rest @ NUL # suf = t # ts" by (cases "strip rest @ NUL # suf") auto
  have sv: "strip val = val" using ok by (auto simp: strip_word)
  have B: "B = pre @ a @ name @ b @ CHR ''='' # c @ val @ t # ts"
    using t sv by (simp add: B_def strip_blanks [OF bl(1)] strip_blanks [OF bl(2)] strip_blanks [OF bl(3)] strip_word [OF nm])
  obtain d ds where d: "b @ CHR ''='' # c @ val @ t # ts = d # ds" "ends_token d \<or> d = CHR ''=''"
    using ok by (cases b) (auto simp: ends_token_def)
  show "getNextToken B (Some (length pre)) 0 0 = Inr (DQERR_OK, s, e)"
    using token_word [OF bl(1) nm d(2), of pre "[]" ds 0] by (simp add: B d(1) s_def e_def)
  show "getNextToken B (Some (length pre)) e e = Inr (DQERR_OK, q, q + 1)"
    using token_equals [OF bl(2), of pre "a @ name" "c @ val @ t # ts" e] by (simp add: B e_def q_def add.assoc)
  show "read_char B (length pre + q) = Inr (CHR ''='')"
    using read_char_at [of "pre @ a @ name @ b" "CHR ''=''" "c @ val @ t # ts"] by (simp add: B q_def add.assoc)
  let ?x = "a @ name @ b @ [CHR ''='']"
  show "getNextToken B (Some (length pre)) (q + 1) (q + 1) = Inr (DQERR_OK, vs, vs + length val)"
  proof (cases "val = []")
    case True
    then have "ends_line t" using ok ends_line_strip [OF _ t] by (auto simp: word_def)
    from token_none [OF bl(3) this, of pre ?x ts "q + 1"] True show ?thesis by (simp add: B q_def vs_def add.assoc)
  next
    case False
    then have "word val" "ends_token t \<or> t = CHR ''=''" using ok ends_strip [OF _ t] by auto
    from token_word [OF bl(3) this, of pre ?x ts "q + 1"] show ?thesis by (simp add: B q_def vs_def add.assoc)
  qed
qed

text \<open>Ending name and value leaves them as strings, and does not touch what follows the line.\<close>

lemma property_cut:
  fixes pre suf :: string
  assumes ok: "line_ok (Property a name b c val rest)"
  defines "B \<equiv> pre @ strip (line_text (Property a name b c val rest)) @ NUL # suf"
    and "e \<equiv> length a + length name" and "vs \<equiv> length a + length name + length b + 1 + length c"
  defines "C \<equiv> B[length pre + e := NUL, length pre + (vs + length val) := NUL]"
  shows "cstr C (length pre + length a) = name" and "cstr C (length pre + vs) = val"
    and "\<exists>pre1. C = pre1 @ suf \<and> length pre1 = length pre + length (line_text (Property a name b c val rest)) + 1"
proof -
  have bl: "\<forall>x \<in> set a. blank x" "\<forall>x \<in> set b. blank x" "\<forall>x \<in> set c. blank x" and nm: "word name"
    using ok by simp_all
  obtain t ts where t: "strip rest @ NUL # suf = t # ts" by (cases "strip rest @ NUL # suf") auto
  have sv: "strip val = val" using ok by (auto simp: strip_word)
  have B: "B = pre @ a @ name @ b @ CHR ''='' # c @ val @ t # ts"
    using t sv by (simp add: B_def strip_blanks [OF bl(1)] strip_blanks [OF bl(2)] strip_blanks [OF bl(3)] strip_word [OF nm])
  obtain d ds where d: "b @ CHR ''='' # c = d # ds" by (cases "b @ CHR ''='' # c") auto
  have "length (d # ds) = length b + 1 + length c" unfolding d [symmetric] by simp
  then have dl: "length ds = length b + length c" by simp
  have "B = (pre @ a @ name) @ d # ds @ val @ t # ts" using d by (simp add: B)
  then have "B[length pre + e := NUL] = (pre @ a @ name) @ NUL # ds @ val @ t # ts"
    using list_update_length [of "pre @ a @ name" d "ds @ val @ t # ts" NUL] by (simp add: e_def add.assoc)
  moreover have "length pre + (vs + length val) = length (pre @ a @ name @ NUL # ds @ val)" by (simp add: vs_def dl)
  ultimately have C: "C = (pre @ a @ name @ NUL # ds @ val) @ NUL # ts"
    using list_update_length [of "pre @ a @ name @ NUL # ds @ val" t ts NUL] unfolding C_def by (simp only: append_assoc append_Cons)
  show "cstr C (length pre + length a) = name"
    using cstr_update [OF word_not_NUL [OF nm], of "pre @ a" "ds @ val @ NUL # ts"] by (simp add: C)
  have "\<forall>x \<in> set val. x \<noteq> NUL" using ok word_not_NUL [of val] by auto
  from cstr_update [OF this, of "pre @ a @ name @ NUL # ds" ts]
  show "cstr C (length pre + vs) = val" by (simp add: C vs_def dl add.assoc)
  let ?u = "pre @ strip (line_text (Property a name b c val rest)) @ [NUL]"
  have "B = ?u @ suf" by (simp add: B_def)
  then have "C = ?u[length pre + e := NUL, length pre + (vs + length val) := NUL] @ suf"
    unfolding C_def by (simp only:) (rule update_two; simp add: e_def vs_def)
  then show "\<exists>pre1. C = pre1 @ suf \<and> length pre1 = length pre + length (line_text (Property a name b c val rest)) + 1"
    by (intro exI [of _ "?u[length pre + e := NUL, length pre + (vs + length val) := NUL]"]) (simp del: line_text.simps)
qed

section \<open>The parser\<close>

text \<open>The parser stands before the lines \<open>ls\<close>: their text is in the buffer, and none has been parsed.\<close>

definition before :: "sline list \<Rightarrow> propertiesParser \<Rightarrow> bool" where
  "before ls p \<longleftrightarrow> pp_status p = DQERR_OK \<and> (\<exists>L pre x. pp_lines p = Some L \<and> propertiesBuff p = pre @ buffer_of ls @ x \<and>
     length L = nextLine p + length ls \<and> map line_at (drop (nextLine p) L) = map Some (starts (length pre) ls) \<and>
     (\<forall>q \<in> set (drop (nextLine p) L). line_name q = None))"

lemma length_starts [simp]: "length (starts i ls) = length ls"
  by (induction ls arbitrary: i) simp_all

lemma starts_append: "starts i (bs @ ls) = starts i bs @ starts (i + length (buffer_of bs)) ls"
  by (induction bs arbitrary: i) (simp_all add: buffer_of_def add.assoc)

lemma buffer_simps [simp]: "buffer_of [] = []" "buffer_of (l # ls) = strip (line_text l) @ NUL # buffer_of ls"
    "buffer_of (us @ ls) = buffer_of us @ buffer_of ls"
  by (simp_all add: buffer_of_def)

text \<open>Lines without a property are passed; the indexes stay at zero because they start with no blanks.\<close>

lemma find_name_blanks:
  "\<forall>l \<in> set bs. line_ok l \<and> (\<exists>t. l = Blank t) \<Longrightarrow> length L = n + length bs + length ls \<Longrightarrow>
   map line_at (drop n L) = map Some (starts (length pre) (bs @ ls)) \<Longrightarrow> bs @ ls \<noteq> [] \<Longrightarrow>
   find_name (pre @ buffer_of bs @ v) L n 0 0 =
     (if ls = [] then Inr (DQERR_OK, length L, 0, 0) else find_name (pre @ buffer_of bs @ v) L (n + length bs) 0 0)"
proof (induction bs arbitrary: n pre)
  case (Cons l bs)
  obtain t where l: "l = Blank t" using Cons.prems(1) by auto
  let ?B = "pre @ buffer_of (l # bs) @ v"
  have n: "n < length L" using Cons.prems(2) by simp
  have dr: "drop n L = L ! n # drop (n + 1) L" using Cons_nth_drop_Suc [OF n] by simp
  have la: "line_at (L ! n) = Some (length pre)" and rest: "map line_at (drop (n + 1) L) = map Some (starts (length pre + length t + 1) (bs @ ls))"
    using Cons.prems(3) unfolding dr l by simp_all
  obtain c cs where c: "strip t @ NUL # buffer_of bs @ v = c # cs" "ends_line c"
    using Cons.prems(1) l ends_line_strip [of t "buffer_of bs @ v"] by (cases "strip t @ NUL # buffer_of bs @ v") auto
  have "?B = pre @ [] @ [] @ c # cs" using c(1) by (simp add: l)
  then have tok: "getNextToken ?B (Some (length pre)) 0 0 = Inr (DQERR_OK, 0, 0)"
    using token_none [of "[]" c pre "[]" cs 0] c(2) by simp
  have step: "find_name ?B L n 0 0 = (if n + 1 < length L then find_name ?B L (n + 1) 0 0 else Inr (DQERR_OK, n + 1, 0, 0))"
    using n tok la by (subst find_name.simps) simp
  show ?case
  proof (cases "bs @ ls = []")
    case True
    then show ?thesis using step Cons.prems(2) by simp
  next
    case False
    let ?pre = "pre @ strip t @ [NUL]"
    have "find_name (?pre @ buffer_of bs @ v) L (n + 1) 0 0 =
        (if ls = [] then Inr (DQERR_OK, length L, 0, 0) else find_name (?pre @ buffer_of bs @ v) L (n + 1 + length bs) 0 0)"
      using Cons.prems(1,2) rest False by (intro Cons.IH) simp_all
    moreover have "n + 1 < length L" using Cons.prems(2) False by (cases bs; cases ls) auto
    ultimately show ?thesis using step by (simp add: l)
  qed
qed simp

lemma split_lines:
  obtains (none) "line_props ls = []" "\<forall>l \<in> set ls. \<exists>t. l = Blank t"
  | (some) bs a name b c val rest ls1 where "ls = bs @ Property a name b c val rest # ls1" "\<forall>l \<in> set bs. \<exists>t. l = Blank t"
      "line_props ls = (name, val) # line_props ls1"
proof (induction ls arbitrary: thesis)
  case (Cons l ls)
  show ?case
  proof (cases l)
    case (Blank t)
    show ?thesis
    proof (rule Cons.IH)
      assume "line_props ls = []" "\<forall>l \<in> set ls. \<exists>t. l = Blank t"
      then show thesis using Cons.prems(1) Blank by simp
    next
      fix bs a name b c val rest ls1
      assume "ls = bs @ Property a name b c val rest # ls1" "\<forall>l \<in> set bs. \<exists>t. l = Blank t" "line_props ls = (name, val) # line_props ls1"
      then show thesis using Cons.prems(2) [of "l # bs" a name b c val rest ls1] Blank by simp
    qed
  next
    case (Property a name b c val rest)
    then show ?thesis using Cons.prems(2) [of "[]" a name b c val rest ls] by simp
  qed
qed simp

lemma next_property:
  assumes ok: "\<forall>l \<in> set ls. line_ok l" and p: "before ls p"
  shows "case line_props ls of
      [] \<Rightarrow> \<exists>p1. getNextProperty p = Inr (DQERR_EOF, None, p1)
    | (nm, v) # ps \<Rightarrow> \<exists>i j p1 ls1. getNextProperty p = Inr (DQERR_OK, Some (i, j), p1) \<and> cstr (propertiesBuff p1) i = nm \<and>
        cstr (propertiesBuff p1) j = v \<and> before ls1 p1 \<and> line_props ls1 = ps \<and> set ls1 \<subseteq> set ls"
proof -
  let ?n = "nextLine p"
  obtain L pre x where L: "pp_status p = DQERR_OK" "pp_lines p = Some L" "propertiesBuff p = pre @ buffer_of ls @ x"
      "length L = ?n + length ls" "map line_at (drop ?n L) = map Some (starts (length pre) ls)"
      "\<forall>q \<in> set (drop ?n L). line_name q = None"
    using p by (auto simp: before_def)
  have fresh: "ls \<noteq> [] \<Longrightarrow> line_name (L ! ?n) = None"
    using L(4,6) nth_mem [of 0 "drop ?n L"] by (cases ls) (auto simp: hd_drop_conv_nth)
  show ?thesis
  proof (cases rule: split_lines [of ls])
    case none
    show ?thesis
    proof (cases "ls = []")
      case True
      then show ?thesis using L none by (simp add: getNextProperty_def)
    next
      case False
      have "find_name (propertiesBuff p) L ?n 0 0 = Inr (DQERR_OK, length L, 0, 0)"
        using find_name_blanks [of ls L ?n "[]" pre x] ok none(2) L False by simp
      then show ?thesis using L none(1) False fresh by (simp add: getNextProperty_def Let_def)
    qed
  next
    case (some bs a name b c val rest ls1)
    let ?P = "Property a name b c val rest" and ?m = "?n + length bs" and ?pre = "pre @ buffer_of bs"
    have okP: "line_ok ?P" using ok some(1) by simp
    let ?suf = "buffer_of ls1 @ x"
    have B: "propertiesBuff p = ?pre @ strip (line_text ?P) @ NUL # ?suf" using L(3) some(1) by (simp del: line_text.simps)
    have m: "?m < length L" using L(4) some(1) by simp
    have "map line_at (drop ?m L) = map Some (starts (length ?pre) (?P # ls1))"
      using arg_cong [OF L(5), of "drop (length bs)"] some(1) by (simp add: drop_map starts_append add.commute del: line_text.simps)
    moreover have dm: "drop ?m L = L ! ?m # drop (?m + 1) L" using Cons_nth_drop_Suc [OF m] by simp
    ultimately have la: "line_at (L ! ?m) = Some (length ?pre)"
      and at: "map line_at (drop (?m + 1) L) = map Some (starts (length ?pre + length (line_text ?P) + 1) ls1)" by (simp_all del: line_text.simps)
    have names: "\<forall>q \<in> set (drop (?m + 1) L). line_name q = None"
      using L(6) set_drop_subset [of "length bs + 1" "drop ?n L"] by (auto simp: add.commute)
    note tok = property_tokens [OF okP, of ?pre ?suf, folded B] and cut = property_cut [OF okP, of ?pre ?suf, folded B]
    let ?s = "length a" and ?e = "length a + length name" and ?q = "length a + length name + length b"
    let ?vs = "length a + length name + length b + 1 + length c"
    have "name \<noteq> []" using okP by (simp add: word_def)
    then have "find_name (propertiesBuff p) L ?m 0 0 = Inr (DQERR_OK, ?m, ?s, ?e)"
      using tok(1) m la by (subst find_name.simps) simp
    moreover have "find_name (propertiesBuff p) L ?n 0 0 = find_name (propertiesBuff p) L ?m 0 0"
      using find_name_blanks [of bs L ?n "?P # ls1" pre "strip (line_text ?P) @ NUL # ?suf"] ok some(1,2) L B by (simp del: line_text.simps)
    ultimately have f: "find_name (propertiesBuff p) L ?n 0 0 = Inr (DQERR_OK, ?m, ?s, ?e)" by simp
    let ?C = "(propertiesBuff p)[length ?pre + ?e := NUL, length ?pre + (?vs + length val) := NUL]"
    let ?L = "L[?m := (L ! ?m)\<lparr>line_name := Some (length ?pre + ?s), line_value := Some (length ?pre + ?vs)\<rparr>]"
    let ?p1 = "p\<lparr>nextLine := ?m + 1, propertiesBuff := ?C, pp_lines := Some ?L\<rparr>"
    have "rest_of_line (length ?pre) ?s ?e L (p\<lparr>nextLine := ?m\<rparr>) =
        Inr (DQERR_OK, Some (length ?pre + ?s, length ?pre + ?vs), ?p1)"
      using tok(2-4) by (simp add: rest_of_line_def value_of_line_def take_property_def Let_def)
    then have g: "getNextProperty p = Inr (DQERR_OK, Some (length ?pre + ?s, length ?pre + ?vs), ?p1)"
      using L(1,2) f m la fresh some(1) by (simp add: getNextProperty_def Let_def L(4))
    obtain pre1 where pre1: "?C = pre1 @ ?suf" "length pre1 = length ?pre + length (line_text ?P) + 1" using cut(3) by blast
    have "before ls1 ?p1"
      unfolding before_def using L(1) pre1 at names L(4) some(1)
      by (intro conjI exI [of _ ?L] exI [of _ pre1] exI [of _ x]) (simp_all del: line_text.simps)
    moreover have "set ls1 \<subseteq> set ls" using some(1) by auto
    ultimately show ?thesis using g cut(1,2) unfolding some(3) by (auto simp del: line_text.simps)
  qed
qed

section \<open>Settings from a file\<close>

fun apply_props :: "(string \<times> string) list \<Rightarrow> TraceSettings \<Rightarrow> DQErr \<times> TraceSettings" where
  "apply_props [] t = (check_settings DQERR_EOF t, t)"
| "apply_props ((name, val) # ps) t =
     (case set_property name (Some val) t of (rc, t1) \<Rightarrow> if rc \<noteq> DQERR_OK then (rc, t1) else apply_props ps t1)"

lemma property_loop_applies:
  "\<forall>l \<in> set ls. line_ok l \<Longrightarrow> before ls p \<Longrightarrow> ps = line_props ls \<Longrightarrow>
   \<exists>r t1 p1. property_loop p t = Inr (r, t1, p1) \<and>
     (case r of Inl e \<Rightarrow> e | Inr e \<Rightarrow> check_settings e t1, t1) = apply_props ps t"
proof (induction ps arbitrary: ls p t)
  case Nil
  then obtain p1 where "getNextProperty p = Inr (DQERR_EOF, None, p1)" using next_property [OF Nil(1,2)] by (auto simp: Nil(3) [symmetric])
  then show ?case by (subst property_loop.simps) simp
next
  case (Cons x ps)
  obtain nm v where x: "x = (nm, v)" by (cases x)
  obtain i j p1 ls1 where g: "getNextProperty p = Inr (DQERR_OK, Some (i, j), p1)" "cstr (propertiesBuff p1) i = nm"
      "cstr (propertiesBuff p1) j = v" "before ls1 p1" "line_props ls1 = ps" "set ls1 \<subseteq> set ls"
    using next_property [OF Cons.prems(1,2)] unfolding Cons.prems(3) [symmetric] x by auto
  obtain rc t1 where r: "set_property nm (Some v) t = (rc, t1)" by fastforce
  have "\<forall>l \<in> set ls1. line_ok l" using Cons.prems(1) g(6) by auto
  from Cons.IH [OF this g(4) g(5) [symmetric], of t1] show ?case
    using g(1-3) r by (subst property_loop.simps) (auto simp: x)
qed

lemma buffer_last: "ls \<noteq> [] \<Longrightarrow> buffer_of ls = butlast (buffer_of ls) @ [NUL]"
proof (induction ls)
  case (Cons l ls)
  then show ?case by (cases "ls = []") (simp_all add: butlast_append del: line_text.simps)
qed simp

lemma new_before:
  assumes ok: "\<forall>l \<in> set ls. line_ok l" and last: "nl \<or> ls = [] \<or> line_text (last ls) \<noteq> []"
    and f: "files f = Some (int (length (file_text ls nl)), file_text ls nl)"
  shows "before ls (properties_rewind (propertiesParser_new files (Some f)))"
proof (cases "ls = []")
  case True
  then show ?thesis using f by (auto simp: propertiesParser_new_def before_def properties_rewind_def file_text_def)
next
  case False
  have fl: "find_lines True 0 (file_text ls nl) = (starts 0 ls, if nl then buffer_of ls else butlast (buffer_of ls))"
      "count_lines (file_text ls nl) = length ls"
    using file_lines [OF ok False, of nl 0] last False by auto
  have b: "(if nl then buffer_of ls else butlast (buffer_of ls)) @ [NUL] = [] @ buffer_of ls @ (if nl then [NUL] else [])"
    using buffer_last [OF False] by simp
  let ?L = "map (\<lambda>i. \<lparr>line_at = Some i, line_name = None, line_value = None\<rparr>) (starts 0 ls)"
  have "properties_rewind (propertiesParser_new files (Some f)) = \<lparr>pp_status = DQERR_OK, pp_lines = Some ?L, nextLine = 0,
      propertiesBuff = (if nl then buffer_of ls else butlast (buffer_of ls)) @ [NUL]\<rparr>"
    using f fl by (simp add: propertiesParser_new_def properties_rewind_def)
  then show ?thesis unfolding before_def
    by (intro conjI exI [of _ ?L] exI [of _ "[]"] exI [of _ "if nl then [NUL] else []"]) (simp_all only: b, auto)
qed


text \<open>The hypotheses hold for a comment, an indented property with a comment behind it, and a last line without end.\<close>

definition sample_lines :: "sline list" where
  "sample_lines = [Blank ''# settings'', Property '' '' ''SrcBits'' '' '' '' '' ''6'' '' # bits'', Property [] ''rtd'' [] [] ''a.rtd'' []]"


text \<open>
  C35. A line of blanks only, or an indented comment, damages the name on the next line: the search goes on
  there at the index where it stopped, so as many characters of the name are lost as there were blanks.
\<close>

theorem indented_line_cuts_next_name:
  assumes "\<forall>x \<in> set ws. blank x" and "word name" and "word (drop (length ws) name)" and "word val"
    and "files f = Some (int (length ws + length name + length val + 3), ws @ [LF] @ name @ [CHR ''=''] @ val @ [LF])"
  shows "\<exists>i j p. getNextProperty (propertiesParser_new files (Some f)) = Inr (DQERR_OK, Some (i, j), p) \<and>
    cstr (propertiesBuff p) i = drop (length ws) name \<and> cstr (propertiesBuff p) j = val"
proof -
  let ?k = "length ws" and ?t = "name @ [CHR ''=''] @ val"
  have lf: "LF \<notin> set ws" "LF \<notin> set ?t" using assms(1,2,4) not_blank by (auto simp: word_def)
  have st: "strip ws = ws" "strip ?t = ?t" using strip_blanks [OF assms(1)] strip_word [OF assms(2)] strip_word [OF assms(4)] by simp_all
  let ?B = "ws @ NUL # name @ CHR ''='' # val @ [NUL, NUL]"
  let ?L = "map (\<lambda>i. \<lparr>line_at = Some i, line_name = None, line_value = None\<rparr>) [0, ?k + 1]"
  let ?p = "\<lparr>pp_status = DQERR_OK, pp_lines = Some ?L, nextLine = 0, propertiesBuff = ?B\<rparr>"
  have fl: "find_lines True 0 (ws @ LF # ?t @ [LF]) = ([0, ?k + 1], ws @ NUL # ?t @ [NUL])" "count_lines (ws @ LF # ?t @ [LF]) = 2"
    using find_lines_line [OF lf(1), of True 0 "?t @ [LF]"] find_lines_line [OF lf(2), of True "?k + 1" "[]"] st
      count_lines_line [OF lf(1), of "?t @ [LF]"] count_lines_line [OF lf(2), of "[]"] by simp_all
  have new: "propertiesParser_new files (Some f) = ?p"
    using assms(5) fl by (simp add: propertiesParser_new_def Let_def)
  have t0: "getNextToken ?B (Some 0) 0 0 = Inr (DQERR_OK, ?k, ?k)"
    using token_none [OF assms(1) NUL_ends(2), of "[]" "[]" "name @ CHR ''='' # val @ [NUL, NUL]" 0] by simp
  have kl: "?k < length name" using assms(3) by (auto simp: word_def)
  let ?n1 = "take ?k name" and ?n2 = "drop ?k name" and ?pre = "ws @ [NUL]"
  have B: "?B = ?pre @ ?n1 @ [] @ ?n2 @ CHR ''='' # val @ [NUL, NUL]" by simp
  have l1: "length ?n1 = ?k" using kl by simp
  have t1: "getNextToken ?B (Some (?k + 1)) ?k ?k = Inr (DQERR_OK, ?k, length name)"
    using token_word [of "[]" ?n2 "CHR ''=''" ?pre ?n1 "val @ [NUL, NUL]" ?k] assms(3) kl unfolding B [symmetric] l1 by simp
  have t2: "getNextToken ?B (Some (?k + 1)) (length name) (length name) = Inr (DQERR_OK, length name, length name + 1)"
    using token_equals [of "[]" ?pre name "val @ [NUL, NUL]" "length name"] by simp
  have t3: "getNextToken ?B (Some (?k + 1)) (length name + 1) (length name + 1) = Inr (DQERR_OK, length name + 1, length name + 1 + length val)"
    using token_word [of "[]" val NUL ?pre "name @ [CHR ''='']" "[NUL]" "length name + 1"] assms(4) NUL_ends(1) by simp
  have t4: "read_char ?B (?k + 1 + length name) = Inr (CHR ''='')"
    using read_char_at [of "?pre @ name" "CHR ''=''" "val @ [NUL, NUL]"] by simp
  let ?C = "?B[?k + 1 + length name := NUL, ?k + 1 + (length name + 1 + length val) := NUL]"
  have "find_name ?B ?L 1 ?k ?k = Inr (DQERR_OK, 1, ?k, length name)"
    using t1 kl by (subst find_name.simps) simp
  then have f: "find_name ?B ?L 0 0 0 = Inr (DQERR_OK, 1, ?k, length name)"
    using t0 by (subst find_name.simps) simp
  have g: "\<exists>p. getNextProperty ?p = Inr (DQERR_OK, Some (?k + 1 + ?k, ?k + 1 + (length name + 1)), p) \<and> propertiesBuff p = ?C"
    using f t2 t3 t4 kl by (simp add: getNextProperty_def Let_def rest_of_line_def value_of_line_def take_property_def)
  have C: "?C = ?pre @ name @ NUL # val @ [NUL, NUL]"
    using list_update_length [of "?pre @ name" "CHR ''=''" "val @ [NUL, NUL]" NUL]
      list_update_length [of "?pre @ name @ NUL # val" NUL "[NUL]" NUL] by simp
  have "cstr ?C (?k + 1 + ?k) = ?n2"
    using cstr_update [OF word_not_NUL [OF assms(3)], of "?pre @ ?n1" "val @ [NUL, NUL]"] l1 unfolding C by (simp flip: append_assoc [of ?n1 ?n2])
  moreover have "cstr ?C (?k + 1 + (length name + 1)) = val"
    using cstr_update [OF word_not_NUL [OF assms(4)], of "?pre @ name @ [NUL]" "[NUL]"] unfolding C by simp
  ultimately show ?thesis using g unfolding new by metis
qed

theorem indented_line_cuts_next_name_witness:
  "\<exists>i j p. getNextProperty (propertiesParser_new (\<lambda>_. Some (12, ''  '' @ [LF] @ ''elfrtd=a'' @ [LF])) (Some ''f'')) = Inr (DQERR_OK, Some (i, j), p) \<and>
    cstr (propertiesBuff p) i = ''frtd'' \<and> cstr (propertiesBuff p) j = ''a''"
proof -
  have b: "\<forall>x \<in> set ''  ''. blank x" by (simp add: blank_def)
  have w: "word ''elfrtd''" "word (drop (length ''  '') ''elfrtd'')" "word ''a''"
    by (simp_all add: word_def blank_def plain_def ends_token_def)
  have f: "(\<lambda>_ :: string. Some (12 :: int, ''  '' @ [LF] @ ''elfrtd=a'' @ [LF])) ''f'' =
      Some (int (length ''  '' + length ''elfrtd'' + length ''a'' + 3), ''  '' @ [LF] @ ''elfrtd'' @ [CHR ''=''] @ ''a'' @ [LF])" by simp
  from indented_line_cuts_next_name [where files = "\<lambda>_. Some (12, ''  '' @ [LF] @ ''elfrtd=a'' @ [LF])" and f = "''f''", OF b w f] show ?thesis by simp
qed

end
