(* ===== verification/File_Reader.thy ===== *)
theory File_Reader
  imports Settings
begin

text \<open>
  The source files of the traced program: \<^verbatim>\<open>class fileReader\<close> and \<^verbatim>\<open>sanePath\<close> (src/dqr.cpp,
  include/trace.hpp). The files of the machine are the argument \<open>fs\<close>, which gives the bytes of a file
  that can be opened. A pointer to an element of the list of files is its number in the order they were
  read, and the list is searched from the newest.
\<close>

section \<open>Paths\<close>

definition is_slash :: "char \<Rightarrow> bool" where
  "is_slash c \<longleftrightarrow> c = CHR ''/'' \<or> c = CHR 0x5C"

definition is_letter :: "char \<Rightarrow> bool" where
  "is_letter c \<longleftrightarrow> (let n = (of_char c :: nat) in 0x61 \<le> n \<and> n \<le> 0x7A \<or> 0x41 \<le> n \<and> n \<le> 0x5A)"

definition ends_in :: "char \<Rightarrow> string \<Rightarrow> bool" where
  "ends_in sep dst \<longleftrightarrow> dst \<noteq> [] \<and> last dst = sep"

text \<open>Back to the separator before the last component, for \<open>/../\<close>.\<close>

definition parent_of :: "char \<Rightarrow> string \<Rightarrow> string" where
  "parent_of sep dst = rev (dropWhile (\<lambda>c. c \<noteq> sep) (rev (butlast dst)))"

fun sane_loop :: "char \<Rightarrow> string \<Rightarrow> string \<Rightarrow> string" where
  "sane_loop sep [] dst = dst"
| "sane_loop sep (c # src) dst =
     (if c = CHR '':'' then
        sane_loop sep src ((if dst \<noteq> [] \<and> is_letter (last dst) then [last dst] else dst) @ [c])
      else if is_slash c then
        (if ends_in sep dst then sane_loop sep src dst else sane_loop sep src (dst @ [sep]))
      else if c = CHR ''.'' then
        (if ends_in sep dst then
           (if src \<noteq> [] \<and> is_slash (src ! 0) then sane_loop sep (drop 1 src) dst
            else if length src > 1 \<and> src ! 0 = CHR ''.'' \<and> is_slash (src ! 1) then
              sane_loop sep (drop 2 src) (parent_of sep dst)
            else sane_loop sep src (dst @ [c]))
         else if dst = [] \<and> src \<noteq> [] \<and> is_slash (src ! 0) then sane_loop sep (drop 1 src) dst
         else sane_loop sep src (dst @ [c]))
      else sane_loop sep src (dst @ [c]))"

definition path_sep :: "pathType \<Rightarrow> char" where
  "path_sep pt = (if pt = PATH_TO_WINDOWS then CHR 0x5C else CHR ''/'')"

definition sanePath :: "pathType \<Rightarrow> string \<Rightarrow> string" where
  "sanePath pt src = (if pt = PATH_RAW then src else sane_loop (path_sep pt) src [])"

section \<open>The list of files\<close>

record fileList =
  fl_name :: string
  fl_cutPathIndex :: nat
  fl_funcs :: "string list"
  fl_lineCount :: nat
  fl_lines :: "string list option"

record fileReader =
  fr_cutPath :: "string option"
  fr_newRoot :: "string option"
  fr_lastFile :: "nat option"
  fr_files :: "fileList list"

definition fileReader_new :: fileReader where
  "fileReader_new = \<lparr>fr_cutPath = None, fr_newRoot = None, fr_lastFile = None, fr_files = []\<rparr>"

definition fileReader_subSrcPath :: "string option \<Rightarrow> string option \<Rightarrow> fileReader \<Rightarrow> fileReader" where
  "fileReader_subSrcPath cutp root fr = fr\<lparr>fr_cutPath := cutp, fr_newRoot := root\<rparr>"

text \<open>The drive designator of a path, none as \<open>NUL\<close>, and how many characters it takes.\<close>

definition drive_of :: "string \<Rightarrow> char \<times> nat" where
  "drive_of p =
     (case p of
        d # colon # _ \<Rightarrow>
          if colon = CHR '':'' \<and> is_letter d then
            (if (of_char d :: nat) \<ge> 0x61 then char_of ((0x41 :: nat) + (of_char d - 0x61)) else d, 2)
          else (NUL, 0)
      | _ \<Rightarrow> (NUL, 0))"

text \<open>How many characters of the file the rest of the cut path takes, if it matches to its end.\<close>

fun match_cut :: "string \<Rightarrow> string \<Rightarrow> nat option" where
  "match_cut [] file = Some 0"
| "match_cut (c # cutp) [] = None"
| "match_cut (c # cutp) (f # file) =
     (if c = f \<or> c = CHR ''/'' \<and> f = CHR 0x5C \<or> c = CHR 0x5C \<and> f = CHR ''/'' then
        map_option Suc (match_cut cutp file)
      else None)"

definition cut_match :: "string \<Rightarrow> string \<Rightarrow> nat option" where
  "cut_match cutp file =
     (case drive_of cutp of (cpDrive, ci) \<Rightarrow> case drive_of file of (fnDrive, fi) \<Rightarrow>
        if cpDrive = fnDrive \<or> cpDrive = NUL \<and> fnDrive = CHR ''C'' then
          map_option (\<lambda>n. fi + n) (match_cut (drop ci cutp) (drop fi file))
        else None)"

definition after_last_slash :: "string \<Rightarrow> string" where
  "after_last_slash file = rev (takeWhile (\<lambda>c. \<not> is_slash c) (rev file))"

text \<open>What was opened, and the index of the rest of the name.\<close>

definition open_source :: "(string \<Rightarrow> string option) \<Rightarrow> string \<Rightarrow> fileReader \<Rightarrow> string option \<times> nat" where
  "open_source fs file fr =
     (case fr_cutPath fr of
        Some (c # cutp) \<Rightarrow>
          (case cut_match (c # cutp) file of
             Some fi \<Rightarrow>
               (case fr_newRoot fr of
                  Some root \<Rightarrow> (fs (root @ drop fi file), fi)
                | None \<Rightarrow> (fs (drop fi file), fi))
           | None \<Rightarrow> (fs file, 0))
      | _ \<Rightarrow>
          (case fs file of
             Some text \<Rightarrow> (Some text, 0)
           | None \<Rightarrow>
               (if \<exists>c \<in> set file. is_slash c then fs (after_last_slash file) else None, 0)))"

text \<open>The number of pointers allocated, and where the lines start.\<close>

definition count_lines_of :: "string \<Rightarrow> nat" where
  "count_lines_of buffer =
     1 + length (filter (\<lambda>c. c = LF) buffer) + (if buffer \<noteq> [] \<and> last buffer \<noteq> LF then 1 else 0)"

fun line_starts :: "nat \<Rightarrow> bool \<Rightarrow> string \<Rightarrow> nat list" where
  "line_starts i s [] = []"
| "line_starts i s (c # cs) = (if s then [i] else []) @ line_starts (Suc i) (c = LF) cs"

definition strip_eol :: "char \<Rightarrow> char" where
  "strip_eol c = (if c = CR \<or> c = LF then NUL else c)"

definition lines_of :: "string \<Rightarrow> string list" where
  "lines_of buffer = map (cstr (map strip_eol buffer @ [NUL])) (line_starts 0 True buffer)"

definition readFile :: "(string \<Rightarrow> string option) \<Rightarrow> string \<Rightarrow> fileReader \<Rightarrow> nat option \<times> fileReader" where
  "readFile fs file fr =
     (case open_source fs file fr of (text, fi) \<Rightarrow>
        let fl = \<lparr>fl_name = file, fl_cutPathIndex = fi, fl_funcs = [], fl_lineCount = 0, fl_lines = None\<rparr>;
            put = (\<lambda>fl. fr\<lparr>fr_files := fr_files fr @ [fl]\<rparr>) in
        case text of
          None \<Rightarrow> (Some (length (fr_files fr)), put fl)
        | Some buffer \<Rightarrow>
            (if length (line_starts 0 True buffer) \<ge> count_lines_of buffer then (None, put fl)
             else (Some (length (fr_files fr)),
                   put (fl\<lparr>fl_lineCount := length (lines_of buffer), fl_lines := Some (lines_of buffer)\<rparr>))))"

definition findFile :: "(string \<Rightarrow> string option) \<Rightarrow> string \<Rightarrow> fileReader \<Rightarrow> nat option \<times> fileReader" where
  "findFile fs file fr =
     (let search =
        (case find (\<lambda>i. fl_name (fr_files fr ! i) = file) (rev [0..<length (fr_files fr)]) of
           Some i \<Rightarrow> (Some i, fr\<lparr>fr_lastFile := Some i\<rparr>)
         | None \<Rightarrow> readFile fs file fr) in
      case fr_lastFile fr of
        Some i \<Rightarrow> if fl_name (fr_files fr ! i) = file then (Some i, fr) else search
      | None \<Rightarrow> search)"

end
