(* ===== verification/File_Lines.thy ===== *)
theory File_Lines
  imports File_Reader
begin

text \<open>
  What the reader of source files promises: \<^verbatim>\<open>sanePath\<close> resolves the components of a path, \<^verbatim>\<open>readFile\<close>
  gives the lines of a text, and \<^verbatim>\<open>findFile\<close> reads a file once.
\<close>

section \<open>Paths\<close>

lemma parent_of_length: "length (parent_of sep dst) \<le> length dst"
proof -
  have "length (dropWhile (\<lambda>c. c \<noteq> sep) (rev (butlast dst))) \<le> length (rev (butlast dst))"
    by (rule length_dropWhile_le)
  then show ?thesis by (simp add: parent_of_def)
qed

lemma sane_loop_length: "length (sane_loop sep src dst) \<le> length src + length dst"
proof (induction sep src dst rule: sane_loop.induct)
  case (2 sep c src dst)
  have p: "length (parent_of sep dst) \<le> length dst" by (rule parent_of_length)
  have l: "dst \<noteq> [] \<Longrightarrow> 1 \<le> length dst" by (cases dst) simp_all
  show ?case
    using 2 p l by (auto simp: not_less intro: order_trans split: if_splits)
qed simp

lemma sanePath_length: "length (sanePath pt src) \<le> length src"
  using sane_loop_length [of "path_sep pt" src "[]"] by (simp add: sanePath_def)

definition path_name :: "string \<Rightarrow> bool" where
  "path_name nm \<longleftrightarrow> (\<forall>c \<in> set nm. \<not> is_slash c \<and> c \<noteq> CHR '':'')"

definition slashes :: "string \<Rightarrow> bool" where
  "slashes s \<longleftrightarrow> s \<noteq> [] \<and> (\<forall>c \<in> set s. is_slash c)"

lemma path_sep_slash [simp]: "is_slash (path_sep pt)"
  by (simp add: path_sep_def is_slash_def)

lemma not_slash_consts [simp]: "\<not> is_slash (CHR ''.'')" "\<not> is_slash (CHR '':'')"
  by (simp_all add: is_slash_def)

lemma sane_tail:
  "is_slash sep \<Longrightarrow> path_name nm \<Longrightarrow> dst \<noteq> [] \<Longrightarrow> \<not> is_slash (last dst) \<Longrightarrow>
     sane_loop sep (nm @ rest) dst = sane_loop sep rest (dst @ nm)"
proof (induction nm arbitrary: dst)
  case (Cons c nm)
  have "\<not> ends_in sep dst" using Cons.prems by (auto simp: ends_in_def)
  moreover have "sane_loop sep (nm @ rest) (dst @ [c]) = sane_loop sep rest ((dst @ [c]) @ nm)"
    using Cons.prems by (intro Cons.IH) (simp_all add: path_name_def)
  ultimately show ?case using Cons.prems by (auto simp: path_name_def)
qed simp

lemma sane_name:
  assumes sep: "is_slash sep" and "path_name nm" and "nm \<noteq> []" and "nm \<noteq> ''.''" and "nm \<noteq> ''..''" and "ends_in sep dst"
    and "rest = [] \<or> is_slash (hd rest)"
  shows "sane_loop sep (nm @ rest) dst = sane_loop sep rest (dst @ nm)"
proof -
  obtain c cs where c: "nm = c # cs" using assms(3) by (cases nm) auto
  have nc: "\<not> is_slash c" "c \<noteq> CHR '':''" and pcs: "path_name cs"
    using assms(2) by (simp_all add: c path_name_def)
  have one: "c = CHR ''.'' \<Longrightarrow> \<not> (cs @ rest \<noteq> [] \<and> is_slash ((cs @ rest) ! 0))"
    using assms(4) pcs by (cases cs) (auto simp: c path_name_def)
  have two: "c = CHR ''.'' \<Longrightarrow>
      \<not> (length (cs @ rest) > 1 \<and> (cs @ rest) ! 0 = CHR ''.'' \<and> is_slash ((cs @ rest) ! 1))"
    using assms(4,5,7) pcs
    by (cases cs; cases "tl cs"; cases rest) (auto simp: c path_name_def)
  have "sane_loop sep ((c # cs) @ rest) dst = sane_loop sep (cs @ rest) (dst @ [c])"
    using nc one two assms(6) by (auto simp del: One_nat_def)
  also have "\<dots> = sane_loop sep rest ((dst @ [c]) @ cs)"
    using nc by (intro sane_tail pcs sep) simp_all
  finally show ?thesis by (simp add: c)
qed

lemma sane_skip: "\<forall>c \<in> set s. is_slash c \<Longrightarrow> ends_in sep dst \<Longrightarrow>
    sane_loop sep (s @ rest) dst = sane_loop sep rest dst"
  by (induction s) (auto simp: is_slash_def)

lemma sane_slashes:
  assumes "slashes s" and "\<not> ends_in sep dst"
  shows "sane_loop sep (s @ rest) dst = sane_loop sep rest (dst @ [sep])"
proof -
  obtain c cs where c: "s = c # cs" "is_slash c" "\<forall>c \<in> set cs. is_slash c"
    using assms(1) by (cases s) (auto simp: slashes_def)
  have "c \<noteq> CHR '':''" using c(2) by (auto simp: is_slash_def)
  then show ?thesis
    using c assms(2) sane_skip [of cs sep "dst @ [sep]"] by (auto simp: ends_in_def)
qed

lemma sane_dot:
  assumes "slashes s" and "ends_in sep dst"
  shows "sane_loop sep (''.'' @ s @ rest) dst = sane_loop sep rest dst"
proof -
  obtain c cs where c: "s = c # cs" "is_slash c" "\<forall>c \<in> set cs. is_slash c"
    using assms(1) by (cases s) (auto simp: slashes_def)
  then show ?thesis using assms(2) sane_skip [of cs sep dst] by simp
qed

lemma sane_dotdot:
  assumes "slashes s" and "ends_in sep dst" and "ends_in sep (parent_of sep dst)"
  shows "sane_loop sep (''..'' @ s @ rest) dst = sane_loop sep rest (parent_of sep dst)"
proof -
  obtain c cs where c: "s = c # cs" "is_slash c" "\<forall>c \<in> set cs. is_slash c"
    using assms(1) by (cases s) (auto simp: slashes_def)
  then show ?thesis using assms(2,3) sane_skip [of cs sep "parent_of sep dst"] by simp
qed

lemma parent_of_name:
  assumes "path_name nm" and "ends_in sep dst" and sep: "is_slash sep"
  shows "parent_of sep (dst @ nm @ [sep]) = dst"
proof -
  obtain d where d: "dst = d @ [sep]"
    using assms(2) by (cases dst rule: rev_cases) (auto simp: ends_in_def)
  have "dropWhile (\<lambda>c. c \<noteq> sep) (rev nm @ rev dst) = dropWhile (\<lambda>c. c \<noteq> sep) (rev dst)"
    using assms(1) sep by (intro dropWhile_append2) (auto simp: path_name_def)
  then have "dropWhile (\<lambda>c. c \<noteq> sep) (rev nm @ rev dst) = rev dst"
    by (simp add: d)
  then show ?thesis by (simp add: parent_of_def butlast_append)
qed

text \<open>The text of the directories from the root.\<close>

definition dirs_text :: "char \<Rightarrow> string list \<Rightarrow> string" where
  "dirs_text sep ds = sep # concat (map (\<lambda>d. d @ [sep]) ds)"

lemma dirs_text_ends: "ends_in sep (dirs_text sep ds)"
  by (cases ds rule: rev_cases) (simp_all add: dirs_text_def ends_in_def)

lemma dirs_text_snoc: "dirs_text sep (ds @ [d]) = dirs_text sep ds @ d @ [sep]"
  by (simp add: dirs_text_def)

text \<open>What the components of an absolute path lead to: nothing if they climb above the root.\<close>

fun resolve :: "string list \<Rightarrow> string list \<Rightarrow> string list option" where
  "resolve ds [] = Some ds"
| "resolve ds (c # cs) =
     (if c = ''.'' then resolve ds cs
      else if c = ''..'' then (if ds = [] then None else resolve (butlast ds) cs)
      else resolve (ds @ [c]) cs)"

definition components_text :: "(string \<times> string) list \<Rightarrow> string" where
  "components_text cs = concat (map (\<lambda>(c, s). c @ s) cs)"

definition components :: "(string \<times> string) list \<Rightarrow> bool" where
  "components cs \<longleftrightarrow> (\<forall>(c, s) \<in> set cs. c \<noteq> [] \<and> path_name c \<and> slashes s)"

lemma sane_components:
  assumes "is_slash sep" and "components cs" and "list_all path_name ds" and "resolve ds (map fst cs) = Some st"
  shows "sane_loop sep (components_text cs @ rest) (dirs_text sep ds) = sane_loop sep rest (dirs_text sep st)"
  using assms(2-4)
proof (induction cs arbitrary: ds)
  case Nil
  then show ?case by (simp add: components_text_def)
next
  case (Cons cs1 cs)
  obtain c s where cs1: "cs1 = (c, s)" by (cases cs1)
  have c: "c \<noteq> []" "path_name c" "slashes s" and cs: "components cs"
    using Cons.prems(1) by (auto simp: components_def cs1)
  note e = dirs_text_ends [of sep ds]
  let ?more = "components_text cs @ rest"
  have t: "components_text (cs1 # cs) @ rest = c @ s @ ?more"
    by (simp add: components_text_def cs1)
  consider "c = ''.''" | "c = ''..''" | "c \<noteq> ''.''" "c \<noteq> ''..''" by blast
  then show ?case
  proof cases
    case 1
    have "resolve ds (map fst cs) = Some st" using Cons.prems(3) by (simp add: cs1 1)
    then show ?thesis
      unfolding t 1 sane_dot [OF c(3) e] by (rule Cons.IH [OF cs Cons.prems(2)])
  next
    case 2
    then have r: "ds \<noteq> []" "resolve (butlast ds) (map fst cs) = Some st"
      using Cons.prems(3) by (auto simp: cs1 split: if_splits)
    obtain d0 d where d: "ds = d0 @ [d]" using r(1) by (cases ds rule: rev_cases) auto
    have p: "parent_of sep (dirs_text sep ds) = dirs_text sep d0"
      unfolding d dirs_text_snoc
      using Cons.prems(2) by (intro parent_of_name dirs_text_ends assms(1)) (simp add: d)
    have "sane_loop sep ?more (dirs_text sep d0) = sane_loop sep rest (dirs_text sep st)"
      using Cons.prems(2) r(2) by (intro Cons.IH cs) (simp_all add: d)
    then show ?thesis
      unfolding t 2 using sane_dotdot [OF c(3) e, of ?more] by (simp add: p dirs_text_ends)
  next
    case 3
    have n: "\<not> ends_in sep (dirs_text sep ds @ c)"
      using c(1,2) assms(1) by (cases c rule: rev_cases) (auto simp: ends_in_def path_name_def)
    have h: "s @ ?more = [] \<or> is_slash (hd (s @ ?more))"
      using c(3) by (cases s) (auto simp: slashes_def)
    have "sane_loop sep (c @ s @ ?more) (dirs_text sep ds) = sane_loop sep (s @ ?more) (dirs_text sep ds @ c)"
      by (rule sane_name [OF assms(1) c(2,1) 3 e h])
    also have "\<dots> = sane_loop sep ?more (dirs_text sep (ds @ [c]))"
      unfolding sane_slashes [OF c(3) n] by (simp add: dirs_text_snoc)
    also have "\<dots> = sane_loop sep rest (dirs_text sep st)"
      using Cons.prems(2,3) c(2) 3 by (intro Cons.IH cs) (simp_all add: cs1)
    finally show ?thesis unfolding t .
  qed
qed

text \<open>
  C23. \<^verbatim>\<open>sanePath\<close> resolves an absolute path: whatever runs of slashes and backslashes separate its
  components, the result is the path of the directories that the components lead to, with one
  separator between them, and the name of the file.\<close>

theorem sanePath_resolves:
  assumes "pt \<noteq> PATH_RAW" and "slashes root" and "components cs" and "resolve [] (map fst cs) = Some ds"
    and "path_name file" and "file \<noteq> ''.''" and "file \<noteq> ''..''"
  shows "sanePath pt (root @ components_text cs @ file) = dirs_text (path_sep pt) ds @ file"
proof -
  let ?sep = "path_sep pt"
  have "sane_loop ?sep (root @ components_text cs @ file) [] = sane_loop ?sep (components_text cs @ file) (dirs_text ?sep [])"
    using sane_slashes [OF assms(2), of ?sep "[]"] by (simp add: ends_in_def dirs_text_def)
  also have "\<dots> = sane_loop ?sep (file @ []) (dirs_text ?sep ds)"
    using sane_components [of ?sep cs "[]" ds "file"] assms(3,4) by simp
  also have "\<dots> = dirs_text ?sep ds @ file"
  proof (cases "file = []")
    case False
    then show ?thesis
      by (subst sane_name) (use assms(5-7) in \<open>simp_all add: dirs_text_ends\<close>)
  qed simp
  finally show ?thesis using assms(1) by (simp add: sanePath_def)
qed

theorem sanePath_resolves_witness:
  "sanePath PATH_TO_UNIX (''/'' @ components_text [(''src'', ''/''), (''.'', ''//''), (''lib'', [CHR 0x5C]), (''..'', ''/'')] @ ''m.c'')
     = dirs_text CHR ''/'' [''src''] @ ''m.c''"
  using sanePath_resolves [of PATH_TO_UNIX "''/''"
      "[(''src'', ''/''), (''.'', ''//''), (''lib'', [CHR 0x5C]), (''..'', ''/'')]" "[''src'']" "''m.c''"]
  by (simp add: slashes_def components_def path_name_def is_slash_def path_sep_def)

text \<open>
  A relative path that climbs two directories loses both: the second \<open>../\<close> takes the
  first for the name of a directory.\<close>

theorem two_parents_are_lost:
  "sanePath PATH_TO_UNIX (''../../'' @ path) = sanePath PATH_TO_UNIX path"
  by (simp add: sanePath_def path_sep_def is_slash_def ends_in_def parent_of_def)

section \<open>Lines\<close>

lemma line_starts_bound:
  "b \<noteq> [] \<Longrightarrow> length (line_starts i s b) + (if last b = LF then 1 else 0)
     = (if s then 1 else 0) + length (filter (\<lambda>c. c = LF) b)"
proof (induction b arbitrary: i s)
  case (Cons c b)
  then show ?case by (cases "b = []") auto
qed simp

lemma line_starts_fit: "length (line_starts 0 True b) < count_lines_of b"
  using line_starts_bound [of b 0 True] by (cases "b = []") (auto simp: count_lines_of_def)

lemma line_starts_within: "LF \<notin> set l \<Longrightarrow> line_starts i False (l @ r) = line_starts (i + length l) False r"
  by (induction l arbitrary: i) auto

definition line_text :: "string \<Rightarrow> bool" where
  "line_text l \<longleftrightarrow> (\<forall>c \<in> set l. c \<noteq> LF \<and> c \<noteq> CR \<and> c \<noteq> NUL)"

lemma strip_line_text: "line_text l \<Longrightarrow> map strip_eol l = l"
  by (intro map_idI) (auto simp: line_text_def strip_eol_def)

lemma cstr_at:
  assumes "line_text l" and "r \<noteq> []" and "hd r = NUL"
  shows "cstr (pre @ l @ r) (length pre) = l"
proof -
  have "takeWhile (\<lambda>c. c \<noteq> NUL) (l @ r) = l @ takeWhile (\<lambda>c. c \<noteq> NUL) r"
    using assms(1) by (intro takeWhile_append2) (auto simp: line_text_def)
  moreover have "takeWhile (\<lambda>c. c \<noteq> NUL) r = []"
    using assms(2,3) by (cases r) auto
  ultimately show ?thesis by (simp add: cstr_def)
qed

definition eols :: "string set" where
  "eols = {[LF], [CR, LF]}"

definition full_lines :: "(string \<times> string) list \<Rightarrow> string" where
  "full_lines ls = concat (map (\<lambda>(l, e). l @ e) ls)"

definition all_lines :: "(string \<times> string) list \<Rightarrow> string \<Rightarrow> string list" where
  "all_lines ls rest = map fst ls @ (if rest = [] then [] else [rest])"

lemma lines_after:
  assumes "\<forall>(l, e) \<in> set ls. line_text l \<and> e \<in> eols" and "line_text rest"
  shows "map (cstr (pre @ map strip_eol (full_lines ls @ rest) @ [NUL]))
           (line_starts (length pre) True (full_lines ls @ rest)) = all_lines ls rest"
  using assms(1)
proof (induction ls arbitrary: pre)
  case Nil
  show ?case
  proof (cases rest)
    case (Cons c cs)
    have "LF \<notin> set cs" and "c \<noteq> LF" using assms(2) by (auto simp: line_text_def Cons)
    then have "line_starts (length pre) True rest = [length pre]"
      using line_starts_within [of cs "Suc (length pre)" "[]"] by (simp add: Cons)
    then show ?thesis
      using cstr_at [OF assms(2), of "[NUL]" pre] strip_line_text [OF assms(2)]
      by (simp add: full_lines_def all_lines_def Cons)
  qed (simp add: full_lines_def all_lines_def)
next
  case (Cons le ls)
  obtain l e where le: "le = (l, e)" by (cases le)
  have l: "line_text l" and e: "e = [LF] \<or> e = [CR, LF]"
    using Cons.prems by (auto simp: le eols_def)
  let ?more = "full_lines ls @ rest"
  let ?B = "pre @ l @ map strip_eol e @ map strip_eol ?more @ [NUL]"
  have nl: "LF \<notin> set l" using l by (auto simp: line_text_def)
  have starts: "line_starts (length pre) True (l @ e @ ?more)
      = length pre # line_starts (length (pre @ l @ map strip_eol e)) True ?more"
  proof (cases l)
    case Nil
    show ?thesis using e by (auto simp: Nil)
  next
    case c: (Cons c cs)
    have "LF \<notin> set cs" "c \<noteq> LF" using nl by (auto simp: c)
    then show ?thesis
      using e line_starts_within [of cs "Suc (length pre)" "e @ ?more"] by (auto simp: c)
  qed
  have first: "cstr ?B (length pre) = l"
    using e by (intro cstr_at l) (auto simp: strip_eol_def)
  have "map (cstr ((pre @ l @ map strip_eol e) @ map strip_eol ?more @ [NUL]))
      (line_starts (length (pre @ l @ map strip_eol e)) True ?more) = all_lines ls rest"
    using Cons.prems by (intro Cons.IH) simp
  then have more: "map (cstr ?B) (line_starts (length (pre @ l @ map strip_eol e)) True ?more) = all_lines ls rest"
    by simp
  have t: "full_lines (le # ls) @ rest = l @ e @ ?more"
    by (simp add: full_lines_def le)
  show ?case
    unfolding t starts
    using first more by (simp add: strip_line_text [OF l] all_lines_def le)
qed

lemma lines_of_text:
  assumes "\<forall>(l, e) \<in> set ls. line_text l \<and> e \<in> eols" and "line_text rest"
  shows "lines_of (full_lines ls @ rest) = all_lines ls rest"
  using lines_after [OF assms, of "[]"] by (simp add: lines_of_def)

section \<open>A file is read once\<close>

text \<open>The element of the list that a file gets, with no functions yet.\<close>

definition file_entry :: "(string \<Rightarrow> string option) \<Rightarrow> string \<Rightarrow> fileReader \<Rightarrow> fileList" where
  "file_entry fs file fr =
     (case open_source fs file fr of (text, fi) \<Rightarrow>
        \<lparr>fl_name = file, fl_cutPathIndex = fi, fl_funcs = [],
         fl_lineCount = (case text of None \<Rightarrow> 0 | Some b \<Rightarrow> length (lines_of b)),
         fl_lines = map_option lines_of text\<rparr>)"

lemma file_entry_name [simp]: "fl_name (file_entry fs file fr) = file"
  by (simp add: file_entry_def split: prod.split)

lemma readFile_entry:
  "readFile fs file fr = (Some (length (fr_files fr)), fr\<lparr>fr_files := fr_files fr @ [file_entry fs file fr]\<rparr>)"
  using line_starts_fit
  by (simp add: readFile_def file_entry_def not_le [symmetric] split: prod.split option.split)

definition reader_ok :: "fileReader \<Rightarrow> bool" where
  "reader_ok fr \<longleftrightarrow>
     distinct (map fl_name (fr_files fr)) \<and>
     (case fr_lastFile fr of None \<Rightarrow> True | Some i \<Rightarrow> i < length (fr_files fr))"

lemma reader_ok_new [simp]: "reader_ok fileReader_new"
  by (simp add: reader_ok_def fileReader_new_def)

lemma find_rev_unique:
  assumes "i < n" and "P i" and "\<And>j. j < n \<Longrightarrow> P j \<Longrightarrow> j = i"
  shows "find P (rev [0..<n]) = Some i"
proof -
  have "find P (rev [0..<n]) \<noteq> None"
    using assms(1,2) by (auto simp: find_None_iff)
  then obtain j where j: "find P (rev [0..<n]) = Some j" by blast
  then obtain k where k: "k < length (rev [0..<n])" "P (rev [0..<n] ! k)" "j = rev [0..<n] ! k"
    unfolding find_Some_iff by blast
  then have "P j" and "j \<in> set (rev [0..<n])"
    using nth_mem [OF k(1)] by simp_all
  then show ?thesis using j assms(3) by simp
qed

lemma findFile_known:
  assumes "reader_ok fr" and "i < length (fr_files fr)" and "fl_name (fr_files fr ! i) = file"
  shows "fst (findFile fs file fr) = Some i" and "fr_files (snd (findFile fs file fr)) = fr_files fr"
    and "reader_ok (snd (findFile fs file fr))"
    and "fr_cutPath (snd (findFile fs file fr)) = fr_cutPath fr" "fr_newRoot (snd (findFile fs file fr)) = fr_newRoot fr"
proof -
  have u: "j = i" if "j < length (fr_files fr)" "fl_name (fr_files fr ! j) = file" for j
    using assms that by (auto simp: reader_ok_def distinct_conv_nth)
  have f: "find (\<lambda>i. fl_name (fr_files fr ! i) = file) (rev [0..<length (fr_files fr)]) = Some i"
    using assms(2,3) u by (rule find_rev_unique)
  have l: "\<And>j. fr_lastFile fr = Some j \<Longrightarrow> j < length (fr_files fr)"
    using assms(1) by (simp add: reader_ok_def)
  have e: "findFile fs file fr \<in> {(Some i, fr), (Some i, fr\<lparr>fr_lastFile := Some i\<rparr>)}"
  proof (cases "fr_lastFile fr")
    case None
    then show ?thesis by (simp add: findFile_def f)
  next
    case (Some j)
    then show ?thesis using u [of j] l [of j] by (simp add: findFile_def f)
  qed
  then show "fst (findFile fs file fr) = Some i" and "fr_files (snd (findFile fs file fr)) = fr_files fr"
    and "fr_cutPath (snd (findFile fs file fr)) = fr_cutPath fr" "fr_newRoot (snd (findFile fs file fr)) = fr_newRoot fr"
    by auto
  show "reader_ok (snd (findFile fs file fr))"
    using e
  proof (elim insertE)
    assume "findFile fs file fr = (Some i, fr)"
    then show ?thesis using assms(1) by simp
  qed (use assms(1,2) in \<open>simp_all add: reader_ok_def\<close>)
qed

lemma findFile_new:
  assumes "reader_ok fr" and "file \<notin> fl_name ` set (fr_files fr)"
  shows "findFile fs file fr = (Some (length (fr_files fr)), fr\<lparr>fr_files := fr_files fr @ [file_entry fs file fr]\<rparr>)"
proof -
  have n: "\<And>j. j < length (fr_files fr) \<Longrightarrow> fl_name (fr_files fr ! j) \<noteq> file"
    using assms(2) by force
  then have "find (\<lambda>i. fl_name (fr_files fr ! i) = file) (rev [0..<length (fr_files fr)]) = None"
    by (auto simp: find_None_iff)
  then show ?thesis
    using assms(1) n
    by (cases "fr_lastFile fr") (simp_all add: findFile_def readFile_entry reader_ok_def)
qed

lemma findFile_new_ok:
  assumes "reader_ok fr" and "file \<notin> fl_name ` set (fr_files fr)"
  shows "reader_ok (snd (findFile fs file fr))"
  using assms by (auto simp: findFile_new reader_ok_def split: option.splits)

text \<open>
  \<^verbatim>\<open>findFile\<close> always gives an element of the list with the name of the file, leaves the elements
  before it as they were, and reads each file at most once: asked again, whatever the files of the
  machine hold by then, it gives the same element and reads nothing.\<close>

theorem findFile_reads_once:
  assumes ok: "reader_ok fr" and found: "findFile fs file fr = (r, fr1)"
  shows "reader_ok fr1 \<and>
    (\<exists>i. r = Some i \<and> i < length (fr_files fr1) \<and> fl_name (fr_files fr1 ! i) = file \<and>
       take (length (fr_files fr)) (fr_files fr1) = fr_files fr \<and>
       (\<forall>later. fst (findFile later file fr1) = Some i \<and> fr_files (snd (findFile later file fr1)) = fr_files fr1))"
proof (cases "file \<in> fl_name ` set (fr_files fr)")
  case True
  then obtain i where i: "i < length (fr_files fr)" "fl_name (fr_files fr ! i) = file"
    by (auto simp: in_set_conv_nth)
  note k = findFile_known [OF ok i, of fs, unfolded found fst_conv snd_conv]
  have "i < length (fr_files fr1)" "fl_name (fr_files fr1 ! i) = file" using i k(2) by simp_all
  then show ?thesis using findFile_known [OF k(3)] i k by auto
next
  case False
  note n = findFile_new [OF ok False, of fs, unfolded found]
  have o1: "reader_ok fr1" using findFile_new_ok [OF ok False, of fs] found by simp
  have i: "length (fr_files fr) < length (fr_files fr1)" "fl_name (fr_files fr1 ! length (fr_files fr)) = file"
    using n by simp_all
  then show ?thesis using findFile_known [OF o1 i] o1 n by auto
qed

theorem findFile_reads_once_witness:
  "\<exists>i fr1. findFile (\<lambda>n. Some ''int x;'') ''a.c'' fileReader_new = (Some i, fr1) \<and>
     fst (findFile (\<lambda>n. None) ''a.c'' fr1) = Some i \<and> fr_files (snd (findFile (\<lambda>n. None) ''a.c'' fr1)) = fr_files fr1"
  using findFile_reads_once [OF reader_ok_new, of "\<lambda>n. Some ''int x;''" "''a.c''"]
  by (metis prod.exhaust)

end
