(* ===== verification/Symtab.thy ===== *)
theory Symtab
  imports Code_Memory "HOL-Library.Multiset"
begin

text \<open>
  The symbols of the traced program: \<^verbatim>\<open>struct Sym\<close> and \<^verbatim>\<open>class Symtab\<close> (src/dqr.cpp,
  include/trace.hpp) and \<^verbatim>\<open>Disassembler::getFunctionName\<close>.

  A pointer to a section is its address, a number, with the section it points to; two pointers are
  compared by their addresses. \<^verbatim>\<open>qsort\<close> and \<^verbatim>\<open>strcmp\<close> are those of the C library: of the orders that
  \<^verbatim>\<open>qsort\<close> may give to symbols that compare equal the model takes the one of the list, and of
  \<^verbatim>\<open>strcmp\<close> it takes the sign.
\<close>

section \<open>Symbols\<close>

definition symGlobal :: u32 where "symGlobal = push_bit 1 1"
definition symWeak :: u32 where "symWeak = push_bit 2 1"
definition symDebug :: u32 where "symDebug = push_bit 6 1"
definition symFunc :: u32 where "symFunc = push_bit 8 1"

record Sym =
  sym_name :: string
  sym_flags :: u32
  sym_section :: "(nat \<times> Section) option"
  sym_vmaOffset :: u64
  sym_address :: u64
  sym_size :: u64

abbreviation has_flag :: "u32 \<Rightarrow> Sym \<Rightarrow> bool" where
  "has_flag f s \<equiv> sym_flags s AND f \<noteq> 0"

definition section_ptr :: "Sym \<Rightarrow> nat option" where
  "section_ptr s = map_option fst (sym_section s)"

section \<open>The order of the symbols\<close>

fun strcmp :: "string \<Rightarrow> string \<Rightarrow> int" where
  "strcmp [] [] = 0"
| "strcmp [] (_ # _) = -1"
| "strcmp (_ # _) [] = 1"
| "strcmp (c # cs) (d # ds) =
     (if (of_char c :: nat) < of_char d then -1 else if (of_char d :: nat) < of_char c then 1 else strcmp cs ds)"

definition symCompareFunc :: "Sym \<Rightarrow> Sym \<Rightarrow> int" where
  "symCompareFunc first second =
     (let cv = sint ((sym_address first + sym_vmaOffset first) - (sym_address second + sym_vmaOffset second)) in
      if cv > 0 then 1
      else if cv < 0 then -1
      else if has_flag symWeak first \<and> \<not> has_flag symWeak second then 1
      else if \<not> has_flag symWeak first \<and> has_flag symWeak second then -1
      else if has_flag symDebug first \<and> \<not> has_flag symDebug second then 1
      else if \<not> has_flag symDebug first \<and> has_flag symDebug second then -1
      else if \<not> has_flag symGlobal first \<and> has_flag symGlobal second then 1
      else if has_flag symGlobal first \<and> \<not> has_flag symGlobal second then -1
      else if \<not> has_flag symFunc first \<and> has_flag symFunc second then 1
      else if has_flag symFunc first \<and> \<not> has_flag symFunc second then -1
      else strcmp (sym_name first) (sym_name second))"

fun qinsert :: "('a \<Rightarrow> 'a \<Rightarrow> int) \<Rightarrow> 'a \<Rightarrow> 'a list \<Rightarrow> 'a list" where
  "qinsert cmp x [] = [x]"
| "qinsert cmp x (y # ys) = (if cmp x y \<le> 0 then x # y # ys else y # qinsert cmp x ys)"

definition qsort :: "('a \<Rightarrow> 'a \<Rightarrow> int) \<Rightarrow> 'a list \<Rightarrow> 'a list" where
  "qsort cmp xs = foldr (qinsert cmp) xs []"

section \<open>The symbol table\<close>

record Symtab =
  symPtrArray :: "Sym list"
  cachedSymAddr :: ADDRESS
  cachedSymSize :: int
  cachedSymIndex :: int

text \<open>
  The search for the end of a symbol without a size: the size it gets from the symbols after it,
  its old size if none of them ends it.
\<close>

fun size_to_next :: "Sym \<Rightarrow> (nat \<times> Section) \<Rightarrow> Sym list \<Rightarrow> u64" where
  "size_to_next s sec [] = sym_size s"
| "size_to_next s sec (e # es) =
     (if section_ptr s \<noteq> section_ptr e then endAddr (snd sec) + 1 - sym_address s
      else if sym_address e \<noteq> sym_address s then
        (if \<not> has_flag symDebug s then sym_address e - sym_address s else size_to_next s sec es)
      else size_to_next s sec es)"

definition fixup_symbol :: "nat \<Rightarrow> Sym list \<Rightarrow> Sym list" where
  "fixup_symbol s arr =
     (if sym_size (arr ! s) = 0 \<and> \<not> has_flag symDebug (arr ! s) then
        (case sym_section (arr ! s) of
           None \<Rightarrow> arr
         | Some sec \<Rightarrow> arr[s := (arr ! s)\<lparr>sym_size := size_to_next (arr ! s) sec (drop (Suc s) arr)\<rparr>])
      else arr)"

definition fixupFunctionSizes :: "Sym list \<Rightarrow> Sym list" where
  "fixupFunctionSizes arr = fold fixup_symbol [0..<length arr] arr"

definition Symtab_new :: "Sym list \<Rightarrow> Symtab" where
  "Symtab_new syms =
     \<lparr>symPtrArray = fixupFunctionSizes (qsort symCompareFunc syms),
      cachedSymAddr = 0, cachedSymSize = 0, cachedSymIndex = -1\<rparr>"

definition sym_covers :: "ADDRESS \<Rightarrow> Sym \<Rightarrow> bool" where
  "sym_covers addr s \<longleftrightarrow>
     addr - sym_vmaOffset s \<ge> sym_address s \<and> addr - sym_vmaOffset s < sym_address s + sym_size s"

definition lookupSymbolByAddress :: "ADDRESS \<Rightarrow> Symtab \<Rightarrow> Sym option outcome \<times> Symtab" where
  "lookupSymbolByAddress addr t =
     (if addr = 0 then (Inl (Rc DQERR_ERR), t)
      else if addr \<ge> cachedSymAddr t \<and> addr < cachedSymAddr t + word_of_int (cachedSymSize t) then
        (if 0 \<le> cachedSymIndex t \<and> cachedSymIndex t < int (length (symPtrArray t))
         then Inr (Some (symPtrArray t ! nat (cachedSymIndex t))) else Inl UB, t)
      else case find (\<lambda>i. sym_covers addr (symPtrArray t ! i)) [0..<length (symPtrArray t)] of
        None \<Rightarrow> (Inr None, t)
      | Some found \<Rightarrow>
          (Inr (Some (symPtrArray t ! found)),
           t\<lparr>cachedSymIndex := int found,
             cachedSymAddr := sym_address (symPtrArray t ! found) + sym_vmaOffset (symPtrArray t ! found)\<rparr>))"

text \<open>\<^verbatim>\<open>Disassembler::getFunctionName\<close>: the name of the function, if there is one, and the offset in it.\<close>

definition getFunctionName :: "ADDRESS \<Rightarrow> Symtab \<Rightarrow> (string option \<times> int) outcome \<times> Symtab" where
  "getFunctionName addr t =
     (case lookupSymbolByAddress addr t of
        (Inl UB, t1) \<Rightarrow> (Inl UB, t1)
      | (Inl (Rc e), t1) \<Rightarrow> (Inl (Rc DQERR_ERR), t1)
      | (Inr None, t1) \<Rightarrow> (Inr (None, 0), t1)
      | (Inr (Some s), t1) \<Rightarrow>
          (Inr (Some (sym_name s), int_of_u64 ((addr - sym_vmaOffset s) - sym_address s)), t1))"

section \<open>The cache of the table never answers\<close>

lemma find_map_dqr: "find P (map f xs) = map_option f (find (\<lambda>i. P (f i)) xs)"
  by (induction xs) auto

lemma lookup_no_cache:
  assumes "cachedSymSize t = 0"
  shows "fst (lookupSymbolByAddress addr t) =
           (if addr = 0 then Inl (Rc DQERR_ERR) else Inr (find (sym_covers addr) (symPtrArray t)))"
proof -
  have "map_option (\<lambda>i. symPtrArray t ! i) (find (\<lambda>i. sym_covers addr (symPtrArray t ! i)) [0..<length (symPtrArray t)])
        = find (sym_covers addr) (map (\<lambda>i. symPtrArray t ! i) [0..<length (symPtrArray t)])"
    unfolding find_map_dqr ..
  then have "map_option (\<lambda>i. symPtrArray t ! i) (find (\<lambda>i. sym_covers addr (symPtrArray t ! i)) [0..<length (symPtrArray t)])
        = find (sym_covers addr) (symPtrArray t)"
    by (simp add: map_nth)
  then show ?thesis
    using assms by (auto simp: lookupSymbolByAddress_def not_less split: option.splits)
qed

lemma lookup_keeps_table [simp]:
  "symPtrArray (snd (lookupSymbolByAddress addr t)) = symPtrArray t"
  "cachedSymSize (snd (lookupSymbolByAddress addr t)) = cachedSymSize t"
  by (simp_all add: lookupSymbolByAddress_def split: option.split)

lemma fst_getFunctionName:
  "fst (getFunctionName addr t) =
     (case fst (lookupSymbolByAddress addr t) of
        Inl UB \<Rightarrow> Inl UB
      | Inl (Rc e) \<Rightarrow> Inl (Rc DQERR_ERR)
      | Inr None \<Rightarrow> Inr (None, 0)
      | Inr (Some s) \<Rightarrow>
          Inr (Some (sym_name s), int_of_u64 ((addr - sym_vmaOffset s) - sym_address s)))"
  by (cases "lookupSymbolByAddress addr t")
    (simp add: getFunctionName_def split: sum.split stop.split option.split)

lemma getFunctionName_keeps_table [simp]:
  "symPtrArray (snd (getFunctionName addr t)) = symPtrArray t"
  "cachedSymSize (snd (getFunctionName addr t)) = cachedSymSize t"
proof -
  have "snd (getFunctionName addr t) = snd (lookupSymbolByAddress addr t)"
    by (simp add: getFunctionName_def split: prod.split sum.split stop.split option.split)
  then show "symPtrArray (snd (getFunctionName addr t)) = symPtrArray t"
    and "cachedSymSize (snd (getFunctionName addr t)) = cachedSymSize t"
    by simp_all
qed

definition lookups :: "ADDRESS list \<Rightarrow> Symtab \<Rightarrow> Symtab" where
  "lookups as t = fold (\<lambda>a t. snd (lookupSymbolByAddress a t)) as t"

lemma lookups_keep_table [simp]:
  "symPtrArray (lookups as t) = symPtrArray t" "cachedSymSize (lookups as t) = cachedSymSize t"
  unfolding lookups_def by (induction as arbitrary: t) simp_all

text \<open>
  The search is never answered from the cache, which stays empty because its size is never
  set: after any calls, a lookup in a table gives the first of its symbols that covers the address.\<close>

theorem lookup_is_first_match:
  "fst (lookupSymbolByAddress addr (lookups as (Symtab_new syms))) =
     (if addr = 0 then Inl (Rc DQERR_ERR)
      else Inr (find (sym_covers addr) (fixupFunctionSizes (qsort symCompareFunc syms))))"
  by (simp add: lookup_no_cache Symtab_new_def)

section \<open>The sizes of the functions\<close>

definition fixed_symbol :: "Sym list \<Rightarrow> nat \<Rightarrow> Sym" where
  "fixed_symbol arr i = fixup_symbol i arr ! i"

lemma fixup_symbol_length [simp]: "length (fixup_symbol i arr) = length arr"
  by (simp add: fixup_symbol_def split: option.split)

lemma fixup_symbol_nth: "j \<noteq> i \<Longrightarrow> fixup_symbol i arr ! j = arr ! j"
  by (simp add: fixup_symbol_def split: option.split)

lemma fixup_symbol_local:
  assumes "length xs = length arr" and "i < length arr" and "\<And>j. i \<le> j \<Longrightarrow> j < length arr \<Longrightarrow> xs ! j = arr ! j"
  shows "fixup_symbol i xs ! i = fixed_symbol arr i"
proof -
  have "drop (Suc i) xs = drop (Suc i) arr"
    using assms by (intro nth_equalityI) auto
  then show ?thesis
    using assms by (simp add: fixed_symbol_def fixup_symbol_def split: option.split)
qed

lemma fixup_loop:
  "n \<le> length arr \<Longrightarrow>
     length (fold fixup_symbol [0..<n] arr) = length arr \<and>
     (\<forall>j < length arr. fold fixup_symbol [0..<n] arr ! j = (if j < n then fixed_symbol arr j else arr ! j))"
proof (induction n)
  case (Suc n)
  let ?x = "fold fixup_symbol [0..<n] arr"
  have len: "length ?x = length arr"
    and nth: "\<And>j. j < length arr \<Longrightarrow> ?x ! j = (if j < n then fixed_symbol arr j else arr ! j)"
    using Suc by auto
  have "fixup_symbol n ?x ! n = fixed_symbol arr n"
    using Suc.prems nth by (intro fixup_symbol_local len) auto
  then show ?case
    using len nth by (auto simp: fixup_symbol_nth less_Suc_eq)
qed simp

lemma fixup_length [simp]: "length (fixupFunctionSizes arr) = length arr"
  using fixup_loop [of "length arr" arr] by (simp add: fixupFunctionSizes_def)

lemma fixup_nth: "i < length arr \<Longrightarrow> fixupFunctionSizes arr ! i = fixed_symbol arr i"
  using fixup_loop [of "length arr" arr] by (simp add: fixupFunctionSizes_def)

lemma fixed_symbol_fields:
  "i < length arr \<Longrightarrow> sym_address (fixed_symbol arr i) = sym_address (arr ! i)"
  "i < length arr \<Longrightarrow> sym_vmaOffset (fixed_symbol arr i) = sym_vmaOffset (arr ! i)"
  "i < length arr \<Longrightarrow> sym_name (fixed_symbol arr i) = sym_name (arr ! i)"
  by (simp_all add: fixed_symbol_def fixup_symbol_def split: option.split)

section \<open>The order of the table\<close>

definition sym_key :: "Sym \<Rightarrow> nat" where
  "sym_key s = unat (sym_address s + sym_vmaOffset s)"

lemma sint_diff_small:
  assumes "unat (a :: u64) < 2 ^ 63" and "unat b < 2 ^ 63"
  shows "sint (a - b) = int (unat a) - int (unat b)"
proof -
  have "a - b = word_of_int (int (unat a) - int (unat b))"
    by simp
  then have "sint (a - b) = sint (word_of_int (int (unat a) - int (unat b)) :: u64)"
    by (rule arg_cong)
  also have "\<dots> = signed_take_bit 63 (int (unat a) - int (unat b))"
    by (simp only: sint_sbintrunc') simp
  also have "\<dots> = int (unat a) - int (unat b)"
  proof (rule signed_take_bit_int_eq_self)
    have "int (unat a) < 2 ^ 63" and "int (unat b) < 2 ^ 63"
      using assms by (simp_all only: of_nat_less_numeral_power_cancel_iff)
    then show "- (2 ^ 63) \<le> int (unat a) - int (unat b)" and "int (unat a) - int (unat b) < 2 ^ 63"
      by linarith+
  qed
  finally show ?thesis .
qed

lemma symCompare_key:
  assumes "sym_key x < 2 ^ 63" and "sym_key y < 2 ^ 63"
  shows "symCompareFunc x y \<le> 0 \<Longrightarrow> sym_key x \<le> sym_key y"
    and "0 < symCompareFunc x y \<Longrightarrow> sym_key y \<le> sym_key x"
proof -
  have cv: "sint ((sym_address x + sym_vmaOffset x) - (sym_address y + sym_vmaOffset y)) = int (sym_key x) - int (sym_key y)"
    using assms unfolding sym_key_def by (rule sint_diff_small)
  show "symCompareFunc x y \<le> 0 \<Longrightarrow> sym_key x \<le> sym_key y"
    unfolding symCompareFunc_def cv Let_def by (rule ccontr) simp
  show "0 < symCompareFunc x y \<Longrightarrow> sym_key y \<le> sym_key x"
    unfolding symCompareFunc_def cv Let_def by (rule ccontr) simp
qed

lemma mset_qinsert [simp]: "mset (qinsert cmp x ys) = add_mset x (mset ys)"
  by (induction ys) auto

lemma mset_qsort [simp]: "mset (qsort cmp xs) = mset xs"
  unfolding qsort_def by (induction xs) auto

lemma set_qsort [simp]: "set (qsort cmp xs) = set xs"
  using mset_qsort by (metis set_mset_mset)

lemma sorted_qinsert:
  assumes "\<And>y. y \<in> set ys \<Longrightarrow> cmp x y \<le> 0 \<Longrightarrow> key x \<le> (key y :: nat)"
    and "\<And>y. y \<in> set ys \<Longrightarrow> 0 < cmp x y \<Longrightarrow> key y \<le> key x"
    and "sorted (map key ys)"
  shows "sorted (map key (qinsert cmp x ys))"
  using assms
proof (induction ys)
  case (Cons y ys)
  have m: "set (qinsert cmp x ys) = insert x (set ys)"
    using mset_qinsert [of cmp x ys] by (metis set_mset_add_mset_insert set_mset_mset)
  have le: "cmp x y \<le> 0 \<Longrightarrow> key x \<le> key y" and gt: "\<not> cmp x y \<le> 0 \<Longrightarrow> key y \<le> key x"
    using Cons.prems by auto
  show ?case
    using le gt Cons by (auto simp: m intro: order_trans)
qed simp

lemma sorted_symbols:
  assumes "\<And>s. s \<in> set syms \<Longrightarrow> sym_key s < 2 ^ 63"
  shows "sorted (map sym_key (qsort symCompareFunc syms))"
  using assms
proof (induction syms)
  case (Cons s syms)
  have e: "qsort symCompareFunc (s # syms) = qinsert symCompareFunc s (qsort symCompareFunc syms)"
    by (simp add: qsort_def)
  show ?case
    unfolding e
  proof (rule sorted_qinsert)
    show "sorted (map sym_key (qsort symCompareFunc syms))" using Cons by simp
  next
    fix y assume "y \<in> set (qsort symCompareFunc syms)"
    then have b: "sym_key s < 2 ^ 63" "sym_key y < 2 ^ 63" using Cons.prems by auto
    show "symCompareFunc s y \<le> 0 \<Longrightarrow> sym_key s \<le> sym_key y"
      and "0 < symCompareFunc s y \<Longrightarrow> sym_key y \<le> sym_key s"
      using symCompare_key [OF b] by blast+
  qed
qed (simp add: qsort_def)

section \<open>The function of an address\<close>

text \<open>
  Symbols of one section as a linker leaves them: no sizes, no debug symbols, addresses that differ
  and stay below the middle of the address space with the offset of the section added.
\<close>

definition plain_symbols :: "u64 \<Rightarrow> (nat \<times> Section) \<Rightarrow> Sym list \<Rightarrow> bool" where
  "plain_symbols vma sec syms \<longleftrightarrow>
     distinct (map sym_address syms) \<and>
     (\<forall>s \<in> set syms. sym_size s = 0 \<and> \<not> has_flag symDebug s \<and> sym_section s = Some sec \<and>
        sym_vmaOffset s = vma \<and> unat (sym_address s) + unat vma < 2 ^ 63)"

lemma size_to_next_plain:
  assumes "section_ptr e = section_ptr s" and "sym_address e \<noteq> sym_address s" and "\<not> has_flag symDebug s"
  shows "size_to_next s sec (e # es) = sym_address e - sym_address s"
  using assms by simp

lemma plain_key:
  assumes "plain_symbols vma sec syms" and "s \<in> set syms"
  shows "sym_key s = unat (sym_address s) + unat vma" and "sym_key s < 2 ^ 63"
proof -
  have "unat (sym_address s) + unat vma < 2 ^ 63" and v: "sym_vmaOffset s = vma"
    using assms by (auto simp: plain_symbols_def)
  then show "sym_key s = unat (sym_address s) + unat vma" and "sym_key s < 2 ^ 63"
    by (simp_all add: sym_key_def unat_word_ariths)
qed

lemma plain_sorted:
  assumes "plain_symbols vma sec syms"
  shows "plain_symbols vma sec (qsort symCompareFunc syms)"
    and "sorted_wrt (\<lambda>s t. sym_address s < sym_address t) (qsort symCompareFunc syms)"
proof -
  let ?a = "qsort symCompareFunc syms"
  have d: "distinct (map sym_address ?a)"
    using assms unfolding plain_symbols_def
    by (metis (no_types) mset_qsort mset_eq_imp_distinct_iff mset_map)
  then show p: "plain_symbols vma sec ?a"
    using assms by (simp add: plain_symbols_def)
  have so: "sorted (map sym_key ?a)"
    using plain_key(2) [OF assms] by (rule sorted_symbols)
  show "sorted_wrt (\<lambda>s t. sym_address s < sym_address t) ?a"
  proof (rule sorted_wrt_iff_nth_less [THEN iffD2], intro allI impI)
    fix i j assume ij: "i < j" "j < length ?a"
    then have "sym_key (?a ! i) \<le> sym_key (?a ! j)"
      using so by (simp add: sorted_iff_nth_mono)
    then have "unat (sym_address (?a ! i)) \<le> unat (sym_address (?a ! j))"
      unfolding plain_key(1) [OF p nth_mem [OF less_trans [OF ij]]] plain_key(1) [OF p nth_mem [OF ij(2)]]
      by simp
    moreover have "sym_address (?a ! i) \<noteq> sym_address (?a ! j)"
      using d ij by (simp add: distinct_conv_nth)
    ultimately show "sym_address (?a ! i) < sym_address (?a ! j)"
      by (simp add: word_less_nat_alt word_unat_eq_iff)
  qed
qed

lemma plain_fixed:
  assumes "plain_symbols vma sec arr" and "Suc i < length arr"
  shows "sym_size (fixed_symbol arr i) = sym_address (arr ! Suc i) - sym_address (arr ! i)"
proof -
  have e: "drop (Suc i) arr = arr ! Suc i # drop (Suc (Suc i)) arr"
    using assms(2) by (simp add: Cons_nth_drop_Suc)
  have n: "sym_address (arr ! Suc i) \<noteq> sym_address (arr ! i)"
    using assms by (auto simp: plain_symbols_def distinct_conv_nth)
  have m: "arr ! i \<in> set arr" "arr ! Suc i \<in> set arr" using assms(2) by simp_all
  have f: "sym_size (arr ! i) = 0" "\<not> has_flag symDebug (arr ! i)" "sym_section (arr ! i) = Some sec"
    "section_ptr (arr ! Suc i) = section_ptr (arr ! i)"
    using m assms(1) by (simp_all add: plain_symbols_def section_ptr_def)
  show ?thesis
    using assms(2) n f by (simp add: fixed_symbol_def fixup_symbol_def e)
qed

lemma find_first:
  assumes "i < length xs" and "P (xs ! i)" and "\<And>k. k < i \<Longrightarrow> \<not> P (xs ! k)"
  shows "find P xs = Some (xs ! i)"
  using assms unfolding find_Some_iff by blast

lemma sym_covers_fixed:
  assumes "plain_symbols vma sec arr" and "Suc i < length arr"
  shows "sym_covers (vma + x) (fixed_symbol arr i) \<longleftrightarrow>
           sym_address (arr ! i) \<le> x \<and> x < sym_address (arr ! Suc i)"
proof -
  have i: "i < length arr" using assms(2) by simp
  have v: "sym_vmaOffset (arr ! i) = vma"
    using assms i by (simp add: plain_symbols_def)
  show ?thesis
    unfolding sym_covers_def fixed_symbol_fields [OF i] plain_fixed [OF assms] v by simp
qed

text \<open>
  The symbol an address belongs to: the nearest one that is not after it, provided that a later symbol
  bounds it. The last symbol of a table names nothing.
\<close>

definition symbol_at :: "Sym list \<Rightarrow> u64 \<Rightarrow> Sym option" where
  "symbol_at syms x =
     (if list_ex (\<lambda>t. x < sym_address t) syms
      then find (\<lambda>s. sym_address s \<le> x \<and> list_all (\<lambda>u. sym_address u \<le> sym_address s \<or> x < sym_address u) syms) syms
      else None)"

lemma symbol_at_Some:
  "symbol_at syms x = Some s \<Longrightarrow> s \<in> set syms \<and> sym_address s \<le> x \<and> (\<exists>t \<in> set syms. x < sym_address t) \<and>
     (\<forall>u \<in> set syms. sym_address u \<le> sym_address s \<or> x < sym_address u)"
  by (auto simp: symbol_at_def list_ex_iff list_all_iff find_Some_iff split: if_splits)

lemma symbol_at_None:
  "symbol_at syms x = None \<Longrightarrow> s \<in> set syms \<Longrightarrow> t \<in> set syms \<Longrightarrow> sym_address s \<le> x \<Longrightarrow> x < sym_address t \<Longrightarrow>
   \<exists>u \<in> set syms. sym_address s < sym_address u \<and> sym_address u \<le> x"
  by (auto simp: symbol_at_def list_ex_iff list_all_iff find_None_iff not_le not_less split: if_splits)

lemma sym_covers_bounded:
  assumes p: "plain_symbols vma sec arr" and i: "i < length arr" and c: "sym_covers (vma + x) (fixupFunctionSizes arr ! i)"
  shows "Suc i < length arr" and "sym_address (arr ! i) \<le> x" and "x < sym_address (arr ! Suc i)"
proof -
  show si: "Suc i < length arr"
  proof (rule ccontr)
    assume "\<not> Suc i < length arr"
    then have "drop (Suc i) arr = []" by simp
    moreover have "sym_size (arr ! i) = 0" "sym_vmaOffset (arr ! i) = vma" using p i by (simp_all add: plain_symbols_def)
    ultimately have "sym_size (fixed_symbol arr i) = 0"
      using i by (simp add: fixed_symbol_def fixup_symbol_def split: option.split)
    then show False using i c by (auto simp: fixup_nth sym_covers_def not_less)
  qed
  show "sym_address (arr ! i) \<le> x" "x < sym_address (arr ! Suc i)"
    using c i sym_covers_fixed [OF p si, of x] by (simp_all add: fixup_nth)
qed

lemma function_found:
  assumes plain: "plain_symbols vma sec syms" and st: "s \<in> set syms" "t \<in> set syms"
    and x: "sym_address s \<le> x" "x < sym_address t" "vma + x \<noteq> 0"
    and between: "\<forall>u \<in> set syms. sym_address u \<le> sym_address s \<or> x < sym_address u"
  shows "fst (getFunctionName (vma + x) (Symtab_new syms)) =
           Inr (Some (sym_name s), int_of_u64 (x - sym_address s))"
proof -
  define arr where "arr = qsort symCompareFunc syms"
  note p = plain_sorted(1) [OF plain, folded arr_def]
  have so: "\<And>i j. i < j \<Longrightarrow> j < length arr \<Longrightarrow> sym_address (arr ! i) < sym_address (arr ! j)"
    using plain_sorted(2) [OF plain, folded arr_def] by (simp add: sorted_wrt_iff_nth_less)
  have set_arr: "set arr = set syms" by (simp add: arr_def)
  obtain i where i: "i < length arr" "arr ! i = s" using st(1) set_arr by (metis in_set_conv_nth)
  obtain j where j: "j < length arr" "arr ! j = t" using st(2) set_arr by (metis in_set_conv_nth)
  have "\<not> j \<le> i" using so [of j i] i j x by (cases "j = i") auto
  then have si: "Suc i < length arr" using j by simp
  have nx: "x < sym_address (arr ! Suc i)"
    using between so [of i "Suc i"] i si set_arr nth_mem [OF si] by fastforce
  have "find (sym_covers (vma + x)) (fixupFunctionSizes arr) = Some (fixupFunctionSizes arr ! i)"
  proof (rule find_first)
    show "sym_covers (vma + x) (fixupFunctionSizes arr ! i)"
      using i x nx by (simp add: fixup_nth sym_covers_fixed [OF p si])
    fix k assume k: "k < i"
    then have sk: "Suc k < length arr" using i by simp
    have "sym_address (arr ! Suc k) \<le> sym_address s"
      using so [of "Suc k" i] k i by (cases "Suc k = i") auto
    then show "\<not> sym_covers (vma + x) (fixupFunctionSizes arr ! k)"
      using sk x(1) order_trans [of _ "sym_address s" x]
      by (auto simp: fixup_nth sym_covers_fixed [OF p sk] not_less)
  qed (use i in simp)
  moreover have v: "sym_vmaOffset s = vma" using plain st by (simp add: plain_symbols_def)
  ultimately have "fst (lookupSymbolByAddress (vma + x) (Symtab_new syms)) = Inr (Some (fixed_symbol arr i))"
    using x i by (simp add: lookup_no_cache Symtab_new_def arr_def fixup_nth)
  then show ?thesis
    using i v by (simp add: fst_getFunctionName fixed_symbol_fields)
qed

lemma no_function_found:
  assumes plain: "plain_symbols vma sec syms" and x: "symbol_at syms x = None" "vma + x \<noteq> 0"
  shows "fst (getFunctionName (vma + x) (Symtab_new syms)) = Inr (None, 0)"
proof -
  define arr where "arr = qsort symCompareFunc syms"
  note p = plain_sorted(1) [OF plain, folded arr_def]
  have so: "\<And>i j. i < j \<Longrightarrow> j < length arr \<Longrightarrow> sym_address (arr ! i) < sym_address (arr ! j)"
    using plain_sorted(2) [OF plain, folded arr_def] by (simp add: sorted_wrt_iff_nth_less)
  have set_arr: "set arr = set syms" by (simp add: arr_def)
  have "\<not> sym_covers (vma + x) (fixupFunctionSizes arr ! i)" if i: "i < length arr" for i
  proof
    assume "sym_covers (vma + x) (fixupFunctionSizes arr ! i)"
    note b = sym_covers_bounded [OF p i this]
    have "arr ! i \<in> set syms" "arr ! Suc i \<in> set syms" using i b(1) set_arr by (metis nth_mem)+
    from symbol_at_None [OF x(1) this b(2,3)] obtain u where u: "u \<in> set syms" "sym_address (arr ! i) < sym_address u" "sym_address u \<le> x"
      by blast
    then obtain k where k: "k < length arr" "arr ! k = u" using set_arr by (metis in_set_conv_nth)
    have "i < k" using so [of k i] u(2) k i by (metis less_asym' linorder_neqE_nat)
    then have "sym_address (arr ! Suc i) \<le> sym_address u" using so [of "Suc i" k] k by (cases "Suc i = k") auto
    then show False using b(3) u(3) by simp
  qed
  then have "find (sym_covers (vma + x)) (fixupFunctionSizes arr) = None"
    by (auto simp: find_None_iff in_set_conv_nth)
  then have "fst (lookupSymbolByAddress (vma + x) (Symtab_new syms)) = Inr None"
    using x by (simp add: lookup_no_cache Symtab_new_def arr_def)
  then show ?thesis by (simp add: fst_getFunctionName)
qed

text \<open>
  C22. The decoder names the function of an address. In a table of the symbols of one section as a linker
  leaves them (no sizes, no debug symbols, addresses that differ and stay below the middle of the address
  space), in whatever order, every address but 0 is looked up as follows: from a symbol on and before
  the next one it gets the name of that symbol and the distance from it; before the first symbol, and
  from the last symbol on, whose size stays zero, it gets no name.
\<close>

theorem function_of_address:
  assumes "plain_symbols vma sec syms" and "vma + x \<noteq> 0"
  shows "fst (getFunctionName (vma + x) (Symtab_new syms)) =
    Inr (case symbol_at syms x of None \<Rightarrow> (None, 0) | Some s \<Rightarrow> (Some (sym_name s), int_of_u64 (x - sym_address s)))"
proof (cases "symbol_at syms x")
  case None
  then show ?thesis using no_function_found [OF assms(1) None assms(2)] by simp
next
  case (Some s)
  from symbol_at_Some [OF this] obtain t where "s \<in> set syms" "t \<in> set syms" "sym_address s \<le> x" "x < sym_address t"
      "\<forall>u \<in> set syms. sym_address u \<le> sym_address s \<or> x < sym_address u" by blast
  from function_found [OF assms(1) this(1-4) assms(2) this(5)] Some show ?thesis by simp
qed

section \<open>An example\<close>

definition demo_section :: "nat \<times> Section" where
  "demo_section = (1, \<lparr>startAddr = 0x100, endAddr = 0x2FF, vmaOffset = 0, code = []\<rparr>)"

definition demo_sym :: "string \<Rightarrow> u64 \<Rightarrow> Sym" where
  "demo_sym name a =
     \<lparr>sym_name = name, sym_flags = symGlobal OR symFunc, sym_section = Some demo_section,
      sym_vmaOffset = 0, sym_address = a, sym_size = 0\<rparr>"

definition demo_syms :: "Sym list" where
  "demo_syms = [demo_sym ''end'' 0x200, demo_sym ''main'' 0x100, demo_sym ''work'' 0x140]"

lemma demo_plain: "plain_symbols 0 demo_section demo_syms"
  by (simp add: plain_symbols_def demo_syms_def demo_sym_def demo_section_def symDebug_def symGlobal_def symFunc_def)

text \<open>An address in a function, one in the last function and one before the first.\<close>

theorem function_of_address_witness:
  "fst (getFunctionName (0 + 0x144) (Symtab_new demo_syms)) = Inr (Some ''work'', int_of_u64 4) \<and>
   fst (getFunctionName (0 + 0x204) (Symtab_new demo_syms)) = Inr (None, 0) \<and>
   fst (getFunctionName (0 + 0x80) (Symtab_new demo_syms)) = Inr (None, 0)"
proof -
  have "symbol_at demo_syms 0x144 = Some (demo_sym ''work'' 0x140)" "symbol_at demo_syms 0x204 = None"
    "symbol_at demo_syms 0x80 = None"
    by (simp_all add: symbol_at_def demo_syms_def demo_sym_def)
  then show ?thesis
    using function_of_address [OF demo_plain, of "0x144"] function_of_address [OF demo_plain, of "0x204"]
      function_of_address [OF demo_plain, of "0x80"]
    by (simp add: demo_sym_def)
qed

end
