(* ===== verification/Src_Info.thy ===== *)
theory Src_Info
  imports File_Lines Symtab
begin

text \<open>
  The text of an instruction and the source line it comes from: \<^verbatim>\<open>Disassembler::disassemble\<close>,
  \<^verbatim>\<open>getInstruction\<close>, \<^verbatim>\<open>getSrcLines\<close> and \<^verbatim>\<open>findNearestLine\<close>, and the cache of a section
  (\<^verbatim>\<open>cachedInstInfo\<close>), all in src/dqr.cpp.

  A section has more arrays here than the fetch of instructions needs: the file and the line of each
  half word, the text that \<^verbatim>\<open>objdump\<close> gave it, and the cache. \<open>Inr ()\<close> is \<^verbatim>\<open>DQERR_OK\<close>; an operation
  that fails half way leaves what it wrote before. The messages printed are left out.
\<close>

section \<open>The cache of a section\<close>

record cachedInstInfo =
  ci_filename :: "string option"
  ci_cutPathIndex :: nat
  ci_functionname :: "string option"
  ci_linenumber :: int
  ci_lineptr :: "string option"
  ci_instruction :: u32
  ci_instsize :: int
  ci_instructionText :: "string option"
  ci_addressLabel :: "string option"
  ci_addressLabelOffset :: int

record LineSection = Section +
  sec_fName :: "string option list"
  sec_line :: "u32 list"
  sec_diss :: "string option list"
  sec_cachedInfo :: "cachedInstInfo option list option"

definition in_bare_range :: "ADDRESS \<Rightarrow> LineSection \<Rightarrow> bool" where
  "in_bare_range addr sp \<longleftrightarrow> addr \<ge> startAddr sp \<and> addr \<le> endAddr sp"

definition cache_index :: "ADDRESS \<Rightarrow> LineSection \<Rightarrow> nat" where
  "cache_index addr sp = unat (drop_bit 1 (addr - startAddr sp))"

definition getCachedInfo :: "ADDRESS \<Rightarrow> LineSection \<Rightarrow> cachedInstInfo option outcome" where
  "getCachedInfo addr sp =
     (if in_bare_range addr sp then
        (case sec_cachedInfo sp of
           None \<Rightarrow> Inr None
         | Some c \<Rightarrow> if cache_index addr sp < length c then Inr (c ! cache_index addr sp) else Inl UB)
      else Inr None)"

definition setCachedInfo :: "ADDRESS \<Rightarrow> cachedInstInfo \<Rightarrow> LineSection \<Rightarrow> LineSection outcome" where
  "setCachedInfo addr ci sp =
     (if in_bare_range addr sp then
        (case sec_cachedInfo sp of
           None \<Rightarrow> Inr sp
         | Some c \<Rightarrow>
             (let index = cache_index addr sp in
              if index \<ge> length c then Inl UB
              else if c ! index \<noteq> None then Inr sp
              else Inr (sp\<lparr>sec_cachedInfo := Some (c[index := Some ci])\<rparr>)))
      else Inr sp)"

text \<open>The list with the first section that has the address replaced.\<close>

fun put_section :: "ADDRESS \<Rightarrow> LineSection \<Rightarrow> LineSection list \<Rightarrow> LineSection list" where
  "put_section addr new [] = []"
| "put_section addr new (sp # next) =
     (if addr \<ge> startAddr sp + vmaOffset sp \<and> addr \<le> endAddr sp + vmaOffset sp then new # next
      else sp # put_section addr new next)"

section \<open>The state of the disassembler\<close>

record Source =
  so_sourceFile :: "string option"
  so_cutPathIndex :: nat
  so_sourceFunction :: "string option"
  so_sourceLine :: "string option"
  so_sourceLineNum :: u32

record DisInstruction =
  di_coreId :: nat
  di_CRFlag :: int
  di_brFlags :: int
  di_address :: ADDRESS
  di_instSize :: int
  di_instruction :: u32
  di_instructionText :: "string option"
  di_addressLabel :: "string option"
  di_addressLabelOffset :: int
  di_timestamp :: TIMESTAMP

record SrcDisassembler =
  sd_sectionLst :: "LineSection list"
  sd_symtab :: Symtab
  sd_cachedAddr :: ADDRESS
  sd_cachedSecPtr :: "LineSection option"
  sd_cachedIndex :: int
  sd_fileReader :: fileReader
  sd_pType :: pathType
  sd_instruction :: DisInstruction
  sd_source :: Source

definition no_source :: Source where
  "no_source = \<lparr>so_sourceFile = None, so_cutPathIndex = 0, so_sourceFunction = None, so_sourceLine = None,
                so_sourceLineNum = 0\<rparr>"

definition no_instruction :: DisInstruction where
  "no_instruction =
     \<lparr>di_coreId = 0, di_CRFlag = 0, di_brFlags = 0, di_address = 0, di_instSize = 0, di_instruction = 0,
      di_instructionText = None, di_addressLabel = None, di_addressLabelOffset = 0, di_timestamp = 0\<rparr>"

definition SrcDisassembler_new :: "Symtab \<Rightarrow> LineSection list \<Rightarrow> SrcDisassembler" where
  "SrcDisassembler_new stp sp =
     \<lparr>sd_sectionLst = sp, sd_symtab = stp, sd_cachedAddr = 0, sd_cachedSecPtr = None, sd_cachedIndex = -1,
      sd_fileReader = fileReader_new, sd_pType = PATH_TO_UNIX,
      sd_instruction = no_instruction, sd_source = no_source\<rparr>"

definition Disassembler_setPathType :: "pathType \<Rightarrow> SrcDisassembler \<Rightarrow> SrcDisassembler" where
  "Disassembler_setPathType pt d = d\<lparr>sd_pType := pt\<rparr>"

definition Disassembler_subSrcPath :: "string option \<Rightarrow> string option \<Rightarrow> SrcDisassembler \<Rightarrow> SrcDisassembler" where
  "Disassembler_subSrcPath cutp root d = d\<lparr>sd_fileReader := fileReader_subSrcPath cutp root (sd_fileReader d)\<rparr>"

section \<open>The source line of an address\<close>

definition elem_at :: "'a list \<Rightarrow> int \<Rightarrow> 'a outcome" where
  "elem_at xs i = (if 0 \<le> i \<and> i < int (length xs) then Inr (xs ! nat i) else Inl UB)"

definition cacheSrcLine :: "ADDRESS \<Rightarrow> SrcDisassembler \<Rightarrow> unit outcome \<times> SrcDisassembler" where
  "cacheSrcLine addr d =
     (if sd_sectionLst d = [] then (Inl (Rc DQERR_ERR), d)
      else case getSectionByAddress (sd_sectionLst d) addr of
        None \<Rightarrow> (Inl (Rc DQERR_ERR), d)
      | Some sp \<Rightarrow> (Inr (), d\<lparr>sd_cachedAddr := addr, sd_cachedSecPtr := Some sp,
                             sd_cachedIndex := code_index sp addr\<rparr>))"

definition findNearestLine :: "ADDRESS \<Rightarrow> SrcDisassembler \<Rightarrow> (string option \<times> int) outcome \<times> SrcDisassembler" where
  "findNearestLine addr d =
     (if addr = 0 then (Inr (None, 0), d)
      else case (if addr \<noteq> sd_cachedAddr d then cacheSrcLine addr d else (Inr (), d)) of
        (Inl e, d1) \<Rightarrow> (Inl (Rc DQERR_ERR), d1)
      | (Inr _, d1) \<Rightarrow>
          (case sd_cachedSecPtr d1 of
             None \<Rightarrow> (Inl UB, d1)
           | Some sp \<Rightarrow>
               (case elem_at (sec_fName sp) (sd_cachedIndex d1) of
                  Inl e \<Rightarrow> (Inl e, d1)
                | Inr file \<Rightarrow>
                    (case elem_at (sec_line sp) (sd_cachedIndex d1) of
                       Inl e \<Rightarrow> (Inl e, d1)
                     | Inr line \<Rightarrow> (Inr (file, sint line), d1)))))"

text \<open>The buffer for the path: 2048 characters, or as many as a longer name needs with its end.\<close>

definition path_fits :: "string \<Rightarrow> string \<Rightarrow> bool" where
  "path_fits file sane \<longleftrightarrow>
     length sane + 1 \<le> (if length file > 2048 then length file + 1 else 2048)"

definition add_function :: "string \<Rightarrow> fileList \<Rightarrow> fileList" where
  "add_function f fl = (if f \<in> set (fl_funcs fl) then fl else fl\<lparr>fl_funcs := f # fl_funcs fl\<rparr>)"

definition line_of :: "fileList \<Rightarrow> int \<Rightarrow> string option" where
  "line_of fl line =
     (if 1 \<le> line \<and> line \<le> int (fl_lineCount fl) then
        map_option (\<lambda>ls. ls ! nat (line - 1)) (fl_lines fl) else None)"

text \<open>The end of \<^verbatim>\<open>getSrcLines\<close>, once the file, the line and the function are known.\<close>

definition read_src_line ::
  "(string \<Rightarrow> string option) \<Rightarrow> string \<Rightarrow> int \<Rightarrow> string option \<Rightarrow> SrcDisassembler \<Rightarrow> unit outcome \<times> SrcDisassembler" where
  "read_src_line fs file line function d =
     (let sane = sanePath (sd_pType d) file in
      if \<not> path_fits file sane then (Inl UB, d)
      else case findFile fs sane (sd_fileReader d) of
        (None, fr) \<Rightarrow> (Inl (Rc DQERR_ERR), d\<lparr>sd_fileReader := fr\<rparr>)
      | (Some i, fr) \<Rightarrow>
          (let fl = fr_files fr ! i;
               fl1 = (case function of None \<Rightarrow> fl | Some f \<Rightarrow> add_function f fl) in
           (Inr (), d\<lparr>sd_fileReader := fr\<lparr>fr_files := (fr_files fr)[i := fl1]\<rparr>,
                      sd_source := (sd_source d)\<lparr>so_sourceFile := Some (fl_name fl),
                        so_cutPathIndex := fl_cutPathIndex fl, so_sourceFunction := function,
                        so_sourceLine := line_of fl line\<rparr>\<rparr>)))"

definition getSrcLines :: "(string \<Rightarrow> string option) \<Rightarrow> ADDRESS \<Rightarrow> SrcDisassembler \<Rightarrow> unit outcome \<times> SrcDisassembler" where
  "getSrcLines fs addr d0 =
     (let d = d0\<lparr>sd_source := no_source\<rparr> in
      case findNearestLine addr d of
        (Inl UB, d1) \<Rightarrow> (Inl UB, d1)
      | (Inl (Rc e), d1) \<Rightarrow> (Inl (Rc DQERR_ERR), d1)
      | (Inr (None, _), d1) \<Rightarrow> (Inr (), d1)
      | (Inr (Some file, line), d1) \<Rightarrow>
          (let d2 = d1\<lparr>sd_source := (sd_source d1)\<lparr>so_sourceLineNum := word_of_int line\<rparr>\<rparr> in
           case getFunctionName addr (sd_symtab d2) of
             (Inl UB, t) \<Rightarrow> (Inl UB, d2)
           | (Inl (Rc e), t) \<Rightarrow> (Inl (Rc DQERR_ERR), d2\<lparr>sd_symtab := t\<rparr>)
           | (Inr (function, offset), t) \<Rightarrow> read_src_line fs file line function (d2\<lparr>sd_symtab := t\<rparr>)))"

section \<open>The instruction at an address\<close>

definition Disassembler_getInstructionInfo :: "ADDRESS \<Rightarrow> SrcDisassembler \<Rightarrow> unit outcome \<times> SrcDisassembler" where
  "Disassembler_getInstructionInfo addr d =
     (if sd_sectionLst d = [] then (Inl (Rc DQERR_ERR), d)
      else case getSectionByAddress (sd_sectionLst d) addr of
        None \<Rightarrow> (Inl (Rc DQERR_ERR), d)
      | Some sp \<Rightarrow>
          (let index = code_index sp addr;
               i1 = (sd_instruction d)\<lparr>di_coreId := 0, di_CRFlag := 0, di_brFlags := 0, di_address := addr\<rparr>;
               d1 = d\<lparr>sd_instruction := i1\<rparr> in
           case Disassembler_getInstruction (sd_sectionLst d) addr of
             Inl e \<Rightarrow> (Inl e, d1)
           | Inr (inst, sz) \<Rightarrow>
               (case elem_at (sec_diss sp) index of
                  Inl e \<Rightarrow> (Inl e, d1)
                | Inr text \<Rightarrow>
                    (let i2 = i1\<lparr>di_instSize := sz, di_instruction := inst, di_instructionText := text\<rparr>;
                         d2 = d\<lparr>sd_instruction := i2\<rparr> in
                     case lookupSymbolByAddress addr (sd_symtab d) of
                       (Inl UB, t) \<Rightarrow> (Inl UB, d2)
                     | (Inl (Rc e), t) \<Rightarrow> (Inl (Rc DQERR_ERR), d2\<lparr>sd_symtab := t\<rparr>)
                     | (Inr found, t) \<Rightarrow>
                         (Inr (), d2\<lparr>sd_symtab := t,
                            sd_instruction := (case found of
                                None \<Rightarrow> i2\<lparr>di_addressLabel := None, di_addressLabelOffset := 0, di_timestamp := 0\<rparr>
                              | Some s \<Rightarrow> i2\<lparr>di_addressLabel := Some (sym_name s),
                                  di_addressLabelOffset := int_of_u64 ((addr - sym_vmaOffset s) - sym_address s),
                                  di_timestamp := 0\<rparr>)\<rparr>)))))"

definition disassemble :: "(string \<Rightarrow> string option) \<Rightarrow> ADDRESS \<Rightarrow> SrcDisassembler \<Rightarrow> unit outcome \<times> SrcDisassembler" where
  "disassemble fs addr d =
     (if sd_sectionLst d = [] then (Inl (Rc DQERR_ERR), d)
      else case getSectionByAddress (sd_sectionLst d) addr of
        None \<Rightarrow> (Inl (Rc DQERR_ERR), d)
      | Some sp \<Rightarrow>
          (case getCachedInfo addr sp of
             Inl e \<Rightarrow> (Inl e, d)
           | Inr (Some ci) \<Rightarrow>
               (Inr (), d\<lparr>sd_source := \<lparr>so_sourceFile = ci_filename ci, so_cutPathIndex = ci_cutPathIndex ci,
                           so_sourceFunction = ci_functionname ci, so_sourceLine = ci_lineptr ci,
                           so_sourceLineNum = word_of_int (ci_linenumber ci)\<rparr>,
                         sd_instruction := (sd_instruction d)\<lparr>di_address := addr, di_instruction := ci_instruction ci,
                           di_instSize := ci_instsize ci, di_instructionText := ci_instructionText ci,
                           di_addressLabel := ci_addressLabel ci, di_addressLabelOffset := ci_addressLabelOffset ci\<rparr>\<rparr>)
           | Inr None \<Rightarrow>
               (case Disassembler_getInstructionInfo addr d of
                  (Inl UB, d1) \<Rightarrow> (Inl UB, d1)
                | (Inl (Rc e), d1) \<Rightarrow> (Inl (Rc DQERR_ERR), d1)
                | (Inr _, d1) \<Rightarrow>
                    (case getSrcLines fs addr d1 of
                       (Inl UB, d2) \<Rightarrow> (Inl UB, d2)
                     | (Inl (Rc e), d2) \<Rightarrow> (Inl (Rc DQERR_ERR), d2)
                     | (Inr _, d2) \<Rightarrow>
                         (let so = sd_source d2; di = sd_instruction d2 in
                          case setCachedInfo addr
                                 \<lparr>ci_filename = so_sourceFile so, ci_cutPathIndex = so_cutPathIndex so,
                                  ci_functionname = so_sourceFunction so, ci_linenumber = sint (so_sourceLineNum so),
                                  ci_lineptr = so_sourceLine so, ci_instruction = di_instruction di,
                                  ci_instsize = di_instSize di, ci_instructionText = di_instructionText di,
                                  ci_addressLabel = di_addressLabel di,
                                  ci_addressLabelOffset = di_addressLabelOffset di\<rparr> sp of
                            Inl e \<Rightarrow> (Inl e, d2)
                          | Inr sp1 \<Rightarrow> (Inr (), d2\<lparr>sd_sectionLst := put_section addr sp1 (sd_sectionLst d2)\<rparr>))))))"

end
