(* ===== verification/Src_Lines.thy ===== *)
theory Src_Lines
  imports Src_Info
begin

text \<open>
  What the disassembler shows does not depend on what it was asked before: with its caches, its table
  of symbols and its list of files it gives the instruction and the source line that the sections,
  the symbols and the files of the machine determine.
\<close>

section \<open>The answer without caches\<close>

definition instruction_of :: "ADDRESS \<Rightarrow> LineSection list \<Rightarrow> Sym list \<Rightarrow> DisInstruction outcome" where
  "instruction_of addr secs syms =
     (case getSectionByAddress secs addr of
        None \<Rightarrow> Inl (Rc DQERR_ERR)
      | Some sp \<Rightarrow>
          (case Disassembler_getInstruction secs addr of
             Inl UB \<Rightarrow> Inl UB
           | Inl (Rc e) \<Rightarrow> Inl (Rc DQERR_ERR)
           | Inr (inst, sz) \<Rightarrow>
               (case elem_at (sec_diss sp) (code_index sp addr) of
                  Inl e \<Rightarrow> Inl e
                | Inr text \<Rightarrow>
                    if addr = 0 then Inl (Rc DQERR_ERR)
                    else (let s = find (sym_covers addr) syms in
                      Inr \<lparr>di_coreId = 0, di_CRFlag = 0, di_brFlags = 0, di_address = addr, di_instSize = sz,
                           di_instruction = inst, di_instructionText = text,
                           di_addressLabel = map_option sym_name s,
                           di_addressLabelOffset =
                             (case s of None \<Rightarrow> 0 | Some s \<Rightarrow> int_of_u64 ((addr - sym_vmaOffset s) - sym_address s)),
                           di_timestamp = 0\<rparr>))))"

definition source_of ::
  "(string \<Rightarrow> string option) \<Rightarrow> pathType \<Rightarrow> fileReader \<Rightarrow> Sym list \<Rightarrow> ADDRESS \<Rightarrow> LineSection \<Rightarrow> Source outcome" where
  "source_of fs pt fr syms addr sp =
     (case elem_at (sec_fName sp) (code_index sp addr) of
        Inl e \<Rightarrow> Inl e
      | Inr file \<Rightarrow>
          (case elem_at (sec_line sp) (code_index sp addr) of
             Inl e \<Rightarrow> Inl e
           | Inr line \<Rightarrow>
               (case file of
                  None \<Rightarrow> Inr no_source
                | Some file \<Rightarrow>
                    if \<not> path_fits file (sanePath pt file) then Inl UB
                    else (let fl = file_entry fs (sanePath pt file) fr in
                      Inr \<lparr>so_sourceFile = Some (sanePath pt file), so_cutPathIndex = fl_cutPathIndex fl,
                           so_sourceFunction = map_option sym_name (find (sym_covers addr) syms),
                           so_sourceLine = line_of fl (sint line), so_sourceLineNum = line\<rparr>))))"

definition shown_at ::
  "(string \<Rightarrow> string option) \<Rightarrow> pathType \<Rightarrow> fileReader \<Rightarrow> Sym list \<Rightarrow> LineSection list \<Rightarrow> ADDRESS
     \<Rightarrow> (DisInstruction \<times> Source) outcome" where
  "shown_at fs pt fr syms secs addr =
     (case instruction_of addr secs syms of
        Inl e \<Rightarrow> Inl e
      | Inr i \<Rightarrow>
          (case source_of fs pt fr syms addr (the (getSectionByAddress secs addr)) of
             Inl e \<Rightarrow> Inl e
           | Inr s \<Rightarrow> Inr (i, s)))"

section \<open>The invariant of the disassembler\<close>

definition fresh_file :: "(string \<Rightarrow> string option) \<Rightarrow> fileReader \<Rightarrow> fileList \<Rightarrow> bool" where
  "fresh_file fs fr fl \<longleftrightarrow> fl\<lparr>fl_funcs := []\<rparr> = file_entry fs (fl_name fl) fr"

definition line_cache_ok :: "LineSection list \<Rightarrow> ADDRESS \<Rightarrow> LineSection option \<Rightarrow> int \<Rightarrow> bool" where
  "line_cache_ok secs addr sec index \<longleftrightarrow>
     addr = 0 \<or> (\<exists>sp. getSectionByAddress secs addr = Some sp \<and> sec = Some sp \<and> index = code_index sp addr)"

definition src_inv :: "(string \<Rightarrow> string option) \<Rightarrow> SrcDisassembler \<Rightarrow> bool" where
  "src_inv fs d \<longleftrightarrow>
     cachedSymSize (sd_symtab d) = 0 \<and>
     (\<forall>sp \<in> set (sd_sectionLst d). sec_cachedInfo sp = None) \<and>
     reader_ok (sd_fileReader d) \<and>
     (\<forall>fl \<in> set (fr_files (sd_fileReader d)). fresh_file fs (sd_fileReader d) fl) \<and>
     line_cache_ok (sd_sectionLst d) (sd_cachedAddr d) (sd_cachedSecPtr d) (sd_cachedIndex d)"

text \<open>The parts that determine what is shown.\<close>

definition same_world :: "SrcDisassembler \<Rightarrow> SrcDisassembler \<Rightarrow> bool" where
  "same_world d e \<longleftrightarrow>
     sd_sectionLst e = sd_sectionLst d \<and> symPtrArray (sd_symtab e) = symPtrArray (sd_symtab d) \<and>
     sd_pType e = sd_pType d \<and> fr_cutPath (sd_fileReader e) = fr_cutPath (sd_fileReader d) \<and>
     fr_newRoot (sd_fileReader e) = fr_newRoot (sd_fileReader d)"

lemma same_world_refl [simp]: "same_world d d"
  by (simp add: same_world_def)

lemma same_world_trans: "same_world a b \<Longrightarrow> same_world b c \<Longrightarrow> same_world a c"
  by (simp add: same_world_def)

lemma file_entry_cong:
  assumes "fr_cutPath fr = fr_cutPath fr1" and "fr_newRoot fr = fr_newRoot fr1"
  shows "file_entry fs file fr = file_entry fs file fr1"
  unfolding file_entry_def open_source_def assms ..

lemma source_of_world:
  assumes "same_world d e"
  shows "source_of fs (sd_pType e) (sd_fileReader e) = source_of fs (sd_pType d) (sd_fileReader d)"
proof -
  have c: "file_entry fs g (sd_fileReader e) = file_entry fs g (sd_fileReader d)" for g
    using assms by (intro file_entry_cong) (simp_all add: same_world_def)
  have "sd_pType e = sd_pType d" using assms by (simp add: same_world_def)
  then show ?thesis by (intro ext) (simp only: source_of_def c)
qed

lemma shown_at_world:
  assumes "same_world d e"
  shows "shown_at fs (sd_pType e) (sd_fileReader e) (symPtrArray (sd_symtab e)) (sd_sectionLst e) addr =
     shown_at fs (sd_pType d) (sd_fileReader d) (symPtrArray (sd_symtab d)) (sd_sectionLst d) addr"
proof -
  have "sd_sectionLst e = sd_sectionLst d" "symPtrArray (sd_symtab e) = symPtrArray (sd_symtab d)"
    using assms by (simp_all add: same_world_def)
  then show ?thesis by (simp only: shown_at_def source_of_world [OF assms])
qed

lemma src_inv_new:
  "\<forall>sp \<in> set secs. sec_cachedInfo sp = None \<Longrightarrow> src_inv fs (SrcDisassembler_new (Symtab_new syms) secs)"
  by (simp add: src_inv_def SrcDisassembler_new_def Symtab_new_def fileReader_new_def reader_ok_def line_cache_ok_def)

section \<open>The steps\<close>

lemma put_section_same: "getSectionByAddress secs addr = Some sp \<Longrightarrow> put_section addr sp secs = secs"
  by (induction secs) (auto split: if_splits)

lemma section_in_list: "getSectionByAddress secs addr = Some sp \<Longrightarrow> sp \<in> set secs"
  by (induction secs) (auto split: if_splits)

lemma findNearestLine_step:
  assumes inv: "src_inv fs d" and sec: "getSectionByAddress (sd_sectionLst d) addr = Some sp" and nz: "addr \<noteq> 0"
  obtains d1 where
    "findNearestLine addr d =
       ((case elem_at (sec_fName sp) (code_index sp addr) of
           Inl e \<Rightarrow> Inl e
         | Inr file \<Rightarrow>
             (case elem_at (sec_line sp) (code_index sp addr) of Inl e \<Rightarrow> Inl e | Inr line \<Rightarrow> Inr (file, sint line))), d1)"
    and "src_inv fs d1" and "same_world d d1" and "sd_source d1 = sd_source d"
    and "sd_fileReader d1 = sd_fileReader d" and "sd_symtab d1 = sd_symtab d" and "sd_instruction d1 = sd_instruction d"
proof (cases "addr = sd_cachedAddr d")
  case True
  then have c: "sd_cachedSecPtr d = Some sp" "sd_cachedIndex d = code_index sp addr"
    using inv sec nz by (simp_all add: src_inv_def line_cache_ok_def)
  show ?thesis
    by (rule that [of d])
      (use inv nz c True in \<open>simp_all add: findNearestLine_def split: sum.split\<close>)
next
  case False
  let ?d = "d\<lparr>sd_cachedAddr := addr, sd_cachedSecPtr := Some sp, sd_cachedIndex := code_index sp addr\<rparr>"
  have ne: "sd_sectionLst d \<noteq> []" using sec by auto
  show ?thesis
    by (rule that [of ?d])
      (use inv nz sec ne False in \<open>simp_all add: findNearestLine_def cacheSrcLine_def src_inv_def same_world_def line_cache_ok_def split: sum.split\<close>)
qed

lemma findFile_entry:
  assumes ok: "reader_ok fr" and fresh: "\<forall>fl \<in> set (fr_files fr). fresh_file fs fr fl"
  obtains i fr1 where "findFile fs file fr = (Some i, fr1)" and "reader_ok fr1" and "i < length (fr_files fr1)"
    and "fl_name (fr_files fr1 ! i) = file" and "\<forall>fl \<in> set (fr_files fr1). fresh_file fs fr1 fl"
    and "fr_cutPath fr1 = fr_cutPath fr" and "fr_newRoot fr1 = fr_newRoot fr"
proof (cases "file \<in> fl_name ` set (fr_files fr)")
  case True
  then obtain i where i: "i < length (fr_files fr)" "fl_name (fr_files fr ! i) = file"
    by (auto simp: in_set_conv_nth)
  obtain r fr1 where e: "findFile fs file fr = (r, fr1)" by fastforce
  note k = findFile_known [OF ok i, of fs, unfolded e fst_conv snd_conv]
  have "\<forall>fl \<in> set (fr_files fr1). fresh_file fs fr1 fl"
    using fresh file_entry_cong [OF k(4,5), of fs] by (simp add: k(2) fresh_file_def)
  then show ?thesis
    by (intro that [of i fr1]) (use e i k in simp_all)
next
  case False
  note n = findFile_new [OF ok False, of fs]
  let ?fr = "fr\<lparr>fr_files := fr_files fr @ [file_entry fs file fr]\<rparr>"
  have c: "file_entry fs f ?fr = file_entry fs f fr" for f
    by (rule file_entry_cong) simp_all
  have "fresh_file fs ?fr (file_entry fs file fr)"
    unfolding fresh_file_def c by (simp add: file_entry_def split: prod.split)
  moreover have "\<forall>fl \<in> set (fr_files fr). fresh_file fs ?fr fl"
    using fresh unfolding fresh_file_def c .
  ultimately have "\<forall>fl \<in> set (fr_files ?fr). fresh_file fs ?fr fl" by simp
  then show ?thesis
    using findFile_new_ok [OF ok False, of fs] by (intro that [OF n]) (simp_all add: n)
qed

lemma fresh_file_fields:
  assumes "fresh_file fs fr fl"
  shows "fl_cutPathIndex fl = fl_cutPathIndex (file_entry fs (fl_name fl) fr)"
    and "line_of fl n = line_of (file_entry fs (fl_name fl) fr) n"
  using assms unfolding fresh_file_def by (metis fileList.select_convs(2) fileList.surjective fileList.update_convs(3),
      metis line_of_def fileList.select_convs(4,5) fileList.surjective fileList.update_convs(3))

lemma reader_ok_files:
  assumes "reader_ok fr" and "map fl_name xs = map fl_name (fr_files fr)"
  shows "reader_ok (fr\<lparr>fr_files := xs\<rparr>)"
  using assms map_eq_imp_length_eq [OF assms(2)] by (cases "fr_lastFile fr") (simp_all add: reader_ok_def)

lemma read_src_line_step:
  assumes inv: "src_inv fs d"
    and n: "sane = sanePath (sd_pType d) file" and e: "entry = file_entry fs sane (sd_fileReader d)"
  obtains d1 where
    "read_src_line fs file line f d = ((if path_fits file sane then Inr () else Inl UB), d1)"
    and "src_inv fs d1" and "same_world d d1" and "sd_instruction d1 = sd_instruction d"
    and "path_fits file sane \<Longrightarrow>
       sd_source d1 = (sd_source d)\<lparr>so_sourceFile := Some sane, so_cutPathIndex := fl_cutPathIndex entry,
                        so_sourceFunction := f, so_sourceLine := line_of entry line\<rparr>"
proof (cases "path_fits file sane")
  case False
  show ?thesis
    by (rule that [of d]) (use False inv in \<open>simp_all add: read_src_line_def n\<close>)
next
  case True
  have ok: "reader_ok (sd_fileReader d)" and fr: "\<forall>fl \<in> set (fr_files (sd_fileReader d)). fresh_file fs (sd_fileReader d) fl"
    using inv by (simp_all add: src_inv_def)
  obtain i fr1 where found: "findFile fs sane (sd_fileReader d) = (Some i, fr1)" and ok1: "reader_ok fr1"
    and i: "i < length (fr_files fr1)" "fl_name (fr_files fr1 ! i) = sane"
    and fresh: "\<forall>fl \<in> set (fr_files fr1). fresh_file fs fr1 fl"
    and w: "fr_cutPath fr1 = fr_cutPath (sd_fileReader d)" "fr_newRoot fr1 = fr_newRoot (sd_fileReader d)"
    using findFile_entry [OF ok fr] by metis
  define fl where "fl = fr_files fr1 ! i"
  define fl1 where "fl1 = (case f of None \<Rightarrow> fl | Some g \<Rightarrow> add_function g fl)"
  define fr2 where "fr2 = fr1\<lparr>fr_files := (fr_files fr1)[i := fl1]\<rparr>"
  have fl: "fresh_file fs fr1 fl" "fl_name fl = sane" using fresh i by (simp_all add: fl_def)
  have e1: "file_entry fs sane fr1 = entry" unfolding e by (rule file_entry_cong [OF w])
  note fields = fresh_file_fields [OF fl(1), unfolded fl(2) e1]
  have same: "fl1\<lparr>fl_funcs := []\<rparr> = fl\<lparr>fl_funcs := []\<rparr>" "fl_name fl1 = fl_name fl"
    by (simp_all add: fl1_def add_function_def split: option.split)
  have ce: "file_entry fs g fr2 = file_entry fs g fr1" for g
    by (rule file_entry_cong) (simp_all add: fr2_def)
  have ok2: "reader_ok fr2"
  proof -
    have "map fl_name ((fr_files fr1)[i := fl1]) = map fl_name (fr_files fr1)"
      using i(1) same(2) by (intro nth_equalityI) (auto simp: nth_list_update fl_def)
    then show ?thesis using ok1 unfolding fr2_def by (rule reader_ok_files [rotated])
  qed
  have fresh2: "\<forall>fl \<in> set (fr_files fr2). fresh_file fs fr2 fl"
  proof
    fix x assume "x \<in> set (fr_files fr2)"
    then have "x \<in> insert fl1 (set (fr_files fr1))"
      using set_update_subset_insert by (force simp: fr2_def)
    then show "fresh_file fs fr2 x"
      using fresh fl same by (auto simp: fresh_file_def ce)
  qed
  let ?d1 = "d\<lparr>sd_fileReader := fr2,
      sd_source := (sd_source d)\<lparr>so_sourceFile := Some sane, so_cutPathIndex := fl_cutPathIndex entry,
                        so_sourceFunction := f, so_sourceLine := line_of entry line\<rparr>\<rparr>"
  have r: "read_src_line fs file line f d = (Inr (), ?d1)"
    using True by (simp add: read_src_line_def found n [symmetric] fl_def [symmetric] fl1_def [symmetric]
        fr2_def [symmetric] fields fl(2))
  have w2: "same_world d ?d1" using w by (simp add: same_world_def fr2_def)
  have i1: "src_inv fs ?d1" using inv ok2 fresh2 by (simp add: src_inv_def)
  show ?thesis by (rule that [of ?d1]) (use r w2 i1 True in simp_all)
qed

lemma getFunctionName_step:
  assumes "cachedSymSize t = 0" and "addr \<noteq> 0"
  obtains t1 off where "getFunctionName addr t = (Inr (map_option sym_name (find (sym_covers addr) (symPtrArray t)), off), t1)"
    and "symPtrArray t1 = symPtrArray t" and "cachedSymSize t1 = 0"
proof -
  obtain off where f: "fst (getFunctionName addr t) = Inr (map_option sym_name (find (sym_covers addr) (symPtrArray t)), off)"
    using assms by (cases "find (sym_covers addr) (symPtrArray t)") (simp_all add: fst_getFunctionName lookup_no_cache)
  show ?thesis
  proof (rule that)
    show "getFunctionName addr t = (Inr (map_option sym_name (find (sym_covers addr) (symPtrArray t)), off), snd (getFunctionName addr t))"
      unfolding f [symmetric] by simp
  qed (use assms(1) in simp_all)
qed

lemma getSrcLines_step:
  assumes inv: "src_inv fs d" and sec: "getSectionByAddress (sd_sectionLst d) addr = Some sp" and nz: "addr \<noteq> 0"
  obtains d1 where
    "getSrcLines fs addr d =
       ((case source_of fs (sd_pType d) (sd_fileReader d) (symPtrArray (sd_symtab d)) addr sp of
           Inl UB \<Rightarrow> Inl UB | Inl (Rc e) \<Rightarrow> Inl (Rc DQERR_ERR) | Inr s \<Rightarrow> Inr ()), d1)"
    and "src_inv fs d1" and "same_world d d1" and "sd_instruction d1 = sd_instruction d"
    and "\<And>s. source_of fs (sd_pType d) (sd_fileReader d) (symPtrArray (sd_symtab d)) addr sp = Inr s \<Longrightarrow> sd_source d1 = s"
proof -
  let ?d = "d\<lparr>sd_source := no_source\<rparr>"
  have inv0: "src_inv fs ?d" and sec0: "getSectionByAddress (sd_sectionLst ?d) addr = Some sp"
    using inv sec by (simp_all add: src_inv_def)
  obtain d1 where near: "findNearestLine addr ?d =
       ((case elem_at (sec_fName sp) (code_index sp addr) of
           Inl e \<Rightarrow> Inl e
         | Inr file \<Rightarrow>
             (case elem_at (sec_line sp) (code_index sp addr) of Inl e \<Rightarrow> Inl e | Inr line \<Rightarrow> Inr (file, sint line))), d1)"
    and inv1: "src_inv fs d1" and w1: "same_world ?d d1" and d1: "sd_source d1 = sd_source ?d"
    "sd_fileReader d1 = sd_fileReader ?d" "sd_symtab d1 = sd_symtab ?d" "sd_instruction d1 = sd_instruction ?d"
    using findNearestLine_step [OF inv0 sec0 nz] .
  have w1': "same_world d d1" using w1 by (simp add: same_world_def)
  have UB: "elem_at xs i = Inl e \<Longrightarrow> e = UB" for xs :: "'z list" and i e
    by (simp add: elem_at_def split: if_splits)
  show ?thesis
  proof (cases "elem_at (sec_fName sp) (code_index sp addr)")
    case (Inl e)
    then show ?thesis
      using UB [OF Inl] by (intro that [of d1]) (use near inv1 w1' d1 in \<open>simp_all add: getSrcLines_def source_of_def\<close>)
  next
    case f: (Inr fname)
    show ?thesis
    proof (cases "elem_at (sec_line sp) (code_index sp addr)")
      case (Inl e)
      then show ?thesis
        using UB [OF Inl] by (intro that [of d1]) (use near inv1 w1' d1 f in \<open>simp_all add: getSrcLines_def source_of_def\<close>)
    next
      case l: (Inr line)
      show ?thesis
      proof (cases fname)
        case None
        then show ?thesis
          by (intro that [of d1]) (use near inv1 w1' d1 f l in \<open>simp_all add: getSrcLines_def source_of_def\<close>)
      next
        case name: (Some name)
        let ?sane = "sanePath (sd_pType d) name"
        have c0: "cachedSymSize (sd_symtab d) = 0" using inv by (simp add: src_inv_def)
        obtain t1 off where g: "getFunctionName addr (sd_symtab d) =
            (Inr (map_option sym_name (find (sym_covers addr) (symPtrArray (sd_symtab d))), off), t1)"
          and t1: "symPtrArray t1 = symPtrArray (sd_symtab d)" "cachedSymSize t1 = 0"
          using getFunctionName_step [OF c0 nz] .
        let ?d2 = "d1\<lparr>sd_source := (sd_source d1)\<lparr>so_sourceLineNum := word_of_int (sint line)\<rparr>, sd_symtab := t1\<rparr>"
        have inv2: "src_inv fs ?d2" using inv1 t1 by (simp add: src_inv_def)
        have w2: "same_world d ?d2" using w1' t1 d1 by (simp add: same_world_def)
        have fr2: "sd_fileReader ?d2 = sd_fileReader d" "sd_pType ?d2 = sd_pType d"
          using d1 w1' by (simp_all add: same_world_def)
        obtain d3 where r: "read_src_line fs name (sint line) (map_option sym_name (find (sym_covers addr) (symPtrArray (sd_symtab d)))) ?d2
              = ((if path_fits name ?sane then Inr () else Inl UB), d3)"
          and inv3: "src_inv fs d3" and w3: "same_world ?d2 d3" and i3: "sd_instruction d3 = sd_instruction ?d2"
          and s3: "path_fits name ?sane \<Longrightarrow> sd_source d3 =
             (sd_source ?d2)\<lparr>so_sourceFile := Some ?sane, so_cutPathIndex := fl_cutPathIndex (file_entry fs ?sane (sd_fileReader d)),
               so_sourceFunction := map_option sym_name (find (sym_covers addr) (symPtrArray (sd_symtab d))),
               so_sourceLine := line_of (file_entry fs ?sane (sd_fileReader d)) (sint line)\<rparr>"
          using read_src_line_step [OF inv2, of ?sane name "file_entry fs ?sane (sd_fileReader d)"] fr2 by metis
        have e: "getSrcLines fs addr d = ((if path_fits name ?sane then Inr () else Inl UB), d3)"
          using r by (simp add: getSrcLines_def near f l name d1 g)
        show ?thesis
          by (rule that [of d3])
            (use e inv3 same_world_trans [OF w2 w3] i3 s3 d1 f l name in
              \<open>auto simp: source_of_def Let_def no_source_def split: if_splits\<close>)
      qed
    qed
  qed
qed

lemma getInstructionInfo_step:
  assumes inv: "src_inv fs d" and sec: "getSectionByAddress (sd_sectionLst d) addr = Some sp"
  obtains d1 r where
    "Disassembler_getInstructionInfo addr d = (r, d1)"
    and "(case r of Inl UB \<Rightarrow> Inl UB | Inl (Rc e) \<Rightarrow> Inl (Rc DQERR_ERR) | Inr _ \<Rightarrow> Inr (sd_instruction d1))
           = instruction_of addr (sd_sectionLst d) (symPtrArray (sd_symtab d))"
    and "src_inv fs d1" and "same_world d d1" and "sd_fileReader d1 = sd_fileReader d"
proof -
  have ne: "sd_sectionLst d \<noteq> []" using sec by auto
  have c0: "cachedSymSize (sd_symtab d) = 0" using inv by (simp add: src_inv_def)
  have UB: "elem_at xs i = Inl e \<Longrightarrow> e = UB" for xs :: "'z list" and i e
    by (simp add: elem_at_def split: if_splits)
  obtain r d1 where rd: "Disassembler_getInstructionInfo addr d = (r, d1)" by fastforce
  obtain q t1 where l: "lookupSymbolByAddress addr (sd_symtab d) = (q, t1)" by fastforce
  have t1: "symPtrArray t1 = symPtrArray (sd_symtab d)" "cachedSymSize t1 = 0"
    using lookup_keeps_table [of addr "sd_symtab d"] l c0 by simp_all
  have keep: "sd_sectionLst d1 = sd_sectionLst d \<and> symPtrArray (sd_symtab d1) = symPtrArray (sd_symtab d) \<and>
      cachedSymSize (sd_symtab d1) = 0 \<and> sd_pType d1 = sd_pType d \<and> sd_fileReader d1 = sd_fileReader d \<and>
      sd_cachedAddr d1 = sd_cachedAddr d \<and> sd_cachedSecPtr d1 = sd_cachedSecPtr d \<and> sd_cachedIndex d1 = sd_cachedIndex d"
    using rd c0 t1 ne sec
    by (auto simp: Disassembler_getInstructionInfo_def Let_def l split: sum.splits stop.splits prod.splits)
  have val: "(case r of Inl UB \<Rightarrow> Inl UB | Inl (Rc e) \<Rightarrow> Inl (Rc DQERR_ERR) | Inr _ \<Rightarrow> Inr (sd_instruction d1))
           = instruction_of addr (sd_sectionLst d) (symPtrArray (sd_symtab d))"
  proof (cases "Disassembler_getInstruction (sd_sectionLst d) addr")
    case (Inl e)
    then show ?thesis
      using rd ne sec by (cases e) (auto simp: Disassembler_getInstructionInfo_def instruction_of_def)
  next
    case g: (Inr p)
    obtain inst sz where p: "p = (inst, sz)" by (cases p)
    show ?thesis
    proof (cases "elem_at (sec_diss sp) (code_index sp addr)")
      case (Inl e)
      then show ?thesis
        using rd ne sec g p UB [OF Inl] by (auto simp: Disassembler_getInstructionInfo_def instruction_of_def)
    next
      case t: (Inr tx)
      have q: "q = (if addr = 0 then Inl (Rc DQERR_ERR) else Inr (find (sym_covers addr) (symPtrArray (sd_symtab d))))"
        using lookup_no_cache [OF c0, of addr] l by simp
      show ?thesis
        using rd ne sec g p t l q
        by (cases "find (sym_covers addr) (symPtrArray (sd_symtab d))")
          (auto simp: Disassembler_getInstructionInfo_def instruction_of_def Let_def split: if_splits)
    qed
  qed
  show ?thesis
    by (rule that [OF rd val]) (use keep inv in \<open>simp_all add: src_inv_def same_world_def\<close>)
qed

lemma setCachedInfo_none: "sec_cachedInfo sp = None \<Longrightarrow> setCachedInfo addr ci sp = Inr sp"
  and getCachedInfo_none: "sec_cachedInfo sp = None \<Longrightarrow> getCachedInfo addr sp = Inr None"
  by (simp_all add: setCachedInfo_def getCachedInfo_def)

lemma disassemble_step:
  assumes inv: "src_inv fs d"
  obtains d1 r where
    "disassemble fs addr d = (r, d1)"
    and "(case r of Inl e \<Rightarrow> Inl e | Inr _ \<Rightarrow> Inr (sd_instruction d1, sd_source d1)) =
           (case shown_at fs (sd_pType d) (sd_fileReader d) (symPtrArray (sd_symtab d)) (sd_sectionLst d) addr of
              Inl UB \<Rightarrow> Inl UB | Inl (Rc e) \<Rightarrow> Inl (Rc DQERR_ERR) | Inr v \<Rightarrow> Inr v)"
    and "src_inv fs d1" and "same_world d d1"
proof (cases "getSectionByAddress (sd_sectionLst d) addr")
  case None
  then have "disassemble fs addr d = (Inl (Rc DQERR_ERR), d)" by (simp add: disassemble_def)
  then show ?thesis by (rule that) (use inv None in \<open>simp_all add: shown_at_def instruction_of_def\<close>)
next
  case sec: (Some sp)
  have ne: "sd_sectionLst d \<noteq> []" using sec by auto
  have nc: "sec_cachedInfo sp = None" using inv section_in_list [OF sec] by (simp add: src_inv_def)
  obtain d1 r where gi: "Disassembler_getInstructionInfo addr d = (r, d1)"
    and v: "(case r of Inl UB \<Rightarrow> Inl UB | Inl (Rc e) \<Rightarrow> Inl (Rc DQERR_ERR) | Inr _ \<Rightarrow> Inr (sd_instruction d1))
           = instruction_of addr (sd_sectionLst d) (symPtrArray (sd_symtab d))"
    and inv1: "src_inv fs d1" and w1: "same_world d d1" and fr1: "sd_fileReader d1 = sd_fileReader d"
    using getInstructionInfo_step [OF inv sec] .
  note start = disassemble_def ne sec getCachedInfo_none [OF nc] gi
  show ?thesis
  proof (cases r)
    case (Inl e)
    show ?thesis
    proof (rule that)
      show "disassemble fs addr d = ((case e of UB \<Rightarrow> Inl UB | Rc _ \<Rightarrow> Inl (Rc DQERR_ERR)), d1)"
        by (simp add: start Inl split: stop.split)
    qed (use v inv1 w1 in \<open>simp_all add: Inl shown_at_def v [symmetric] split: stop.split\<close>)
  next
    case (Inr u)
    have i: "instruction_of addr (sd_sectionLst d) (symPtrArray (sd_symtab d)) = Inr (sd_instruction d1)"
      using v Inr by simp
    then have nz: "addr \<noteq> 0"
      using sec by (auto simp: instruction_of_def split: sum.splits prod.splits stop.splits if_splits)
    have sec1: "getSectionByAddress (sd_sectionLst d1) addr = Some sp" using sec w1 by (simp add: same_world_def)
    obtain d2 where gs: "getSrcLines fs addr d1 =
       ((case source_of fs (sd_pType d1) (sd_fileReader d1) (symPtrArray (sd_symtab d1)) addr sp of
           Inl UB \<Rightarrow> Inl UB | Inl (Rc e) \<Rightarrow> Inl (Rc DQERR_ERR) | Inr s \<Rightarrow> Inr ()), d2)"
      and inv2: "src_inv fs d2" and w2: "same_world d1 d2" and i2: "sd_instruction d2 = sd_instruction d1"
      and so: "\<And>s. source_of fs (sd_pType d1) (sd_fileReader d1) (symPtrArray (sd_symtab d1)) addr sp = Inr s \<Longrightarrow> sd_source d2 = s"
      using getSrcLines_step [OF inv1 sec1 nz] by blast
    have p: "sd_pType d1 = sd_pType d" "symPtrArray (sd_symtab d1) = symPtrArray (sd_symtab d)"
      using w1 by (simp_all add: same_world_def)
    have put: "d2\<lparr>sd_sectionLst := put_section addr sp (sd_sectionLst d2)\<rparr> = d2"
      using put_section_same sec w2 w1 by (simp add: same_world_def)
    have w3: "same_world d d2" by (rule same_world_trans [OF w1 w2])
    let ?so = "source_of fs (sd_pType d) (sd_fileReader d) (symPtrArray (sd_symtab d)) addr sp"
    show ?thesis
    proof (rule that)
      show "disassemble fs addr d =
          ((case ?so of Inl UB \<Rightarrow> Inl UB | Inl (Rc e) \<Rightarrow> Inl (Rc DQERR_ERR) | Inr s \<Rightarrow> Inr ()), d2)"
        using gs by (cases ?so) (simp_all add: start Inr p fr1 Let_def setCachedInfo_none [OF nc] put split: stop.split)
    qed (use inv2 w3 so i2 in \<open>simp_all add: shown_at_def i sec p fr1 split: sum.split stop.split\<close>)
  qed
qed

definition disassembles :: "(string \<Rightarrow> string option) \<Rightarrow> ADDRESS list \<Rightarrow> SrcDisassembler \<Rightarrow> SrcDisassembler" where
  "disassembles fs as d = fold (\<lambda>a d. snd (disassemble fs a d)) as d"

lemma disassembles_keep:
  "src_inv fs d \<Longrightarrow> src_inv fs (disassembles fs as d) \<and> same_world d (disassembles fs as d)"
proof (induction as arbitrary: d)
  case (Cons a as)
  obtain d1 r where s: "disassemble fs a d = (r, d1)" "src_inv fs d1" "same_world d d1"
    using disassemble_step [OF Cons.prems] by metis
  then show ?case
    using Cons.IH [OF s(2)] same_world_trans [OF s(3)] by (simp add: disassembles_def)
qed (simp add: disassembles_def)

lemma disassemble_after:
  assumes "\<forall>sp \<in> set secs. sec_cachedInfo sp = None"
  obtains d1 r where
    "disassemble fs addr (disassembles fs as (SrcDisassembler_new (Symtab_new syms) secs)) = (r, d1)"
    and "(case r of Inl e \<Rightarrow> Inl e | Inr _ \<Rightarrow> Inr (sd_instruction d1, sd_source d1)) =
       (case shown_at fs PATH_TO_UNIX fileReader_new (fixupFunctionSizes (qsort symCompareFunc syms)) secs addr of
          Inl UB \<Rightarrow> Inl UB | Inl (Rc e) \<Rightarrow> Inl (Rc DQERR_ERR) | Inr v \<Rightarrow> Inr v)"
proof -
  let ?new = "SrcDisassembler_new (Symtab_new syms) secs"
  let ?d = "disassembles fs as ?new"
  have k: "src_inv fs ?d" "same_world ?new ?d"
    using disassembles_keep [OF src_inv_new [OF assms, of fs syms], of as] by simp_all
  have v: "shown_at fs (sd_pType ?d) (sd_fileReader ?d) (symPtrArray (sd_symtab ?d)) (sd_sectionLst ?d) addr
      = shown_at fs PATH_TO_UNIX fileReader_new (fixupFunctionSizes (qsort symCompareFunc syms)) secs addr"
  proof -
    have "sd_pType ?new = PATH_TO_UNIX" "sd_fileReader ?new = fileReader_new" "sd_sectionLst ?new = secs"
      "symPtrArray (sd_symtab ?new) = fixupFunctionSizes (qsort symCompareFunc syms)"
      by (simp_all add: SrcDisassembler_new_def Symtab_new_def)
    then show ?thesis using shown_at_world [OF k(2)] by (simp only:)
  qed
  show ?thesis
    by (rule disassemble_step [OF k(1), of addr], rule that) (simp_all only: v)
qed

text \<open>
  C16. What the disassembler shows does not depend on its past: after any addresses, it gives for
  an address the instruction and the source line that the sections, the sorted symbols and the files
  determine (its caches and its list of files change nothing), and fails where these give nothing.\<close>

theorem disassemble_forgets:
  assumes "\<forall>sp \<in> set secs. sec_cachedInfo sp = None"
  shows "(case disassemble fs addr (disassembles fs as (SrcDisassembler_new (Symtab_new syms) secs)) of
            (Inl e, d) \<Rightarrow> Inl e | (Inr _, d) \<Rightarrow> Inr (sd_instruction d, sd_source d)) =
         (case shown_at fs PATH_TO_UNIX fileReader_new (fixupFunctionSizes (qsort symCompareFunc syms)) secs addr of
            Inl UB \<Rightarrow> Inl UB | Inl (Rc e) \<Rightarrow> Inl (Rc DQERR_ERR) | Inr v \<Rightarrow> Inr v)"
  by (rule disassemble_after [OF assms, of fs addr as syms]) (simp split: sum.split)

section \<open>The line of the file\<close>

lemma entry_of_text:
  assumes "fs path = Some (full_lines ls @ rest)" and "\<forall>(l, e) \<in> set ls. line_text l \<and> e \<in> eols" and "line_text rest"
    and "1 \<le> n" and "n \<le> int (length (all_lines ls rest))"
  shows "line_of (file_entry fs path fileReader_new) n = Some (all_lines ls rest ! nat (n - 1))"
  using assms(1,4,5) lines_of_text [OF assms(2,3)]
  by (simp add: line_of_def file_entry_def open_source_def fileReader_new_def)

text \<open>
  C14. The source line shown is the line of the file: if the section names a file and a line for the
  address, the text of the file under its sane path consists of lines ended by LF or CR LF and perhaps
  a last one, and the address can be disassembled, then the path, the number and that line are shown,
  whatever was disassembled before.\<close>

theorem source_line_is_shown:
  assumes nc: "\<forall>sp \<in> set secs. sec_cachedInfo sp = None"
    and sec: "getSectionByAddress secs addr = Some sp" and i: "code_index sp addr = int i"
    and name: "i < length (sec_fName sp)" "sec_fName sp ! i = Some name" "length name < 2048"
    and line: "i < length (sec_line sp)" "sec_line sp ! i = n" "1 \<le> sint n" "sint n \<le> int (length (all_lines ls rest))"
    and content: "fs (sanePath PATH_TO_UNIX name) = Some (full_lines ls @ rest)"
      "\<forall>(l, e) \<in> set ls. line_text l \<and> e \<in> eols" "line_text rest"
    and ok: "disassemble fs addr (disassembles fs as (SrcDisassembler_new (Symtab_new syms) secs)) = (Inr u, d)"
  shows "so_sourceFile (sd_source d) = Some (sanePath PATH_TO_UNIX name) \<and> so_sourceLineNum (sd_source d) = n \<and>
    so_sourceLine (sd_source d) = Some (all_lines ls rest ! nat (sint n - 1))"
proof -
  let ?arr = "fixupFunctionSizes (qsort symCompareFunc syms)"
  let ?path = "sanePath PATH_TO_UNIX name"
  have sh: "shown_at fs PATH_TO_UNIX fileReader_new ?arr secs addr = Inr (sd_instruction d, sd_source d)"
    by (rule disassemble_after [OF nc, of fs addr as syms]) (auto simp: ok split: sum.splits stop.splits)
  have fits: "path_fits name ?path"
    using name(3) sanePath_length [of PATH_TO_UNIX name] by (simp add: path_fits_def)
  have "source_of fs PATH_TO_UNIX fileReader_new ?arr addr sp = Inr (sd_source d)"
    using sh sec by (auto simp: shown_at_def split: sum.splits)
  moreover obtain so where "sd_source d = so" by blast
  ultimately show ?thesis
    using name line fits entry_of_text [where fs = fs, OF content line(3,4)]
    by (auto simp: source_of_def i elem_at_def Let_def)
qed

section \<open>An example\<close>

definition demo_lines :: LineSection where
  "demo_lines =
     \<lparr>startAddr = 0x100, endAddr = 0x103, vmaOffset = 0, code = [1, 1],
      sec_fName = [Some ''./app/../main.c'', Some ''./app/../main.c''], sec_line = [1, 2],
      sec_diss = [Some ''nop'', Some ''nop''], sec_cachedInfo = None\<rparr>"

definition demo_fs :: "string \<Rightarrow> string option" where
  "demo_fs path = (if path = ''main.c'' then Some (full_lines [(''int x;'', [CR, LF])] @ ''int y;'') else None)"

lemma demo_shown:
  "fst (disassemble demo_fs 0x102 (disassembles demo_fs [0x100] (SrcDisassembler_new (Symtab_new demo_syms) [demo_lines]))) = Inr ()"
  by code_simp

theorem disassemble_forgets_witness:
  "(case disassemble demo_fs 0x102 (disassembles demo_fs [0x100] (SrcDisassembler_new (Symtab_new demo_syms) [demo_lines])) of
            (Inl e, d) \<Rightarrow> Inl e | (Inr _, d) \<Rightarrow> Inr (sd_instruction d, sd_source d)) =
   (case shown_at demo_fs PATH_TO_UNIX fileReader_new (fixupFunctionSizes (qsort symCompareFunc demo_syms)) [demo_lines] 0x102 of
            Inl UB \<Rightarrow> Inl UB | Inl (Rc e) \<Rightarrow> Inl (Rc DQERR_ERR) | Inr v \<Rightarrow> Inr v)"
  by (rule disassemble_forgets) (simp add: demo_lines_def)

theorem source_line_is_shown_witness:
  "so_sourceLine (sd_source (snd (disassemble demo_fs 0x102
       (disassembles demo_fs [0x100] (SrcDisassembler_new (Symtab_new demo_syms) [demo_lines]))))) = Some ''int y;''"
proof -
  let ?d = "disassembles demo_fs [0x100] (SrcDisassembler_new (Symtab_new demo_syms) [demo_lines])"
  have r: "disassemble demo_fs 0x102 ?d = (Inr (), snd (disassemble demo_fs 0x102 ?d))"
    using demo_shown by (metis prod.collapse)
  have path: "sanePath PATH_TO_UNIX ''./app/../main.c'' = ''main.c''" by code_simp
  have ix: "getSectionByAddress [demo_lines] 0x102 = Some demo_lines" "code_index demo_lines 0x102 = int 1"
    by code_simp+
  have "1 < length (sec_fName demo_lines)" "sec_fName demo_lines ! 1 = Some ''./app/../main.c''"
    "1 < length (sec_line demo_lines)" "sec_line demo_lines ! 1 = 2" "sec_cachedInfo demo_lines = None"
    by (simp_all add: demo_lines_def)
  then show ?thesis
    using source_line_is_shown [where secs = "[demo_lines]" and fs = demo_fs and ls = "[(''int x;'', [CR, LF])]"
        and rest = "''int y;''", OF _ ix(1) ix(2) _ _ _ _ _ _ _ _ _ _ r]
    by (simp add: path demo_fs_def all_lines_def line_text_def eols_def)
qed

end
