(* ===== verification/Source_Text.thy ===== *)
theory Source_Text
  imports Src_Lines
begin

text \<open>
  How an instruction and its source are shown: \<^verbatim>\<open>Instruction::addressToText\<close>, \<^verbatim>\<open>instructionToText\<close>,
  \<^verbatim>\<open>addressLabelToString\<close>, \<^verbatim>\<open>Source::stripPath\<close> and the strings of \<^verbatim>\<open>class Source\<close> (src/dqr.cpp). \<^verbatim>\<open>snprintf\<close>
  writes at most the characters that fit and returns how many there were. The warnings about odd
  characters of a file name are left out.
\<close>

section \<open>Hexadecimal text\<close>

definition hex_digit :: "nat \<Rightarrow> char" where
  "hex_digit d = (if d < 10 then char_of (0x30 + d) else char_of (0x61 + (d - 10)))"

fun hex_text :: "nat \<Rightarrow> string" where
  "hex_text n = (if n < 16 then [hex_digit n] else hex_text (n div 16) @ [hex_digit (n mod 16)])"

declare hex_text.simps [simp del]

definition pad_zero :: "nat \<Rightarrow> string \<Rightarrow> string" where
  "pad_zero w s = replicate (w - length s) (CHR ''0'') @ s"

section \<open>The text of an address\<close>

definition ADDRDISP_SEP :: u32 where "ADDRDISP_SEP = 2"

text \<open>The loop that widens the field; a shift by 64 or by less than nothing is undefined.\<close>

function widen :: "ADDRESS \<Rightarrow> nat \<Rightarrow> nat outcome" where
  "widen address w =
     (if w = 0 \<or> w > 16 then Inl UB
      else if address > drop_bit (64 - w * 4) (- 1) then widen address (w + 1)
      else Inr w)"
  by pat_completeness auto
termination by (relation "measure (\<lambda>(a, w). 17 - w)") auto

declare widen.simps [simp del]

text \<open>What \<^verbatim>\<open>snprintf\<close> leaves in a buffer of \<open>len\<close> characters, its end not counted.\<close>

definition snprintf_fit :: "nat \<Rightarrow> string \<Rightarrow> string" where
  "snprintf_fit len s = take (len - 1) s"

definition label_text :: "DisInstruction \<Rightarrow> string \<Rightarrow> string" where
  "label_text i label =
     (if di_addressLabelOffset i \<noteq> 0 then
        '' <'' @ label @ ''+'' @ hex_text (unat (word_of_int (di_addressLabelOffset i) :: u32)) @ ''>''
      else '' <'' @ label @ ''>'')"

text \<open>The text and the new width of the address fields.\<close>

definition addressToText :: "u32 \<Rightarrow> nat \<Rightarrow> nat \<Rightarrow> int \<Rightarrow> DisInstruction \<Rightarrow> (string \<times> nat) outcome" where
  "addressToText dispFlags addrPrintWidth len labelLevel i =
     (case (if dispFlags AND ADDRDISP_WIDTHAUTO \<noteq> 0 then widen (di_address i) addrPrintWidth
            else Inr addrPrintWidth) of
        Inl e \<Rightarrow> Inl e
      | Inr w \<Rightarrow>
          (let t = (if w > 8 \<and> dispFlags AND ADDRDISP_SEP \<noteq> 0 then
                      pad_zero (w - 8) (hex_text (unat (ucast (drop_bit 32 (di_address i)) :: u32))) @ ''.'' @
                      pad_zero 8 (hex_text (unat (ucast (di_address i) :: u32)))
                    else pad_zero w (hex_text (unat (di_address i)))) in
           case di_addressLabel i of
             Some label \<Rightarrow>
               if labelLevel \<ge> 1 then
                 (if length t > len then Inl UB
                  else Inr (snprintf_fit len t @ snprintf_fit (len - length t) (label_text i label), w))
               else Inr (snprintf_fit len t, w)
           | None \<Rightarrow> Inr (snprintf_fit len t, w)))"

definition addressToString :: "u32 \<Rightarrow> nat \<Rightarrow> int \<Rightarrow> DisInstruction \<Rightarrow> (string \<times> nat) outcome" where
  "addressToString dispFlags addrPrintWidth labelLevel i =
     addressToText dispFlags addrPrintWidth 128 labelLevel i"

text \<open>A missing text prints as the C library of the system has it.\<close>

definition instructionToText :: "nat \<Rightarrow> DisInstruction \<Rightarrow> string" where
  "instructionToText len i =
     (let txt1 = (case di_instructionText i of None \<Rightarrow> ''(null)'' | Some t \<Rightarrow> t) in
      snprintf_fit len
        (if di_instSize i = 32 then pad_zero 8 (hex_text (unat (di_instruction i))) @ ''    '' @ txt1
         else pad_zero 4 (hex_text (unat (di_instruction i))) @ ''        '' @ txt1))"

definition addressLabelToString :: "DisInstruction \<Rightarrow> string" where
  "addressLabelToString i = (case di_addressLabel i of None \<Rightarrow> [] | Some l \<Rightarrow> l)"

section \<open>The strings of a source\<close>

fun strip_loop :: "string \<Rightarrow> string \<Rightarrow> string \<Rightarrow> string" where
  "strip_loop [] s sourceFile = s"
| "strip_loop (p # path) [] sourceFile = sourceFile"
| "strip_loop (p # path) (c # s) sourceFile =
     (if lower p = lower c then strip_loop path s sourceFile
      else if p = CHR ''/'' then (if c \<noteq> CHR 0x5C then sourceFile else strip_loop path s sourceFile)
      else if p = CHR 0x5C then (if c \<noteq> CHR ''/'' then sourceFile else strip_loop path s sourceFile)
      else sourceFile)"

definition stripPath :: "string option \<Rightarrow> Source \<Rightarrow> string option" where
  "stripPath path so =
     (case path of
        None \<Rightarrow> so_sourceFile so
      | Some p \<Rightarrow> map_option (\<lambda>s. strip_loop p s s) (so_sourceFile so))"

definition sourceFileToString_path :: "string \<Rightarrow> Source \<Rightarrow> string" where
  "sourceFileToString_path path so =
     (case so_sourceFile so of None \<Rightarrow> [] | Some _ \<Rightarrow> the (stripPath (Some path) so))"

definition sourceFileToString :: "Source \<Rightarrow> string" where
  "sourceFileToString so = (case so_sourceFile so of None \<Rightarrow> [] | Some s \<Rightarrow> s)"

definition sourceLineToString :: "Source \<Rightarrow> string" where
  "sourceLineToString so = (case so_sourceLine so of None \<Rightarrow> [] | Some s \<Rightarrow> s)"

definition sourceFunctionToString :: "Source \<Rightarrow> string" where
  "sourceFunctionToString so = (case so_sourceFunction so of None \<Rightarrow> [] | Some s \<Rightarrow> s)"

section \<open>An address reads back\<close>

lemma hex_digit_code: "d < 16 \<Longrightarrow> (of_char (hex_digit d) :: nat) = (if d < 10 then 0x30 + d else 0x57 + d)"
  by (simp add: hex_digit_def)

lemma digit_val_hex: "d < 16 \<Longrightarrow> digit_val (hex_digit d) = d"
  by (simp add: digit_val_def lower_def Let_def hex_digit_code)

lemma hex_digit_not_dot: "d < 16 \<Longrightarrow> hex_digit d \<noteq> CHR ''.''"
proof
  assume "d < 16" and "hex_digit d = CHR ''.''"
  then have "(of_char (CHR ''.'') :: nat) = (if d < 10 then 0x30 + d else 0x57 + d)"
    using hex_digit_code [of d] by simp
  then show False by (simp split: if_splits)
qed

lemma number_of_snoc: "number_of b (xs @ [c]) = number_of b xs * b + digit_val c"
  by (simp add: number_of_def)

lemma number_of_append: "number_of b (xs @ ys) = number_of b xs * b ^ length ys + number_of b ys"
proof (induction ys rule: rev_induct)
  case (snoc y ys)
  have "number_of b (xs @ ys @ [y]) = number_of b ((xs @ ys) @ [y])" by simp
  also have "\<dots> = number_of b xs * b ^ length (ys @ [y]) + number_of b (ys @ [y])"
    unfolding number_of_snoc snoc by (simp add: algebra_simps)
  finally show ?case by simp
qed (simp add: number_of_def)

lemma number_of_single: "number_of b [c] = digit_val c"
  by (simp add: number_of_def)

lemma number_of_hex: "number_of 16 (hex_text n) = n"
proof (induction n rule: hex_text.induct)
  case (1 n)
  show ?case
  proof (cases "n < 16")
    case True
    then show ?thesis by (subst hex_text.simps) (simp add: number_of_single digit_val_hex)
  next
    case False
    have "digit_val (hex_digit (n mod 16)) = n mod 16" by (rule digit_val_hex) simp
    then show ?thesis using 1 False by (subst hex_text.simps) (simp add: number_of_snoc)
  qed
qed

lemma hex_no_dot: "CHR ''.'' \<notin> set (hex_text n)"
proof (induction n rule: hex_text.induct)
  case (1 n)
  have "hex_digit (n mod 16) \<noteq> CHR ''.''" by (rule hex_digit_not_dot) simp
  moreover have "n < 16 \<Longrightarrow> hex_digit n \<noteq> CHR ''.''" by (rule hex_digit_not_dot)
  ultimately show ?case using 1 by (subst hex_text.simps) auto
qed

lemma hex_text_fits: "n < 16 ^ w \<Longrightarrow> 0 < w \<Longrightarrow> length (hex_text n) \<le> w"
proof (induction n arbitrary: w rule: hex_text.induct)
  case (1 n)
  show ?case
  proof (cases "n < 16")
    case True
    then show ?thesis using 1(3) by (subst hex_text.simps) simp
  next
    case False
    then obtain v where v: "w = Suc v" "0 < v" using 1(2,3) by (cases w; cases "w - 1") auto
    have "n div 16 < 16 ^ v" using 1(2) by (simp add: v less_mult_imp_div_less mult.commute)
    then have "length (hex_text (n div 16)) \<le> v" using 1(1) False v(2) by simp
    then show ?thesis using False by (subst hex_text.simps) (simp add: v)
  qed
qed

lemma pad_zero_props:
  assumes "n < 16 ^ w" and "0 < w"
  shows "length (pad_zero w (hex_text n)) = w" and "number_of 16 (pad_zero w (hex_text n)) = n"
    and "filter (\<lambda>c. c \<noteq> CHR ''.'') (pad_zero w (hex_text n)) = pad_zero w (hex_text n)"
proof -
  have z: "number_of 16 (replicate k (CHR ''0'')) = 0" for k
    by (induction k) (simp_all add: number_of_def digit_val_def lower_def)
  show "length (pad_zero w (hex_text n)) = w" using hex_text_fits [OF assms] by (simp add: pad_zero_def)
  show "number_of 16 (pad_zero w (hex_text n)) = n"
    by (simp add: pad_zero_def number_of_append z number_of_hex)
  show "filter (\<lambda>c. c \<noteq> CHR ''.'') (pad_zero w (hex_text n)) = pad_zero w (hex_text n)"
    using hex_no_dot [of n] by (intro filter_True) (auto simp: pad_zero_def)
qed

lemma take_bit_mask_dqr: "take_bit n (mask n :: nat) = mask n"
  by (rule bit_eqI) (auto simp: bit_take_bit_iff bit_mask_iff)

lemma all_ones_shifted: "w \<le> 16 \<Longrightarrow> unat (drop_bit (64 - w * 4) (- 1 :: u64)) = 16 ^ w - 1"
proof -
  assume w: "w \<le> 16"
  have "unat (drop_bit (64 - w * 4) (- 1 :: u64)) = drop_bit (64 - w * 4) (mask 64)"
    by (simp only: unsigned_drop_bit_eq unsigned_minus_1_eq_mask) (simp add: take_bit_mask_dqr)
  also have "\<dots> = mask (w * 4)"
    using w by (intro bit_eqI) (auto simp: bit_drop_bit_eq bit_mask_iff)
  also have "\<dots> = 2 ^ (w * 4) - 1" by (rule mask_eq_exp_minus_1)
  also have "(2 :: nat) ^ (w * 4) = 16 ^ w" by (simp add: mult.commute [of w] power_mult)
  finally show ?thesis .
qed

lemma widen_result:
  "1 \<le> w \<Longrightarrow> w \<le> 16 \<Longrightarrow> \<exists>v. widen a w = Inr v \<and> w \<le> v \<and> v \<le> 16 \<and> unat a < 16 ^ v"
proof (induction a w rule: widen.induct)
  case (1 a w)
  have ones: "unat (drop_bit (64 - w * 4) (- 1 :: u64)) = 16 ^ w - 1" using 1 by (intro all_ones_shifted)
  show ?case
  proof (cases "a > drop_bit (64 - w * 4) (- 1)")
    case True
    have "w \<noteq> 16"
    proof
      assume w16: "w = 16"
      have "(18446744073709551615 :: nat) < unat a"
        using True ones by (simp add: w16 word_less_nat_alt)
      then show False using unsigned_less [where ?'a = nat, of a] by simp
    qed
    then have "\<exists>v. widen a (w + 1) = Inr v \<and> w + 1 \<le> v \<and> v \<le> 16 \<and> unat a < 16 ^ v"
      using 1 True by (intro 1(1)) auto
    then show ?thesis using True 1 \<open>w \<noteq> 16\<close> by (subst widen.simps) auto
  next
    case False
    then have "unat a \<le> 16 ^ w - 1" using ones by (simp add: not_less word_le_nat_alt)
    then have "unat a < 16 ^ w" using zero_less_power [of "16 :: nat" w] by linarith
    then show ?thesis using False 1 by (subst widen.simps) auto
  qed
qed



end
