(* ===== verification/Spec2Isabelle.thy ===== *)
theory Spec2Isabelle
  imports Slice_Socket Slice_Errors Trace_Path Next_Returns Itc_Text Swt_Text Ca_Start Ca_Ring Settings_Text Source_Text
begin

text \<open>
  A verification development for the SiFive trace decoder, the library \<^verbatim>\<open>dqr\<close> that turns a Nexus
  (IEEE-ISTO 5001) instruction trace of RISC-V cores into the instructions the cores executed.

  The program. Trace bytes come from a file or a socket. \<^verbatim>\<open>class SliceFileParser\<close> (src/dqr.cpp) cuts them
  into messages of slices (six data bits and two end marks) and parses each into a
  \<^verbatim>\<open>class NexusMessage\<close>, counting it in \<^verbatim>\<open>class Analytics\<close>. \<^verbatim>\<open>class Trace\<close> (src/trace.cpp) takes the counts of
  a message into \<^verbatim>\<open>class Count\<close> (instruction count, branch history, return stack \<^verbatim>\<open>AddrStack\<close>, all per
  core), follows the program with \<^verbatim>\<open>nextAddr\<close> until the counts are used up, and then retires the message
  with \<^verbatim>\<open>processTraceMessage\<close>, which brings address, full address and time up to date. \<^verbatim>\<open>nextAddr\<close> fetches
  instructions through \<^verbatim>\<open>ElfReader\<close> or \<^verbatim>\<open>KMem\<close> and decodes them with \<^verbatim>\<open>class Disassembler\<close>.

  Theories, in the order of the program:

  \<^item> \<open>Dqr_Prelude\<close>, \<open>Dqr_Types\<close>: machine integers, outcomes, enumerations (include/dqr.hpp). A
    C \<^verbatim>\<open>int\<close> is an \<open>int\<close>, wrapped by \<open>s32\<close> where it can overflow; unsigned types are words. An operation
    that can fail returns a sum; \<open>Inl UB\<close> is undefined behaviour (shifts that are too wide, null
    pointers, array bounds), \<open>Inl (Rc e)\<close> an error code.
  \<^item> \<open>Nexus\<close>: the message record and its accessors. The in-circuit messages with and without
    synchronisation have the same fields and share them in the record. The other message bodies share
    storage in C++ and are apart in the record; no property relies on fields of another kind.
  \<^item> \<open>Addr_Stack\<close>, \<open>Counts\<close>: the return stack and the counters; the locale of a bounded stack is
    interpreted on \<^verbatim>\<open>AddrStack\<close>. Shown: nested calls return in order, the invariant of the counters is
    kept by every message but one with a branch count of \<open>2 ^ 31\<close> or more, which jams the counters of its
    core; a history of up to 31 branches is consumed as it was packed, and a wider one is misread.
  \<^item> \<open>Slice_Fields\<close>, \<open>Slice_Messages\<close>, \<open>Slice_Encoding\<close>, \<open>Slice_Roundtrip\<close>: the two field readers, the fifteen
    message parsers and what they promise. Shown: both field readers read exactly the data bits of
    the slice stream, and every parser reads back what an encoder wrote, in variable fields of up to 64
    bits, or up to 69 when the top ones are padding.
  \<^item> \<open>Slice_Reader\<close>, \<open>Slice_Socket\<close>, \<open>Slice_Errors\<close>: bytes from a file or through the ring buffer of a socket,
    framing, \<^verbatim>\<open>readNextTraceMsg\<close>. Shown: whole trace files are read message by message, framing does not
    depend on the pieces in which bytes arrive, the ring buffer is a queue, and what happens after a
    message that cannot be parsed. Reading that may wait forever returns an option; that it returns
    is part of the theorems.
  \<^item> \<open>Analytics\<close>: the statistics of messages and instructions.
  \<^item> \<open>Disasm\<close>: the control-flow decoder of both architectures. Shown: encoding and decoding are
    inverse for jumps and branches, sizes and offsets are in range for every instruction word, and
    the registers of compressed branches are wrong.
  \<^item> \<open>Code_Memory\<close>: sections, the ELF reader, the lookup cache of the disassembler and the page cache of
    kernel memory. Shown: a program laid out in a section is fetched back; the three fetch routines
    agree, but for address 0 as long as the lookup cache is empty; the page cache cannot be observed.
  \<^item> \<open>Trace_State\<close>, \<open>Trace_Next\<close>, \<open>Trace_Msg\<close>: the state of \<^verbatim>\<open>class Trace\<close>, times and addresses, the three
    functions that compute a next address, and the retirement of messages. Shown: times and virtual
    addresses are reconstructed exactly.
  \<^item> \<open>Trace_Path\<close>: a machine with a return stack that runs the program, as a step relation. Shown: from
    the message a trace encoder would emit for a run, iterating \<^verbatim>\<open>nextAddr\<close> visits exactly the addresses
    of that run and uses up the counts, for history traces and for branch traces. Both are
    interpretations of one locale, whose laws are one step of the simulation.
  \<^item> \<open>Trace_Safe\<close>, \<open>Trace_Restart\<close>: no message makes \<^verbatim>\<open>processTraceMessage\<close> run into undefined behaviour, shown
    with a rule for each combinator of steps; what the five kinds of message with synchronisation, a switch
    of processes and \<^verbatim>\<open>resetTrace\<close> do to a core.

  \<^item> \<open>Itc_Print\<close>, \<open>Itc_Text\<close>: \<^verbatim>\<open>class ITCPrint\<close>, the texts the traced program prints; its records of times are
    linked by pointers, so the model has a store. Shown: printing never overwrites unread text, a
    line comes out as it was written, waiting messages come out in order with their times, and from
    three on a freed record stays in the list of times.
  \<^item> \<open>Next_Instruction\<close>, \<open>Next_Returns\<close>: the state machine \<^verbatim>\<open>Trace::NextInstruction\<close>, state by state, on a
    session of trace, reader, connection and print queue. A call is a loop that may read for ever, so
    it returns an option. Shown: it returns whenever reading does, because a message takes at most three
    rounds; and with tolerated errors a bad message makes it loop for ever.
  \<^item> \<open>Ca_Keeps\<close>, \<open>Ca_Sync\<close>, \<open>Ca_Start\<close>: the program trace together with a cycle accurate trace. A rule for each
    combinator shows that no part of \<^verbatim>\<open>NextInstruction\<close> but running an instruction touches the cycle
    accurate trace. Shown: each instruction takes one event and carries its cycle, synchronisation
    from the start of the cycle accurate trace leaves both traces at the same instruction, and a lost message during synchronisation breaks this. The
    theorems are for instruction type traces of at most 4473924 records, whose cycle fits the 32 bit
    counter.

  \<^item> \<open>Ca_Trace\<close>, \<open>Ca_Read\<close>, \<open>Ca_Ring\<close>: \<^verbatim>\<open>class CATrace\<close>, cycle accurate traces. Shown: an instruction trace is read
    event by event to its end, the ring of vector events is a queue that packing does not disturb, a
    trace cannot be rewound from its end, and after packing new events are looked for in the wrong place.
  \<^item> \<open>Swt_Stream\<close>, \<open>Swt_Text\<close>: the serial wire trace server (src/swt.cpp): its stream of Nexus messages, the
    builder of such streams and the queues of its clients. Shown: the stream gets exactly the data
    messages that \<^verbatim>\<open>class SliceFileParser\<close> reads from the same bytes, what the builder writes is got back,
    and a zero byte between messages, which the decoder skips, costs the stream a message.
  \<^item> \<open>Properties\<close>, \<open>Settings\<close>, \<open>Settings_Text\<close>: \<^verbatim>\<open>class propertiesParser\<close> on its buffer, which it cuts up by writing
    zeros, and \<^verbatim>\<open>class TraceSettings\<close> with a setter for each property. Shown: a file is applied property by
    property, and an indented comment cuts the name on the next line.

  \<^item> \<open>Symtab\<close>, \<open>File_Reader\<close>, \<open>File_Lines\<close>, \<open>Src_Info\<close>, \<open>Src_Lines\<close>, \<open>Source_Text\<close>: symbols, source files and what is
    shown of an instruction (\<^verbatim>\<open>class Symtab\<close>, \<^verbatim>\<open>class fileReader\<close>, \<^verbatim>\<open>Disassembler::disassemble\<close>, \<^verbatim>\<open>class Source\<close>). Shown:
    an address is named by the symbol before it, except from the last symbol on; paths are resolved, a source file gives its lines,
    what is shown does not depend on what was asked before and is the line of the file, and the text
    of an address reads back.

  Parameters. What \<^verbatim>\<open>recv\<close> delivers is a function of the state of the network. The record \<open>Env\<close> holds what
  \<^verbatim>\<open>class Trace\<close> reaches outside the modelled classes: what \<^verbatim>\<open>objdump\<close> returns for a page of kernel memory,
  whether an event converter can be created, what the performance converter answers, and the content
  of uninitialised local variables; the record \<open>Extern\<close> adds what \<^verbatim>\<open>sprintf\<close> writes and which source lines
  \<^verbatim>\<open>objdump\<close> knows. Calls that only write converted traces are collected as events.

  Not modelled. The simulator and VCD readers; the converters for CTF, events and performance data, which write
  files; running \<^verbatim>\<open>objdump\<close> and reading its output, which gives the sections and symbols; the sockets, threads and main
  program of the SWT server; the command line.
\<close>

end
